(* ===== verification/LT_Prelude.thy ===== *)
theory LT_Prelude
  imports Main "HOL-Library.Word" "HOL-Library.Sublist" "HOL-Library.Multiset"
begin

text \<open>
  Shared ground of the development: the collections of rewrite rules the component theories
  fill, the type of results of code that may raise, and the lemmas on lists, maps and words that
  several components use.
\<close>

section \<open>Collections\<close>

named_theorems js_simps \<open>evaluation of the JavaScript string operations\<close>
named_theorems queue_simps \<open>observation of a queue after an operation\<close>
named_theorems guid_simps \<open>observation of a message identifier after an operation\<close>

section \<open>Results of code that may raise\<close>

text \<open>
  A JavaScript property access on \<open>null\<close> or \<open>undefined\<close> raises a \<open>TypeError\<close>. Code that may do so
  returns a sum, with the exception on the left.
\<close>

datatype js_error = TypeError

type_synonym 'a js_result = "js_error + 'a"

fun js_bind :: "'a js_result \<Rightarrow> ('a \<Rightarrow> 'b js_result) \<Rightarrow> 'b js_result" where
  "js_bind (Inl e) f = Inl e"
| "js_bind (Inr x) f = f x"

section \<open>The last elements of a list\<close>

text \<open>\<open>keep_last n xs\<close> is what is left of \<open>xs\<close> when its oldest elements are dropped until at most
  \<open>n\<close> remain.\<close>

definition keep_last :: "nat \<Rightarrow> 'a list \<Rightarrow> 'a list" where
  "keep_last n xs = drop (length xs - n) xs"

lemma length_keep_last [simp]: "length (keep_last n xs) = min n (length xs)"
  by (simp add: keep_last_def)

lemma keep_last_short [simp]: "length xs \<le> n \<Longrightarrow> keep_last n xs = xs"
  by (simp add: keep_last_def)

lemma keep_last_idem [simp]: "keep_last n (keep_last n xs) = keep_last n xs"
  by (rule keep_last_short) simp

lemma suffix_keep_last: "suffix (keep_last n xs) xs"
  by (simp add: keep_last_def suffix_drop)

lemma keep_last_tl: "n < length xs \<Longrightarrow> keep_last n (tl xs) = keep_last n xs"
  by (cases xs) (auto simp: keep_last_def Suc_diff_le)

lemma keep_last_rev: "keep_last n xs = rev (take n (rev xs))"
  by (simp add: keep_last_def rev_take)

lemma keep_last_append: "keep_last n (keep_last n xs @ ys) = keep_last n (xs @ ys)"
  by (simp add: keep_last_rev)

section \<open>Subsequences and first matches\<close>

lemma subseq_append_right: "subseq xs ys \<Longrightarrow> subseq xs (ys @ zs)"
  by (rule subseq_order.trans [of _ ys]) auto

lemma suffix_imp_subseq': "suffix xs ys \<Longrightarrow> subseq xs ys"
  by (rule suffix_imp_subseq)

lemma prefix_take_iff: "length xs \<le> length ys \<and> take (length xs) ys = xs \<longleftrightarrow> prefix xs ys"
  by (auto simp: prefix_def) (metis append_take_drop_id)

lemma find_append: "find P (xs @ ys) = (case find P xs of None \<Rightarrow> find P ys | Some x \<Rightarrow> Some x)"
  by (induction xs) auto

section \<open>Finite runs of updates on maps\<close>

lemma map_upd_eq_iff: "(m(k \<mapsto> v)) k' = (if k' = k then Some v else m k')"
  by auto

lemma dom_map_del [simp]: "dom (m(k := None)) = dom m - {k}"
  by (auto simp: dom_def)

section \<open>Sequences of operations\<close>

text \<open>Running a list of operations of an object: the outputs, in order, and the final state. With
  operations that are atomic (each holds the object's lock), every interleaving of threads is such a
  list.\<close>

fun drive :: "('o \<Rightarrow> 'q \<Rightarrow> 'r list \<times> 'q) \<Rightarrow> 'o list \<Rightarrow> 'q \<Rightarrow> 'r list \<times> 'q" where
  "drive step [] q = ([], q)"
| "drive step (x # xs) q =
     (let (out, q1) = step x q; (outs, q2) = drive step xs q1 in (out @ outs, q2))"

lemma drive_invariant:
  assumes "\<And>x q. I q \<Longrightarrow> I (snd (step x q))" and "I q"
  shows "I (snd (drive step xs q))"
  using assms(2)
proof (induction xs arbitrary: q)
  case (Cons x xs)
  then show ?case using assms(1) [of q x] by (auto split: prod.splits) (metis snd_conv)
qed simp

end
