(* ===== verification/JS_Strings.thy ===== *)
theory JS_Strings
  imports LT_Prelude
begin

text \<open>
  The part of the JavaScript string library the documentation scripts call. A string is the list
  of its UTF-16 code units (natural numbers; a real string has units below 65536, and where a
  statement depends on that bound it says so). A literal is written \<open>js ''...''\<close>.
\<close>

type_synonym jsstr = "nat list"

definition js :: "string \<Rightarrow> jsstr" where
  "js s = map of_char s"

lemma js_Nil [simp]: "js [] = []"
  by (simp add: js_def)

lemma js_eq_Nil [simp]: "js s = [] \<longleftrightarrow> s = []"
  by (simp add: js_def)

lemma js_Cons: "js (c # s) = of_char c # js s"
  by (simp add: js_def)

lemma js_append: "js (s @ t) = js s @ js t"
  by (simp add: js_def)

lemma js_inj: "js s = js t \<longleftrightarrow> s = t"
  by (simp add: js_def inj_map_eq_map inj_def)

declare js_def [js_simps]

section \<open>Numbers as strings\<close>

text \<open>\<open>Number.prototype.toString\<close> for a non-negative integer and a radix from 2 to 16, digits
  below ten from \<open>0\<close>, digits above from \<open>a\<close>.\<close>

fun radix_digits :: "nat \<Rightarrow> nat \<Rightarrow> nat list" where
  "radix_digits b n = (if b < 2 \<or> n < b then [n] else radix_digits b (n div b) @ [n mod b])"

declare radix_digits.simps [simp del]

definition digit_char :: "nat \<Rightarrow> nat" where
  "digit_char d = (if d < 10 then 48 + d else 87 + d)"

definition toString :: "nat \<Rightarrow> nat \<Rightarrow> jsstr" where
  "toString b n = map digit_char (radix_digits b n)"

text \<open>String concatenation with an integer: decimal, with a sign.\<close>

definition num_str :: "int \<Rightarrow> jsstr" where
  "num_str i = (if i < 0 then js ''-'' @ toString 10 (nat (- i)) else toString 10 (nat i))"

lemma radix_digits_small: "n < b \<Longrightarrow> radix_digits b n = [n]"
  by (simp add: radix_digits.simps)

lemma radix_digits_two:
  assumes "2 \<le> b" "b \<le> n" "n < b * b"
  shows "radix_digits b n = [n div b, n mod b]"
proof -
  have "n div b < b" using assms by (simp add: less_mult_imp_div_less)
  then have "radix_digits b (n div b) = [n div b]" by (rule radix_digits_small)
  then show ?thesis using assms by (simp add: radix_digits.simps [of b n])
qed

lemma radix_digits_not_Nil [simp]: "radix_digits b n \<noteq> []"
  by (subst radix_digits.simps) simp

lemma radix_digits_bound: "2 \<le> b \<Longrightarrow> d \<in> set (radix_digits b n) \<Longrightarrow> d < b"
proof (induction b n rule: radix_digits.induct)
  case (1 b n)
  then show ?case
    by (cases "n < b") (auto simp: radix_digits.simps [of b n])
qed

text \<open>The value of a digit list, by which printing is seen to be injective.\<close>

definition radix_value :: "nat \<Rightarrow> nat list \<Rightarrow> nat" where
  "radix_value b ds = foldl (\<lambda>v d. v * b + d) 0 ds"

lemma radix_value_snoc: "radix_value b (ds @ [d]) = radix_value b ds * b + d"
  by (simp add: radix_value_def)

lemma radix_value_digits: "2 \<le> b \<Longrightarrow> radix_value b (radix_digits b n) = n"
proof (induction b n rule: radix_digits.induct)
  case (1 b n)
  then show ?case
    by (cases "n < b")
      (simp_all add: radix_digits.simps [of b n] radix_value_snoc radix_value_def)
qed

lemma digit_char_inj: "digit_char d = digit_char e \<longleftrightarrow> d = e"
  by (auto simp: digit_char_def)

lemma toString_inj: "2 \<le> b \<Longrightarrow> toString b n = toString b m \<longleftrightarrow> n = m"
proof
  assume b: "2 \<le> b" and "toString b n = toString b m"
  then have "radix_digits b n = radix_digits b m"
    by (simp add: toString_def inj_map_eq_map inj_def digit_char_inj)
  then show "n = m" using radix_value_digits [OF b] by metis
qed simp

lemma toString_not_Nil [simp]: "toString b n \<noteq> []"
  by (simp add: toString_def)

text \<open>Every character of a decimal number is one of \<open>0\<close> to \<open>9\<close>.\<close>

definition is_digit :: "nat \<Rightarrow> bool" where
  "is_digit c \<longleftrightarrow> 48 \<le> c \<and> c \<le> 57"

lemma toString_10_digits: "c \<in> set (toString 10 n) \<Longrightarrow> is_digit c"
  using radix_digits_bound [of 10] by (fastforce simp: toString_def digit_char_def is_digit_def)

lemma num_str_inj: "num_str i = num_str j \<longleftrightarrow> i = j"
proof -
  have minus: "js ''-'' @ toString 10 m \<noteq> toString 10 n" for m n
  proof
    assume eq: "js ''-'' @ toString 10 m = toString 10 n"
    have "45 \<in> set (js ''-'' @ toString 10 m)" by (simp add: js_def)
    then have "45 \<in> set (toString 10 n)" unfolding eq .
    then have "is_digit 45" by (rule toString_10_digits)
    then show False by (simp add: is_digit_def)
  qed
  show ?thesis
    using minus minus [symmetric] by (auto simp: num_str_def toString_inj)
qed

section \<open>Slices and searches\<close>

text \<open>\<open>substring\<close> clamps negative positions to the start of the string.\<close>

definition substring_from :: "int \<Rightarrow> jsstr \<Rightarrow> jsstr" where
  "substring_from i s = drop (nat i) s"

definition substring :: "int \<Rightarrow> int \<Rightarrow> jsstr \<Rightarrow> jsstr" where
  "substring i j s = drop (nat (min i j)) (take (nat (max i j)) s)"

definition starts_with :: "jsstr \<Rightarrow> jsstr \<Rightarrow> bool" where
  "starts_with p s \<longleftrightarrow> take (length p) s = p"

lemma starts_with_prefix: "starts_with p s \<longleftrightarrow> prefix p s"
  by (auto simp: starts_with_def prefix_def) (metis append_take_drop_id)

text \<open>\<open>indexOf\<close> and \<open>lastIndexOf\<close>; the latter for a single character, with -1 for no match.\<close>

fun indexOf :: "jsstr \<Rightarrow> jsstr \<Rightarrow> nat option" where
  "indexOf [] p = (if p = [] then Some 0 else None)"
| "indexOf (c # cs) p = (if starts_with p (c # cs) then Some 0 else map_option Suc (indexOf cs p))"

fun lastIndexOf :: "jsstr \<Rightarrow> nat \<Rightarrow> int" where
  "lastIndexOf [] c = -1"
| "lastIndexOf (x # xs) c =
     (let r = lastIndexOf xs c in if 0 \<le> r then r + 1 else if x = c then 0 else -1)"

fun split_at_char :: "nat \<Rightarrow> jsstr \<Rightarrow> jsstr list" where
  "split_at_char c [] = [[]]"
| "split_at_char c (x # xs) =
     (let r = split_at_char c xs in if x = c then [] # r else (x # hd r) # tl r)"

lemma indexOf_Some: "indexOf s p = Some i \<Longrightarrow> starts_with p (drop i s) \<and> i \<le> length s"
  by (induction s p arbitrary: i rule: indexOf.induct)
    (auto simp: starts_with_def split: if_splits)

lemma indexOf_first: "indexOf s p = Some i \<Longrightarrow> j < i \<Longrightarrow> \<not> starts_with p (drop j s)"
proof (induction s p arbitrary: i j rule: indexOf.induct)
  case (2 c cs p)
  then show ?case by (cases j) (auto split: if_splits)
qed (auto split: if_splits)

lemma indexOf_None: "indexOf s p = None \<Longrightarrow> \<not> starts_with p (drop j s)"
proof (induction s p arbitrary: j rule: indexOf.induct)
  case (1 p)
  then show ?case by (auto simp: starts_with_def split: if_splits)
next
  case (2 c cs p)
  then show ?case by (cases j) (auto split: if_splits)
qed

lemma indexOf_append_here:
  "(\<And>j. j < length a \<Longrightarrow> \<not> starts_with p (drop j (a @ p @ b))) \<Longrightarrow> indexOf (a @ p @ b) p = Some (length a)"
proof (induction a)
  case Nil
  have "starts_with p (p @ b)" by (simp add: starts_with_def)
  then show ?case by (cases "p @ b") auto
next
  case (Cons x a)
  have "\<not> starts_with p (x # a @ p @ b)" using Cons.prems [of 0] by simp
  moreover have "indexOf (a @ p @ b) p = Some (length a)"
    using Cons.prems [of "Suc j" for j] by (intro Cons.IH) simp
  ultimately show ?case by simp
qed

lemma lastIndexOf_ge: "-1 \<le> lastIndexOf s c"
  by (induction s) (auto simp: Let_def)

lemma lastIndexOf_none_iff: "lastIndexOf s c = -1 \<longleftrightarrow> c \<notin> set s"
proof (induction s)
  case (Cons x xs)
  then show ?case using lastIndexOf_ge [of xs c] by (auto simp: Let_def)
qed simp

lemma lastIndexOf_snoc: "c \<notin> set t \<Longrightarrow> lastIndexOf (s @ c # t) c = int (length s)"
proof (induction s)
  case Nil
  then have "lastIndexOf t c = -1" by (simp add: lastIndexOf_none_iff)
  then show ?case by simp
qed (simp add: Let_def)

lemma split_at_char_none: "c \<notin> set s \<Longrightarrow> split_at_char c s = [s]"
  by (induction s) (auto simp: Let_def)

lemma split_at_char_append: "c \<notin> set s \<Longrightarrow> split_at_char c (s @ c # t) = s # split_at_char c t"
  by (induction s) (auto simp: Let_def)

lemma split_at_char_not_Nil [simp]: "split_at_char c s \<noteq> []"
  by (cases s) (auto simp: Let_def)

section \<open>Spaces and letter case\<close>

text \<open>The three space-stripping replacements of the scripts, with the regular expressions
  \<^verbatim>\<open>/ +/g\<close>, \<^verbatim>\<open>/^ +/\<close> and \<^verbatim>\<open>/ +$/\<close>.\<close>

definition strip_all_spaces :: "jsstr \<Rightarrow> jsstr" where
  "strip_all_spaces s = filter (\<lambda>c. c \<noteq> 32) s"

definition strip_leading_spaces :: "jsstr \<Rightarrow> jsstr" where
  "strip_leading_spaces s = dropWhile (\<lambda>c. c = 32) s"

definition strip_trailing_spaces :: "jsstr \<Rightarrow> jsstr" where
  "strip_trailing_spaces s = rev (dropWhile (\<lambda>c. c = 32) (rev s))"

lemma strip_leading_empty_iff: "strip_leading_spaces s = [] \<longleftrightarrow> strip_all_spaces s = []"
  by (auto simp: strip_leading_spaces_def strip_all_spaces_def dropWhile_eq_Nil_conv
      filter_empty_conv)

lemma strip_leading_idem [simp]:
  "strip_leading_spaces (strip_leading_spaces s) = strip_leading_spaces s"
  by (simp add: strip_leading_spaces_def dropWhile_idem)

text \<open>
  \<open>toLowerCase\<close> on a string of ASCII characters maps the letters \<open>A\<close> to \<open>Z\<close>. Outside ASCII it is
  the Unicode case mapping of the engine (which looks at neighbouring characters and at surrogate
  pairs), a parameter \<open>U\<close> of every definition that needs it.
\<close>

definition ascii :: "jsstr \<Rightarrow> bool" where
  "ascii s \<longleftrightarrow> list_all (\<lambda>c. c < 128) s"

definition ascii_lower :: "nat \<Rightarrow> nat" where
  "ascii_lower c = (if 65 \<le> c \<and> c \<le> 90 then c + 32 else c)"

definition toLowerCase :: "(jsstr \<Rightarrow> jsstr) \<Rightarrow> jsstr \<Rightarrow> jsstr" where
  "toLowerCase U s = (if ascii s then map ascii_lower s else U s)"

lemma ascii_lower_idem [simp]: "ascii_lower (ascii_lower c) = ascii_lower c"
  by (simp add: ascii_lower_def)

lemma ascii_lower_ascii: "ascii s \<Longrightarrow> ascii (map ascii_lower s)"
  by (auto simp: ascii_def ascii_lower_def list_all_iff)

lemma toLowerCase_idem_ascii: "ascii s \<Longrightarrow> toLowerCase U (toLowerCase U s) = toLowerCase U s"
  by (simp add: toLowerCase_def ascii_lower_ascii comp_def)

section \<open>escape and unescape\<close>

text \<open>
  \<open>escape\<close> leaves letters, digits and \<^verbatim>\<open>@*_+-./\<close> as they are and writes every other code unit as
  \<^verbatim>\<open>%XX\<close> (below 256) or \<^verbatim>\<open>%uXXXX\<close>, in upper-case hexadecimal of fixed width. \<open>unescape\<close> reads both
  forms, in either case, and leaves a \<^verbatim>\<open>%\<close> that starts neither alone.
\<close>

definition escape_plain :: "nat \<Rightarrow> bool" where
  "escape_plain c \<longleftrightarrow> 65 \<le> c \<and> c \<le> 90 \<or> 97 \<le> c \<and> c \<le> 122 \<or> is_digit c \<or>
     c \<in> {64, 42, 95, 43, 45, 46, 47}"

definition hex_upper :: "nat \<Rightarrow> nat" where
  "hex_upper d = (if d < 10 then 48 + d else 55 + d)"

definition hex_pad :: "nat \<Rightarrow> nat \<Rightarrow> jsstr" where
  "hex_pad w c = map (\<lambda>k. hex_upper (c div 16 ^ k mod 16)) (rev [0..<w])"

definition escape_char :: "nat \<Rightarrow> jsstr" where
  "escape_char c =
     (if escape_plain c then [c] else if c < 256 then 37 # hex_pad 2 c else 37 # 117 # hex_pad 4 c)"

definition escape :: "jsstr \<Rightarrow> jsstr" where
  "escape s = concat (map escape_char s)"

definition is_hex :: "nat \<Rightarrow> bool" where
  "is_hex c \<longleftrightarrow> is_digit c \<or> 65 \<le> c \<and> c \<le> 70 \<or> 97 \<le> c \<and> c \<le> 102"

definition hex_val :: "nat \<Rightarrow> nat" where
  "hex_val c = (if is_digit c then c - 48 else if c \<le> 70 then c - 55 else c - 87)"

definition hex_num :: "jsstr \<Rightarrow> nat" where
  "hex_num s = foldl (\<lambda>v c. v * 16 + hex_val c) 0 s"

definition hex_prefix :: "nat \<Rightarrow> jsstr \<Rightarrow> bool" where
  "hex_prefix w s \<longleftrightarrow> w \<le> length s \<and> list_all is_hex (take w s)"

function unescape :: "jsstr \<Rightarrow> jsstr" where
  "unescape [] = []"
| "unescape (c # cs) =
     (if c = 37 \<and> take 1 cs = [117] \<and> hex_prefix 4 (drop 1 cs)
      then hex_num (take 4 (drop 1 cs)) # unescape (drop 5 cs)
      else if c = 37 \<and> hex_prefix 2 cs then hex_num (take 2 cs) # unescape (drop 2 cs)
      else c # unescape cs)"
  by pat_completeness auto
termination
  by (relation "measure length") auto

lemma is_hex_upper: "d < 16 \<Longrightarrow> is_hex (hex_upper d)"
  by (auto simp: is_hex_def hex_upper_def is_digit_def)

lemma hex_val_upper: "d < 16 \<Longrightarrow> hex_val (hex_upper d) = d"
  by (auto simp: hex_val_def hex_upper_def is_digit_def)

lemma hex_pad_2: "hex_pad 2 c = [hex_upper (c div 16 mod 16), hex_upper (c mod 16)]"
  by (simp add: hex_pad_def numeral_2_eq_2)

lemma hex_pad_4: "hex_pad 4 c = [hex_upper (c div 4096 mod 16), hex_upper (c div 256 mod 16),
    hex_upper (c div 16 mod 16), hex_upper (c mod 16)]"
proof -
  have "rev [0..<4] = [3, 2, 1, 0::nat]" by code_simp
  then show ?thesis by (simp add: hex_pad_def)
qed

lemma hex_join: "(n div 16) * 16 + n mod 16 = (n::nat)"
  by simp

lemma hex_num_pad_2: "c < 256 \<Longrightarrow> hex_num (hex_pad 2 c) = c"
  by (simp add: hex_pad_2 hex_num_def hex_val_upper)

lemma hex_num_pad_4: "c < 65536 \<Longrightarrow> hex_num (hex_pad 4 c) = c"
proof -
  assume "c < 65536"
  then have top: "c div 4096 mod 16 = c div 256 div 16"
    by (simp add: less_mult_imp_div_less flip: div_mult2_eq)
  have mid: "c div 256 = c div 16 div 16"
    by (simp flip: div_mult2_eq)
  have "hex_num (hex_pad 4 c) =
      ((c div 4096 mod 16 * 16 + c div 256 mod 16) * 16 + c div 16 mod 16) * 16 + c mod 16"
    unfolding hex_pad_4 hex_num_def by (simp add: hex_val_upper)
  also have "\<dots> = c"
    unfolding top hex_join unfolding mid hex_join ..
  finally show ?thesis .
qed

lemma not_u_hex: "hex_upper d \<noteq> 117" if "d < 16"
  using that by (auto simp: hex_upper_def)

lemma unescape_2:
  "is_hex a \<Longrightarrow> is_hex b \<Longrightarrow> a \<noteq> 117 \<Longrightarrow> unescape (37 # a # b # s) = hex_num [a, b] # unescape s"
  by (simp add: hex_prefix_def)

lemma unescape_4:
  "list_all is_hex [a, b, c, d] \<Longrightarrow>
   unescape (37 # 117 # a # b # c # d # s) = hex_num [a, b, c, d] # unescape s"
  by (simp add: hex_prefix_def)

lemma unescape_escape_char: "c < 65536 \<Longrightarrow> unescape (escape_char c @ s) = c # unescape s"
proof -
  assume c: "c < 65536"
  consider "escape_plain c" | "\<not> escape_plain c" "c < 256" | "\<not> escape_plain c" "256 \<le> c"
    by linarith
  then show ?thesis
  proof cases
    case 1
    then have "c \<noteq> 37" by (auto simp: escape_plain_def is_digit_def)
    with 1 show ?thesis by (simp add: escape_char_def)
  next
    case 2
    with hex_num_pad_2 [of c] show ?thesis
      by (simp add: escape_char_def hex_pad_2 unescape_2 is_hex_upper not_u_hex del: unescape.simps)
  next
    case 3
    with hex_num_pad_4 [OF c] show ?thesis
      by (simp add: escape_char_def hex_pad_4 unescape_4 is_hex_upper del: unescape.simps)
  qed
qed

lemma unescape_escape: "list_all (\<lambda>c. c < 65536) s \<Longrightarrow> unescape (escape s) = s"
  by (induction s) (auto simp: escape_def unescape_escape_char)

text \<open>No separator of a URL survives \<open>escape\<close>.\<close>

lemma escape_chars: "x \<in> set (escape s) \<Longrightarrow> escape_plain x \<or> x = 37"
proof -
  have up: "escape_plain (hex_upper (n mod 16))" for n
    by (simp add: escape_plain_def hex_upper_def is_digit_def; presburger)
  have u: "escape_plain 117" by (simp add: escape_plain_def)
  assume "x \<in> set (escape s)"
  then show ?thesis
    using up u by (auto simp: escape_def escape_char_def hex_pad_def split: if_splits)
qed

section \<open>Class lists\<close>

text \<open>\<open>classList.add\<close> and \<open>classList.remove\<close>: the classes of an element are an ordered set.\<close>

definition add_class :: "jsstr \<Rightarrow> jsstr list \<Rightarrow> jsstr list" where
  "add_class c cs = (if c \<in> set cs then cs else cs @ [c])"

definition remove_class :: "jsstr \<Rightarrow> jsstr list \<Rightarrow> jsstr list" where
  "remove_class c cs = filter (\<lambda>d. d \<noteq> c) cs"

lemma set_class_ops [simp]:
  "set (add_class c cs) = insert c (set cs)" "set (remove_class c cs) = set cs - {c}"
  by (auto simp: add_class_def remove_class_def)

end
