(* ===== verification/JS_Dom.thy ===== *)
theory JS_Dom
  imports JS_Strings
begin

text \<open>
  The document the scripts work on: a tree of elements, each with its node name, its attributes,
  its \<open>style.display\<close> and its \<open>innerHTML\<close> where a script assigned one. A node is addressed by its
  path from the root (the child indices); \<open>parentNode\<close>, \<open>firstChild\<close> and \<open>nextSibling\<close> are moves on
  reversed paths, whose head is the index of the node among its siblings. Markup that a script
  assigns through \<open>innerHTML\<close> is kept as the string it is; the scripts never walk into it.
\<close>

record elt =
  nodeName :: jsstr
  attrs :: "(jsstr \<times> jsstr) list"
  display :: jsstr
  innerHTML :: jsstr

datatype dom = Dom (node: elt) (childNodes: "dom list")

type_synonym path = "nat list"

section \<open>Attributes\<close>

text \<open>An attribute that was never set reads as the empty string through the reflecting properties
  \<open>id\<close> and \<open>className\<close>.\<close>

definition getAttribute :: "elt \<Rightarrow> jsstr \<Rightarrow> jsstr option" where
  "getAttribute e k = map_of (attrs e) k"

definition setAttribute :: "jsstr \<Rightarrow> jsstr \<Rightarrow> elt \<Rightarrow> elt" where
  "setAttribute k v e = e\<lparr>attrs := (k, v) # filter (\<lambda>a. fst a \<noteq> k) (attrs e)\<rparr>"

definition reflected :: "jsstr \<Rightarrow> elt \<Rightarrow> jsstr" where
  "reflected k e = (case getAttribute e k of None \<Rightarrow> [] | Some v \<Rightarrow> v)"

definition elt_id :: "elt \<Rightarrow> jsstr" where
  "elt_id = reflected (js ''id'')"

definition className :: "elt \<Rightarrow> jsstr" where
  "className = reflected (js ''class'')"

text \<open>In an HTML document the node name of a created element is the tag in upper case.\<close>

definition ascii_upper :: "nat \<Rightarrow> nat" where
  "ascii_upper c = (if 97 \<le> c \<and> c \<le> 122 then c - 32 else c)"

definition createElement :: "jsstr \<Rightarrow> elt" where
  "createElement tag =
     \<lparr>nodeName = map ascii_upper tag, attrs = [], display = [], innerHTML = []\<rparr>"

lemma getAttribute_create [simp]: "getAttribute (createElement tag) k = None"
  by (simp add: getAttribute_def createElement_def)

lemma map_of_filter_neq: "k' \<noteq> k \<Longrightarrow> map_of (filter (\<lambda>a. fst a \<noteq> k) xs) k' = map_of xs k'"
  by (induction xs) auto

lemma getAttribute_set [simp]:
  "getAttribute (setAttribute k v e) k' = (if k' = k then Some v else getAttribute e k')"
  by (simp add: getAttribute_def setAttribute_def map_of_filter_neq)

lemma set_attr_frame [simp]:
  "nodeName (setAttribute k v e) = nodeName e"
  "display (setAttribute k v e) = display e"
  "innerHTML (setAttribute k v e) = innerHTML e"
  by (simp_all add: setAttribute_def)

lemma create_fields [simp]:
  "nodeName (createElement tag) = map ascii_upper tag" "display (createElement tag) = []"
  by (simp_all add: createElement_def)

lemma getAttribute_upd [simp]:
  "getAttribute (e\<lparr>display := v\<rparr>) k = getAttribute e k"
  "getAttribute (e\<lparr>innerHTML := v\<rparr>) k = getAttribute e k"
  by (simp_all add: getAttribute_def)

lemma reflected_display [simp]:
  "elt_id (e\<lparr>display := v\<rparr>) = elt_id e" "className (e\<lparr>display := v\<rparr>) = className e"
  by (simp_all add: elt_id_def className_def reflected_def getAttribute_def)

section \<open>Paths\<close>

fun at :: "dom \<Rightarrow> path \<Rightarrow> dom option" where
  "at d [] = Some d"
| "at (Dom e cs) (i # p) = (if i < length cs then at (cs ! i) p else None)"

fun upd :: "path \<Rightarrow> (elt \<Rightarrow> elt) \<Rightarrow> dom \<Rightarrow> dom" where
  "upd [] f (Dom e cs) = Dom (f e) cs"
| "upd (i # p) f (Dom e cs) = (if i < length cs then Dom e (cs[i := upd p f (cs ! i)]) else Dom e cs)"

lemma at_append: "at d (p @ q) = (case at d p of None \<Rightarrow> None | Some d' \<Rightarrow> at d' q)"
  by (induction d p rule: at.induct) auto

lemma at_snoc:
  "at d (p @ [i]) =
     (case at d p of None \<Rightarrow> None
      | Some d' \<Rightarrow> if i < length (childNodes d') then Some (childNodes d' ! i) else None)"
  by (auto simp: at_append split: option.splits) (metis at.simps dom.collapse)+

lemma at_upd_same: "at d p = Some d' \<Longrightarrow> at (upd p f d) p = Some (upd [] f d')"
proof (induction p f d rule: upd.induct)
  case (2 i p f e cs)
  then show ?case by (auto split: if_splits)
qed auto

text \<open>An update at one node leaves every other node's own record alone.\<close>

lemma upd_node: "node (upd p f d) = (if p = [] then f (node d) else node d)"
  by (cases p; cases d) auto

lemma at_upd_node:
  "map_option node (at (upd p f d) q) =
     (if q = p then map_option f (map_option node (at d q)) else map_option node (at d q))"
proof (induction p f d arbitrary: q rule: upd.induct)
  case (1 f e cs)
  then show ?case by (cases q) auto
next
  case (2 i p f e cs)
  then show ?case by (cases q) (auto simp: nth_list_update)
qed

lemma at_upd_defined: "at (upd p f d) q = None \<longleftrightarrow> at d q = None"
proof (induction p f d arbitrary: q rule: upd.induct)
  case (1 f e cs)
  then show ?case by (cases q) auto
next
  case (2 i p f e cs)
  then show ?case by (cases q) (auto simp: nth_list_update)
qed

fun appendChild :: "path \<Rightarrow> dom \<Rightarrow> dom \<Rightarrow> dom" where
  "appendChild [] c (Dom e cs) = Dom e (cs @ [c])"
| "appendChild (i # p) c (Dom e cs) =
     (if i < length cs then Dom e (cs[i := appendChild p c (cs ! i)]) else Dom e cs)"

text \<open>Several children at once, for the loops that append one after the other.\<close>

fun append_children :: "path \<Rightarrow> dom list \<Rightarrow> dom \<Rightarrow> dom" where
  "append_children [] xs (Dom e cs) = Dom e (cs @ xs)"
| "append_children (i # p) xs (Dom e cs) =
     (if i < length cs then Dom e (cs[i := append_children p xs (cs ! i)]) else Dom e cs)"

lemma append_children_Nil: "append_children p [] d = d"
  by (induction p "[] :: dom list" d rule: append_children.induct) auto

lemma append_children_step: "append_children p xs (appendChild p c d) = append_children p (c # xs) d"
  by (induction p c d rule: appendChild.induct) auto

lemma at_append_children:
  "at d p = Some (Dom e cs) \<Longrightarrow> at (append_children p xs d) p = Some (Dom e (cs @ xs))"
proof (induction p xs d rule: append_children.induct)
  case (2 i p xs e' cs')
  then show ?case by (auto split: if_splits)
qed auto

section \<open>Looking an element up\<close>

text \<open>\<open>getElementById\<close> returns the first element in document order with the identifier; no element
  has the empty string as its identifier.\<close>

fun find_elt :: "(elt \<Rightarrow> bool) \<Rightarrow> dom \<Rightarrow> path option"
  and find_elts :: "(elt \<Rightarrow> bool) \<Rightarrow> dom list \<Rightarrow> nat \<Rightarrow> path option" where
  "find_elt P (Dom e cs) = (if P e then Some [] else find_elts P cs 0)"
| "find_elts P [] i = None"
| "find_elts P (c # cs) i =
     (case find_elt P c of Some p \<Rightarrow> Some (i # p) | None \<Rightarrow> find_elts P cs (Suc i))"

definition getElementById :: "dom \<Rightarrow> jsstr \<Rightarrow> path option" where
  "getElementById d x =
     (if x = [] then None else find_elt (\<lambda>e. getAttribute e (js ''id'') = Some x) d)"

fun elts :: "dom \<Rightarrow> elt list" where
  "elts (Dom e cs) = e # concat (map elts cs)"

lemma find_elt_at:
  "find_elt P d = Some p \<Longrightarrow> \<exists>d'. at d p = Some d' \<and> P (node d')"
  "find_elts P cs i = Some p \<Longrightarrow>
     \<exists>j q d'. p = (i + j) # q \<and> j < length cs \<and> at (cs ! j) q = Some d' \<and> P (node d')"
proof (induction P d and P cs i arbitrary: p and p rule: find_elt_find_elts.induct)
  case (1 P e cs)
  then show ?case by (fastforce split: if_splits)
next
  case (2 P i)
  then show ?case by simp
next
  case (3 P c cs i)
  show ?case
  proof (cases "find_elt P c")
    case None
    with "3.prems" have "find_elts P cs (Suc i) = Some p" by simp
    from "3.IH"(2) [OF None this] obtain j q d' where
      "p = (Suc i + j) # q" "j < length cs" "at (cs ! j) q = Some d'" "P (node d')" by blast
    then show ?thesis by (intro exI [of _ "Suc j"] exI [of _ q] exI [of _ d']) simp
  next
    case (Some r)
    with "3.prems" have p: "p = i # r" by simp
    from "3.IH"(1) [OF Some] obtain d' where "at c r = Some d'" "P (node d')" by blast
    with p show ?thesis by (intro exI [of _ 0] exI [of _ r] exI [of _ d']) simp
  qed
qed

lemma find_elt_None:
  "find_elt P d = None \<longleftrightarrow> (\<forall>e \<in> set (elts d). \<not> P e)"
  "find_elts P cs i = None \<longleftrightarrow> (\<forall>c \<in> set cs. \<forall>e \<in> set (elts c). \<not> P e)"
  by (induction P d and P cs i rule: find_elt_find_elts.induct) (auto split: option.splits)

lemma find_elts_append:
  "find_elts P (xs @ ys) i =
     (case find_elts P xs i of None \<Rightarrow> find_elts P ys (i + length xs) | Some p \<Rightarrow> Some p)"
  by (induction xs arbitrary: i) (auto split: option.splits)

lemma find_elts_update:
  assumes "\<And>c. c \<in> set cs \<Longrightarrow> find_elt P c = None" and "i < length cs"
  shows "find_elts P (cs[i := c]) j = map_option (\<lambda>q. (j + i) # q) (find_elt P c)"
  using assms
proof (induction cs arbitrary: i j)
  case (Cons b cs)
  have none: "find_elts P cs k = None" for k
    using Cons.prems(1) by (auto simp: find_elt_None)
  show ?case
    using Cons none by (cases i) (auto split: option.splits)
qed simp

text \<open>What a lookup that found nothing before finds after children were appended.\<close>

lemma find_elt_append_children:
  "find_elt P d = None \<Longrightarrow> at d p = Some (Dom e cs) \<Longrightarrow>
   find_elt P (append_children p xs d) = map_option (\<lambda>q. p @ q) (find_elts P xs (length cs))"
proof (induction p xs d rule: append_children.induct)
  case (1 xs e' cs')
  then show ?case
    by (auto simp: find_elts_append option.map_ident split: if_splits)
next
  case (2 i p xs e' cs')
  then have i: "i < length cs'" and at: "at (cs' ! i) p = Some (Dom e cs)"
    and P: "\<not> P e'" and none: "find_elts P cs' 0 = None"
    by (auto split: if_splits)
  have each: "c \<in> set cs' \<Longrightarrow> find_elt P c = None" for c
    using none by (simp add: find_elt_None)
  have "find_elt P (append_children p xs (cs' ! i)) =
        map_option (\<lambda>q. p @ q) (find_elts P xs (length cs))"
    using 2 i at each by simp
  then show ?case
    using i P find_elts_update [OF each i] by (simp add: option.map_comp comp_def)
qed

lemma getElementById_Some:
  "getElementById d x = Some p \<Longrightarrow>
   \<exists>d'. at d p = Some d' \<and> getAttribute (node d') (js ''id'') = Some x"
  unfolding getElementById_def by (auto split: if_splits dest: find_elt_at(1))

lemma getElementById_in_ids:
  "getElementById d x \<noteq> None \<Longrightarrow> Some x \<in> (\<lambda>e. getAttribute e (js ''id'')) ` set (elts d)"
proof -
  assume "getElementById d x \<noteq> None"
  then have "find_elt (\<lambda>e. getAttribute e (js ''id'') = Some x) d \<noteq> None"
    by (auto simp: getElementById_def split: if_splits)
  then show ?thesis unfolding find_elt_None(1) by force
qed

text \<open>Only finitely many identifiers are in use.\<close>

lemma finite_ids: "finite {x. getElementById d x \<noteq> None}"
proof (rule finite_subset)
  show "{x. getElementById d x \<noteq> None} \<subseteq> the ` (\<lambda>e. getAttribute e (js ''id'')) ` set (elts d)"
    using getElementById_in_ids by force
qed simp

section \<open>Moving between nodes\<close>

text \<open>Moves on reversed paths below a root \<open>T\<close>; \<open>None\<close> is \<open>null\<close>.\<close>

definition at_rev :: "dom \<Rightarrow> path \<Rightarrow> dom option" where
  "at_rev T r = at T (rev r)"

fun children_at :: "dom \<Rightarrow> path \<Rightarrow> dom list" where
  "children_at T r = (case at_rev T r of None \<Rightarrow> [] | Some d \<Rightarrow> childNodes d)"

definition firstChild :: "dom \<Rightarrow> path \<Rightarrow> path option" where
  "firstChild T r = (if children_at T r = [] then None else Some (0 # r))"

fun nextSibling :: "dom \<Rightarrow> path \<Rightarrow> path option" where
  "nextSibling T [] = None"
| "nextSibling T (i # r) = (if Suc i < length (children_at T r) then Some (Suc i # r) else None)"

fun parentNode :: "path \<Rightarrow> path option" where
  "parentNode [] = None"
| "parentNode (i # r) = Some r"

lemma at_rev_Nil [simp]: "at_rev T [] = Some T"
  by (simp add: at_rev_def)

lemma at_rev_Cons:
  "at_rev T (i # r) =
     (if i < length (children_at T r) then Some (children_at T r ! i) else None)"
  by (simp add: at_rev_def at_snoc split: option.splits)

end
