(* ===== verification/JS_SearchResults.thy ===== *)
theory JS_SearchResults
  imports JS_Dom
begin

text \<open>
  The results page of the documentation search, \<^verbatim>\<open>doc/html/search/search.js\<close>: \<open>convertToId\<close>,
  the class \<open>SearchResults\<close> (matching rows against the search word, walking the result rows,
  keyboard navigation) and \<open>createResults\<close>, which builds the page from the search data.
\<close>

section \<open>convertToId\<close>

text \<open>The character class \<^verbatim>\<open>[a-z0-9\u0080-\uFFFF]\<close>.\<close>

definition id_char :: "nat \<Rightarrow> bool" where
  "id_char c \<longleftrightarrow> 97 \<le> c \<and> c \<le> 122 \<or> 48 \<le> c \<and> c \<le> 57 \<or> 128 \<le> c"

definition convert_char :: "nat \<Rightarrow> jsstr" where
  "convert_char c =
     (if id_char c then [c]
      else if c < 16 then js ''_0'' @ toString 16 c
      else js ''_'' @ toString 16 c)"

fun convertToId :: "jsstr \<Rightarrow> jsstr" where
  "convertToId [] = []"
| "convertToId (c # search) = convert_char c @ convertToId search"

lemma convertToId_append: "convertToId (s @ t) = convertToId s @ convertToId t"
  by (induction s) auto

text \<open>A code unit is kept as it is or becomes an underscore and two hexadecimal digits.\<close>

lemma convert_char_cases:
  obtains (keep) "id_char c" "convert_char c = [c]" "c \<noteq> 95"
  | (esc) "c < 128" "convert_char c = [95, digit_char (c div 16), digit_char (c mod 16)]"
proof (cases "id_char c")
  case True
  then show ?thesis using keep by (auto simp: convert_char_def id_char_def)
next
  case False
  then have c: "c < 128" by (simp add: id_char_def)
  have "convert_char c = [95, digit_char (c div 16), digit_char (c mod 16)]"
  proof (cases "c < 16")
    case True
    then show ?thesis using False
      by (simp add: convert_char_def toString_def radix_digits_small js_def digit_char_def)
  next
    case False
    with c \<open>\<not> id_char c\<close> show ?thesis
      by (simp add: convert_char_def toString_def radix_digits_two js_def)
  qed
  with c esc show ?thesis by blast
qed

lemma convert_char_split:
  assumes "convert_char c @ s = convert_char d @ t"
  shows "c = d \<and> s = t"
proof (cases c rule: convert_char_cases)
  case keep
  with assms show ?thesis by (cases d rule: convert_char_cases) auto
next
  case esc
  note c = this
  show ?thesis
  proof (cases d rule: convert_char_cases)
    case keep
    with assms c show ?thesis by auto
  next
    case esc
    with assms c have "c div 16 = d div 16" "c mod 16 = d mod 16" "s = t"
      by (auto simp: digit_char_inj)
    then show ?thesis by (metis div_mult_mod_eq)
  qed
qed

lemma convert_char_not_Nil [simp]: "convert_char c \<noteq> []"
  by (cases c rule: convert_char_cases) auto

lemma prefix_convertToId: "prefix (convertToId s) (convertToId t) \<longleftrightarrow> prefix s t"
proof (induction s arbitrary: t)
  case (Cons c s)
  show ?case
  proof (cases t)
    case (Cons d t')
    have "prefix (convert_char c @ convertToId s) (convert_char d @ convertToId t') \<longleftrightarrow>
          c = d \<and> prefix (convertToId s) (convertToId t')"
    proof
      assume "prefix (convert_char c @ convertToId s) (convert_char d @ convertToId t')"
      then obtain z where "convert_char d @ convertToId t' = convert_char c @ (convertToId s @ z)"
        by (auto simp: prefix_def)
      from convert_char_split [OF this] show "c = d \<and> prefix (convertToId s) (convertToId t')"
        by auto
    qed simp
    with Cons Cons.IH show ?thesis by simp
  qed simp
qed simp

lemma convertToId_inj: "convertToId s = convertToId t \<longleftrightarrow> s = t"
  by (metis prefix_convertToId prefix_order.antisym prefix_order.order_refl)

section \<open>Matching the rows\<close>

text \<open>\<open>rowMatchName.replace(/^sr\d*_/, '')\<close>\<close>

definition strip_sr :: "jsstr \<Rightarrow> jsstr" where
  "strip_sr s =
     (if starts_with (js ''sr'') s then
        (case dropWhile is_digit (drop 2 s) of
           c # rest \<Rightarrow> if c = 95 then rest else s
         | [] \<Rightarrow> s)
      else s)"

definition is_div :: "(jsstr \<Rightarrow> jsstr) \<Rightarrow> elt \<Rightarrow> bool" where
  "is_div U e \<longleftrightarrow> toLowerCase U (nodeName e) = js ''div''"

text \<open>The body of the row loop: only elements of class \<open>SRResult\<close> are touched.\<close>

definition row_matches :: "(jsstr \<Rightarrow> jsstr) \<Rightarrow> jsstr \<Rightarrow> elt \<Rightarrow> bool" where
  "row_matches U search row =
     (let rowMatchName = strip_sr (toLowerCase U (elt_id row))
      in length search \<le> length rowMatchName \<and> take (length search) rowMatchName = search)"

definition search_row :: "(jsstr \<Rightarrow> jsstr) \<Rightarrow> jsstr \<Rightarrow> elt \<Rightarrow> nat \<Rightarrow> elt \<times> nat" where
  "search_row U search row matches =
     (if is_div U row \<and> className row = js ''SRResult'' then
        if row_matches U search row
        then (row\<lparr>display := js ''block''\<rparr>, matches + 1)
        else (row\<lparr>display := js ''none''\<rparr>, matches)
      else (row, matches))"

text \<open>The loop over \<open>document.getElementsByTagName("div")\<close> visits the document in tree order.\<close>

fun search_rows :: "(jsstr \<Rightarrow> jsstr) \<Rightarrow> jsstr \<Rightarrow> dom \<Rightarrow> nat \<Rightarrow> dom \<times> nat"
  and search_forest :: "(jsstr \<Rightarrow> jsstr) \<Rightarrow> jsstr \<Rightarrow> dom list \<Rightarrow> nat \<Rightarrow> dom list \<times> nat" where
  "search_rows U search (Dom e cs) matches =
     (let (e', m1) = search_row U search e matches;
          (cs', m2) = search_forest U search cs m1
      in (Dom e' cs', m2))"
| "search_forest U search [] matches = ([], matches)"
| "search_forest U search (c # cs) matches =
     (let (c', m1) = search_rows U search c matches;
          (cs', m2) = search_forest U search cs m1
      in (c' # cs', m2))"

text \<open>The state of a \<open>SearchResults\<close> object and of its document. Calls on objects of the parent
  frame are recorded in order.\<close>

datatype parent_call = Parent_CloseResultsWindow | Parent_focus_MSearchField

record results =
  document :: dom
  lastMatchCount :: nat
  lastKey :: nat
  repeatOn :: bool
  focused :: "path option"
  parent_calls :: "parent_call list"

definition new_SearchResults :: "dom \<Rightarrow> results" where
  "new_SearchResults d =
     \<lparr>document = d, lastMatchCount = 0, lastKey = 0, repeatOn = False, focused = None,
      parent_calls = []\<rparr>"

definition style_display :: "jsstr \<Rightarrow> jsstr \<Rightarrow> dom \<Rightarrow> dom js_result" where
  "style_display x v d =
     (case getElementById d x of
        None \<Rightarrow> Inl TypeError
      | Some p \<Rightarrow> Inr (upd p (\<lambda>e. e\<lparr>display := v\<rparr>) d))"

definition search_word :: "(jsstr \<Rightarrow> jsstr) \<Rightarrow> jsstr \<Rightarrow> jsstr \<Rightarrow> jsstr" where
  "search_word U location_search search =
     (let s0 = (if search = [] then unescape (substring_from 1 location_search) else search)
      in convertToId (toLowerCase U (strip_trailing_spaces (strip_leading_spaces s0))))"

definition SearchResults_Search ::
    "(jsstr \<Rightarrow> jsstr) \<Rightarrow> jsstr \<Rightarrow> jsstr \<Rightarrow> results \<Rightarrow> (bool \<times> results) js_result" where
  "SearchResults_Search U location_search search s =
     (let (d1, matches) = search_rows U (search_word U location_search search) (document s) 0
      in js_bind (style_display (js ''Searching'') (js ''none'') d1) (\<lambda>d2.
         js_bind (style_display (js ''NoMatches'')
                    (if matches = 0 then js ''block'' else js ''none'') d2) (\<lambda>d3.
         Inr (True, s\<lparr>document := d3, lastMatchCount := matches\<rparr>))))"

section \<open>What a search shows\<close>

text \<open>The rows the loop counts.\<close>

definition shown_row :: "(jsstr \<Rightarrow> jsstr) \<Rightarrow> jsstr \<Rightarrow> elt \<Rightarrow> bool" where
  "shown_row U w e \<longleftrightarrow> is_div U e \<and> className e = js ''SRResult'' \<and> row_matches U w e"

definition row_after :: "(jsstr \<Rightarrow> jsstr) \<Rightarrow> jsstr \<Rightarrow> elt \<Rightarrow> elt" where
  "row_after U w e = fst (search_row U w e 0)"

lemma search_row_split:
  "search_row U w e m = (row_after U w e, m + (if shown_row U w e then 1 else 0))"
  by (simp add: search_row_def row_after_def shown_row_def)

lemma row_after_frame [simp]:
  "getAttribute (row_after U w e) k = getAttribute e k"
  "nodeName (row_after U w e) = nodeName e"
  by (auto simp: row_after_def search_row_def)

lemma row_after_row:
  "is_div U e \<Longrightarrow> className e = js ''SRResult'' \<Longrightarrow>
   display (row_after U w e) = (if row_matches U w e then js ''block'' else js ''none'')"
  by (simp add: row_after_def search_row_def)

lemma row_after_other:
  "\<not> (is_div U e \<and> className e = js ''SRResult'') \<Longrightarrow> row_after U w e = e"
  by (auto simp: row_after_def search_row_def)

text \<open>The loop rewrites every node on its own and leaves the shape of the document alone.\<close>

fun map_dom :: "(elt \<Rightarrow> elt) \<Rightarrow> dom \<Rightarrow> dom" where
  "map_dom f (Dom e cs) = Dom (f e) (map (map_dom f) cs)"

lemma elts_map_dom: "elts (map_dom f d) = map f (elts d)"
  by (induction d) (simp add: map_concat comp_def cong: map_cong)

lemma at_map_dom: "at (map_dom f d) p = map_option (map_dom f) (at d p)"
  by (induction d p rule: at.induct) auto

lemma node_map_dom [simp]: "node (map_dom f d) = f (node d)"
  by (cases d) simp

lemma find_elt_map_dom:
  "(\<And>e. P (f e) = P e) \<Longrightarrow> find_elt P (map_dom f d) = find_elt P d"
  "(\<And>e. P (f e) = P e) \<Longrightarrow> find_elts P (map (map_dom f) cs) i = find_elts P cs i"
  by (induction P d and P cs i rule: find_elt_find_elts.induct) (auto split: option.splits)

lemma search_rows_eq:
  "search_rows U w d m = (map_dom (row_after U w) d, m + length (filter (shown_row U w) (elts d)))"
  "search_forest U w cs m =
     (map (map_dom (row_after U w)) cs,
      m + length (filter (shown_row U w) (concat (map elts cs))))"
  by (induction U w d m and U w cs m rule: search_rows_search_forest.induct)
    (auto simp: search_row_split)

lemma getElementById_row_after [simp]:
  "getElementById (map_dom (row_after U w) d) x = getElementById d x"
  by (simp add: getElementById_def find_elt_map_dom(1))

lemma find_elt_upd:
  "(\<And>e. P (f e) = P e) \<Longrightarrow> find_elt P (upd p f d) = find_elt P d"
proof (induction p f d rule: upd.induct)
  case (1 f e cs)
  then show ?case by simp
next
  case (2 i p f e cs)
  have "find_elts P (cs[i := upd p f (cs ! i)]) j = find_elts P cs j" if "i < length cs" for j
    using that 2
  proof (induction cs arbitrary: i j)
    case (Cons c cs)
    then show ?case by (cases i) (auto split: option.splits)
  qed simp
  then show ?case by simp
qed

lemma getElementById_display [simp]:
  "getElementById (upd p (\<lambda>e. e\<lparr>display := v\<rparr>) d) x = getElementById d x"
  by (simp add: getElementById_def find_elt_upd)

lemma at_display_other:
  "p \<noteq> q \<Longrightarrow> map_option node (at (upd p f d) q) = map_option node (at d q)"
  by (simp add: at_upd_node)

definition display_at :: "dom \<Rightarrow> path \<Rightarrow> jsstr" where
  "display_at d p = (case at d p of None \<Rightarrow> [] | Some x \<Rightarrow> display (node x))"

lemma display_at_upd:
  "display_at (upd p (\<lambda>e. e\<lparr>display := v\<rparr>) d) q =
     (if q = p \<and> at d p \<noteq> None then v else display_at d q)"
  using at_upd_node [of p "\<lambda>e. e\<lparr>display := v\<rparr>" d q]
  by (auto simp: display_at_def split: option.splits if_splits)

lemma Search_result:
  assumes "getElementById (document s) (js ''Searching'') = Some ps"
    and "getElementById (document s) (js ''NoMatches'') = Some pn"
    and "w = search_word U loc search"
    and "n = length (filter (shown_row U w) (elts (document s)))"
  shows "SearchResults_Search U loc search s =
    Inr (True, s\<lparr>document :=
        upd pn (\<lambda>e. e\<lparr>display := (if n = 0 then js ''block'' else js ''none'')\<rparr>)
          (upd ps (\<lambda>e. e\<lparr>display := js ''none''\<rparr>) (map_dom (row_after U w) (document s))),
      lastMatchCount := n\<rparr>)"
  using assms by (simp add: SearchResults_Search_def style_display_def search_rows_eq)

section \<open>Which rows match\<close>

text \<open>
  The identifiers of \<open>createResults\<close> are \<open>SR_\<close>, the converted lower-case name of the symbol, an
  underscore and a running number.
\<close>

definition entry_id :: "jsstr \<Rightarrow> nat \<Rightarrow> jsstr" where
  "entry_id name k = convertToId name @ js ''_'' @ toString 10 k"

lemma convert_prefix_ext:
  "prefix (convertToId w) (convertToId name @ 95 # ds) \<longleftrightarrow>
   prefix w name \<or> (\<exists>c e. w = name @ c # e \<and> prefix (convertToId (c # e)) (95 # ds))"
proof (induction w arbitrary: name)
  case (Cons c w)
  show ?case
  proof (cases name)
    case (Cons d name')
    have "prefix (convert_char c @ convertToId w) (convert_char d @ convertToId name' @ 95 # ds) \<longleftrightarrow>
          c = d \<and> prefix (convertToId w) (convertToId name' @ 95 # ds)"
    proof
      assume "prefix (convert_char c @ convertToId w)
                (convert_char d @ convertToId name' @ 95 # ds)"
      then obtain z where
        "convert_char d @ convertToId name' @ 95 # ds = convert_char c @ (convertToId w @ z)"
        by (auto simp: prefix_def)
      from convert_char_split [OF this]
      show "c = d \<and> prefix (convertToId w) (convertToId name' @ 95 # ds)" by auto
    qed simp
    with Cons Cons.IH show ?thesis by auto
  qed auto
qed simp

lemma convert_char_lower: "c < 128 \<Longrightarrow> list_all (\<lambda>x. x < 128 \<and> ascii_lower x = x) (convert_char c)"
  by (cases c rule: convert_char_cases) (auto simp: id_char_def ascii_lower_def digit_char_def)

lemma convertToId_lower:
  "ascii s \<Longrightarrow> list_all (\<lambda>x. x < 128 \<and> ascii_lower x = x) (convertToId s)"
  by (induction s) (auto simp: ascii_def convert_char_lower)

lemma digits_lower: "list_all (\<lambda>x. x < 128 \<and> ascii_lower x = x) (toString 10 k)"
  using toString_10_digits [of _ k] by (force simp: list_all_iff is_digit_def ascii_lower_def)

lemma row_name:
  assumes "ascii name"
  shows "strip_sr (toLowerCase U (js ''SR_'' @ entry_id name k)) = entry_id name k"
proof -
  have low: "list_all (\<lambda>x. x < 128 \<and> ascii_lower x = x) (entry_id name k)"
    using convertToId_lower [OF assms] digits_lower [of k]
    by (simp add: entry_id_def js_def ascii_lower_def)
  then have "ascii (js ''SR_'' @ entry_id name k)"
    by (auto simp: ascii_def js_def list_all_iff)
  moreover have "map ascii_lower (entry_id name k) = entry_id name k"
    using low by (simp add: list_all_iff map_idI)
  ultimately have "toLowerCase U (js ''SR_'' @ entry_id name k) = js ''sr_'' @ entry_id name k"
    by (simp add: toLowerCase_def js_def ascii_lower_def)
  then show ?thesis
    by (simp add: strip_sr_def starts_with_def js_def is_digit_def)
qed

section \<open>Properties\<close>

text \<open>A small results page for the examples: two rows, the two status lines and the place for the
  results.\<close>

definition example_row :: "jsstr \<Rightarrow> dom" where
  "example_row key =
     Dom (setAttribute (js ''class'') (js ''SRResult'')
           (setAttribute (js ''id'') (js ''SR_'' @ key) (createElement (js ''div'')))) []"

definition example_status :: "jsstr \<Rightarrow> dom" where
  "example_status x = Dom (setAttribute (js ''id'') x (createElement (js ''div''))) []"

definition example_search_page :: dom where
  "example_search_page =
     Dom (createElement (js ''body''))
       [example_status (js ''Searching''), example_status (js ''NoMatches''),
        example_row (js ''empty_19''), example_row (js ''emplace_18''), example_row (js ''foo_21'')]"

lemma row_matches_iff: "row_matches U w e \<longleftrightarrow> prefix w (strip_sr (toLowerCase U (elt_id e)))"
  by (simp add: row_matches_def Let_def prefix_take_iff)

lemma strip_row_id: "ascii n \<Longrightarrow> strip_sr (toLowerCase U (js ''SR_'' @ n)) = map ascii_lower n"
  by (simp add: toLowerCase_def ascii_def strip_sr_def js_def ascii_lower_def starts_with_def is_digit_def)

text \<open>
  C10. \<open>SearchResults.Search\<close> on a page with its two status lines returns \<open>true\<close>. The search word is the argument, or the
  query string without its question mark, without the spaces around it, in lower case and converted. A result row is shown
  exactly when its identifier, in lower case and without the \<open>sr_\<close> before it, starts with that word; the number of such rows is recorded, and the "No Matches" line is shown
  exactly when there is none.
\<close>

theorem Search_shows_matches:
  assumes "getElementById (document s) (js ''Searching'') = Some ps"
    and "getElementById (document s) (js ''NoMatches'') = Some pn"
    and "at (document s) p = Some x" and "is_div U (node x)"
    and "className (node x) = js ''SRResult''" and "p \<noteq> ps" and "p \<noteq> pn"
    and "typed = (if search = [] then unescape (substring_from 1 loc) else search)"
    and "w = convertToId (toLowerCase U (strip_trailing_spaces (strip_leading_spaces typed)))"
  shows "\<exists>s'. SearchResults_Search U loc search s = Inr (True, s') \<and>
    lastMatchCount s' =
      length (filter (\<lambda>e. toLowerCase U (nodeName e) = js ''div'' \<and> className e = js ''SRResult'' \<and>
        prefix w (strip_sr (toLowerCase U (elt_id e)))) (elts (document s))) \<and>
    display_at (document s') p = (if prefix w (strip_sr (toLowerCase U (elt_id (node x)))) then js ''block'' else js ''none'') \<and>
    (\<forall>n. ascii n \<and> elt_id (node x) = js ''SR_'' @ n \<longrightarrow>
      display_at (document s') p = (if prefix w (map ascii_lower n) then js ''block'' else js ''none'')) \<and>
    display_at (document s') pn = (if lastMatchCount s' = 0 then js ''block'' else js ''none'')"
proof -
  let ?d = "map_dom (row_after U w) (document s)"
  have w: "w = search_word U loc search" by (simp add: search_word_def assms(8,9))
  have row: "display_at ?d p = (if row_matches U w (node x) then js ''block'' else js ''none'')"
    using assms(3-5) by (simp add: display_at_def at_map_dom row_after_row)
  have "\<exists>y. at (document s) pn = Some y" using getElementById_Some [OF assms(2)] by blast
  then have pn: "at (upd ps f ?d) pn \<noteq> None" for f
    using at_upd_defined [of ps f ?d pn] by (auto simp: at_map_dom)
  have shown: "shown_row U w = (\<lambda>e. toLowerCase U (nodeName e) = js ''div'' \<and> className e = js ''SRResult'' \<and>
      prefix w (strip_sr (toLowerCase U (elt_id e))))"
    by (simp add: fun_eq_iff shown_row_def is_div_def row_matches_iff)
  show ?thesis
    using Search_result [OF assms(1,2) w refl] row pn assms(6,7)
    by (auto simp: display_at_upd row_matches_iff shown strip_row_id)
qed

theorem Search_shows_matches_witness:
  "\<exists>s'. SearchResults_Search id (js ''?EMP%20'') [] (new_SearchResults example_search_page) =
     Inr (True, s') \<and> lastMatchCount s' = 2 \<and> display_at (document s') [3] = js ''block''"
proof -
  let ?s = "new_SearchResults example_search_page" and ?w = "js ''emp''"
  have a: "getElementById (document ?s) (js ''Searching'') = Some [0]"
    and b: "getElementById (document ?s) (js ''NoMatches'') = Some [1]"
    and c: "at (document ?s) [3] = Some (example_row (js ''emplace_18''))"
    and d: "is_div id (node (example_row (js ''emplace_18'')))"
      "className (node (example_row (js ''emplace_18''))) = js ''SRResult''"
    and w: "?w = convertToId (toLowerCase id (strip_trailing_spaces (strip_leading_spaces (js ''EMP ''))))"
      "js ''EMP '' = (if [] = ([] :: jsstr) then unescape (substring_from 1 (js ''?EMP%20'')) else [])"
    and n: "length (filter (\<lambda>e. toLowerCase id (nodeName e) = js ''div'' \<and> className e = js ''SRResult'' \<and>
        prefix ?w (strip_sr (toLowerCase id (elt_id e)))) (elts (document ?s))) = 2"
      "prefix ?w (strip_sr (toLowerCase id (elt_id (node (example_row (js ''emplace_18''))))))"
    by code_simp+
  show ?thesis
    using Search_shows_matches [OF a b c d _ _ w(2,1)] n by auto
qed

text \<open>
  A row that \<open>createResults\<close> made for a symbol name of ASCII characters and a running number
  matches a search word exactly when the word is a prefix of the name, or continues the whole name
  with characters whose converted form is a prefix of the underscore and number that end the
  identifier.
\<close>

theorem row_matches_prefix:
  assumes "ascii name" and "elt_id e = js ''SR_'' @ entry_id name k"
  shows "row_matches U (convertToId w) e \<longleftrightarrow>
    prefix w name \<or> (\<exists>c x. w = name @ c # x \<and> prefix (convertToId (c # x)) (95 # toString 10 k))"
proof -
  have "row_matches U (convertToId w) e \<longleftrightarrow>
        prefix (convertToId w) (convertToId name @ 95 # toString 10 k)"
    unfolding row_matches_def Let_def prefix_take_iff assms(2) row_name [OF assms(1)]
    by (simp add: entry_id_def js_def)
  then show ?thesis by (simp only: convert_prefix_ext)
qed

theorem row_matches_prefix_witness:
  "row_matches id (convertToId (js ''emp'')) (node (example_row (js ''empty_19'')))"
proof -
  have "ascii (js ''empty'')"
    "elt_id (node (example_row (js ''empty_19''))) = js ''SR_'' @ entry_id (js ''empty'') 19"
    by code_simp+
  from row_matches_prefix [OF this, of id "js ''emp''"] show ?thesis
    by (simp add: js_def)
qed

text \<open>
  The number at the end of an identifier can be read as an escaped character: the search word
  \<open>foo!\<close> matches the row of the symbol \<open>foo\<close> when its number is 21, the hexadecimal code of the
  exclamation mark.
\<close>

theorem spurious_match:
  "row_matches id (convertToId (js ''foo!'')) (node (example_row (entry_id (js ''foo'') 21))) \<and>
   \<not> prefix (js ''foo!'') (js ''foo'')"
proof
  show "row_matches id (convertToId (js ''foo!'')) (node (example_row (entry_id (js ''foo'') 21)))"
    by code_simp
  show "\<not> prefix (js ''foo!'') (js ''foo'')" by (simp add: js_def)
qed

end
