(* ===== verification/JS_ResultNav.thy ===== *)
theory JS_ResultNav
  imports JS_SearchResults
begin

text \<open>
  Walking the results page, \<^verbatim>\<open>doc/html/search/search.js\<close>: the pointer walk of
  \<open>FindChildElement\<close> and its equivalence with a search in document order, \<open>Toggle\<close>, the item loops
  \<open>NavNext\<close> and \<open>NavPrev\<close>, and the key handlers \<open>ProcessKeys\<close>, \<open>Nav\<close> and \<open>NavChild\<close>.
\<close>

section \<open>FindChildElement: the pointer walk\<close>

text \<open>The inner \<open>do ... while\<close>: climb until the parent element is reached or a node has a next
  sibling. The parent element is the empty path.\<close>

fun climb :: "dom \<Rightarrow> path \<Rightarrow> path" where
  "climb T [] = []"
| "climb T (i # r) = (if r = [] \<or> nextSibling T r \<noteq> None then r else climb T r)"

definition is_children_div :: "(jsstr \<Rightarrow> jsstr) \<Rightarrow> elt \<Rightarrow> bool" where
  "is_children_div U e \<longleftrightarrow> is_div U e \<and> className e = js ''SRChildren''"

text \<open>One turn of the loop that does not return: where \<open>element\<close> moves.\<close>

definition walk_next :: "(jsstr \<Rightarrow> jsstr) \<Rightarrow> dom \<Rightarrow> path \<Rightarrow> dom \<Rightarrow> path option" where
  "walk_next U T r d =
     (if is_div U (node d) \<and> childNodes d \<noteq> [] then firstChild T r
      else case nextSibling T r of
        Some r' \<Rightarrow> Some r'
      | None \<Rightarrow> (let q = climb T r in if q = [] then None else nextSibling T q))"

text \<open>The nodes still ahead of the walk, in document order: below a node only the children of a
  \<open>div\<close> are visited.\<close>

fun preorder :: "(jsstr \<Rightarrow> jsstr) \<Rightarrow> dom \<Rightarrow> path \<Rightarrow> path list"
  and preorder_forest :: "(jsstr \<Rightarrow> jsstr) \<Rightarrow> dom list \<Rightarrow> nat \<Rightarrow> path \<Rightarrow> path list" where
  "preorder U (Dom e cs) r = r # (if is_div U e then preorder_forest U cs 0 r else [])"
| "preorder_forest U [] i r = []"
| "preorder_forest U (c # cs) i r = preorder U c (i # r) @ preorder_forest U cs (Suc i) r"

fun after :: "(jsstr \<Rightarrow> jsstr) \<Rightarrow> dom \<Rightarrow> path \<Rightarrow> path list" where
  "after U T [] = []"
| "after U T (i # r) = preorder_forest U (drop (Suc i) (children_at T r)) (Suc i) r @ after U T r"

definition ahead :: "(jsstr \<Rightarrow> jsstr) \<Rightarrow> dom \<Rightarrow> path \<Rightarrow> path list" where
  "ahead U T r = (case at_rev T r of None \<Rightarrow> [] | Some d \<Rightarrow> preorder U d r @ after U T r)"

lemma preorder_not_Nil [simp]: "preorder U d r \<noteq> []"
  by (cases d) simp

lemma preorder_node: "preorder U d r = r # (if is_div U (node d) then preorder_forest U (childNodes d) 0 r else [])"
  by (cases d) simp

lemma at_rev_parent: "at_rev T (i # r) = Some d \<Longrightarrow> \<exists>d'. at_rev T r = Some d'"
  by (auto simp: at_rev_def at_snoc split: option.splits)

lemma next_sibling_ahead:
  assumes "nextSibling T r = Some r'"
  shows "ahead U T r' = after U T r"
proof (cases r)
  case (Cons i q)
  with assms have i: "Suc i < length (children_at T q)" and r': "r' = Suc i # q"
    by (auto split: if_splits)
  have "drop (Suc i) (children_at T q) = children_at T q ! Suc i # drop (Suc (Suc i)) (children_at T q)"
    using i by (simp only: Cons_nth_drop_Suc)
  then show ?thesis
    using i by (simp only: r' Cons ahead_def at_rev_Cons after.simps) simp
qed (use assms in simp)

lemma no_sibling_after: "nextSibling T (i # r) = None \<Longrightarrow> after U T (i # r) = after U T r"
  by (auto split: if_splits)

lemma climb_after:
  "nextSibling T r = None \<Longrightarrow>
   (climb T r = [] \<and> after U T r = []) \<or>
   (climb T r \<noteq> [] \<and> (\<exists>r'. nextSibling T (climb T r) = Some r' \<and> ahead U T r' = after U T r))"
proof (induction r)
  case (Cons i r)
  from Cons.prems have aft: "after U T (i # r) = after U T r" by (rule no_sibling_after)
  show ?case
  proof (cases "r = []")
    case False
    then show ?thesis
      using aft Cons.IH next_sibling_ahead [of T r _ U] by (cases "nextSibling T r") auto
  qed (use aft in simp)
qed simp

lemma walk_next_ahead:
  assumes "at_rev T r = Some d"
  shows "(case walk_next U T r d of None \<Rightarrow> [] | Some r' \<Rightarrow> ahead U T r') = tl (ahead U T r)"
proof -
  have tl: "tl (ahead U T r) =
      (if is_div U (node d) then preorder_forest U (childNodes d) 0 r else []) @ after U T r"
    using assms by (simp add: ahead_def preorder_node)
  show ?thesis
  proof (cases "is_div U (node d) \<and> childNodes d \<noteq> []")
    case True
    then obtain c cs where cs: "childNodes d = c # cs" by (cases "childNodes d") auto
    with True assms have "walk_next U T r d = Some (0 # r)"
      by (simp add: walk_next_def firstChild_def)
    moreover have "ahead U T (0 # r) = preorder_forest U (childNodes d) 0 r @ after U T r"
      using cs assms by (simp add: ahead_def at_rev_Cons)
    ultimately show ?thesis using tl True by simp
  next
    case False
    then have tl': "tl (ahead U T r) = after U T r" using tl by auto
    show ?thesis
      using False climb_after [of T r U] next_sibling_ahead [of T r _ U]
      by (auto simp: walk_next_def tl' Let_def split: option.splits)
  qed
qed

text \<open>The loop. It stops because the list of nodes ahead loses its head in every turn.\<close>

function find_child_loop :: "(jsstr \<Rightarrow> jsstr) \<Rightarrow> dom \<Rightarrow> path \<Rightarrow> path option" where
  "find_child_loop U T element =
     (case at_rev T element of
        None \<Rightarrow> None
      | Some d \<Rightarrow>
          if element = [] then None
          else if is_children_div U (node d) then Some element
          else (case walk_next U T element d of
                  None \<Rightarrow> None
                | Some element' \<Rightarrow> find_child_loop U T element'))"
  by pat_completeness auto
termination
proof (relation "measure (\<lambda>(U, T, r). length (ahead U T r))", goal_cases)
  case (2 U T r d r')
  then have "ahead U T r' = tl (ahead U T r)" using walk_next_ahead [of T r d U] by simp
  moreover have "ahead U T r \<noteq> []" using 2 by (simp add: ahead_def)
  ultimately show ?case by simp
qed simp

declare find_child_loop.simps [simp del]

text \<open>\<open>FindChildElement\<close>: the walk starts at the first child; the element found is given by its path
  from the root of the document.\<close>

definition FindChildElement :: "(jsstr \<Rightarrow> jsstr) \<Rightarrow> dom \<Rightarrow> jsstr \<Rightarrow> path option js_result" where
  "FindChildElement U doc x =
     (case getElementById doc x of
        None \<Rightarrow> Inl TypeError
      | Some p \<Rightarrow>
          (case at doc p of
             None \<Rightarrow> Inl TypeError
           | Some T \<Rightarrow>
               Inr (case firstChild T [] of
                      None \<Rightarrow> None
                    | Some r \<Rightarrow> map_option (\<lambda>q. p @ rev q) (find_child_loop U T r))))"

definition Toggle :: "(jsstr \<Rightarrow> jsstr) \<Rightarrow> jsstr \<Rightarrow> dom \<Rightarrow> dom js_result" where
  "Toggle U x doc =
     js_bind (FindChildElement U doc x) (\<lambda>element.
       Inr (case element of
              None \<Rightarrow> doc
            | Some p \<Rightarrow>
                if display_at doc p = js ''block''
                then upd p (\<lambda>e. e\<lparr>display := js ''none''\<rparr>) doc
                else upd p (\<lambda>e. e\<lparr>display := js ''block''\<rparr>) doc))"

subsection \<open>The walk is a search in document order\<close>

definition is_target :: "(jsstr \<Rightarrow> jsstr) \<Rightarrow> dom \<Rightarrow> path \<Rightarrow> bool" where
  "is_target U T r \<longleftrightarrow> (case at_rev T r of None \<Rightarrow> False | Some d \<Rightarrow> is_children_div U (node d))"

lemma find_child_loop_eq: "r \<noteq> [] \<Longrightarrow> find_child_loop U T r = find (is_target U T) (ahead U T r)"
proof (induction U T r rule: find_child_loop.induct)
  case (1 U T r)
  show ?case
  proof (cases "at_rev T r")
    case None
    then show ?thesis by (simp add: find_child_loop.simps [of U T r] ahead_def)
  next
    case (Some d)
    then have "ahead U T r = r # tl (ahead U T r)" by (simp add: ahead_def preorder_node)
    then have fd: "find (is_target U T) (ahead U T r) =
        (if is_children_div U (node d) then Some r else find (is_target U T) (tl (ahead U T r)))"
      using Some by (metis find.simps(2) is_target_def option.simps(5))
    have nz: "walk_next U T r d = Some r' \<Longrightarrow> r' \<noteq> []" for r'
      by (auto simp: walk_next_def firstChild_def Let_def split: if_splits option.splits
          elim: nextSibling.elims)
    show ?thesis
      using walk_next_ahead [OF Some, of U] Some "1.prems" "1.IH" [OF Some "1.prems"] nz
      by (auto simp: find_child_loop.simps [of U T r] fd split: option.splits)
  qed
qed

text \<open>The reference: the first \<open>SRChildren\<close> element below the node, in document order, not looking
  into nodes that are not \<open>div\<close>s.\<close>

definition find_child_spec :: "(jsstr \<Rightarrow> jsstr) \<Rightarrow> dom \<Rightarrow> path option" where
  "find_child_spec U T = find (is_target U T) (preorder_forest U (childNodes T) 0 [])"

lemma FindChildElement_spec:
  assumes "getElementById doc x = Some p" and "at doc p = Some T"
  shows "FindChildElement U doc x = Inr (map_option (\<lambda>q. p @ rev q) (find_child_spec U T))"
proof (cases "childNodes T")
  case Nil
  with assms show ?thesis
    by (simp add: FindChildElement_def firstChild_def find_child_spec_def)
next
  case (Cons c cs)
  have "find_child_loop U T [0] = find_child_spec U T"
    using Cons by (simp add: find_child_loop_eq find_child_spec_def ahead_def at_rev_Cons)
  with assms Cons show ?thesis
    by (simp add: FindChildElement_def firstChild_def)
qed

section \<open>The item loops\<close>

definition item_id :: "int \<Rightarrow> jsstr" where
  "item_id index = js ''Item'' @ num_str index"

definition item_child_id :: "int \<Rightarrow> int \<Rightarrow> jsstr" where
  "item_child_id index c = js ''Item'' @ num_str index @ js ''_c'' @ num_str c"

text \<open>\<open>focusItem.parentNode.parentNode\<close>: the path of the result row. The root element's parent is the
  document node, which has no \<open>style\<close> and no \<open>id\<close>.\<close>

definition row_path :: "path \<Rightarrow> path js_result" where
  "row_path p = (if length p < 2 then Inl TypeError else Inr (butlast (butlast p)))"

lemma item_id_inj: "item_id i = item_id j \<longleftrightarrow> i = j"
  by (simp add: item_id_def num_str_inj)

lemma finite_items: "finite {i. getElementById d (item_id i) \<noteq> None}"
proof -
  have "finite (item_id -` {x. getElementById d x \<noteq> None})"
    by (rule finite_vimageI [OF finite_ids]) (simp add: inj_def item_id_inj)
  then show ?thesis by (simp add: vimage_def)
qed

lemma finite_item_children: "finite {c. getElementById d (item_child_id i c) \<noteq> None}"
proof -
  have "finite (item_child_id i -` {x. getElementById d x \<noteq> None})"
    by (rule finite_vimageI [OF finite_ids]) (simp add: inj_def item_child_id_def num_str_inj)
  then show ?thesis by (simp add: vimage_def)
qed

lemma card_beyond_less:
  fixes i :: int
  assumes "finite {k. P k}" and "P i"
  shows "card {k. i < k \<and> P k} < card {k. i \<le> k \<and> P k}"
    and "card {k. k < i \<and> P k} < card {k. k \<le> i \<and> P k}"
  using assms by (auto intro!: psubset_card_mono intro: finite_subset [OF _ assms(1)])

function NavNext :: "dom \<Rightarrow> int \<Rightarrow> path option js_result" where
  "NavNext d index =
     (case getElementById d (item_id index) of
        None \<Rightarrow> Inr None
      | Some p \<Rightarrow>
          (case row_path p of
             Inl e \<Rightarrow> Inl e
           | Inr row \<Rightarrow>
               if display_at d row = js ''block'' then Inr (Some p) else NavNext d (index + 1)))"
  by pat_completeness auto
termination
proof (relation "measure (\<lambda>(d, i). card {k. i \<le> k \<and> getElementById d (item_id k) \<noteq> None})", goal_cases)
  case (2 d i p row)
  have "{k. i + 1 \<le> k \<and> getElementById d (item_id k) \<noteq> None} =
        {k. i < k \<and> getElementById d (item_id k) \<noteq> None}" by auto
  with 2 show ?case using card_beyond_less(1) [OF finite_items, of d i] by simp
qed simp

function NavPrev :: "dom \<Rightarrow> int \<Rightarrow> path option js_result" where
  "NavPrev d index =
     (case getElementById d (item_id index) of
        None \<Rightarrow> Inr None
      | Some p \<Rightarrow>
          (case row_path p of
             Inl e \<Rightarrow> Inl e
           | Inr row \<Rightarrow>
               if display_at d row = js ''block'' then Inr (Some p) else NavPrev d (index - 1)))"
  by pat_completeness auto
termination
proof (relation "measure (\<lambda>(d, i). card {k. k \<le> i \<and> getElementById d (item_id k) \<noteq> None})", goal_cases)
  case (2 d i p row)
  have "{k. k \<le> i - 1 \<and> getElementById d (item_id k) \<noteq> None} =
        {k. k < i \<and> getElementById d (item_id k) \<noteq> None}" by auto
  with 2 show ?case using card_beyond_less(2) [OF finite_items, of d i] by simp
qed simp

text \<open>The search for the last child of an item.\<close>

function last_child_loop :: "dom \<Rightarrow> int \<Rightarrow> int \<Rightarrow> path \<Rightarrow> path" where
  "last_child_loop d newIndex n focusItem =
     (case getElementById d (item_child_id newIndex n) of
        None \<Rightarrow> focusItem
      | Some tmpElem \<Rightarrow> last_child_loop d newIndex (n + 1) tmpElem)"
  by pat_completeness auto
termination
proof (relation "measure (\<lambda>(d, i, n, f). card {k. n \<le> k \<and> getElementById d (item_child_id i k) \<noteq> None})",
    goal_cases)
  case (2 d i n f p)
  have "{k. n + 1 \<le> k \<and> getElementById d (item_child_id i k) \<noteq> None} =
        {k. n < k \<and> getElementById d (item_child_id i k) \<noteq> None}" by auto
  with 2 show ?case using card_beyond_less(1) [OF finite_item_children, of d i n] by simp
qed simp

declare NavNext.simps [simp del] NavPrev.simps [simp del] last_child_loop.simps [simp del]

text \<open>An item is reachable when it exists and its row is displayed.\<close>

definition item_visible :: "dom \<Rightarrow> int \<Rightarrow> path \<Rightarrow> bool" where
  "item_visible d i p \<longleftrightarrow> getElementById d (item_id i) = Some p \<and>
     (\<exists>row. row_path p = Inr row \<and> display_at d row = js ''block'')"

definition item_hidden :: "dom \<Rightarrow> int \<Rightarrow> bool" where
  "item_hidden d i \<longleftrightarrow> (\<exists>p row. getElementById d (item_id i) = Some p \<and> row_path p = Inr row \<and>
     display_at d row \<noteq> js ''block'')"

definition next_spec :: "dom \<Rightarrow> int \<Rightarrow> path option js_result \<Rightarrow> bool" where
  "next_spec d i r \<longleftrightarrow> (\<exists>j \<ge> i. (\<forall>k. i \<le> k \<and> k < j \<longrightarrow> item_hidden d k) \<and>
     (case r of
        Inr (Some p) \<Rightarrow> item_visible d j p
      | Inr None \<Rightarrow> getElementById d (item_id j) = None
      | Inl e \<Rightarrow> (\<exists>p. getElementById d (item_id j) = Some p \<and> length p < 2)))"

definition prev_spec :: "dom \<Rightarrow> int \<Rightarrow> path option js_result \<Rightarrow> bool" where
  "prev_spec d i r \<longleftrightarrow> (\<exists>j \<le> i. (\<forall>k. j < k \<and> k \<le> i \<longrightarrow> item_hidden d k) \<and>
     (case r of
        Inr (Some p) \<Rightarrow> item_visible d j p
      | Inr None \<Rightarrow> getElementById d (item_id j) = None
      | Inl e \<Rightarrow> (\<exists>p. getElementById d (item_id j) = Some p \<and> length p < 2)))"

lemma next_spec_step:
  assumes "item_hidden d i" and "next_spec d (i + 1) r"
  shows "next_spec d i r"
proof -
  obtain j where j: "i + 1 \<le> j" "\<forall>k. i + 1 \<le> k \<and> k < j \<longrightarrow> item_hidden d k"
    and Q: "case r of
        Inr (Some p) \<Rightarrow> item_visible d j p
      | Inr None \<Rightarrow> getElementById d (item_id j) = None
      | Inl e \<Rightarrow> (\<exists>p. getElementById d (item_id j) = Some p \<and> length p < 2)"
    using assms(2) unfolding next_spec_def by blast
  have "item_hidden d k" if "i \<le> k" "k < j" for k
    using that j assms(1) by (cases "k = i") auto
  moreover have "i \<le> j" using j by simp
  ultimately show ?thesis unfolding next_spec_def using Q by blast
qed

lemma prev_spec_step:
  assumes "item_hidden d i" and "prev_spec d (i - 1) r"
  shows "prev_spec d i r"
proof -
  obtain j where j: "j \<le> i - 1" "\<forall>k. j < k \<and> k \<le> i - 1 \<longrightarrow> item_hidden d k"
    and Q: "case r of
        Inr (Some p) \<Rightarrow> item_visible d j p
      | Inr None \<Rightarrow> getElementById d (item_id j) = None
      | Inl e \<Rightarrow> (\<exists>p. getElementById d (item_id j) = Some p \<and> length p < 2)"
    using assms(2) unfolding prev_spec_def by blast
  have "item_hidden d k" if "j < k" "k \<le> i" for k
    using that j assms(1) by (cases "k = i") auto
  moreover have "j \<le> i" using j by simp
  ultimately show ?thesis unfolding prev_spec_def using Q by blast
qed

lemma item_cases:
  obtains (hidden) p row where "getElementById d (item_id i) = Some p" "row_path p = Inr row"
    "display_at d row \<noteq> js ''block''" "item_hidden d i"
  | (stop) "\<not> item_hidden d i"
    "NavNext d i = NavPrev d i"
    "case NavNext d i of
        Inr (Some p) \<Rightarrow> item_visible d i p
      | Inr None \<Rightarrow> getElementById d (item_id i) = None
      | Inl e \<Rightarrow> (\<exists>p. getElementById d (item_id i) = Some p \<and> length p < 2)"
proof (cases "item_hidden d i")
  case True
  then show ?thesis using hidden by (auto simp: item_hidden_def)
next
  case False
  then show ?thesis
    by (intro stop) (auto simp: NavNext.simps [of d i] NavPrev.simps [of d i] item_visible_def
        item_hidden_def row_path_def split: option.splits sum.splits if_splits)
qed

lemma NavNext_spec: "next_spec d i (NavNext d i)"
proof (induction d i rule: NavNext.induct)
  case (1 d i)
  show ?case
  proof (cases d i rule: item_cases)
    case (hidden p row)
    then have "NavNext d i = NavNext d (i + 1)" by (simp add: NavNext.simps [of d i])
    with hidden "1.IH" show ?thesis by (simp add: next_spec_step)
  next
    case stop
    then show ?thesis unfolding next_spec_def by (intro exI [of _ i]) auto
  qed
qed

lemma NavPrev_spec: "prev_spec d i (NavPrev d i)"
proof (induction d i rule: NavPrev.induct)
  case (1 d i)
  show ?case
  proof (cases d i rule: item_cases)
    case (hidden p row)
    then have "NavPrev d i = NavPrev d (i - 1)" by (simp add: NavPrev.simps [of d i])
    with hidden "1.IH" show ?thesis by (simp add: prev_spec_step)
  next
    case stop
    then show ?thesis unfolding prev_spec_def by (intro exI [of _ i]) auto
  qed
qed

section \<open>The key handlers\<close>

datatype key_type = KeyDown | KeyPress | KeyUp | OtherEvent

record key_event =
  event_type :: key_type
  keyCode :: nat

definition ProcessKeys :: "key_event \<Rightarrow> results \<Rightarrow> bool \<times> results" where
  "ProcessKeys e s =
     (case event_type e of
        KeyDown \<Rightarrow>
          (let s1 = s\<lparr>repeatOn := False, lastKey := keyCode e\<rparr> in (lastKey s1 \<noteq> 0, s1))
      | KeyPress \<Rightarrow>
          if \<not> repeatOn s
          then (False, if lastKey s \<noteq> 0 then s\<lparr>repeatOn := True\<rparr> else s)
          else (lastKey s \<noteq> 0, s)
      | KeyUp \<Rightarrow>
          (let s1 = s\<lparr>lastKey := 0, repeatOn := False\<rparr> in (lastKey s1 \<noteq> 0, s1))
      | OtherEvent \<Rightarrow> (lastKey s \<noteq> 0, s))"

text \<open>\<open>FindChildElement(item.parentNode.parentNode.id)\<close> for the element at a path.\<close>

definition children_of_item :: "(jsstr \<Rightarrow> jsstr) \<Rightarrow> dom \<Rightarrow> path \<Rightarrow> path option js_result" where
  "children_of_item U d p =
     js_bind (row_path p) (\<lambda>row.
       case at d row of
         None \<Rightarrow> Inl TypeError
       | Some x \<Rightarrow> FindChildElement U d (elt_id (node x)))"

definition expanded :: "dom \<Rightarrow> path option \<Rightarrow> bool" where
  "expanded d el = (case el of None \<Rightarrow> False | Some p \<Rightarrow> display_at d p = js ''block'')"

definition focus_on :: "path \<Rightarrow> results \<Rightarrow> results" where
  "focus_on p s = s\<lparr>focused := Some p\<rparr>"

definition call_parent :: "parent_call \<Rightarrow> results \<Rightarrow> results" where
  "call_parent c s = s\<lparr>parent_calls := parent_calls s @ [c]\<rparr>"

definition set_display_at :: "path option \<Rightarrow> jsstr \<Rightarrow> results \<Rightarrow> results" where
  "set_display_at el v s =
     (case el of
        None \<Rightarrow> s
      | Some p \<Rightarrow> s\<lparr>document := upd p (\<lambda>e. e\<lparr>display := v\<rparr>) (document s)\<rparr>)"

definition nav_up :: "(jsstr \<Rightarrow> jsstr) \<Rightarrow> int \<Rightarrow> results \<Rightarrow> results js_result" where
  "nav_up U itemIndex s =
     (let d = document s; newIndex = itemIndex - 1 in
      js_bind (NavPrev d newIndex) (\<lambda>focusItem.
        case focusItem of
          None \<Rightarrow> Inr (call_parent Parent_focus_MSearchField s)
        | Some p \<Rightarrow>
            js_bind (children_of_item U d p) (\<lambda>child.
              Inr (focus_on (if expanded d child then last_child_loop d newIndex 0 p else p) s))))"

definition nav_down :: "(jsstr \<Rightarrow> jsstr) \<Rightarrow> int \<Rightarrow> results \<Rightarrow> results js_result" where
  "nav_down U itemIndex s =
     (let d = document s; newIndex = itemIndex + 1 in
      case getElementById d (item_id itemIndex) of
        None \<Rightarrow> Inl TypeError
      | Some item \<Rightarrow>
          js_bind (children_of_item U d item) (\<lambda>elem.
            let focusItem =
              (if expanded d elem then getElementById d (item_child_id itemIndex 0) else None) in
            js_bind (case focusItem of None \<Rightarrow> NavNext d newIndex | Some p \<Rightarrow> Inr (Some p))
              (\<lambda>f. Inr (case f of None \<Rightarrow> s | Some p \<Rightarrow> focus_on p s))))"

definition nav_expand :: "(jsstr \<Rightarrow> jsstr) \<Rightarrow> int \<Rightarrow> jsstr \<Rightarrow> results \<Rightarrow> results js_result" where
  "nav_expand U itemIndex v s =
     (case getElementById (document s) (item_id itemIndex) of
        None \<Rightarrow> Inl TypeError
      | Some item \<Rightarrow>
          js_bind (children_of_item U (document s) item) (\<lambda>elem. Inr (set_display_at elem v s)))"

definition nav_escape :: "results \<Rightarrow> results" where
  "nav_escape s = call_parent Parent_focus_MSearchField (call_parent Parent_CloseResultsWindow s)"

definition Nav ::
    "(jsstr \<Rightarrow> jsstr) \<Rightarrow> key_event \<Rightarrow> int \<Rightarrow> results \<Rightarrow> (bool \<times> results) js_result" where
  "Nav U e itemIndex s =
     (if keyCode e = 13 then Inr (True, s)
      else let (go, s1) = ProcessKeys e s in
        if \<not> go then Inr (False, s1)
        else if lastKey s1 = 38 then js_bind (nav_up U itemIndex s1) (\<lambda>s2. Inr (False, s2))
        else if lastKey s1 = 40 then js_bind (nav_down U itemIndex s1) (\<lambda>s2. Inr (False, s2))
        else if lastKey s1 = 39
        then js_bind (nav_expand U itemIndex (js ''block'') s1) (\<lambda>s2. Inr (False, s2))
        else if lastKey s1 = 37
        then js_bind (nav_expand U itemIndex (js ''none'') s1) (\<lambda>s2. Inr (False, s2))
        else if lastKey s1 = 27 then Inr (False, nav_escape s1)
        else if lastKey s1 = 13 then Inr (True, s1)
        else Inr (False, s1))"

definition focus_id :: "jsstr \<Rightarrow> results \<Rightarrow> results js_result" where
  "focus_id x s =
     (case getElementById (document s) x of None \<Rightarrow> Inl TypeError | Some p \<Rightarrow> Inr (focus_on p s))"

definition NavChild ::
    "key_event \<Rightarrow> int \<Rightarrow> int \<Rightarrow> results \<Rightarrow> (bool \<times> results) js_result" where
  "NavChild e itemIndex childIndex s =
     (if keyCode e = 13 then Inr (True, s)
      else let (go, s1) = ProcessKeys e s in
        if \<not> go then Inr (False, s1)
        else if lastKey s1 = 38 then
          js_bind (if childIndex > 0 then focus_id (item_child_id itemIndex (childIndex - 1)) s1
                   else focus_id (item_id itemIndex) s1) (\<lambda>s2. Inr (False, s2))
        else if lastKey s1 = 40 then
          js_bind (case getElementById (document s1) (item_child_id itemIndex (childIndex + 1)) of
                     None \<Rightarrow> NavNext (document s1) (itemIndex + 1)
                   | Some p \<Rightarrow> Inr (Some p))
            (\<lambda>elem. Inr (False, case elem of None \<Rightarrow> s1 | Some p \<Rightarrow> focus_on p s1))
        else if lastKey s1 = 27 then Inr (False, nav_escape s1)
        else if lastKey s1 = 13 then Inr (True, s1)
        else Inr (False, s1))"

section \<open>Properties\<close>

text \<open>
  C25. The pointer walk of \<open>FindChildElement\<close> always ends, and finds the first \<open>SRChildren\<close> element
  in document order below the named element, where the contents of elements other than \<open>div\<close> are not
  searched; an unknown identifier raises a \<open>TypeError\<close>.
\<close>

theorem FindChildElement_document_order:
  "FindChildElement U doc x =
     (case getElementById doc x of
        None \<Rightarrow> Inl TypeError
      | Some p \<Rightarrow>
          (case at doc p of
             None \<Rightarrow> Inl TypeError
           | Some T \<Rightarrow>
               Inr (map_option (\<lambda>q. p @ rev q)
                 (find (is_target U T) (preorder_forest U (childNodes T) 0 [])))))"
proof (cases "getElementById doc x")
  case None
  then show ?thesis by (simp add: FindChildElement_def)
next
  case (Some p)
  then obtain T where "at doc p = Some T" using getElementById_Some by blast
  with Some show ?thesis by (simp add: FindChildElement_spec find_child_spec_def)
qed

text \<open>
  C26. \<open>NavNext\<close> ends on every document and returns the first item at or above the index whose row is
  displayed, passing over hidden ones only, or nothing where the numbering ends; it raises only for an
  item that lies too close to the root of the document.
\<close>

theorem NavNext_first_visible:
  "next_spec d i (NavNext d i)"
  by (rule NavNext_spec)

text \<open>
  \<open>NavPrev\<close> ends on every document and returns the first displayed item at or below the index.
\<close>

theorem NavPrev_first_visible:
  "prev_spec d i (NavPrev d i)"
  by (rule NavPrev_spec)

text \<open>Running the key filter over a sequence of events.\<close>

fun process_all :: "key_event list \<Rightarrow> results \<Rightarrow> bool list \<times> results" where
  "process_all [] s = ([], s)"
| "process_all (e # es) s =
     (let (b, s1) = ProcessKeys e s; (bs, s2) = process_all es s1 in (b # bs, s2))"

lemma process_repeat:
  "repeatOn s \<Longrightarrow> lastKey s \<noteq> 0 \<Longrightarrow>
   process_all (replicate n \<lparr>event_type = KeyPress, keyCode = k\<rparr>) s = (replicate n True, s)"
  by (induction n) (auto simp: ProcessKeys_def)

text \<open>
  One key stroke as the browser reports it (key down, any number of key presses, key up) is acted
  on at key down and at every press after the first; the first press and key up are ignored, and key
  up forgets the key.
\<close>

theorem key_stroke:
  assumes "k \<noteq> 0"
  shows "process_all
      ([\<lparr>event_type = KeyDown, keyCode = k\<rparr>] @
       replicate (Suc n) \<lparr>event_type = KeyPress, keyCode = k'\<rparr> @
       [\<lparr>event_type = KeyUp, keyCode = k''\<rparr>]) s =
    ([True, False] @ replicate n True @ [False], s\<lparr>lastKey := 0, repeatOn := False\<rparr>)"
proof -
  have app: "process_all (es @ fs) t =
      (let (bs, t1) = process_all es t; (cs, t2) = process_all fs t1 in (bs @ cs, t2))" for es fs t
    by (induction es arbitrary: t) (auto simp: Let_def split: prod.splits)
  show ?thesis
    using assms process_repeat [of "s\<lparr>lastKey := k, repeatOn := True\<rparr>" n k']
    by (simp add: app ProcessKeys_def)
qed

theorem key_stroke_witness:
  "fst (process_all
     ([\<lparr>event_type = KeyDown, keyCode = 40\<rparr>] @
      replicate (Suc 2) \<lparr>event_type = KeyPress, keyCode = 0\<rparr> @
      [\<lparr>event_type = KeyUp, keyCode = 40\<rparr>]) (new_SearchResults (Dom (createElement []) []))) =
   [True, False, True, True, False]"
  using key_stroke [of 40 2 0 40 "new_SearchResults (Dom (createElement []) [])"]
  by (simp add: numeral_2_eq_2)

end
