(* ===== verification/JS_CreateResults.thy ===== *)
theory JS_CreateResults
  imports JS_ResultNav
begin

text \<open>
  Building the results page, \<open>createResults\<close> of \<^verbatim>\<open>doc/html/search/search.js\<close>, and what the walking
  and navigation operations do on a page it built.
\<close>

section \<open>The search data\<close>

text \<open>An entry of \<open>searchData\<close> is \<^verbatim>\<open>[id, [name, [url, inParent, scope], ...]]\<close>.\<close>

record sr_link =
  link_url :: jsstr
  link_parent :: bool
  link_scope :: jsstr

record sr_entry =
  entry_key :: jsstr
  entry_name :: jsstr
  entry_links :: "sr_link list"

section \<open>createResults\<close>

definition setKeyActions :: "jsstr \<Rightarrow> elt \<Rightarrow> elt" where
  "setKeyActions action e =
     setAttribute (js ''onkeyup'') action
       (setAttribute (js ''onkeypress'') action (setAttribute (js ''onkeydown'') action e))"

definition setClassAttr :: "jsstr \<Rightarrow> elt \<Rightarrow> elt" where
  "setClassAttr attr e = setAttribute (js ''className'') attr (setAttribute (js ''class'') attr e)"

definition set_target :: "bool \<Rightarrow> elt \<Rightarrow> elt" where
  "set_target b e = (if b then setAttribute (js ''target'') (js ''_parent'') e else e)"

definition sr_child :: "nat \<Rightarrow> nat \<Rightarrow> sr_link \<Rightarrow> dom" where
  "sr_child e c l =
     Dom (set_target (link_parent l)
       (setAttribute (js ''href'') (link_url l)
       (setClassAttr (js ''SRScope'')
       (setKeyActions (js ''return searchResults.NavChild(event,'' @ num_str (int e) @ js '','' @
                       num_str (int c) @ js '')'')
       (setAttribute (js ''id'') (item_child_id (int e) (int c)) (createElement (js ''a'')))))
        \<lparr>innerHTML := link_scope l\<rparr>)) []"

fun sr_children :: "nat \<Rightarrow> nat \<Rightarrow> sr_link list \<Rightarrow> dom list" where
  "sr_children e c [] = []"
| "sr_children e c (l # ls) = sr_child e c l # sr_children e (Suc c) ls"

definition sr_link_base :: "nat \<Rightarrow> sr_entry \<Rightarrow> elt" where
  "sr_link_base e x =
     (setClassAttr (js ''SRSymbol'')
       (setKeyActions (js ''return searchResults.Nav(event,'' @ num_str (int e) @ js '')'')
         (setAttribute (js ''id'') (item_id (int e)) (createElement (js ''a'')))))
      \<lparr>innerHTML := entry_name x\<rparr>"

text \<open>The children of the \<open>SREntry\<close> element: one link and its scope for a single result, one link
  that toggles and the list of its results otherwise.\<close>

definition sr_entry_children :: "nat \<Rightarrow> sr_entry \<Rightarrow> dom list" where
  "sr_entry_children e x =
     (case entry_links x of
        [l] \<Rightarrow>
          [Dom (set_target (link_parent l)
                 (setAttribute (js ''href'') (link_url l) (sr_link_base e x))) [],
           Dom ((setClassAttr (js ''SRScope'') (createElement (js ''span'')))
                 \<lparr>innerHTML := link_scope l\<rparr>) []]
      | ls \<Rightarrow>
          [Dom (setAttribute (js ''href'')
                 (js ''javascript:searchResults.Toggle(\"SR_'' @ entry_key x @ js ''\")'')
                 (sr_link_base e x)) [],
           Dom (setClassAttr (js ''SRChildren'') (createElement (js ''div'')))
             (sr_children e 0 ls)])"

definition sr_result :: "nat \<Rightarrow> sr_entry \<Rightarrow> dom" where
  "sr_result e x =
     Dom (setClassAttr (js ''SRResult'')
           (setAttribute (js ''id'') (js ''SR_'' @ entry_key x) (createElement (js ''div''))))
       [Dom (setClassAttr (js ''SREntry'') (createElement (js ''div''))) (sr_entry_children e x)]"

fun create_loop :: "path \<Rightarrow> nat \<Rightarrow> sr_entry list \<Rightarrow> dom \<Rightarrow> dom" where
  "create_loop results e [] d = d"
| "create_loop results e (x # searchData) d =
     create_loop results (Suc e) searchData (appendChild results (sr_result e x) d)"

definition createResults :: "sr_entry list \<Rightarrow> dom \<Rightarrow> dom js_result" where
  "createResults searchData d =
     (case getElementById d (js ''SRResults'') of
        None \<Rightarrow> if searchData = [] then Inr d else Inl TypeError
      | Some results \<Rightarrow> Inr (create_loop results 0 searchData d))"

section \<open>The rows of a created page\<close>

fun sr_rows :: "nat \<Rightarrow> sr_entry list \<Rightarrow> dom list" where
  "sr_rows e [] = []"
| "sr_rows e (x # xs) = sr_result e x # sr_rows (Suc e) xs"

lemma create_loop_eq: "create_loop p e xs d = append_children p (sr_rows e xs) d"
  by (induction xs arbitrary: e d) (auto simp: append_children_Nil append_children_step)

lemma length_sr_rows [simp]: "length (sr_rows e xs) = length xs"
  by (induction xs arbitrary: e) auto

lemma nth_sr_rows: "j < length xs \<Longrightarrow> sr_rows e xs ! j = sr_result (e + j) (xs ! j)"
proof (induction xs arbitrary: e j)
  case (Cons x xs)
  then show ?case by (cases j) auto
qed simp

lemma is_div_created:
  "is_div U e \<longleftrightarrow> nodeName e = js ''DIV''" if "nodeName e \<in> {js ''DIV'', js ''A'', js ''SPAN''}"
  using that by (auto simp: is_div_def toLowerCase_def ascii_def ascii_lower_def js_def)

lemma attr_names [simp]:
  "js ''class'' \<noteq> js ''className''" "js ''id'' \<noteq> js ''class''" "js ''id'' \<noteq> js ''className''"
  "js ''id'' \<noteq> js ''onkeyup''" "js ''id'' \<noteq> js ''onkeypress''" "js ''id'' \<noteq> js ''onkeydown''"
  "js ''id'' \<noteq> js ''href''" "js ''id'' \<noteq> js ''target''" "js ''class'' \<noteq> js ''href''"
  "js ''class'' \<noteq> js ''target''"
  by (simp_all add: js_inj)

lemma setClassAttr_simps [simp]:
  "getAttribute (setClassAttr a e) (js ''class'') = Some a"
  "getAttribute (setClassAttr a e) (js ''id'') = getAttribute e (js ''id'')"
  "nodeName (setClassAttr a e) = nodeName e" "display (setClassAttr a e) = display e"
  by (simp_all add: setClassAttr_def)

lemma setKeyActions_simps [simp]:
  "getAttribute (setKeyActions a e) (js ''id'') = getAttribute e (js ''id'')"
  "nodeName (setKeyActions a e) = nodeName e"
  by (simp_all add: setKeyActions_def)

lemma set_target_simps [simp]:
  "getAttribute (set_target b e) (js ''id'') = getAttribute e (js ''id'')"
  "nodeName (set_target b e) = nodeName e"
  by (simp_all add: set_target_def)

lemma upper_tags [simp]:
  "map ascii_upper (js ''div'') = js ''DIV''" "map ascii_upper (js ''a'') = js ''A''"
  "map ascii_upper (js ''span'') = js ''SPAN''"
  by (simp_all add: js_def ascii_upper_def)

lemma sr_link_base_simps [simp]:
  "getAttribute (sr_link_base e x) (js ''id'') = Some (item_id (int e))"
  "nodeName (sr_link_base e x) = js ''A''"
  by (simp_all add: sr_link_base_def)

text \<open>The walk finds the list of results of exactly the rows that have one.\<close>

lemma find_child_sr_result:
  "find_child_spec U (sr_result e x) = (if length (entry_links x) = 1 then None else Some [1, 0])"
  (is "?l = ?r")
proof -
  have div: "is_div U (setClassAttr a (createElement (js ''div'')))" for a
    by (subst is_div_created) simp_all
  have a: "\<not> is_div U (setAttribute k v (sr_link_base e x))"
    "\<not> is_div U (set_target b (setAttribute k v (sr_link_base e x)))" for k v b
    by (subst is_div_created; simp add: js_inj)+
  have span: "\<not> is_div U ((setClassAttr c (createElement (js ''span'')))\<lparr>innerHTML := v\<rparr>)" for c v
    by (subst is_div_created) (simp_all add: js_inj)
  have cls: "className (setClassAttr c (createElement (js ''div''))) = c" for c
    by (simp add: className_def reflected_def)
  show ?thesis
  proof (cases "\<exists>l. entry_links x = [l]")
    case True
    then show ?thesis
      using div a span cls
      by (auto simp: find_child_spec_def sr_result_def sr_entry_children_def is_target_def
          at_rev_def is_children_div_def js_inj)
  next
    case False
    then have "sr_entry_children e x =
        [Dom (setAttribute (js ''href'')
               (js ''javascript:searchResults.Toggle(\"SR_'' @ entry_key x @ js ''\")'')
               (sr_link_base e x)) [],
         Dom (setClassAttr (js ''SRChildren'') (createElement (js ''div'')))
           (sr_children e 0 (entry_links x))]"
      by (auto simp: sr_entry_children_def split: list.splits)
    moreover have "length (entry_links x) \<noteq> 1"
      using False by (metis One_nat_def length_0_conv length_Suc_conv)
    ultimately show ?thesis
      using div a cls
      by (auto simp: find_child_spec_def sr_result_def is_target_def at_rev_def
          is_children_div_def js_inj)
  qed
qed

section \<open>Identifiers on a created page\<close>

abbreviation has_id :: "jsstr \<Rightarrow> elt \<Rightarrow> bool" where
  "has_id x \<equiv> (\<lambda>e. getAttribute e (js ''id'') = Some x)"

lemma num_str_chars: "c \<in> set (num_str i) \<Longrightarrow> is_digit c \<or> c = 45"
  using toString_10_digits by (auto simp: num_str_def js_def split: if_splits)

lemma no_underscore: "95 \<notin> set (num_str i)"
  using num_str_chars [of 95 i] by (auto simp: is_digit_def)

lemma item_ids [simp]:
  "item_id i \<noteq> js ''SR_'' @ k" "item_child_id i c \<noteq> js ''SR_'' @ k"
  "js ''SR_'' @ k \<noteq> item_id i" "js ''SR_'' @ k \<noteq> item_child_id i c"
  "item_id i \<noteq> []" "item_child_id i c \<noteq> []" "js ''SR_'' @ k \<noteq> []"
  by (simp_all add: item_id_def item_child_id_def js_def)

lemma item_id_not_child [simp]: "item_id i \<noteq> item_child_id k c" "item_child_id k c \<noteq> item_id i"
proof -
  have "num_str i \<noteq> num_str k @ js ''_c'' @ num_str c"
  proof
    assume "num_str i = num_str k @ js ''_c'' @ num_str c"
    then have "95 \<in> set (num_str i)" by (simp add: js_def)
    with no_underscore [of i] show False ..
  qed
  then show "item_id i \<noteq> item_child_id k c" by (simp add: item_id_def item_child_id_def)
  then show "item_child_id k c \<noteq> item_id i" by (rule not_sym)
qed

lemma item_child_id_inj: "item_child_id i c = item_child_id k d \<longleftrightarrow> i = k \<and> c = d"
proof
  assume "item_child_id i c = item_child_id k d"
  then have eq: "num_str i @ 95 # 99 # num_str c = num_str k @ 95 # 99 # num_str d"
    by (simp add: item_child_id_def js_def)
  have tw: "takeWhile (\<lambda>x. x \<noteq> 95) (num_str j @ 95 # z) = num_str j" for j z
    using no_underscore [of j] by (subst takeWhile_append2) auto
  have "num_str i = num_str k" using arg_cong [OF eq, of "takeWhile (\<lambda>x. x \<noteq> 95)"] by (simp add: tw)
  with eq show "i = k \<and> c = d" by (simp add: num_str_inj)
qed simp

text \<open>Where an identifier is found in one row.\<close>

lemma sr_child_id [simp]: "getAttribute (node (sr_child e c l)) (js ''id'') = Some (item_child_id (int e) (int c))"
  by (simp add: sr_child_def)

lemma find_sr_child:
  "find_elt (has_id x) (sr_child e c l) = (if x = item_child_id (int e) (int c) then Some [] else None)"
  using sr_child_id [of e c l] by (cases "sr_child e c l") (auto simp: sr_child_def)

lemma find_sr_children_None:
  "(\<And>k. k < length ls \<Longrightarrow> x \<noteq> item_child_id (int e) (int (c + k))) \<Longrightarrow>
   find_elts (has_id x) (sr_children e c ls) i = None"
proof (induction ls arbitrary: c i)
  case (Cons l ls)
  have "x \<noteq> item_child_id (int e) (int c)" using Cons.prems [of 0] by simp
  moreover have "find_elts (has_id x) (sr_children e (Suc c) ls) (Suc i) = None"
    using Cons.prems [of "Suc k" for k] by (intro Cons.IH) simp
  ultimately show ?case by (simp add: find_sr_child)
qed simp

lemma find_sr_children_Some:
  "k < length ls \<Longrightarrow>
   find_elts (has_id (item_child_id (int e) (int (c + k)))) (sr_children e c ls) i = Some [i + k]"
proof (induction ls arbitrary: c k i)
  case (Cons l ls)
  show ?case
  proof (cases k)
    case (Suc k')
    with Cons.IH [of k' "Suc c" "Suc i"] Cons.prems show ?thesis
      by (simp add: find_sr_child item_child_id_inj algebra_simps)
  qed (simp add: find_sr_child)
qed simp

definition multiple :: "sr_entry \<Rightarrow> bool" where
  "multiple x \<longleftrightarrow> length (entry_links x) \<noteq> 1"

lemma find_sr_entry_children:
  "find_elts (has_id y) (sr_entry_children e x) 0 =
     (if y = item_id (int e) then Some [0]
      else if multiple x then
        map_option (\<lambda>q. 1 # q) (find_elts (has_id y) (sr_children e 0 (entry_links x)) 0)
      else None)"
  by (auto simp: sr_entry_children_def multiple_def split: list.splits option.splits)

lemma find_sr_result:
  "find_elt (has_id y) (sr_result e x) =
     (if y = js ''SR_'' @ entry_key x then Some []
      else map_option (\<lambda>q. 0 # q) (find_elts (has_id y) (sr_entry_children e x) 0))"
  by (auto simp: sr_result_def split: option.splits)

lemma find_sr_result_item:
  "find_elt (has_id (item_id i)) (sr_result e x) = (if i = int e then Some [0, 0] else None)"
proof -
  have "find_elts (has_id (item_id i)) (sr_children e 0 (entry_links x)) 0 = None"
    by (rule find_sr_children_None) simp
  then show ?thesis by (simp add: find_sr_result find_sr_entry_children item_id_inj)
qed

lemma find_sr_result_key:
  "find_elt (has_id (js ''SR_'' @ k)) (sr_result e x) = (if k = entry_key x then Some [] else None)"
proof -
  have "find_elts (has_id (js ''SR_'' @ k)) (sr_children e 0 (entry_links x)) 0 = None"
    by (rule find_sr_children_None) simp
  then show ?thesis by (simp add: find_sr_result find_sr_entry_children)
qed

lemma find_sr_result_child:
  "find_elt (has_id (item_child_id (int i) (int c))) (sr_result e x) =
     (if i = e \<and> multiple x \<and> c < length (entry_links x) then Some [0, 1, c] else None)"
proof (cases "i = e \<and> c < length (entry_links x)")
  case True
  then have "find_elts (has_id (item_child_id (int i) (int c))) (sr_children e 0 (entry_links x)) 0
      = Some [c]"
    using find_sr_children_Some [of c "entry_links x" e 0 0] by simp
  then show ?thesis using True by (simp add: find_sr_result find_sr_entry_children)
next
  case False
  have "find_elts (has_id (item_child_id (int i) (int c))) (sr_children e 0 (entry_links x)) 0 = None"
    using False by (intro find_sr_children_None) (auto simp: item_child_id_inj)
  then show ?thesis using False by (auto simp: find_sr_result find_sr_entry_children)
qed

text \<open>Where an identifier is found among the rows.\<close>

lemma find_sr_rows_one:
  assumes "j < length xs" and "find_elt P (sr_result (e + j) (xs ! j)) = Some q"
    and "\<And>i. i < length xs \<Longrightarrow> i \<noteq> j \<Longrightarrow> find_elt P (sr_result (e + i) (xs ! i)) = None"
  shows "find_elts P (sr_rows e xs) n = Some ((n + j) # q)"
  using assms
proof (induction xs arbitrary: e j n)
  case (Cons x xs)
  show ?case
  proof (cases j)
    case 0
    with Cons.prems(2) show ?thesis by simp
  next
    case (Suc j')
    have "find_elt P (sr_result e x) = None" using Cons.prems(3) [of 0] Suc by simp
    moreover have "find_elts P (sr_rows (Suc e) xs) (Suc n) = Some ((Suc n + j') # q)"
      using Cons.prems Suc Cons.prems(3) [of "Suc i" for i] by (intro Cons.IH) simp_all
    ultimately show ?thesis using Suc by simp
  qed
qed simp

lemma find_sr_rows_none:
  "(\<And>i. i < length xs \<Longrightarrow> find_elt P (sr_result (e + i) (xs ! i)) = None) \<Longrightarrow>
   find_elts P (sr_rows e xs) n = None"
proof (induction xs arbitrary: e n)
  case (Cons x xs)
  have "find_elt P (sr_result e x) = None" using Cons.prems [of 0] by simp
  moreover have "find_elts P (sr_rows (Suc e) xs) (Suc n) = None"
    using Cons.prems [of "Suc i" for i] by (intro Cons.IH) simp_all
  ultimately show ?case by simp
qed simp

text \<open>A page before \<open>createResults\<close>: a place for the results, no identifier of theirs in use.\<close>

definition fresh_page :: "dom \<Rightarrow> bool" where
  "fresh_page d \<longleftrightarrow> list_all (\<lambda>e. case getAttribute e (js ''id'') of
       None \<Rightarrow> True
     | Some x \<Rightarrow> \<not> starts_with (js ''SR_'') x \<and> \<not> starts_with (js ''Item'') x) (elts d)"

lemma fresh_page_find:
  "fresh_page d \<Longrightarrow> starts_with (js ''SR_'') x \<or> starts_with (js ''Item'') x \<Longrightarrow>
   find_elt (has_id x) d = None"
  by (auto simp: fresh_page_def find_elt_None(1) list_all_iff)

lemma starts_item [simp]:
  "starts_with (js ''Item'') (item_id i)" "starts_with (js ''Item'') (item_child_id i c)"
  "starts_with (js ''SR_'') (js ''SR_'' @ k)"
  by (simp_all add: starts_with_def item_id_def item_child_id_def)

definition created :: "sr_entry list \<Rightarrow> dom \<Rightarrow> path \<Rightarrow> nat \<Rightarrow> dom \<Rightarrow> bool" where
  "created data d0 results n d \<longleftrightarrow> fresh_page d0 \<and> createResults data d0 = Inr d \<and>
     getElementById d0 (js ''SRResults'') = Some results \<and>
     map_option (length \<circ> childNodes) (at d0 results) = Some n"

lemma created_doc:
  assumes "created data d0 results n d"
  obtains e cs where "at d0 results = Some (Dom e cs)" "length cs = n"
    "d = append_children results (sr_rows 0 data) d0"
proof -
  obtain e cs where "at d0 results = Some (Dom e cs)" "length cs = n"
    using assms by (auto simp: created_def) (metis dom.collapse)
  moreover have "d = append_children results (sr_rows 0 data) d0"
    using assms by (auto simp: created_def createResults_def create_loop_eq)
  ultimately show ?thesis using that by blast
qed

lemma created_find:
  assumes "created data d0 results n d" and "starts_with (js ''SR_'') x \<or> starts_with (js ''Item'') x"
    and "x \<noteq> []"
  shows "getElementById d x = map_option (\<lambda>q. results @ q) (find_elts (has_id x) (sr_rows 0 data) n)"
proof -
  obtain e cs where "at d0 results = Some (Dom e cs)" "length cs = n"
    "d = append_children results (sr_rows 0 data) d0"
    using created_doc [OF assms(1)] .
  moreover have "find_elt (has_id x) d0 = None"
    using assms by (intro fresh_page_find) (simp_all add: created_def)
  ultimately show ?thesis using assms(3) by (simp add: getElementById_def find_elt_append_children)
qed

lemma created_item:
  assumes "created data d0 results n d"
  shows "getElementById d (item_id i) =
    (if 0 \<le> i \<and> i < int (length data) then Some (results @ [n + nat i, 0, 0]) else None)"
proof (cases "0 \<le> i \<and> i < int (length data)")
  case True
  then have "find_elts (has_id (item_id i)) (sr_rows 0 data) n = Some [n + nat i, 0, 0]"
    by (intro find_sr_rows_one) (auto simp: find_sr_result_item)
  with True show ?thesis by (simp add: created_find [OF assms])
next
  case False
  then have "find_elts (has_id (item_id i)) (sr_rows 0 data) n = None"
    by (intro find_sr_rows_none) (auto simp: find_sr_result_item)
  with False show ?thesis by (simp add: created_find [OF assms])
qed

lemma created_row:
  assumes "created data d0 results n d" and "distinct (map entry_key data)" and "j < length data"
  shows "getElementById d (js ''SR_'' @ entry_key (data ! j)) = Some (results @ [n + j])"
proof -
  have "find_elts (has_id (js ''SR_'' @ entry_key (data ! j))) (sr_rows 0 data) n = Some [n + j]"
    using assms(2,3)
    by (intro find_sr_rows_one) (auto simp: find_sr_result_key distinct_conv_nth)
  then show ?thesis by (simp add: created_find [OF assms(1)])
qed

lemma created_child:
  assumes "created data d0 results n d"
  shows "getElementById d (item_child_id (int i) (int c)) =
    (if i < length data \<and> multiple (data ! i) \<and> c < length (entry_links (data ! i))
     then Some (results @ [n + i, 0, 1, c]) else None)"
proof (cases "i < length data \<and> multiple (data ! i) \<and> c < length (entry_links (data ! i))")
  case True
  then have "find_elts (has_id (item_child_id (int i) (int c))) (sr_rows 0 data) n = Some [n + i, 0, 1, c]"
    by (intro find_sr_rows_one) (auto simp: find_sr_result_child)
  with True show ?thesis by (simp add: created_find [OF assms])
next
  case False
  then have "find_elts (has_id (item_child_id (int i) (int c))) (sr_rows 0 data) n = None"
    by (intro find_sr_rows_none) (auto simp: find_sr_result_child)
  with False show ?thesis by (simp add: created_find [OF assms])
qed

lemma created_at_row:
  assumes "created data d0 results n d" and "j < length data"
  shows "at d (results @ [n + j]) = Some (sr_result j (data ! j))"
proof -
  obtain e cs where "at d0 results = Some (Dom e cs)" "length cs = n"
    "d = append_children results (sr_rows 0 data) d0"
    using created_doc [OF assms(1)] .
  then show ?thesis
    using assms(2) by (simp add: at_append at_append_children nth_append nth_sr_rows)
qed

section \<open>Pages that differ in what is displayed\<close>

text \<open>Searching, toggling and navigating change only \<open>style.display\<close>. Everything else about a page is
  its erasure.\<close>

definition erase :: "dom \<Rightarrow> dom" where
  "erase d = map_dom (\<lambda>e. e\<lparr>display := []\<rparr>) d"

lemma getElementById_erase: "getElementById (erase d) x = getElementById d x"
  by (simp add: getElementById_def erase_def find_elt_map_dom(1))

lemma is_div_erase [simp]: "is_div U (e\<lparr>display := v\<rparr>) = is_div U e"
  by (simp add: is_div_def)

lemma preorder_erase:
  "preorder U (erase d) r = preorder U d r"
  "preorder_forest U (map erase cs) i r = preorder_forest U cs i r"
  unfolding erase_def
  by (induction U d r and U cs i r rule: preorder_preorder_forest.induct) auto

lemma childNodes_erase: "childNodes (erase d) = map erase (childNodes d)"
  by (cases d) (simp add: erase_def)

lemma is_target_erase: "is_target U (erase T) r = is_target U T r"
  by (auto simp: is_target_def at_rev_def erase_def at_map_dom is_children_div_def
      split: option.splits)

lemma find_child_spec_erase: "find_child_spec U (erase T) = find_child_spec U T"
proof -
  have "is_target U (erase T) = is_target U T" using is_target_erase by blast
  then show ?thesis by (simp add: find_child_spec_def childNodes_erase preorder_erase)
qed

lemma at_erase: "at (erase d) p = map_option erase (at d p)"
  unfolding erase_def by (rule at_map_dom)

lemma erase_eqD:
  assumes "erase d = erase d'"
  shows "getElementById d x = getElementById d' x"
    and "map_option erase (at d p) = map_option erase (at d' p)"
  using assms by (metis getElementById_erase, metis at_erase)

lemma FindChildElement_erase:
  assumes "erase d = erase d'" and "getElementById d x = Some p"
  shows "FindChildElement U d x = FindChildElement U d' x"
proof -
  obtain T where T: "at d p = Some T" using getElementById_Some [OF assms(2)] by blast
  then obtain T' where T': "at d' p = Some T'" "erase T' = erase T"
    using erase_eqD(2) [OF assms(1), of p] by (cases "at d' p") auto
  have "getElementById d' x = Some p" using erase_eqD(1) [OF assms(1)] assms(2) by simp
  then show ?thesis
    using FindChildElement_spec [OF assms(2) T] FindChildElement_spec [OF _ T'(1), of x] T'(2)
      find_child_spec_erase by metis
qed

lemma erase_upd: "erase (upd p (\<lambda>e. e\<lparr>display := v\<rparr>) d) = erase d"
proof (induction p "\<lambda>e. e\<lparr>display := v\<rparr> :: elt" d rule: upd.induct)
  case (2 i p e cs)
  then show ?case by (simp add: erase_def map_update list_update_same_conv)
qed (simp add: erase_def)

lemma elt_id_erase: "erase x = erase y \<Longrightarrow> elt_id (node x) = elt_id (node y)"
  by (metis erase_def node_map_dom reflected_display(1))

section \<open>Navigating a created page\<close>

text \<open>\<open>page data results n d\<close>: \<open>d\<close> is, up to what is displayed, a page that \<open>createResults\<close> built from
  \<open>data\<close>, with its rows at the paths \<open>results @ [n]\<close>, \<open>results @ [n + 1]\<close> and so on.\<close>

definition page :: "sr_entry list \<Rightarrow> path \<Rightarrow> nat \<Rightarrow> dom \<Rightarrow> bool" where
  "page data results n d \<longleftrightarrow> distinct (map entry_key data) \<and>
     (\<exists>d0 d1. created data d0 results n d1 \<and> erase d = erase d1)"

lemma pageE:
  assumes "page data results n d"
  obtains d0 d1 where "created data d0 results n d1" "erase d = erase d1"
    "\<And>x. getElementById d x = getElementById d1 x" "distinct (map entry_key data)"
  using assms erase_eqD(1) unfolding page_def by blast

lemma page_item:
  "page data results n d \<Longrightarrow> getElementById d (item_id i) =
    (if 0 \<le> i \<and> i < int (length data) then Some (results @ [n + nat i, 0, 0]) else None)"
  by (elim pageE) (simp only: created_item)

lemma page_child:
  "page data results n d \<Longrightarrow> getElementById d (item_child_id (int i) (int c)) =
    (if i < length data \<and> multiple (data ! i) \<and> c < length (entry_links (data ! i))
     then Some (results @ [n + i, 0, 1, c]) else None)"
  by (elim pageE) (simp only: created_child)

lemma page_row:
  "page data results n d \<Longrightarrow> j < length data \<Longrightarrow>
   getElementById d (js ''SR_'' @ entry_key (data ! j)) = Some (results @ [n + j])"
  by (elim pageE) (simp only: created_row)

lemma page_row_id:
  assumes "page data results n d" and "j < length data"
  obtains x where "at d (results @ [n + j]) = Some x" "elt_id (node x) = js ''SR_'' @ entry_key (data ! j)"
proof -
  obtain d0 d1 where d: "created data d0 results n d1" "erase d = erase d1"
    using assms(1) unfolding page_def by blast
  have "at d1 (results @ [n + j]) = Some (sr_result j (data ! j))"
    by (rule created_at_row [OF d(1) assms(2)])
  then obtain x where "at d (results @ [n + j]) = Some x" "erase x = erase (sr_result j (data ! j))"
    using erase_eqD(2) [OF d(2), of "results @ [n + j]"] by auto
  moreover have "elt_id (node (sr_result j (data ! j))) = js ''SR_'' @ entry_key (data ! j)"
    by (simp add: sr_result_def elt_id_def reflected_def)
  ultimately show ?thesis using that elt_id_erase by metis
qed

lemma row_path_item [simp]: "row_path (results @ [j, 0, 0]) = Inr (results @ [j])"
  by (simp add: row_path_def butlast_append)

text \<open>The list of results of a row, where it has one.\<close>

lemma page_FindChildElement:
  assumes "page data results n d" and "j < length data"
  shows "FindChildElement U d (js ''SR_'' @ entry_key (data ! j)) =
    Inr (if multiple (data ! j) then Some (results @ [n + j, 0, 1]) else None)"
proof -
  obtain d0 d1 where d: "created data d0 results n d1" "erase d = erase d1"
    and dist: "distinct (map entry_key data)"
    using assms(1) unfolding page_def by blast
  have "FindChildElement U d1 (js ''SR_'' @ entry_key (data ! j)) =
      Inr (map_option (\<lambda>q. (results @ [n + j]) @ rev q) (find_child_spec U (sr_result j (data ! j))))"
    by (rule FindChildElement_spec [OF created_row [OF d(1) dist assms(2)]
          created_at_row [OF d(1) assms(2)]])
  then show ?thesis
    using FindChildElement_erase [OF d(2) page_row [OF assms], of U]
    by (simp add: find_child_sr_result multiple_def)
qed

lemma page_children_of_item:
  assumes "page data results n d" and "j < length data"
  shows "children_of_item U d (results @ [n + j, 0, 0]) =
    Inr (if multiple (data ! j) then Some (results @ [n + j, 0, 1]) else None)"
proof -
  obtain x where "at d (results @ [n + j]) = Some x"
    "elt_id (node x) = js ''SR_'' @ entry_key (data ! j)"
    using page_row_id [OF assms] .
  then show ?thesis
    by (simp add: children_of_item_def page_FindChildElement [OF assms])
qed

definition row_shown :: "dom \<Rightarrow> path \<Rightarrow> nat \<Rightarrow> nat \<Rightarrow> bool" where
  "row_shown d results n j \<longleftrightarrow> display_at d (results @ [n + j]) = js ''block''"

lemma page_NavNext:
  assumes "page data results n d"
  shows "NavNext d (int i) =
    Inr (map_option (\<lambda>j. results @ [n + j, 0, 0]) (find (row_shown d results n) [i..<length data]))"
proof (induction "length data - i" arbitrary: i)
  case 0
  then show ?case by (simp add: NavNext.simps [of d "int i"] page_item [OF assms])
next
  case (Suc k)
  then have i: "i < length data" by simp
  have "NavNext d (int (Suc i)) =
    Inr (map_option (\<lambda>j. results @ [n + j, 0, 0]) (find (row_shown d results n) [Suc i..<length data]))"
    using Suc.hyps by (intro Suc.hyps(1)) simp
  with i show ?case
    by (simp add: NavNext.simps [of d "int i"] page_item [OF assms] upt_conv_Cons row_shown_def add.commute)
qed

lemma page_NavPrev:
  assumes "page data results n d" and "i < int (length data)"
  shows "NavPrev d i =
    Inr (map_option (\<lambda>j. results @ [n + j, 0, 0]) (find (row_shown d results n) (rev [0..<nat (i + 1)])))"
  using assms(2)
proof (induction "nat (i + 1)" arbitrary: i)
  case 0
  then have "i < 0" by simp
  then show ?case by (simp add: NavPrev.simps [of d i] page_item [OF assms(1)])
next
  case (Suc k)
  then have i: "0 \<le> i" "nat (i + 1) = Suc (nat i)" by linarith+
  have "NavPrev d (i - 1) =
    Inr (map_option (\<lambda>j. results @ [n + j, 0, 0]) (find (row_shown d results n) (rev [0..<nat (i - 1 + 1)])))"
    using Suc by (intro Suc.hyps(1)) simp_all
  with i Suc.prems show ?case
    by (simp add: NavPrev.simps [of d i] page_item [OF assms(1)] row_shown_def)
qed

lemma page_last_child:
  assumes "page data results n d" and "i < length data" and "multiple (data ! i)"
    and "c \<le> length (entry_links (data ! i))"
  shows "last_child_loop d (int i) (int c) p =
    (if c = length (entry_links (data ! i)) then p
     else results @ [n + i, 0, 1, length (entry_links (data ! i)) - 1])"
  using assms(4)
proof (induction "length (entry_links (data ! i)) - c" arbitrary: c p)
  case 0
  then show ?case
    by (simp add: last_child_loop.simps [of d "int i" "int c"] page_child [OF assms(1)])
next
  case (Suc k)
  then have c: "c < length (entry_links (data ! i))" by simp
  have "last_child_loop d (int i) (int (Suc c)) (results @ [n + i, 0, 1, c]) =
      (if Suc c = length (entry_links (data ! i)) then results @ [n + i, 0, 1, c]
       else results @ [n + i, 0, 1, length (entry_links (data ! i)) - 1])"
    using Suc by (intro Suc.hyps(1)) simp_all
  with c assms(2,3) show ?case
    by (auto simp: last_child_loop.simps [of d "int i" "int c"] page_child [OF assms(1)] add.commute)
qed

lemma page_last_child_none:
  assumes "page data results n d" and "\<not> (0 \<le> i \<and> i < int (length data) \<and> multiple (data ! nat i))"
    and "-1 \<le> i"
  shows "last_child_loop d i 0 p = p"
proof (cases "0 \<le> i")
  case True
  then have "getElementById d (item_child_id i 0) = None"
    using page_child [OF assms(1), of "nat i" 0] assms(2) by auto
  then show ?thesis by (simp add: last_child_loop.simps [of d i 0])
next
  case False
  then have i: "i = -1" using assms(3) by simp
  obtain d0 d1 where d: "created data d0 results n d1" "erase d = erase d1"
    using assms(1) unfolding page_def by blast
  have neg: "item_child_id (-1) 0 \<noteq> item_child_id (int e) (int c)" for e c
    by (simp add: item_child_id_inj)
  have "find_elts (has_id (item_child_id (-1) 0)) (sr_rows 0 data) n = None"
    by (intro find_sr_rows_none)
      (simp add: find_sr_result find_sr_entry_children find_sr_children_None neg)
  then have "getElementById d1 (item_child_id i 0) = None"
    by (simp add: created_find [OF d(1)] i)
  then show ?thesis
    using erase_eqD(1) [OF d(2)] by (simp add: last_child_loop.simps [of d i 0])
qed

section \<open>Properties\<close>

text \<open>Search data of the shape of \<^verbatim>\<open>doc/html/search/all_3.js\<close> (one entry with two links, two with one; the
  strings shortened) and the page it is put into.\<close>

definition example_data :: "sr_entry list" where
  "example_data =
     [\<lparr>entry_key = js ''d_15'', entry_name = js ''d'',
       entry_links =
         [\<lparr>link_url = js ''a'', link_parent = True, link_scope = js ''x''\<rparr>,
          \<lparr>link_url = js ''b'', link_parent = True, link_scope = js ''y''\<rparr>]\<rparr>,
      \<lparr>entry_key = js ''e_16'', entry_name = js ''e'',
       entry_links = [\<lparr>link_url = js ''c'', link_parent = True, link_scope = js ''z''\<rparr>]\<rparr>,
      \<lparr>entry_key = js ''f_18'', entry_name = js ''f'',
       entry_links = [\<lparr>link_url = js ''d'', link_parent = True, link_scope = js ''w''\<rparr>]\<rparr>]"

definition example_base :: dom where
  "example_base =
     Dom (createElement (js ''body'')) [example_status (js ''SRResults''), example_status (js ''NoMatches'')]"

definition example_created :: dom where
  "example_created = create_loop [0] 0 example_data example_base"

definition show_at :: "path \<Rightarrow> dom \<Rightarrow> dom" where
  "show_at p d = upd p (\<lambda>e. e\<lparr>display := js ''block''\<rparr>) d"

lemma example_is_created: "created example_data example_base [0] 0 example_created"
proof -
  have "getElementById example_base (js ''SRResults'') = Some [0]" "fresh_page example_base"
    "map_option (length \<circ> childNodes) (at example_base [0]) = Some 0"
    by code_simp+
  then show ?thesis by (simp add: created_def createResults_def example_created_def)
qed

lemma example_links [simp]:
  "length example_data = 3" "distinct (map entry_key example_data)"
  "length (entry_links (example_data ! 0)) = 2" "multiple (example_data ! 0)"
  "\<not> multiple (example_data ! Suc 0)" "entry_links (example_data ! 0) \<noteq> []"
  by (simp_all add: example_data_def multiple_def js_inj)

lemma example_page: "page example_data [0] 0 example_created"
  using example_is_created unfolding page_def by auto

lemma example_display [simp]:
  "j < 3 \<Longrightarrow> display_at example_created [0, j] = []" "display_at example_created [0, 0, 0, Suc 0] = []"
  "j < 3 \<Longrightarrow> at example_created [0, j] \<noteq> None" "at example_created [0, 0, 0, Suc 0] \<noteq> None"
proof -
  have at: "at example_created [0, j] = Some (sr_result j (example_data ! j))" if "j < 3" for j
    using created_at_row [OF example_is_created, of j] that by simp
  then show "j < 3 \<Longrightarrow> display_at example_created [0, j] = []" "j < 3 \<Longrightarrow> at example_created [0, j] \<noteq> None"
    by (simp_all add: display_at_def sr_result_def)
  have "at example_created [0, 0, 0, 1] = at (sr_result 0 (example_data ! 0)) [0, 1]"
    using at_append [of example_created "[0, 0]" "[0, 1]"] at [of 0] by simp
  also have "\<dots> = Some (Dom (setClassAttr (js ''SRChildren'') (createElement (js ''div'')))
      (sr_children 0 0 (entry_links (example_data ! 0))))"
    by (simp add: sr_result_def sr_entry_children_def example_data_def)
  finally have "at example_created [0, 0, 0, 1] = \<dots>" .
  then show "display_at example_created [0, 0, 0, Suc 0] = []" "at example_created [0, 0, 0, Suc 0] \<noteq> None"
    by (simp_all add: display_at_def)
qed

lemma show_at_simps [simp]:
  "display_at (show_at p d) q = (if q = p \<and> at d p \<noteq> None then js ''block'' else display_at d q)"
  "(at (show_at p d) q = None) = (at d q = None)"
  using at_upd_defined [of p _ d q] by (auto simp: show_at_def display_at_upd)

lemma document_new [simp]: "document (new_SearchResults d) = d"
  by (simp add: new_SearchResults_def)

lemma js_block_not_Nil [simp]: "js ''block'' \<noteq> []" "[] \<noteq> js ''block''"
  by (simp_all add: js_def)

lemma page_show: "page data results n d \<Longrightarrow> page data results n (show_at p d)"
  by (auto simp: page_def show_at_def erase_upd)

text \<open>
  On a page built by \<open>createResults\<close>, \<open>Toggle\<close> of a row's identifier hides the row's list of
  results if it is displayed and displays it otherwise, changes nothing else, and changes nothing at
  all for a row with a single result.
\<close>

theorem Toggle_created:
  assumes "page data results n d" and "j < length data"
  shows "\<exists>d'. Toggle U (js ''SR_'' @ entry_key (data ! j)) d = Inr d' \<and> erase d' = erase d \<and>
    (\<forall>p. display_at d' p =
      (if multiple (data ! j) \<and> p = results @ [n + j, 0, 1]
       then (if display_at d p = js ''block'' then js ''none'' else js ''block'')
       else display_at d p))"
proof -
  have row: "at d (results @ [n + j, 0, 1]) \<noteq> None" if "multiple (data ! j)"
  proof -
    obtain d0 d1 where d: "created data d0 results n d1" "erase d = erase d1"
      using assms(1) by (elim pageE)
    have "at (sr_result j (data ! j)) [0, 1] \<noteq> None"
      by (auto simp: sr_result_def sr_entry_children_def split: list.splits)
    then have "at d1 ((results @ [n + j]) @ [0, 1]) \<noteq> None"
      unfolding at_append [of d1 "results @ [n + j]"] created_at_row [OF d(1) assms(2)] by simp
    then show ?thesis using erase_eqD(2) [OF d(2), of "results @ [n + j, 0, 1]"] by auto
  qed
  then show ?thesis
    by (auto simp: Toggle_def page_FindChildElement [OF assms] erase_upd display_at_upd)
qed

theorem Toggle_created_witness:
  "\<exists>d'. Toggle id (js ''SR_d_15'') example_created = Inr d' \<and>
     display_at d' [0, 0, 0, 1] = js ''block''"
proof -
  have key: "js ''SR_'' @ entry_key (example_data ! 0) = js ''SR_d_15''"
    by (simp add: example_data_def js_def)
  show ?thesis
    using Toggle_created [OF example_page, of 0 id] unfolding key by auto
qed

text \<open>
  Pressing Down on an item of a created page moves the focus to the first result of its list when
  that is displayed, otherwise to the next displayed item; with none left the focus stays.
\<close>

theorem Nav_down_created:
  assumes "page data results n (document s)" and "i < length data"
    and "event_type e = KeyDown" and "keyCode e = 40"
  shows "Nav U e (int i) s = Inr (False,
    (let s1 = s\<lparr>repeatOn := False, lastKey := 40\<rparr> in
     if multiple (data ! i) \<and> display_at (document s) (results @ [n + i, 0, 1]) = js ''block'' \<and>
        entry_links (data ! i) \<noteq> []
     then focus_on (results @ [n + i, 0, 1, 0]) s1
     else case find (row_shown (document s) results n) [Suc i..<length data] of
       None \<Rightarrow> s1
     | Some j \<Rightarrow> focus_on (results @ [n + j, 0, 0]) s1))"
proof -
  have down: "nav_down U (int i) (s\<lparr>repeatOn := False, lastKey := 40\<rparr>) = Inr
    (let s1 = s\<lparr>repeatOn := False, lastKey := 40\<rparr> in
     if multiple (data ! i) \<and> display_at (document s) (results @ [n + i, 0, 1]) = js ''block'' \<and>
        entry_links (data ! i) \<noteq> []
     then focus_on (results @ [n + i, 0, 1, 0]) s1
     else case find (row_shown (document s) results n) [Suc i..<length data] of
       None \<Rightarrow> s1
     | Some j \<Rightarrow> focus_on (results @ [n + j, 0, 0]) s1)"
  proof -
    have nx: "NavNext (document s) (int i + 1) = Inr (map_option (\<lambda>j. results @ [n + j, 0, 0])
        (find (row_shown (document s) results n) [Suc i..<length data]))"
      using page_NavNext [OF assms(1), of "Suc i"] by (simp add: add.commute)
    have c0: "getElementById (document s) (item_child_id (int i) 0) =
        (if multiple (data ! i) \<and> entry_links (data ! i) \<noteq> [] then Some (results @ [n + i, 0, 1, 0])
         else None)"
      using page_child [OF assms(1), of i 0] assms(2) by auto
    have it: "getElementById (document s) (item_id (int i)) = Some (results @ [n + i, 0, 0])"
      using assms(2) by (simp add: page_item [OF assms(1)])
    show ?thesis
      by (simp add: nav_down_def it nx c0 page_children_of_item [OF assms(1,2)]
          expanded_def Let_def split: option.splits)
  qed
  show ?thesis
    using assms(3,4) by (simp add: Nav_def ProcessKeys_def down)
qed

theorem Nav_down_created_witness:
  "\<exists>s'. Nav id \<lparr>event_type = KeyDown, keyCode = 40\<rparr> (int 0)
      (new_SearchResults (show_at [0, 2] example_created)) = Inr (False, s') \<and>
    focused s' = Some [0, 2, 0, 0]"
proof -
  let ?d = "show_at [0, 2] example_created"
  have f: "find (row_shown ?d [0] 0) [Suc 0..<3] = Some 2"
    by (simp add: row_shown_def upt_conv_Cons)
  show ?thesis
    using Nav_down_created [of example_data "[0]" 0 "new_SearchResults ?d" 0
        "\<lparr>event_type = KeyDown, keyCode = 40\<rparr>" id] f page_show [OF example_page]
    by (simp add: focus_on_def)
qed

lemma page_nav_up:
  assumes "page data results n (document s)" and "i < length data"
  shows "nav_up U (int i) (s\<lparr>repeatOn := False, lastKey := 38\<rparr>) = Inr
    (let s1 = s\<lparr>repeatOn := False, lastKey := 38\<rparr> in
     case find (row_shown (document s) results n) (rev [0..<i]) of
       None \<Rightarrow> call_parent Parent_focus_MSearchField s1
     | Some j \<Rightarrow>
         focus_on
           (if multiple (data ! j) \<and> display_at (document s) (results @ [n + j, 0, 1]) = js ''block'' \<and>
               multiple (data ! (i - 1)) \<and> entry_links (data ! (i - 1)) \<noteq> []
            then results @ [n + (i - 1), 0, 1, length (entry_links (data ! (i - 1))) - 1]
            else results @ [n + j, 0, 0]) s1)"
proof -
  let ?d = "document s"
  have prev: "NavPrev ?d (int i - 1) =
      Inr (map_option (\<lambda>j. results @ [n + j, 0, 0]) (find (row_shown ?d results n) (rev [0..<i])))"
    using page_NavPrev [OF assms(1), of "int i - 1"] assms(2) by simp
  have ch: "children_of_item U ?d (results @ [n + j, 0, 0]) =
      Inr (if multiple (data ! j) then Some (results @ [n + j, 0, 1]) else None)"
    if "find (row_shown ?d results n) (rev [0..<i]) = Some j" for j
  proof -
    have "j < i" using that by (auto simp: find_Some_iff rev_nth)
    then show ?thesis using page_children_of_item [OF assms(1)] assms(2) by simp
  qed
  have last: "last_child_loop ?d (int i - 1) 0 p =
      (if multiple (data ! (i - 1)) \<and> entry_links (data ! (i - 1)) \<noteq> []
       then results @ [n + (i - 1), 0, 1, length (entry_links (data ! (i - 1))) - 1] else p)"
    if "0 < i" for p
  proof (cases "multiple (data ! (i - 1))")
    case True
    then show ?thesis
      using page_last_child [OF assms(1), of "i - 1" 0 p] that assms(2)
      by (simp add: of_nat_diff)
  next
    case False
    have "nat (int i - 1) = i - 1" using that by simp
    then show ?thesis
      using page_last_child_none [OF assms(1), of "int i - 1" p] that False by simp
  qed
  have pos: "find (row_shown ?d results n) (rev [0..<i]) = Some j \<Longrightarrow> 0 < i" for j
    by (cases i) auto
  show ?thesis
    by (cases "find (row_shown ?d results n) (rev [0..<i])")
      (auto simp: nav_up_def prev ch last pos expanded_def Let_def)
qed

text \<open>
  Pressing Up on an item of a created page moves the focus to the nearest displayed item above,
  or to the search field when there is none. When that item's list is displayed the focus goes on to
  the last entry of the list of the item directly above the current one, which is the same list only
  when the item directly above is the displayed one.
\<close>

theorem Nav_up_created:
  assumes "page data results n (document s)" and "i < length data"
    and "event_type e = KeyDown" and "keyCode e = 38"
  shows "Nav U e (int i) s = Inr (False,
    (let s1 = s\<lparr>repeatOn := False, lastKey := 38\<rparr> in
     case find (row_shown (document s) results n) (rev [0..<i]) of
       None \<Rightarrow> call_parent Parent_focus_MSearchField s1
     | Some j \<Rightarrow>
         focus_on
           (if multiple (data ! j) \<and> display_at (document s) (results @ [n + j, 0, 1]) = js ''block'' \<and>
               multiple (data ! (i - 1)) \<and> entry_links (data ! (i - 1)) \<noteq> []
            then results @ [n + (i - 1), 0, 1, length (entry_links (data ! (i - 1))) - 1]
            else results @ [n + j, 0, 0]) s1))"
  using assms(3,4) by (simp add: Nav_def ProcessKeys_def page_nav_up [OF assms(1,2)])

theorem Nav_up_created_witness:
  "\<exists>s'. Nav id \<lparr>event_type = KeyDown, keyCode = 38\<rparr> (int 1)
      (new_SearchResults (show_at [0, 0, 0, 1] (show_at [0, 0] example_created))) = Inr (False, s') \<and>
    focused s' = Some [0, 0, 0, 1, 1]"
proof -
  let ?d = "show_at [0, 0, 0, 1] (show_at [0, 0] example_created)"
  have f: "find (row_shown ?d [0] 0) (rev [0..<Suc 0]) = Some 0"
    by (simp add: row_shown_def)
  show ?thesis
    using Nav_up_created [of example_data "[0]" 0 "new_SearchResults ?d" 1
        "\<lparr>event_type = KeyDown, keyCode = 38\<rparr>" id] f page_show [OF page_show [OF example_page]]
    by (simp add: focus_on_def)
qed

lemma find_below:
  assumes "P i" "i < j" "\<And>k. i < k \<Longrightarrow> k < j \<Longrightarrow> \<not> P k"
  shows "find P (rev [0..<j]) = Some i"
  using assms(2,3)
proof (induction j)
  case (Suc j)
  then show ?case using assms(1) by (cases "i = j") simp_all
qed simp

lemma find_above:
  assumes "P j" "i < j" "j < m" "\<And>k. i < k \<Longrightarrow> k < j \<Longrightarrow> \<not> P k"
  shows "find P [Suc i..<m] = Some j"
proof -
  have "[Suc i..<m] = [Suc i..<j] @ j # [Suc j..<m]"
    using assms(2,3) upt_add_eq_append [of "Suc i" j "m - j"] by (simp add: upt_conv_Cons)
  moreover have "find P [Suc i..<j] = None" using assms(4) by (simp add: find_None_iff)
  moreover have "find P (xs @ j # ys) = Some j" if "find P xs = None" for xs ys
    using that assms(1) by (induction xs) (auto split: if_splits)
  ultimately show ?thesis by simp
qed

text \<open>
  C22. The arrow keys walk the displayed results. On a page built by \<open>createResults\<close>, with any of its rows and lists displayed, let \<open>j\<close>
  be the next displayed row after the displayed row \<open>i\<close>, whose own list of results, if it has one, is not displayed. Pressing Down on the item of row \<open>i\<close> moves the
  focus to the item of row \<open>j\<close>, pressing Up there moves it back to the item of row \<open>i\<close>, and the page is as it was. When
  no row is displayed below, Down leaves the focus where it is, and when none is displayed above, Up returns to the search field.
\<close>

theorem down_up_returns:
  assumes "page data results n (document s)" and "i < length data" and "display_at (document s) (results @ [n + i]) = js ''block''"
    and "multiple (data ! i) \<longrightarrow> display_at (document s) (results @ [n + i, 0, 1]) \<noteq> js ''block''"
    and "event_type down = KeyDown" and "keyCode down = 40" and "event_type up = KeyDown" and "keyCode up = 38"
    and "\<And>k. i < k \<Longrightarrow> k < j \<Longrightarrow> display_at (document s) (results @ [n + k]) \<noteq> js ''block''"
  shows "(i < j \<and> j < length data \<and> display_at (document s) (results @ [n + j]) = js ''block'' \<longrightarrow>
      (\<exists>s1 s2. Nav U down (int i) s = Inr (False, s1) \<and> focused s1 = Some (results @ [n + j, 0, 0]) \<and>
        Nav U up (int j) s1 = Inr (False, s2) \<and> focused s2 = Some (results @ [n + i, 0, 0]) \<and> document s2 = document s)) \<and>
    (j = length data \<longrightarrow>
      (\<exists>s1. Nav U down (int i) s = Inr (False, s1) \<and> focused s1 = focused s \<and> document s1 = document s)) \<and>
    ((\<forall>k < i. display_at (document s) (results @ [n + k]) \<noteq> js ''block'') \<longrightarrow>
      (\<exists>s1. Nav U up (int i) s = Inr (False, s1) \<and> focused s1 = focused s \<and>
        parent_calls s1 = parent_calls s @ [Parent_focus_MSearchField] \<and> document s1 = document s))"
proof (intro conjI impI)
  let ?P = "row_shown (document s) results n"
  let ?s1 = "s\<lparr>repeatOn := False, lastKey := 40\<rparr>"
  note shown = row_shown_def [of "document s" results n]
  have closed: "\<not> (multiple (data ! i) \<and> display_at (document s) (results @ [n + i, 0, 1]) = js ''block'' \<and> x)" for x
    using assms(4) by blast
  note down = Nav_down_created [OF assms(1,2,5,6), of U, unfolded Let_def if_not_P [OF closed]]
  show "\<exists>s1 s2. Nav U down (int i) s = Inr (False, s1) \<and> focused s1 = Some (results @ [n + j, 0, 0]) \<and>
      Nav U up (int j) s1 = Inr (False, s2) \<and> focused s2 = Some (results @ [n + i, 0, 0]) \<and> document s2 = document s"
    if j: "i < j \<and> j < length data \<and> display_at (document s) (results @ [n + j]) = js ''block''"
  proof -
    have d: "find ?P [Suc i..<length data] = Some j" using j assms(9) by (intro find_above) (auto simp: shown)
    let ?t = "focus_on (results @ [n + j, 0, 0]) ?s1"
    have doc: "document ?t = document s" by (simp add: focus_on_def)
    have u: "find ?P (rev [0..<j]) = Some i" using j assms(3,9) by (intro find_below) (auto simp: shown)
    have "Nav U up (int j) ?t = Inr (False, focus_on (results @ [n + i, 0, 0]) (?t\<lparr>repeatOn := False, lastKey := 38\<rparr>))"
      using Nav_up_created [of data results n ?t j up U] assms(1,4,7,8) j u by (auto simp: doc Let_def)
    then show ?thesis using down d by (auto simp: focus_on_def)
  qed
  show "\<exists>s1. Nav U down (int i) s = Inr (False, s1) \<and> focused s1 = focused s \<and> document s1 = document s" if "j = length data"
  proof -
    have "find ?P [Suc i..<length data] = None" using that assms(9) by (auto simp: find_None_iff shown)
    with down show ?thesis by auto
  qed
  show "\<exists>s1. Nav U up (int i) s = Inr (False, s1) \<and> focused s1 = focused s \<and>
      parent_calls s1 = parent_calls s @ [Parent_focus_MSearchField] \<and> document s1 = document s"
    if "\<forall>k < i. display_at (document s) (results @ [n + k]) \<noteq> js ''block''"
  proof -
    have "find ?P (rev [0..<i]) = None" using that by (auto simp: find_None_iff shown)
    with Nav_up_created [OF assms(1,2,7,8), of U] show ?thesis by (auto simp: Let_def call_parent_def)
  qed
qed

theorem down_up_returns_witness:
  "\<exists>s1 s2. Nav id \<lparr>event_type = KeyDown, keyCode = 40\<rparr> (int 0) (new_SearchResults (show_at [0, 0] (show_at [0, 2] example_created))) = Inr (False, s1) \<and>
     focused s1 = Some [0, 2, 0, 0] \<and> Nav id \<lparr>event_type = KeyDown, keyCode = 38\<rparr> (int 2) s1 = Inr (False, s2) \<and> focused s2 = Some [0, 0, 0, 0]"
proof -
  let ?s = "new_SearchResults (show_at [0, 0] (show_at [0, 2] example_created))"
  have "page example_data [0] 0 (document ?s)" using page_show [OF page_show [OF example_page]] by simp
  moreover have "display_at (document ?s) ([0] @ [0 + 0]) = js ''block''" "display_at (document ?s) ([0] @ [0 + 2]) = js ''block''"
    "\<And>k. 0 < k \<Longrightarrow> k < 2 \<Longrightarrow> display_at (document ?s) ([0] @ [0 + k]) \<noteq> js ''block''"
    "display_at (document ?s) ([0] @ [0 + 0, 0, 1]) \<noteq> js ''block''"
    by simp_all
  moreover have "0 < length example_data" "2 < length example_data" by simp_all
  ultimately show ?thesis
    using down_up_returns [of example_data "[0]" 0 ?s 0 "\<lparr>event_type = KeyDown, keyCode = 40\<rparr>" "\<lparr>event_type = KeyDown, keyCode = 38\<rparr>" 2 id]
    by auto
qed

text \<open>
  Because the search for the last child uses the number of the item directly above instead of
  the number of the item that was found, pressing Up past a hidden row does not reach the displayed
  results of the row above it: the focus stops at the row's own link although two results of it are
  displayed below.
\<close>

theorem Nav_up_misses_last_child:
  "\<exists>s'. Nav id \<lparr>event_type = KeyDown, keyCode = 38\<rparr> 2
      (new_SearchResults (show_at [0, 0, 0, 1] (show_at [0, 0] (show_at [0, 2] example_created)))) =
      Inr (False, s') \<and>
    focused s' = getElementById example_created (item_id 0) \<and>
    getElementById example_created (item_child_id 0 1) = Some [0, 0, 0, 1, 1] \<and>
    display_at (document s') [0, 0, 0, 1] = js ''block''"
proof -
  let ?d = "show_at [0, 0, 0, 1] (show_at [0, 0] (show_at [0, 2] example_created))"
  have f: "find (row_shown ?d [0] 0) (rev [0..<2]) = Some 0"
    by (simp add: row_shown_def upt_conv_Cons)
  have p: "page example_data [0] 0 ?d"
    using page_show [OF page_show [OF page_show [OF example_page]]] .
  have g: "getElementById example_created (item_id 0) = Some [0, 0, 0, 0]"
    "getElementById example_created (item_child_id 0 1) = Some [0, 0, 0, 1, 1]"
    using page_item [OF example_page, of 0] page_child [OF example_page, of 0 1] by simp_all
  show ?thesis
    using page_nav_up [of example_data "[0]" 0 "new_SearchResults ?d" 2 id] f p g
    by (simp add: Nav_def ProcessKeys_def focus_on_def)
qed

end
