(* ===== verification/JS_Timers.thy ===== *)
theory JS_Timers
  imports JS_Strings
begin

text \<open>
  The browser's timers, which the search box, the copy button and the table of contents use:
  \<open>setTimeout\<close> returns a fresh positive number, \<open>clearTimeout\<close> forgets the timer of that number.
  What the scripts rely on is stated as the locale \<open>timer_queue\<close>; its client lemmas are about code
  that keeps the number of its one pending timer.
\<close>

section \<open>The interface\<close>

locale timer_queue =
  fixes set_timer :: "'a \<Rightarrow> 't \<Rightarrow> nat \<times> 't"
    and clear_timer :: "nat \<Rightarrow> 't \<Rightarrow> 't"
    and pending :: "'t \<Rightarrow> (nat \<times> 'a) list"
    and timers_ok :: "'t \<Rightarrow> bool"
  assumes set_fresh: "timers_ok t \<Longrightarrow> set_timer a t = (n, t') \<Longrightarrow> 0 < n \<and> n \<notin> fst ` set (pending t)"
    and set_pending: "timers_ok t \<Longrightarrow> set_timer a t = (n, t') \<Longrightarrow> pending t' = pending t @ [(n, a)]"
    and clear_pending: "timers_ok t \<Longrightarrow> pending (clear_timer n t) = filter (\<lambda>x. fst x \<noteq> n) (pending t)"
    and set_ok: "timers_ok t \<Longrightarrow> set_timer a t = (n, t') \<Longrightarrow> timers_ok t'"
    and clear_ok: "timers_ok t \<Longrightarrow> timers_ok (clear_timer n t)"
begin

text \<open>\<open>owned P n t\<close>: the pending timers with an action of the kind \<open>P\<close> are the one whose number the
  client keeps in \<open>n\<close>, or none when it keeps 0.\<close>

definition owned :: "('a \<Rightarrow> bool) \<Rightarrow> nat \<Rightarrow> 't \<Rightarrow> bool" where
  "owned P n t \<longleftrightarrow> map fst (filter (\<lambda>x. P (snd x)) (pending t)) = (if n = 0 then [] else [n])"

lemma owned_numbers: "owned P n t \<Longrightarrow> x \<in> set (pending t) \<Longrightarrow> P (snd x) \<Longrightarrow> fst x = n"
proof -
  assume o: "owned P n t" and "x \<in> set (pending t)" "P (snd x)"
  then have "fst x \<in> set (map fst (filter (\<lambda>x. P (snd x)) (pending t)))" by auto
  with o show ?thesis by (auto simp: owned_def split: if_splits)
qed

lemma owned_clear:
  assumes "timers_ok t" "owned P n t"
  shows "owned P 0 (clear_timer n t)"
  using assms owned_numbers [OF assms(2)] by (auto simp: owned_def clear_pending filter_empty_conv)

lemma owned_clear_other:
  assumes "timers_ok t" "owned P n t" "\<And>x. x \<in> set (pending t) \<Longrightarrow> fst x = k \<Longrightarrow> \<not> P (snd x)"
  shows "owned P n (clear_timer k t)"
proof -
  have "filter (\<lambda>x. P (snd x)) (filter (\<lambda>x. fst x \<noteq> k) (pending t)) = filter (\<lambda>x. P (snd x)) (pending t)"
    using assms(3) by (induction "pending t") (auto intro!: filter_cong)
  then show ?thesis using assms(1,2) by (simp add: owned_def clear_pending)
qed

lemma owned_set:
  assumes "timers_ok t" "owned P 0 t" "set_timer a t = (n, t')" "P a"
  shows "owned P n t'"
  using assms set_fresh [OF assms(1,3)] by (simp add: owned_def set_pending [OF assms(1,3)])

lemma owned_set_other:
  assumes "timers_ok t" "owned P m t" "set_timer a t = (n, t')" "\<not> P a"
  shows "owned P m t'"
  using assms by (simp add: owned_def set_pending [OF assms(1,3)])

lemma owned_at_most_one: "owned P n t \<Longrightarrow> length (filter (\<lambda>x. P (snd x)) (pending t)) \<le> 1"
proof -
  assume "owned P n t"
  then have "length (map fst (filter (\<lambda>x. P (snd x)) (pending t))) \<le> 1"
    unfolding owned_def by simp
  then show ?thesis by simp
qed

end

section \<open>The browser's timers\<close>

record 'a timers =
  next_timer :: nat
  timer_list :: "(nat \<times> 'a) list"

definition no_timers :: "'a timers" where
  "no_timers = \<lparr>next_timer = 1, timer_list = []\<rparr>"

definition setTimeout :: "'a \<Rightarrow> 'a timers \<Rightarrow> nat \<times> 'a timers" where
  "setTimeout a t = (next_timer t,
     t\<lparr>next_timer := Suc (next_timer t), timer_list := timer_list t @ [(next_timer t, a)]\<rparr>)"

definition clearTimeout :: "nat \<Rightarrow> 'a timers \<Rightarrow> 'a timers" where
  "clearTimeout n t = t\<lparr>timer_list := filter (\<lambda>x. fst x \<noteq> n) (timer_list t)\<rparr>"

definition timers_wf :: "'a timers \<Rightarrow> bool" where
  "timers_wf t \<longleftrightarrow> 0 < next_timer t \<and> list_all (\<lambda>x. fst x < next_timer t \<and> 0 < fst x) (timer_list t)
     \<and> distinct (map fst (timer_list t))"

lemma no_timers_wf [simp]: "timers_wf no_timers"
  by (simp add: timers_wf_def no_timers_def)

interpretation browser: timer_queue setTimeout clearTimeout timer_list timers_wf
proof unfold_locales
  fix t t' :: "'a timers" and a n
  assume wf: "timers_wf t"
  show "timer_list (clearTimeout n t) = filter (\<lambda>x. fst x \<noteq> n) (timer_list t)"
    by (simp add: clearTimeout_def)
  show "timers_wf (clearTimeout n t)"
    using wf by (auto simp: timers_wf_def clearTimeout_def list_all_iff distinct_map inj_on_def)
  assume st: "setTimeout a t = (n, t')"
  show "0 < n \<and> n \<notin> fst ` set (timer_list t)"
    using wf st by (auto simp: setTimeout_def timers_wf_def list_all_iff)
  show "timer_list t' = timer_list t @ [(n, a)]"
    using st by (auto simp: setTimeout_def)
  show "timers_wf t'"
    using wf st by (fastforce simp: setTimeout_def timers_wf_def list_all_iff)
qed

end
