(* ===== verification/JS_SearchBox.thy ===== *)
theory JS_SearchBox
  imports JS_SearchResults JS_Timers
begin

text \<open>
  The search panel of the documentation pages, class \<open>SearchBox\<close> and \<open>init_search\<close> of
  \<^verbatim>\<open>doc/html/search/search.js\<close>. The state holds the object's fields, the seven elements of the page
  the object works on, the children of the selection window, the pending timers and what was sent
  to the results frame. The generated tables of \<^verbatim>\<open>searchdata.js\<close> and the browser's layout are
  parameters. The focus is recorded; handlers the page attaches to focus changes are not run by it.
\<close>

section \<open>Positions\<close>

datatype offset_item =
  Offset_Item (offsetWidth: int) (offsetHeight: int) (offsetLeft: int) (offsetTop: int)
    (is_body: bool) (offsetParent: "offset_item option")

fun sum_offsets :: "(offset_item \<Rightarrow> int) \<Rightarrow> offset_item \<Rightarrow> int" where
  "sum_offsets f (Offset_Item w h l t b p) =
     (if b then 0
      else f (Offset_Item w h l t b p) + (case p of None \<Rightarrow> 0 | Some q \<Rightarrow> sum_offsets f q))"

definition getXPos :: "offset_item \<Rightarrow> int" where
  "getXPos item = (if offsetWidth item \<noteq> 0 then sum_offsets offsetLeft item else 0)"

definition getYPos :: "offset_item \<Rightarrow> int" where
  "getYPos item = (if offsetWidth item \<noteq> 0 then sum_offsets offsetTop item else 0)"

section \<open>Comparing a string with the number 1\<close>

text \<open>The comparison \<^verbatim>\<open>searchValue > 1\<close> converts the string to a number: white space is trimmed, the
  rest has to be a numeric literal, and anything else is NaN, for which the comparison is false. A
  decimal literal is rounded to a double, so it exceeds 1 when it exceeds 1 + 2^-53.\<close>

definition js_ws :: "nat \<Rightarrow> bool" where
  "js_ws c \<longleftrightarrow> 9 \<le> c \<and> c \<le> 13 \<or> c = 32 \<or> c = 160 \<or> c = 5760 \<or> 8192 \<le> c \<and> c \<le> 8202 \<or>
     c = 8232 \<or> c = 8233 \<or> c = 8239 \<or> c = 8287 \<or> c = 12288 \<or> c = 65279"

definition js_trim :: "jsstr \<Rightarrow> jsstr" where
  "js_trim s = rev (dropWhile js_ws (rev (dropWhile js_ws s)))"

definition dec_num :: "jsstr \<Rightarrow> nat" where
  "dec_num ds = foldl (\<lambda>v d. v * 10 + (d - 48)) 0 ds"

definition exponent_part :: "jsstr \<Rightarrow> int option" where
  "exponent_part s =
     (case s of
        [] \<Rightarrow> Some 0
      | c # t \<Rightarrow>
          let neg = (take 1 t = [45]); ds = (if take 1 t = [45] \<or> take 1 t = [43] then drop 1 t else t) in
          if c \<in> {101, 69} \<and> ds \<noteq> [] \<and> list_all is_digit ds
          then Some (if neg then - int (dec_num ds) else int (dec_num ds)) else None)"

definition decimal_gt_one :: "jsstr \<Rightarrow> bool" where
  "decimal_gt_one u =
     (if u = js ''Infinity'' then True
      else
        let ds = takeWhile is_digit u; r = dropWhile is_digit u;
            fs = (if take 1 r = [46] then takeWhile is_digit (drop 1 r) else []);
            r' = (if take 1 r = [46] then dropWhile is_digit (drop 1 r) else r)
        in ds @ fs \<noteq> [] \<and>
           (case exponent_part r' of
              None \<Rightarrow> False
            | Some e \<Rightarrow>
                let k = e - int (length fs); m = dec_num (ds @ fs) in
                if 0 \<le> k then 2 ^ 53 + 1 < m * 10 ^ nat k * 2 ^ 53
                else (2 ^ 53 + 1) * 10 ^ nat (- k) < m * 2 ^ 53))"

definition radix_literal_gt_one :: "jsstr \<Rightarrow> bool option" where
  "radix_literal_gt_one s =
     (case s of
        z # x # ds \<Rightarrow>
          if z = 48 \<and> x \<in> {120, 88}
          then Some (ds \<noteq> [] \<and> list_all is_hex ds \<and> 1 < hex_num ds)
          else if z = 48 \<and> x \<in> {111, 79}
          then Some (ds \<noteq> [] \<and> list_all (\<lambda>c. 48 \<le> c \<and> c \<le> 55) ds \<and> 1 < foldl (\<lambda>v d. v * 8 + (d - 48)) 0 ds)
          else if z = 48 \<and> x \<in> {98, 66}
          then Some (ds \<noteq> [] \<and> list_all (\<lambda>c. 48 \<le> c \<and> c \<le> 49) ds \<and> 1 < foldl (\<lambda>v d. v * 2 + (d - 48)) 0 ds)
          else None
      | _ \<Rightarrow> None)"

definition str_gt_one :: "jsstr \<Rightarrow> bool" where
  "str_gt_one s =
     (let t = js_trim s in
      case radix_literal_gt_one t of
        Some b \<Rightarrow> b
      | None \<Rightarrow>
          if t = [] \<or> take 1 t = [45] then False
          else decimal_gt_one (if take 1 t = [43] then drop 1 t else t))"

section \<open>State\<close>

datatype box_id =
  MSearchField | MSearchSelect | MSearchSelectWindow | MSearchResults | MSearchResultsWindow
| MSearchClose | MSearchBox

record ui_elt =
  ui_display :: jsstr
  ui_left :: jsstr
  ui_top :: jsstr
  ui_width :: jsstr
  ui_position :: jsstr
  ui_class :: jsstr
  field_value :: jsstr

text \<open>A child of the selection window; \<open>mark\<close> is the \<open>innerHTML\<close> of its first child.\<close>

record select_child =
  child_class :: jsstr
  child_onclick :: jsstr
  child_href :: jsstr
  mark :: "jsstr option"
  child_label :: jsstr

datatype timer_action = Run_Search | Run_CloseSelectionWindow

datatype focus_target = Focus_elt box_id | Focus_select nat

record search_box =
  box_name :: jsstr
  resultsPath :: jsstr
  keyTimeout :: nat
  keyTimeoutLength :: nat
  closeSelectionTimeout :: nat
  lastSearchValue :: jsstr
  lastResultsPage :: jsstr
  hideTimeout :: nat
  searchIndex :: int
  searchActive :: bool
  insideFrame :: bool
  searchLabel :: jsstr
  extension :: jsstr
  alerts :: "jsstr list"
  ui :: "box_id \<Rightarrow> ui_elt"
  select_children :: "select_child list"
  box_focus :: "focus_target option"
  box_timers :: "timer_action timers"
  frame_location :: jsstr
  frame_messages :: "jsstr list"

text \<open>What the page gives the object: its layout, which depends on what is displayed, the width of
  the page and the generated tables.\<close>

record page_env =
  layout :: "(box_id \<Rightarrow> ui_elt) \<Rightarrow> box_id \<Rightarrow> offset_item"
  clientWidth :: int
  indexSectionsWithContent :: "int \<Rightarrow> jsstr option"
  indexSectionNames :: "int \<Rightarrow> jsstr option"
  lower_case :: "jsstr \<Rightarrow> jsstr"

definition new_SearchBox ::
    "jsstr \<Rightarrow> jsstr \<Rightarrow> bool \<Rightarrow> jsstr \<Rightarrow> jsstr \<Rightarrow> (box_id \<Rightarrow> ui_elt) \<Rightarrow> select_child list \<Rightarrow> search_box" where
  "new_SearchBox name path inFrame lbl ext u cs =
     \<lparr>box_name = name, resultsPath = path, keyTimeout = 0, keyTimeoutLength = 500,
      closeSelectionTimeout = 300, lastSearchValue = [], lastResultsPage = [], hideTimeout = 0,
      searchIndex = 0, searchActive = False, insideFrame = inFrame, searchLabel = lbl,
      extension = (if ext = [] then js ''.html'' else ext),
      alerts = (if name = [] \<or> path = [] then [js ''Missing parameters to SearchBox.''] else []),
      ui = u, select_children = cs, box_focus = None, box_timers = no_timers,
      frame_location = [], frame_messages = []\<rparr>"

definition set_ui :: "box_id \<Rightarrow> (ui_elt \<Rightarrow> ui_elt) \<Rightarrow> search_box \<Rightarrow> search_box" where
  "set_ui b f s = s\<lparr>ui := (ui s)(b := f (ui s b))\<rparr>"

definition show_as :: "box_id \<Rightarrow> jsstr \<Rightarrow> search_box \<Rightarrow> search_box" where
  "show_as b v = set_ui b (\<lambda>e. e\<lparr>ui_display := v\<rparr>)"

definition px :: "int \<Rightarrow> jsstr" where
  "px i = num_str i @ js ''px''"

definition search_value :: "search_box \<Rightarrow> jsstr" where
  "search_value s = field_value (ui s MSearchField)"

section \<open>Actions\<close>

definition Activate :: "bool \<Rightarrow> search_box \<Rightarrow> search_box" where
  "Activate isActive s =
     (if isActive \<or> ui_display (ui s MSearchResultsWindow) = js ''block'' then
        let s1 = set_ui MSearchBox (\<lambda>e. e\<lparr>ui_class := js ''MSearchBoxActive''\<rparr>) s in
        if search_value s1 = searchLabel s1
        then (set_ui MSearchField (\<lambda>e. e\<lparr>field_value := []\<rparr>) s1)\<lparr>searchActive := True\<rparr>
        else s1
      else
        (set_ui MSearchField (\<lambda>e. e\<lparr>field_value := searchLabel s\<rparr>)
          (set_ui MSearchBox (\<lambda>e. e\<lparr>ui_class := js ''MSearchBoxInactive''\<rparr>) s))
          \<lparr>searchActive := False, lastSearchValue := [], lastResultsPage := []\<rparr>)"

definition OnSearchFieldFocus :: "bool \<Rightarrow> search_box \<Rightarrow> search_box" where
  "OnSearchFieldFocus isActive s = Activate isActive s"

definition CloseResultsWindow :: "search_box \<Rightarrow> search_box" where
  "CloseResultsWindow s =
     Activate False (show_as MSearchClose (js ''none'') (show_as MSearchResultsWindow (js ''none'') s))"

definition CloseSelectionWindow :: "search_box \<Rightarrow> search_box" where
  "CloseSelectionWindow s = show_as MSearchSelectWindow (js ''none'') s"

text \<open>The index character and the page of a search.\<close>

definition idx_char :: "(jsstr \<Rightarrow> jsstr) \<Rightarrow> jsstr \<Rightarrow> jsstr" where
  "idx_char U searchValue =
     (case toLowerCase U searchValue of
        [] \<Rightarrow> toLowerCase U (take 1 searchValue)
      | code # _ \<Rightarrow>
          if 55296 \<le> code \<and> code \<le> 56319 \<and> str_gt_one searchValue then take 2 searchValue
          else toLowerCase U (take 1 searchValue))"

lemma idx_char_ascii [simp]: "ascii s \<Longrightarrow> idx_char U s = map ascii_lower (take 1 s)"
  by (cases s) (auto simp: idx_char_def toLowerCase_def ascii_def ascii_lower_def)

definition or_undefined :: "jsstr option \<Rightarrow> jsstr" where
  "or_undefined x = (case x of None \<Rightarrow> js ''undefined'' | Some v \<Rightarrow> v)"

text \<open>The chosen page and the address the frame is sent to.\<close>

definition results_page :: "page_env \<Rightarrow> search_box \<Rightarrow> jsstr \<Rightarrow> jsstr \<Rightarrow> jsstr \<times> jsstr" where
  "results_page env s sections searchValue =
     (case indexOf sections (idx_char (lower_case env) searchValue) of
        Some idx \<Rightarrow>
          let resultsPage = resultsPath s @ js ''/'' @
                or_undefined (indexSectionNames env (searchIndex s)) @ js ''_'' @ toString 16 idx @ extension s
          in (resultsPage, resultsPage @ js ''?'' @ escape searchValue)
      | None \<Rightarrow>
          let resultsPage = resultsPath s @ js ''/nomatches'' @ extension s in (resultsPage, resultsPage))"

definition open_results_window :: "page_env \<Rightarrow> search_box \<Rightarrow> search_box" where
  "open_results_window env s =
     (if ui_display (ui s MSearchResultsWindow) = js ''block'' then s
      else
        let s1 = show_as MSearchClose (js ''inline-block'') s in
        if insideFrame s1 then
          let s2 = set_ui MSearchResultsWindow
                     (\<lambda>e. e\<lparr>ui_position := js ''relative'', ui_display := js ''block''\<rparr>) s1;
              width = clientWidth env - 8;
              s3 = set_ui MSearchResultsWindow (\<lambda>e. e\<lparr>ui_width := px width\<rparr>) s2
          in set_ui MSearchResults (\<lambda>e. e\<lparr>ui_width := px width\<rparr>) s3
        else
          let left = getXPos (layout env (ui s1) MSearchBox) + 150;
              top = getYPos (layout env (ui s1) MSearchBox) + 20;
              s2 = show_as MSearchResultsWindow (js ''block'') s1;
              left' = left - offsetWidth (layout env (ui s2) MSearchResults)
          in set_ui MSearchResultsWindow (\<lambda>e. e\<lparr>ui_top := px top, ui_left := px left'\<rparr>) s2)"

definition Search :: "page_env \<Rightarrow> search_box \<Rightarrow> search_box js_result" where
  "Search env s0 =
     (let s = s0\<lparr>keyTimeout := 0\<rparr>;
          searchValue = strip_leading_spaces (search_value s)
      in case indexSectionsWithContent env (searchIndex s) of
           None \<Rightarrow> Inl TypeError
         | Some sections \<Rightarrow>
             let (resultsPage, resultsPageWithSearch) = results_page env s sections searchValue;
                 s1 = s\<lparr>frame_location := resultsPageWithSearch\<rparr>;
                 s2 = open_results_window env s1
             in Inr (s2\<lparr>lastSearchValue := searchValue, lastResultsPage := resultsPage\<rparr>))"

section \<open>Event handlers\<close>

definition OnSearchSelectShow :: "page_env \<Rightarrow> search_box \<Rightarrow> bool \<times> search_box" where
  "OnSearchSelectShow env s =
     (let field = layout env (ui s) MSearchSelect;
          left = getXPos field;
          top = getYPos field + offsetHeight field;
          s1 = show_as MSearchSelectWindow (js ''block'') s;
          left' = (if insideFrame s
                   then left + offsetWidth field + 6 - offsetWidth (layout env (ui s1) MSearchSelectWindow)
                   else left);
          s2 = set_ui MSearchSelectWindow (\<lambda>e. e\<lparr>ui_left := px left', ui_top := px top\<rparr>) s1;
          s3 = (if hideTimeout s2 \<noteq> 0
                then s2\<lparr>box_timers := clearTimeout (hideTimeout s2) (box_timers s2), hideTimeout := 0\<rparr>
                else s2)
      in (False, s3))"

definition OnSearchSelectHide :: "search_box \<Rightarrow> search_box" where
  "OnSearchSelectHide s =
     (let (n, t) = setTimeout Run_CloseSelectionWindow (box_timers s)
      in s\<lparr>box_timers := t, hideTimeout := n\<rparr>)"

definition is_select_item :: "select_child \<Rightarrow> bool" where
  "is_select_item c \<longleftrightarrow> child_class c = js ''SelectItem''"

fun first_select_item :: "nat \<Rightarrow> select_child list \<Rightarrow> nat option" where
  "first_select_item i [] = None"
| "first_select_item i (c # cs) = (if is_select_item c then Some i else first_select_item (Suc i) cs)"

record field_event =
  fe_keyCode :: nat
  fe_shiftKey :: bool

definition kill_key_timer :: "search_box \<Rightarrow> search_box" where
  "kill_key_timer s =
     (if keyTimeout s \<noteq> 0
      then s\<lparr>box_timers := clearTimeout (keyTimeout s) (box_timers s), keyTimeout := 0\<rparr> else s)"

definition check_search_value :: "search_box \<Rightarrow> search_box" where
  "check_search_value s =
     (let searchValue = strip_all_spaces (search_value s) in
      if searchValue \<noteq> lastSearchValue s then
        if searchValue \<noteq> [] then
          let (n, t) = setTimeout Run_Search (box_timers s) in s\<lparr>box_timers := t, keyTimeout := n\<rparr>
        else
          (show_as MSearchClose (js ''none'') (show_as MSearchResultsWindow (js ''none'') s))
            \<lparr>lastSearchValue := []\<rparr>
      else s)"

definition OnSearchFieldChange :: "page_env \<Rightarrow> field_event \<Rightarrow> search_box \<Rightarrow> search_box" where
  "OnSearchFieldChange env e s0 =
     (let s = kill_key_timer s0 in
      if fe_keyCode e = 40 \<or> fe_keyCode e = 13 then
        if fe_shiftKey e then
          let s1 = snd (OnSearchSelectShow env s) in
          case first_select_item 0 (select_children s1) of
            Some i \<Rightarrow> s1\<lparr>box_focus := Some (Focus_select i)\<rparr>
          | None \<Rightarrow> s1
        else check_search_value (s\<lparr>frame_messages := frame_messages s @ [js ''take_focus'']\<rparr>)
      else if fe_keyCode e = 27 then
        Activate False
          ((show_as MSearchClose (js ''none'')
             (show_as MSearchResultsWindow (js ''none'') (s\<lparr>box_focus := None\<rparr>)))
            \<lparr>lastSearchValue := []\<rparr>)
      else check_search_value s)"

definition SelectItemCount :: "search_box \<Rightarrow> int" where
  "SelectItemCount s = int (length (filter is_select_item (select_children s)))"

fun set_marks :: "int \<Rightarrow> int \<Rightarrow> select_child list \<Rightarrow> select_child list js_result" where
  "set_marks j sel [] = Inr []"
| "set_marks j sel (c # cs) =
     (if is_select_item c then
        (case mark c of
           None \<Rightarrow> Inl TypeError
         | Some _ \<Rightarrow>
             js_bind (set_marks (j + 1) sel cs) (\<lambda>cs'.
               Inr (c\<lparr>mark := Some (if j = sel then js ''&#8226;'' else js ''&#160;'')\<rparr> # cs')))
      else js_bind (set_marks j sel cs) (\<lambda>cs'. Inr (c # cs')))"

definition SelectItemSet :: "int \<Rightarrow> search_box \<Rightarrow> search_box js_result" where
  "SelectItemSet sel s =
     js_bind (set_marks 0 sel (select_children s)) (\<lambda>cs. Inr (s\<lparr>select_children := cs\<rparr>))"

definition OnSelectItem :: "page_env \<Rightarrow> int \<Rightarrow> search_box \<Rightarrow> search_box js_result" where
  "OnSelectItem env sel s =
     js_bind (SelectItemSet sel (s\<lparr>searchIndex := sel\<rparr>)) (\<lambda>s1.
       if strip_all_spaces (search_value s1) \<noteq> [] \<and> searchActive s1 then Search env s1 else Inr s1)"

definition OnSearchSelectKey :: "page_env \<Rightarrow> nat \<Rightarrow> search_box \<Rightarrow> (bool \<times> search_box) js_result" where
  "OnSearchSelectKey env key s =
     (if key = 40 \<and> searchIndex s < SelectItemCount s then
        js_bind (OnSelectItem env (searchIndex s + 1) (s\<lparr>searchIndex := searchIndex s + 1\<rparr>))
          (\<lambda>s1. Inr (False, s1))
      else if key = 38 \<and> 0 < searchIndex s then
        js_bind (OnSelectItem env (searchIndex s - 1) (s\<lparr>searchIndex := searchIndex s - 1\<rparr>))
          (\<lambda>s1. Inr (False, s1))
      else if key = 13 \<or> key = 27 then
        js_bind (OnSelectItem env (searchIndex s) s) (\<lambda>s1.
          Inr (False, (CloseSelectionWindow s1)\<lparr>box_focus := Some (Focus_elt MSearchField)\<rparr>))
      else Inr (False, s))"

section \<open>init_search\<close>

text \<open>The labels are the entries of \<open>indexSectionLabels\<close>, in the order of their keys.\<close>

definition select_link :: "int \<times> jsstr \<Rightarrow> select_child" where
  "select_link x =
     \<lparr>child_class = js ''SelectItem'',
      child_onclick = js ''searchBox.OnSelectItem('' @ num_str (fst x) @ js '')'',
      child_href = js ''javascript:void(0)'', mark = Some (js ''&#160;''), child_label = snd x\<rparr>"

definition init_search :: "page_env \<Rightarrow> (int \<times> jsstr) list \<Rightarrow> search_box \<Rightarrow> search_box js_result" where
  "init_search env labels s =
     OnSelectItem env 0 (s\<lparr>select_children := select_children s @ map select_link labels\<rparr>)"

section \<open>Runs of the page's events\<close>

datatype box_event =
  Ev_focus bool | Ev_type jsstr | Ev_field_change field_event | Ev_select_show | Ev_select_hide
| Ev_select_item int | Ev_select_key nat | Ev_close_results | Ev_timer nat

text \<open>A timer that fires is forgotten and its action runs; a number that is not pending does not
  fire.\<close>

definition fire :: "page_env \<Rightarrow> nat \<Rightarrow> search_box \<Rightarrow> search_box js_result" where
  "fire env n s =
     (case map_of (timer_list (box_timers s)) n of
        None \<Rightarrow> Inr s
      | Some a \<Rightarrow>
          let s1 = s\<lparr>box_timers := clearTimeout n (box_timers s)\<rparr> in
          (case a of Run_Search \<Rightarrow> Search env s1 | Run_CloseSelectionWindow \<Rightarrow> Inr (CloseSelectionWindow s1)))"

fun handle :: "page_env \<Rightarrow> box_event \<Rightarrow> search_box \<Rightarrow> search_box js_result" where
  "handle env (Ev_focus b) s = Inr (OnSearchFieldFocus b s)"
| "handle env (Ev_type v) s = Inr (set_ui MSearchField (\<lambda>e. e\<lparr>field_value := v\<rparr>) s)"
| "handle env (Ev_field_change e) s = Inr (OnSearchFieldChange env e s)"
| "handle env Ev_select_show s = Inr (snd (OnSearchSelectShow env s))"
| "handle env Ev_select_hide s = Inr (OnSearchSelectHide s)"
| "handle env (Ev_select_item i) s = OnSelectItem env i s"
| "handle env (Ev_select_key k) s = js_bind (OnSearchSelectKey env k s) (\<lambda>x. Inr (snd x))"
| "handle env Ev_close_results s = Inr (CloseResultsWindow s)"
| "handle env (Ev_timer n) s = fire env n s"

inductive box_run :: "page_env \<Rightarrow> search_box \<Rightarrow> box_event list \<Rightarrow> search_box \<Rightarrow> bool" for env where
  start: "box_run env s [] s"
| event: "box_run env s es s1 \<Longrightarrow> handle env e s1 = Inr s2 \<Longrightarrow> box_run env s (es @ [e]) s2"

inductive_cases box_run_NilE: "box_run env s [] s'"

fun run_events :: "page_env \<Rightarrow> box_event list \<Rightarrow> search_box \<Rightarrow> search_box js_result" where
  "run_events env [] s = Inr s"
| "run_events env (e # es) s = js_bind (handle env e s) (run_events env es)"

lemma box_run_prepend:
  "box_run env s1 es s2 \<Longrightarrow> handle env e s = Inr s1 \<Longrightarrow> box_run env s (e # es) s2"
proof (induction rule: box_run.induct)
  case (start s1)
  then show ?case using box_run.event [OF box_run.start] by fastforce
next
  case (event s1 es s2 e' s3)
  then show ?case using box_run.event [of env s "e # es" s2 e' s3] by simp
qed

lemma run_events_box_run: "run_events env es s = Inr s' \<Longrightarrow> box_run env s es s'"
proof (induction es arbitrary: s)
  case Nil
  then show ?case by (simp add: box_run.start)
next
  case (Cons e es)
  then show ?case by (cases "handle env e s") (auto intro: box_run_prepend)
qed

fun selects :: "box_event \<Rightarrow> bool" where
  "selects (Ev_select_item i) = True"
| "selects (Ev_select_key k) = True"
| "selects e = False"

section \<open>Timers of the search box\<close>

definition is_search_timer :: "nat \<times> timer_action \<Rightarrow> bool" where
  "is_search_timer x \<longleftrightarrow> snd x = Run_Search"

abbreviation search_timers :: "search_box \<Rightarrow> (nat \<times> timer_action) list" where
  "search_timers s \<equiv> filter is_search_timer (timer_list (box_timers s))"

definition box_inv :: "search_box \<Rightarrow> bool" where
  "box_inv s \<longleftrightarrow> timers_wf (box_timers s) \<and>
     browser.owned (\<lambda>a. a = Run_Search) (keyTimeout s) (box_timers s) \<and>
     hideTimeout s < next_timer (box_timers s) \<and>
     list_all (\<lambda>x. fst x = hideTimeout s \<longrightarrow> \<not> is_search_timer x) (timer_list (box_timers s))"

named_theorems box_frame \<open>what an operation leaves of the timers\<close>

lemma set_ui_frame [box_frame]:
  "keyTimeout (set_ui b f s) = keyTimeout s" "hideTimeout (set_ui b f s) = hideTimeout s"
  "box_timers (set_ui b f s) = box_timers s"
  by (simp_all add: set_ui_def)

lemma show_as_frame [box_frame]:
  "keyTimeout (show_as b v s) = keyTimeout s" "hideTimeout (show_as b v s) = hideTimeout s"
  "box_timers (show_as b v s) = box_timers s"
  by (simp_all add: show_as_def set_ui_def)

lemma Activate_frame [box_frame]:
  "keyTimeout (Activate b s) = keyTimeout s" "hideTimeout (Activate b s) = hideTimeout s"
  "box_timers (Activate b s) = box_timers s"
  by (simp_all add: Activate_def box_frame Let_def)

lemma open_results_frame [box_frame]:
  "keyTimeout (open_results_window env s) = keyTimeout s"
  "hideTimeout (open_results_window env s) = hideTimeout s"
  "box_timers (open_results_window env s) = box_timers s"
  by (simp_all add: open_results_window_def box_frame Let_def)

lemma box_inv_frame:
  "keyTimeout s' = keyTimeout s \<Longrightarrow> hideTimeout s' = hideTimeout s \<Longrightarrow> box_timers s' = box_timers s \<Longrightarrow>
   box_inv s' = box_inv s"
  by (simp add: box_inv_def)

lemma box_inv_other [simp]:
  "box_inv (set_ui b f s) = box_inv s" "box_inv (show_as b v s) = box_inv s"
  "box_inv (Activate a s) = box_inv s" "box_inv (open_results_window env s) = box_inv s"
  "box_inv (s\<lparr>lastSearchValue := v\<rparr>) = box_inv s" "box_inv (s\<lparr>lastResultsPage := v\<rparr>) = box_inv s"
  "box_inv (s\<lparr>box_focus := f'\<rparr>) = box_inv s" "box_inv (s\<lparr>frame_messages := m\<rparr>) = box_inv s"
  "box_inv (s\<lparr>frame_location := v\<rparr>) = box_inv s"
  by (rule box_inv_frame; simp add: box_frame)+

lemma box_inv_Search: "Search env s = Inr s' \<Longrightarrow> box_inv (s\<lparr>keyTimeout := 0\<rparr>) \<Longrightarrow> box_inv s'"
  by (auto simp: Search_def Let_def split: option.splits prod.splits)

lemma box_inv_kill: "box_inv s \<Longrightarrow> box_inv (kill_key_timer s) \<and> keyTimeout (kill_key_timer s) = 0"
  using browser.clear_ok browser.owned_clear
  by (auto simp: box_inv_def kill_key_timer_def clearTimeout_def list_all_iff)

lemma box_inv_set_search:
  assumes "box_inv s" "keyTimeout s = 0" "setTimeout Run_Search (box_timers s) = (n, t)"
  shows "box_inv (s\<lparr>box_timers := t, keyTimeout := n\<rparr>)"
proof -
  have wf: "timers_wf (box_timers s)" using assms(1) by (simp add: box_inv_def)
  have "n = next_timer (box_timers s)" "next_timer t = Suc n"
    using assms(3) by (auto simp: setTimeout_def)
  then show ?thesis
    using assms browser.set_ok [OF wf assms(3)] browser.set_pending [OF wf assms(3)]
      browser.owned_set [OF wf _ assms(3)]
    by (auto simp: box_inv_def)
qed

lemma box_inv_check: "box_inv s \<Longrightarrow> keyTimeout s = 0 \<Longrightarrow> box_inv (check_search_value s)"
  by (auto simp: check_search_value_def Let_def box_inv_set_search split: prod.splits)

lemma box_inv_hide: "box_inv s \<Longrightarrow> box_inv (OnSearchSelectHide s)"
proof -
  assume inv: "box_inv s"
  obtain n t where st: "setTimeout Run_CloseSelectionWindow (box_timers s) = (n, t)" by fastforce
  have wf: "timers_wf (box_timers s)" using inv by (simp add: box_inv_def)
  have n: "n = next_timer (box_timers s)" "next_timer t = Suc n"
    using st by (auto simp: setTimeout_def)
  have "list_all (\<lambda>x. fst x \<noteq> n) (timer_list (box_timers s))"
    using wf n by (auto simp: timers_wf_def list_all_iff)
  then show ?thesis
    using inv n browser.set_ok [OF wf st] browser.set_pending [OF wf st]
      browser.owned_set_other [OF wf _ st]
    by (auto simp: box_inv_def OnSearchSelectHide_def st is_search_timer_def list_all_iff)
qed

lemma box_inv_clear_hide:
  "box_inv s \<Longrightarrow> box_inv (s\<lparr>box_timers := clearTimeout (hideTimeout s) (box_timers s), hideTimeout := 0\<rparr>)"
proof -
  assume inv: "box_inv s"
  then have wf: "timers_wf (box_timers s)" by (simp add: box_inv_def)
  have "browser.owned (\<lambda>a. a = Run_Search) (keyTimeout s) (clearTimeout (hideTimeout s) (box_timers s))"
    using inv by (intro browser.owned_clear_other) (auto simp: box_inv_def list_all_iff is_search_timer_def)
  moreover have "\<And>x. x \<in> set (timer_list (box_timers s)) \<Longrightarrow> 0 < fst x" "0 < next_timer (box_timers s)"
    using wf by (auto simp: timers_wf_def list_all_iff)
  ultimately show ?thesis
    using inv browser.clear_ok [OF wf] by (fastforce simp: box_inv_def clearTimeout_def list_all_iff)
qed

lemma box_inv_show: "box_inv s \<Longrightarrow> box_inv (snd (OnSearchSelectShow env s))"
proof -
  assume inv: "box_inv s"
  have stop: "box_inv (if hideTimeout x \<noteq> 0
      then x\<lparr>box_timers := clearTimeout (hideTimeout x) (box_timers x), hideTimeout := 0\<rparr> else x)"
    if "box_inv x" for x
    using that box_inv_clear_hide [OF that] by simp
  show ?thesis
    unfolding OnSearchSelectShow_def Let_def snd_conv by (rule stop) (simp add: inv)
qed

lemma box_inv_field_change: "box_inv s \<Longrightarrow> box_inv (OnSearchFieldChange env e s)"
proof -
  assume inv: "box_inv s"
  let ?k = "kill_key_timer s"
  have k: "box_inv ?k" "keyTimeout ?k = 0" using box_inv_kill [OF inv] by simp_all
  show ?thesis
    using k by (simp add: OnSearchFieldChange_def Let_def box_inv_show box_inv_check split: option.splits)
qed

text \<open>Firing the pending search leaves none.\<close>

lemma box_inv_fire: "box_inv s \<Longrightarrow> fire env n s = Inr s' \<Longrightarrow> box_inv s'"
proof -
  assume inv: "box_inv s" and f: "fire env n s = Inr s'"
  then have wf: "timers_wf (box_timers s)" by (simp add: box_inv_def)
  let ?s = "s\<lparr>box_timers := clearTimeout n (box_timers s)\<rparr>"
  have sub: "hideTimeout s < next_timer (clearTimeout n (box_timers s))"
    "list_all (\<lambda>x. fst x = hideTimeout s \<longrightarrow> \<not> is_search_timer x) (timer_list (clearTimeout n (box_timers s)))"
    using inv by (auto simp: box_inv_def clearTimeout_def list_all_iff)
  show ?thesis
  proof (cases "map_of (timer_list (box_timers s)) n")
    case None
    then show ?thesis using f inv by (simp add: fire_def)
  next
    case (Some a)
    then have mem: "(n, a) \<in> set (timer_list (box_timers s))" by (rule map_of_SomeD)
    have wf': "timers_wf (clearTimeout n (box_timers s))" by (rule browser.clear_ok [OF wf])
    show ?thesis
    proof (cases a)
      case Run_Search
      have "n = keyTimeout s"
        using browser.owned_numbers [of "\<lambda>a. a = Run_Search"] inv mem Run_Search
        by (fastforce simp: box_inv_def)
      then have "browser.owned (\<lambda>a. a = Run_Search) 0 (clearTimeout n (box_timers s))"
        using browser.owned_clear [OF wf] inv by (simp add: box_inv_def)
      then have "box_inv (?s\<lparr>keyTimeout := 0\<rparr>)" using wf' sub by (simp add: box_inv_def)
      moreover have "Search env ?s = Inr s'" using f Some Run_Search by (simp add: fire_def)
      ultimately show ?thesis by (auto intro: box_inv_Search)
    next
      case Run_CloseSelectionWindow
      have uniq: "\<not> is_search_timer x" if "x \<in> set (timer_list (box_timers s))" "fst x = n" for x
        using wf mem that Run_CloseSelectionWindow eq_key_imp_eq_value [of "timer_list (box_timers s)" n a "snd x"]
        by (cases x) (auto simp: timers_wf_def is_search_timer_def)
      have "box_inv ?s"
        using browser.owned_clear_other [OF wf, of "\<lambda>a. a = Run_Search" "keyTimeout s" n] inv wf' sub uniq
        by (auto simp: box_inv_def is_search_timer_def)
      moreover have "s' = CloseSelectionWindow ?s"
        using f Some Run_CloseSelectionWindow by (simp add: fire_def)
      ultimately show ?thesis
        by (simp add: CloseSelectionWindow_def)
    qed
  qed
qed

lemma box_inv_handle: "box_inv s \<Longrightarrow> handle env e s = Inr s' \<Longrightarrow> \<not> selects e \<Longrightarrow> box_inv s'"
  by (cases e)
    (auto simp: OnSearchFieldFocus_def CloseResultsWindow_def box_inv_field_change box_inv_show box_inv_hide box_inv_fire)

lemma box_inv_new: "box_inv (new_SearchBox name path fr lbl ext u cs)"
  using no_timers_wf
  by (simp add: box_inv_def new_SearchBox_def browser.owned_def no_timers_def timers_wf_def)

lemma box_inv_run: "box_run env s es s' \<Longrightarrow> box_inv s \<Longrightarrow> list_all (\<lambda>e. \<not> selects e) es \<Longrightarrow> box_inv s'"
  by (induction rule: box_run.induct) (auto intro: box_inv_handle)

lemma Search_runs:
  assumes "indexSectionsWithContent env (searchIndex s) = Some sections"
  obtains s' where "Search env s = Inr s'" "keyTimeout s' = 0" "box_timers s' = box_timers s"
    "lastSearchValue s' = strip_leading_spaces (search_value s)"
proof -
  obtain a b where "results_page env (s\<lparr>keyTimeout := 0\<rparr>) sections (strip_leading_spaces (search_value s)) = (a, b)"
    by fastforce
  then show thesis
    using assms that by (simp add: Search_def search_value_def box_frame)
qed

section \<open>The word a search carries to the results page\<close>

lemma js_trim_Cons: "\<not> js_ws c \<Longrightarrow> \<exists>t. js_trim (c # s) = c # t"
  by (simp add: js_trim_def dropWhile_append3)

lemma surrogate_not_number: "55296 \<le> c \<Longrightarrow> c \<le> 57343 \<Longrightarrow> \<not> str_gt_one (c # s)"
proof -
  assume c: "55296 \<le> c" "c \<le> 57343"
  then have "\<not> js_ws c" by (auto simp: js_ws_def)
  then obtain t where t: "js_trim (c # s) = c # t" using js_trim_Cons by blast
  have "radix_literal_gt_one (c # t) = None"
    using c by (auto simp: radix_literal_gt_one_def split: list.splits)
  moreover have "\<not> decimal_gt_one (c # t)"
    using c by (simp add: decimal_gt_one_def js_def is_digit_def)
  ultimately show ?thesis using c t by (simp add: str_gt_one_def)
qed

lemma escape_unescape_word:
  "list_all (\<lambda>c. c < 65536) v \<Longrightarrow>
   search_word U (js ''?'' @ escape (strip_leading_spaces v)) [] =
     convertToId (toLowerCase U (strip_trailing_spaces (strip_leading_spaces v)))"
proof -
  assume v: "list_all (\<lambda>c. c < 65536) v"
  then have "list_all (\<lambda>c. c < 65536) (strip_leading_spaces v)"
    by (auto simp: strip_leading_spaces_def list_all_iff dest: set_dropWhileD)
  then have "unescape (escape (strip_leading_spaces v)) = strip_leading_spaces v"
    by (rule unescape_escape)
  then show ?thesis by (simp add: search_word_def substring_from_def js_def)
qed

section \<open>Marks of the selection window\<close>

definition marked :: "select_child list \<Rightarrow> bool" where
  "marked cs \<longleftrightarrow> list_all (\<lambda>c. is_select_item c \<longrightarrow> mark c \<noteq> None) cs"

lemma set_marks_result:
  "marked cs \<Longrightarrow> \<exists>cs'. set_marks j sel cs = Inr cs' \<and> marked cs' \<and>
     map child_class cs' = map child_class cs \<and>
     map mark (filter is_select_item cs') =
       map (\<lambda>i. Some (if j + int i = sel then js ''&#8226;'' else js ''&#160;''))
         [0..<length (filter is_select_item cs)]"
proof (induction cs arbitrary: j)
  case (Cons c cs)
  show ?case
  proof (cases "is_select_item c")
    case True
    from Cons obtain cs' where cs': "set_marks (j + 1) sel cs = Inr cs'" "marked cs'"
      "map child_class cs' = map child_class cs"
      "map mark (filter is_select_item cs') =
       map (\<lambda>i. Some (if j + 1 + int i = sel then js ''&#8226;'' else js ''&#160;''))
         [0..<length (filter is_select_item cs)]"
      by (fastforce simp: marked_def)
    have "is_select_item (c\<lparr>mark := x\<rparr>)" for x using True by (simp add: is_select_item_def)
    moreover have "map (\<lambda>i. Some (if j + int i = sel then js ''&#8226;'' else js ''&#160;''))
        [0..<Suc (length (filter is_select_item cs))] =
      Some (if j = sel then js ''&#8226;'' else js ''&#160;'') #
      map (\<lambda>i. Some (if j + 1 + int i = sel then js ''&#8226;'' else js ''&#160;''))
        [0..<length (filter is_select_item cs)]"
      by (simp add: map_upt_Suc add.assoc del: upt_Suc)
    ultimately show ?thesis
      using True Cons.prems cs' by (auto simp: marked_def simp del: upt_Suc)
  next
    case False
    from Cons obtain cs' where "set_marks j sel cs = Inr cs'" "marked cs'"
      "map child_class cs' = map child_class cs"
      "map mark (filter is_select_item cs') =
       map (\<lambda>i. Some (if j + int i = sel then js ''&#8226;'' else js ''&#160;''))
         [0..<length (filter is_select_item cs)]"
      by (fastforce simp: marked_def)
    with False show ?thesis by (auto simp: marked_def)
  qed
qed (simp add: marked_def)

lemma SelectItemSet_result:
  assumes "marked (select_children s)"
  obtains cs where "SelectItemSet sel s = Inr (s\<lparr>select_children := cs\<rparr>)" "marked cs"
    "map child_class cs = map child_class (select_children s)"
    "map mark (filter is_select_item cs) =
      map (\<lambda>i. Some (if int i = sel then js ''&#8226;'' else js ''&#160;''))
        [0..<length (filter is_select_item (select_children s))]"
  using set_marks_result [OF assms, of 0 sel] that by (auto simp: SelectItemSet_def)

lemma filter_select_links [simp]: "filter is_select_item (map select_link ls) = map select_link ls"
  by (simp add: select_link_def is_select_item_def filter_id_conv)

lemma marked_links: "marked (map select_link ls)"
  by (simp add: marked_def select_link_def list_all_iff)

section \<open>Properties\<close>

text \<open>A page with two kinds of symbols, as \<^verbatim>\<open>searchdata.js\<close> lists them, and a search box on it.\<close>

definition example_env :: page_env where
  "example_env = \<lparr>layout = (\<lambda>_ _. Offset_Item 10 10 3 4 False None), clientWidth = 800,
     indexSectionsWithContent = map_of [(0, js ''abe''), (1, js ''ae'')],
     indexSectionNames = map_of [(0, js ''all''), (1, js ''pages'')], lower_case = id\<rparr>"

definition example_box :: search_box where
  "example_box = new_SearchBox (js ''searchBox'') (js ''search'') False (js ''Search'') []
     (\<lambda>_. \<lparr>ui_display = [], ui_left = [], ui_top = [], ui_width = [], ui_position = [], ui_class = [],
           field_value = js ''Search''\<rparr>)
     (map select_link [(0, js ''All''), (1, js ''Pages'')])"

lemma example_lookup [simp]:
  "indexSectionsWithContent example_env 0 = Some (js ''abe'')"
  "indexSectionsWithContent example_env 1 = Some (js ''ae'')"
  "indexSectionNames example_env 0 = Some (js ''all'')" "lower_case example_env = id"
  by (simp_all add: example_env_def)

definition typing :: "jsstr \<Rightarrow> box_event list" where
  "typing v = [Ev_type v, Ev_field_change \<lparr>fe_keyCode = 65, fe_shiftKey = False\<rparr>]"

text \<open>
  However the events of the page follow one another (typing, key strokes, focus changes, opening
  and closing the windows, timers running out), as long as no section is selected there is at most
  one pending search, and it is the one whose number the object keeps.
\<close>

theorem one_pending_search:
  assumes "box_run env (new_SearchBox name path fr lbl ext u cs) es s" and "list_all (\<lambda>e. \<not> selects e) es"
  shows "map fst (search_timers s) = (if keyTimeout s = 0 then [] else [keyTimeout s])"
  using box_inv_run [OF assms(1) box_inv_new assms(2)]
  by (simp add: box_inv_def browser.owned_def is_search_timer_def [abs_def])

theorem one_pending_search_witness:
  "\<exists>s. box_run example_env example_box (typing (js ''a'')) s \<and> map fst (search_timers s) = [1]"
proof -
  have "\<exists>s. run_events example_env (typing (js ''a'')) example_box = Inr s \<and> keyTimeout s = 1"
    by (simp add: typing_def OnSearchFieldChange_def kill_key_timer_def check_search_value_def set_ui_def
        example_box_def new_SearchBox_def search_value_def setTimeout_def no_timers_def js_def
        strip_all_spaces_def)
  then obtain s where s: "box_run example_env example_box (typing (js ''a'')) s" "keyTimeout s = 1"
    using run_events_box_run by blast
  then show ?thesis
    using one_pending_search [OF s(1) [unfolded example_box_def]]
    by (auto simp: example_box_def typing_def)
qed

text \<open>
  Selecting a section while a search is pending searches at once and forgets the number of the
  pending timer without stopping it, so typing on adds a second pending search.
\<close>

theorem select_orphans_timer:
  assumes "marked (select_children s)" and "indexSectionsWithContent env i = Some sections"
    and "searchActive s" and "strip_all_spaces (search_value s) \<noteq> []"
  shows "\<exists>s1. OnSelectItem env i s = Inr s1 \<and> keyTimeout s1 = 0 \<and> search_timers s1 = search_timers s \<and>
    (\<forall>v e. strip_all_spaces v \<noteq> [] \<and> strip_all_spaces v \<noteq> strip_leading_spaces (search_value s) \<and> fe_keyCode e \<notin> {13, 27, 40} \<longrightarrow>
      length (search_timers (OnSearchFieldChange env e (set_ui MSearchField (\<lambda>x. x\<lparr>field_value := v\<rparr>) s1))) =
      length (search_timers s) + 1)"
proof -
  let ?s = "s\<lparr>searchIndex := i\<rparr>"
  obtain cs where cs: "SelectItemSet i ?s = Inr (?s\<lparr>select_children := cs\<rparr>)"
    using SelectItemSet_result [of ?s i] assms(1) by auto
  have val: "search_value (?s\<lparr>select_children := cs\<rparr>) = search_value s" by (simp add: search_value_def)
  obtain s1 where s1: "Search env (?s\<lparr>select_children := cs\<rparr>) = Inr s1" "keyTimeout s1 = 0"
    "box_timers s1 = box_timers s" "lastSearchValue s1 = strip_leading_spaces (search_value s)"
    using Search_runs [of env "?s\<lparr>select_children := cs\<rparr>" sections] assms(2) by (auto simp: val)
  have on: "OnSelectItem env i s = Inr s1"
    using assms(3,4) cs s1(1) by (simp add: OnSelectItem_def val)
  have "length (search_timers (OnSearchFieldChange env e (set_ui MSearchField (\<lambda>x. x\<lparr>field_value := v\<rparr>) s1))) =
      length (search_timers s) + 1"
    if "strip_all_spaces v \<noteq> []" "strip_all_spaces v \<noteq> strip_leading_spaces (search_value s)" "fe_keyCode e \<notin> {13, 27, 40}"
    for v e
    using that s1(2-4)
    by (simp add: OnSearchFieldChange_def kill_key_timer_def check_search_value_def search_value_def
        set_ui_def setTimeout_def is_search_timer_def)
  with on s1 show ?thesis by auto
qed

definition pending_box :: search_box where
  "pending_box = set_ui MSearchField (\<lambda>e. e\<lparr>field_value := js ''a''\<rparr>)
     (example_box\<lparr>searchActive := True, keyTimeout := 1,
        box_timers := \<lparr>next_timer = 2, timer_list = [(1, Run_Search)]\<rparr>\<rparr>)"

theorem select_orphans_timer_witness:
  "\<exists>s1. OnSelectItem example_env 1 pending_box = Inr s1 \<and> keyTimeout s1 = 0 \<and>
     length (search_timers (OnSearchFieldChange example_env \<lparr>fe_keyCode = 66, fe_shiftKey = False\<rparr>
       (set_ui MSearchField (\<lambda>x. x\<lparr>field_value := js ''ab''\<rparr>) s1))) = 2"
proof -
  have p: "marked (select_children pending_box)" "searchActive pending_box"
    "strip_all_spaces (search_value pending_box) \<noteq> []" "search_timers pending_box = [(1, Run_Search)]"
    by (simp_all add: pending_box_def set_ui_def example_box_def new_SearchBox_def marked_def
        is_select_item_def select_link_def search_value_def strip_all_spaces_def js_def is_search_timer_def)
  have e: "indexSectionsWithContent example_env 1 = Some (js ''ae'')" by simp
  have l: "strip_all_spaces (js ''ab'') \<noteq> []"
    "strip_all_spaces (js ''ab'') \<noteq> strip_leading_spaces (search_value pending_box)"
    by (simp_all add: strip_all_spaces_def strip_leading_spaces_def js_def pending_box_def set_ui_def
        search_value_def)
  show ?thesis
    using select_orphans_timer [OF p(1) e p(2,3)] p(4) l by fastforce
qed

lemma idx_char_plain:
  assumes "\<And>c t. toLowerCase U v = c # t \<Longrightarrow> c < 55296 \<or> 56319 < c"
  shows "idx_char U v = toLowerCase U (take 1 v)"
  using assms by (auto simp: idx_char_def split: list.splits)

text \<open>
  C24. A search for a word whose first character is not a surrogate sends the results frame to the page of the selected section for that
  character in lower case, by its position in the section's characters, and the results page reads back exactly the typed word: trimmed, in lower case and
  converted. When the section has no such character the frame shows the page without matches. (The characters of surrogate pairs
  are cut, \<open>surrogate_pair_never_used\<close>.)
\<close>

theorem Search_carries_word:
  assumes "indexSectionsWithContent env (searchIndex s) = Some sections"
    and "list_all (\<lambda>c. c < 65536) (search_value s)" and "v = dropWhile (\<lambda>c. c = 32) (search_value s)"
    and "\<forall>c t. toLowerCase (lower_case env) v = c # t \<longrightarrow> c < 55296 \<or> 56319 < c"
    and "first = (if ascii v then map (\<lambda>c. if 65 \<le> c \<and> c \<le> 90 then c + 32 else c) (take 1 v) else toLowerCase (lower_case env) (take 1 v))"
  shows "\<exists>s'. Search env s = Inr s' \<and> keyTimeout s' = 0 \<and>
    ui_display (ui s' MSearchResultsWindow) = js ''block'' \<and> lastSearchValue s' = v \<and>
    (case indexOf sections first of
       None \<Rightarrow> frame_location s' = resultsPath s @ js ''/nomatches'' @ extension s \<and>
               lastResultsPage s' = frame_location s'
     | Some i \<Rightarrow> \<exists>query. frame_location s' = lastResultsPage s' @ query \<and>
         lastResultsPage s' = resultsPath s @ js ''/'' @ or_undefined (indexSectionNames env (searchIndex s)) @
           js ''_'' @ toString 16 i @ extension s \<and>
         (\<forall>U. search_word U query [] = convertToId (toLowerCase U (strip_trailing_spaces v))))"
proof -
  have opened: "ui_display (ui (open_results_window env x) MSearchResultsWindow) = js ''block''"
    "frame_location (open_results_window env x) = frame_location x" for x
    by (simp_all add: open_results_window_def show_as_def set_ui_def Let_def)
  have v: "search_value (s\<lparr>keyTimeout := 0\<rparr>) = search_value s" "strip_leading_spaces (search_value s) = v"
    by (simp_all add: search_value_def assms(3) strip_leading_spaces_def)
  have "ascii (take 1 v)" if "ascii v" using that by (cases v) (simp_all add: ascii_def)
  then have idx: "idx_char (lower_case env) v = first"
    using idx_char_plain [of "lower_case env" v] assms(4,5) by (auto simp: toLowerCase_def ascii_lower_def)
  have word: "search_word U (js ''?'' @ escape v) [] = convertToId (toLowerCase U (strip_trailing_spaces v))" for U
    using escape_unescape_word [OF assms(2), of U] v(2) by simp
  show ?thesis
    using assms(1) word by (auto simp: Search_def Let_def results_page_def opened box_frame v idx split: option.splits)
qed

theorem Search_carries_word_witness:
  "\<exists>s'. Search example_env (set_ui MSearchField (\<lambda>e. e\<lparr>field_value := js '' Em''\<rparr>) example_box) = Inr s' \<and>
     lastResultsPage s' = js ''search/all_2.html''"
proof -
  let ?s = "set_ui MSearchField (\<lambda>e. e\<lparr>field_value := js '' Em''\<rparr>) example_box"
  have box: "searchIndex ?s = 0" "search_value ?s = js '' Em''" "resultsPath ?s = js ''search''"
    "extension ?s = js ''.html''"
    by (simp_all add: set_ui_def example_box_def new_SearchBox_def search_value_def)
  have a: "indexSectionsWithContent example_env (searchIndex ?s) = Some (js ''abe'')"
    and b: "list_all (\<lambda>c. c < 65536) (search_value ?s)"
    and v: "js ''Em'' = dropWhile (\<lambda>c. c = 32) (search_value ?s)"
    and f: "\<forall>c t. toLowerCase (lower_case example_env) (js ''Em'') = c # t \<longrightarrow> c < 55296 \<or> 56319 < c"
      "js ''e'' = (if ascii (js ''Em'') then map (\<lambda>c. if 65 \<le> c \<and> c \<le> 90 then c + 32 else c) (take 1 (js ''Em''))
        else toLowerCase (lower_case example_env) (take 1 (js ''Em'')))"
    and c: "indexOf (js ''abe'') (js ''e'') = Some 2"
    unfolding box
    by (auto simp: ascii_def toLowerCase_def ascii_lower_def js_def starts_with_def)
  have d: "resultsPath ?s @ js ''/'' @ or_undefined (indexSectionNames example_env (searchIndex ?s)) @
           js ''_'' @ toString 16 2 @ extension ?s = js ''search/all_2.html''"
    unfolding box
    by (simp add: or_undefined_def toString_def radix_digits_small digit_char_def js_def)
  show ?thesis using Search_carries_word [OF a b v f(1) f(2)] c d by auto
qed

text \<open>
  Setting the active section marks that section with a bullet and every other one with a space,
  and \<open>init_search\<close> leaves one item per section, the first one active, without searching.
\<close>

theorem init_search_marks:
  assumes "\<not> searchActive s" and "select_children s = []"
  shows "\<exists>s'. init_search env labels s = Inr s' \<and> SelectItemCount s' = int (length labels) \<and>
    searchIndex s' = 0 \<and> frame_location s' = frame_location s \<and>
    map mark (filter is_select_item (select_children s')) =
      map (\<lambda>i. Some (if i = 0 then js ''&#8226;'' else js ''&#160;'')) [0..<length labels]"
proof -
  let ?s = "s\<lparr>select_children := map select_link labels, searchIndex := 0\<rparr>"
  obtain cs where cs: "SelectItemSet 0 ?s = Inr (?s\<lparr>select_children := cs\<rparr>)"
    "map mark (filter is_select_item cs) =
      map (\<lambda>i. Some (if int i = 0 then js ''&#8226;'' else js ''&#160;'')) [0..<length labels]"
    using SelectItemSet_result [of ?s 0] marked_links by auto
  have "length (filter is_select_item cs) = length labels"
    using arg_cong [OF cs(2), of length] by simp
  then show ?thesis
    using assms cs by (simp add: init_search_def OnSelectItem_def SelectItemCount_def)
qed

theorem init_search_marks_witness:
  "\<exists>s'. init_search example_env [(0, js ''All''), (1, js ''Pages'')] (example_box\<lparr>select_children := []\<rparr>) = Inr s' \<and>
     map mark (filter is_select_item (select_children s')) = [Some (js ''&#8226;''), Some (js ''&#160;'')]"
  using init_search_marks [of "example_box\<lparr>select_children := []\<rparr>" example_env
      "[(0, js ''All''), (1, js ''Pages'')]"]
  by (auto simp: example_box_def new_SearchBox_def)

text \<open>
  The Down key is guarded by \<open>searchIndex < SelectItemCount()\<close>, one too many: on the last section
  it moves past it, which leaves no section marked, and with a search active it raises a
  \<open>TypeError\<close>, since there is no index of that section.
\<close>

theorem select_down_past_end:
  assumes "searchIndex s = SelectItemCount s - 1" and "marked (select_children s)"
    and "indexSectionsWithContent env (SelectItemCount s) = None"
  shows "if strip_all_spaces (search_value s) \<noteq> [] \<and> searchActive s
    then OnSearchSelectKey env 40 s = Inl TypeError
    else \<exists>s'. OnSearchSelectKey env 40 s = Inr (False, s') \<and> searchIndex s' = SelectItemCount s' \<and>
      Some (js ''&#8226;'') \<notin> set (map mark (filter is_select_item (select_children s')))"
proof -
  let ?s = "s\<lparr>searchIndex := SelectItemCount s\<rparr>"
  obtain cs where cs: "SelectItemSet (SelectItemCount s) ?s = Inr (?s\<lparr>select_children := cs\<rparr>)"
    "map mark (filter is_select_item cs) =
      map (\<lambda>i. Some (if int i = SelectItemCount s then js ''&#8226;'' else js ''&#160;''))
        [0..<length (filter is_select_item (select_children s))]"
    using SelectItemSet_result [of ?s "SelectItemCount s"] assms(2) by auto
  have len: "length (filter is_select_item cs) = length (filter is_select_item (select_children s))"
    using arg_cong [OF cs(2), of length] by simp
  have none: "Some (js ''&#8226;'') \<notin> set (map mark (filter is_select_item cs))"
    unfolding cs(2) by (auto simp: SelectItemCount_def js_inj)
  have key: "OnSearchSelectKey env 40 s =
      js_bind (OnSelectItem env (SelectItemCount s) ?s) (\<lambda>s1. Inr (False, s1))"
    using assms(1) by (simp add: OnSearchSelectKey_def)
  have val: "search_value (x\<lparr>select_children := y\<rparr>) = search_value x"
    "search_value (x\<lparr>searchIndex := i\<rparr>) = search_value x" for x y i
    by (simp_all add: search_value_def)
  show ?thesis
    using assms(3) cs(1) len none
    by (auto simp: key OnSelectItem_def val Search_def SelectItemCount_def)
qed

theorem select_down_past_end_witness:
  "OnSearchSelectKey example_env 40
     (set_ui MSearchField (\<lambda>e. e\<lparr>field_value := js ''a''\<rparr>) (example_box\<lparr>searchIndex := 1, searchActive := True\<rparr>)) =
   Inl TypeError"
proof -
  let ?s = "set_ui MSearchField (\<lambda>e. e\<lparr>field_value := js ''a''\<rparr>)
    (example_box\<lparr>searchIndex := 1, searchActive := True\<rparr>)"
  have a: "searchIndex ?s = SelectItemCount ?s - 1" "marked (select_children ?s)"
    "indexSectionsWithContent example_env (SelectItemCount ?s) = None"
    "strip_all_spaces (search_value ?s) \<noteq> []" "searchActive ?s"
    by code_simp+
  show ?thesis using select_down_past_end [OF a(1-3)] a(4,5) by simp
qed

text \<open>
  The test for a surrogate pair compares the search text itself with 1 instead of its length.
  Text that starts with a surrogate is not a number, so the pair is never used: the index is looked
  up with the first half alone.
\<close>

theorem surrogate_pair_never_used:
  assumes "55296 \<le> c" and "c \<le> 57343"
  shows "idx_char U (c # v) = toLowerCase U [c]"
  using surrogate_not_number [OF assms] by (simp add: idx_char_def split: list.splits)

theorem surrogate_pair_never_used_witness: "idx_char id [55349, 56320] = [55349]"
  using surrogate_pair_never_used [of 55349 id "[56320]"] by (simp add: toLowerCase_def ascii_def)

end
