(* ===== verification/JS_NavTree.thy ===== *)
theory JS_NavTree
  imports JS_Strings
begin

text \<open>
  The navigation tree of the documentation pages, \<^verbatim>\<open>doc/html/navtree.js\<close>. A tree node carries what the
  script keeps of it and of its elements; children are made when a node is first opened. Scripts with
  further data (\<open>getScript\<close>) are parameters and taken to load at once; one that does not exist leaves the
  operation waiting. The loading of scripts, scrolling and glowing are in \<open>JS_NavEffects\<close>; a slide is taken
  in its final state.
\<close>

section \<open>Links and paths\<close>

definition stripPath :: "jsstr \<Rightarrow> jsstr" where
  "stripPath uri = substring_from (lastIndexOf uri 47 + 1) uri"

definition word_char :: "nat \<Rightarrow> bool" where
  "word_char c \<longleftrightarrow> 65 \<le> c \<and> c \<le> 90 \<or> 97 \<le> c \<and> c \<le> 122 \<or> is_digit c \<or> c = 95"

text \<open>The match of \<^verbatim>\<open>/\/d\w\/d\w\w\/$/\<close>: the string ends in \<^verbatim>\<open>/dX/dXX/\<close>.\<close>

definition ends_in_subdirs :: "jsstr \<Rightarrow> bool" where
  "ends_in_subdirs s =
     (case rev s of
        e # c2 # c1 # d2 # b # a1 # d1 # st # rest \<Rightarrow>
          e = 47 \<and> word_char c2 \<and> word_char c1 \<and> d2 = 100 \<and> b = 47 \<and> word_char a1 \<and> d1 = 100 \<and> st = 47
      | _ \<Rightarrow> False)"

definition stripPath2 :: "jsstr \<Rightarrow> jsstr" where
  "stripPath2 uri =
     (let i = lastIndexOf uri 47; s = substring_from (i + 1) uri
      in if ends_in_subdirs (substring 0 (i + 1) uri) then substring_from (i - 6) uri else s)"

definition keep_name_chars :: "jsstr \<Rightarrow> jsstr" where
  "keep_name_chars s = filter (\<lambda>c. word_char c \<or> c = 45) s"

definition path_char :: "nat \<Rightarrow> bool" where
  "path_char c \<longleftrightarrow> 65 \<le> c \<and> c \<le> 90 \<or> 97 \<le> c \<and> c \<le> 122 \<or> is_digit c \<or>
     c \<in> set (js ''-+&@#/%?=~_|!:,.;()'')"

definition hashValue :: "jsstr \<Rightarrow> jsstr" where
  "hashValue location_hash = keep_name_chars (substring_from 1 location_hash)"

definition hashUrl :: "jsstr \<Rightarrow> jsstr" where
  "hashUrl location_hash = js ''#'' @ hashValue location_hash"

definition pathName :: "jsstr \<Rightarrow> jsstr" where
  "pathName location_path = filter path_char location_path"

section \<open>Data\<close>

text \<open>An entry of the tree is \<^verbatim>\<open>[text, link, children]\<close>; the children are \<open>null\<close>, the name of a variable
  another script defines, or a list.\<close>

datatype nav_data = Nav_Data (nd_text: jsstr) (nd_link: "jsstr option") (nd_children: child_data)
and child_data = No_children | In_script jsstr | Children "nav_data list"

record node_info =
  childrenData :: child_data
  expanded :: bool
  childrenVisited :: bool
  depth :: nat
  relpath :: jsstr
  isLast :: bool
  label :: jsstr
  a_class :: jsstr
  a_href :: jsstr
  a_link :: "jsstr option"
  plus_img :: "jsstr option"
  indent_px :: int
  ul_display :: "jsstr option"
  selected :: bool

datatype nav_node = Nav_Node (info: node_info) (children: "nav_node list")

definition arrowDown :: jsstr where "arrowDown = js ''&#9660;''"
definition arrowRight :: jsstr where "arrowRight = js ''&#9658;''"

section \<open>Making nodes\<close>

definition has_children :: "child_data \<Rightarrow> bool" where
  "has_children c = (case c of No_children \<Rightarrow> False | In_script v \<Rightarrow> v \<noteq> [] | Children _ \<Rightarrow> True)"

text \<open>\<open>createIndent\<close>: the arrow and its padding, or the width of the empty span. The level counts the
  ancestors below the root.\<close>

definition createIndent :: "child_data \<Rightarrow> nat \<Rightarrow> jsstr option \<times> int" where
  "createIndent c ancestors =
     (let level = int ancestors - 1 in
      if has_children c then (Some arrowRight, 16 * level) else (None, 16 * (level + 1)))"

definition replace_first :: "nat \<Rightarrow> nat \<Rightarrow> jsstr \<Rightarrow> jsstr" where
  "replace_first c d s =
     (case dropWhile (\<lambda>x. x \<noteq> c) s of [] \<Rightarrow> s | _ # t \<Rightarrow> takeWhile (\<lambda>x. x \<noteq> c) s @ d # t)"

definition void_href :: jsstr where "void_href = js ''javascript:void(0)''"

text \<open>The class, the address and the link to remember of a node's anchor.\<close>

definition link_parts :: "jsstr \<Rightarrow> jsstr \<Rightarrow> jsstr \<Rightarrow> jsstr \<times> jsstr \<times> jsstr" where
  "link_parts page_path rel link0 =
     (let caret = (substring 0 1 link0 = js ''^'');
          url = (if caret then substring_from 1 link0 else rel @ link0);
          link = (if caret then url else link0);
          cls = stripPath (replace_first 35 58 link)
      in if indexOf link (js ''#'') \<noteq> None then
           let srcPage = stripPath page_path;
               targetPage = stripPath (hd (split_at_char 35 link))
           in (cls, if srcPage \<noteq> targetPage then url else void_href, link)
         else (cls, url, link))"

definition newNode :: "jsstr \<Rightarrow> node_info \<Rightarrow> nat \<Rightarrow> nav_data \<Rightarrow> bool \<Rightarrow> nav_node" where
  "newNode page_path po ancestors d lastNode =
     (let c = nd_children d; (img, px) = createIndent c ancestors;
          (cls, href, lnk) =
            (case nd_link d of
               Some link \<Rightarrow>
                 if link \<noteq> [] then
                   let (cls, href, lnk) = link_parts page_path (relpath po) link in (cls, href, Some lnk)
                 else if c \<noteq> No_children then (js ''nolink'', void_href, None) else ([], [], None)
             | None \<Rightarrow> if c \<noteq> No_children then (js ''nolink'', void_href, None) else ([], [], None))
      in Nav_Node
           \<lparr>childrenData = c, expanded = False, childrenVisited = False, depth = depth po + 1,
            relpath = relpath po, isLast = lastNode, label = nd_text d, a_class = cls, a_href = href,
            a_link = lnk, plus_img = img, indent_px = px, ul_display = None, selected = False\<rparr> [])"

text \<open>\<open>getNode\<close>: the children, each made with whether it is the last.\<close>

definition getNode :: "jsstr \<Rightarrow> nat \<Rightarrow> nav_data list \<Rightarrow> nav_node \<Rightarrow> nav_node" where
  "getNode page_path ancestors ds po =
     Nav_Node ((info po)\<lparr>childrenVisited := True,
         ul_display := (if ds = [] then ul_display (info po)
                        else case ul_display (info po) of None \<Rightarrow> Some (js ''none'') | d \<Rightarrow> d)\<rparr>)
       (map (\<lambda>i. newNode page_path (info po) (Suc ancestors) (ds ! i) (int i = int (length ds) - 1))
         [0..<length ds])"

text \<open>\<open>removeToInsertLater\<close> on a list of siblings: the list without the element, and what the returned
  function does to a list.\<close>

definition removeToInsertLater :: "nat \<Rightarrow> 'a list \<Rightarrow> 'a list \<times> ('a list \<Rightarrow> 'a list)" where
  "removeToInsertLater i xs =
     (let element = xs ! i;
          nextSibling = (if Suc i < length xs then Some (xs ! Suc i) else None)
      in (take i xs @ drop (Suc i) xs,
          \<lambda>ys. case nextSibling of
                 Some n \<Rightarrow> takeWhile (\<lambda>y. y \<noteq> n) ys @ element # dropWhile (\<lambda>y. y \<noteq> n) ys
               | None \<Rightarrow> ys @ [element]))"

section \<open>Opening nodes\<close>

definition open_node :: "jsstr \<Rightarrow> nat \<Rightarrow> nav_data list \<Rightarrow> jsstr \<Rightarrow> nav_node \<Rightarrow> nav_node" where
  "open_node page_path ancestors ds shown node =
     (let n1 = (if childrenVisited (info node) then node else getNode page_path ancestors ds node)
      in Nav_Node ((info n1)\<lparr>ul_display := Some shown, plus_img := Some arrowDown, expanded := True\<rparr>)
           (children n1))"

text \<open>The data of a node once its script is loaded.\<close>

definition load_children :: "(jsstr \<Rightarrow> nav_data list option) \<Rightarrow> child_data \<Rightarrow> nav_data list option" where
  "load_children scripts c =
     (case c of No_children \<Rightarrow> None | In_script v \<Rightarrow> scripts v | Children ds \<Rightarrow> Some ds)"

definition set_data :: "nav_data list \<Rightarrow> nav_node \<Rightarrow> nav_node" where
  "set_data ds n = Nav_Node ((info n)\<lparr>childrenData := Children ds\<rparr>) (children n)"

text \<open>\<open>expandNode\<close>; \<open>slideDown\<close> ends with the list displayed.\<close>

definition expandNode :: "(jsstr \<Rightarrow> nav_data list option) \<Rightarrow> jsstr \<Rightarrow> nat \<Rightarrow> nav_node \<Rightarrow> nav_node" where
  "expandNode scripts page_path ancestors node =
     (if has_children (childrenData (info node)) \<and> \<not> expanded (info node) then
        (case load_children scripts (childrenData (info node)) of
           None \<Rightarrow> node
         | Some ds \<Rightarrow> open_node page_path ancestors ds (js ''block'') (set_data ds node))
      else node)"

text \<open>The handler of the arrow: \<open>slideUp\<close> ends with the list hidden.\<close>

definition expandToggle :: "(jsstr \<Rightarrow> nav_data list option) \<Rightarrow> jsstr \<Rightarrow> nat \<Rightarrow> nav_node \<Rightarrow> nav_node" where
  "expandToggle scripts page_path ancestors node =
     (if expanded (info node)
      then Nav_Node ((info node)\<lparr>ul_display := Some (js ''none''), plus_img := Some arrowRight, expanded := False\<rparr>)
             (children node)
      else expandNode scripts page_path ancestors node)"

datatype show_outcome = Highlight "nat list option" | Waiting jsstr | Undefined_child

text \<open>\<open>showNode\<close> from a node with the breadcrumbs that are left. \<open>p\<close> is the path of the node; the outcome
  is the node \<open>selectAndHighlight\<close> is called with, a script that is waited for, or the \<open>TypeError\<close> of a
  missing last child. \<open>expand_last\<close> is the test on \<open>rootBase\<close>.\<close>

fun showNode :: "(jsstr \<Rightarrow> nav_data list option) \<Rightarrow> jsstr \<Rightarrow> bool \<Rightarrow> nat list \<Rightarrow> nat list \<Rightarrow> nav_node \<Rightarrow>
    nav_node \<times> show_outcome" where
  "showNode scripts page_path expand_last p [] node = (node, Undefined_child)"
| "showNode scripts page_path expand_last p (b # bs) node =
     (if \<not> has_children (childrenData (info node)) then (node, Highlight None)
      else case load_children scripts (childrenData (info node)) of
        None \<Rightarrow> (node, (case childrenData (info node) of In_script v \<Rightarrow> Waiting v | _ \<Rightarrow> Highlight None))
      | Some ds \<Rightarrow>
          let node1 = open_node page_path (length p) ds (js ''block'') (set_data ds node) in
          if bs \<noteq> [] then
            if b < length (children node1) then
              let (n, r) = showNode scripts page_path expand_last (p @ [b]) bs (children node1 ! b)
              in (Nav_Node (info node1) ((children node1)[b := n]), r)
            else (node1, Highlight None)
          else if b < length (children node1) then
            let n = children node1 ! b in
            (case childrenData (info n) of
               In_script v \<Rightarrow>
                 if scripts v = None then (node1, Waiting v)
                 else
                   let n1 = set_data (the (scripts v)) n;
                       n2 = (if expand_last then expandNode scripts page_path (Suc (length p)) n1 else n1)
                   in (Nav_Node (info node1) ((children node1)[b := n2]), Highlight (Some (p @ [b])))
             | _ \<Rightarrow>
                 let n2 = (if expand_last then expandNode scripts page_path (Suc (length p)) n else n)
                 in (Nav_Node (info node1) ((children node1)[b := n2]), Highlight (Some (p @ [b]))))
          else (node1, Undefined_child))"

section \<open>Nodes by path\<close>

fun node_at :: "nav_node \<Rightarrow> nat list \<Rightarrow> nav_node option" where
  "node_at n [] = Some n"
| "node_at n (b # bs) = (if b < length (children n) then node_at (children n ! b) bs else None)"

fun upd_at :: "nat list \<Rightarrow> (nav_node \<Rightarrow> nav_node) \<Rightarrow> nav_node \<Rightarrow> nav_node" where
  "upd_at [] f n = f n"
| "upd_at (b # bs) f n =
     (if b < length (children n) then Nav_Node (info n) ((children n)[b := upd_at bs f (children n ! b)]) else n)"

fun map_nodes :: "(node_info \<Rightarrow> node_info) \<Rightarrow> nav_node \<Rightarrow> nav_node" where
  "map_nodes f (Nav_Node i cs) = Nav_Node (f i) (map (map_nodes f) cs)"

fun any_node :: "(node_info \<Rightarrow> bool) \<Rightarrow> nav_node \<Rightarrow> bool" where
  "any_node P (Nav_Node i cs) \<longleftrightarrow> P i \<or> list_ex (any_node P) cs"

definition select_node :: "nav_node \<Rightarrow> nav_node" where
  "select_node n = Nav_Node ((info n)\<lparr>selected := True\<rparr>) (children n)"

section \<open>The page\<close>

text \<open>The generated tables and scripts.\<close>

record nav_env =
  NAVTREE :: "nav_data list"
  NAVTREEINDEX :: "jsstr list"
  index_script :: "nat \<Rightarrow> (jsstr \<Rightarrow> nat list option) option"
  data_script :: "jsstr \<Rightarrow> nav_data list option"
  SYNCONMSG :: jsstr
  SYNCOFFMSG :: jsstr

record nav_page =
  tree :: nav_node
  toroot :: jsstr
  page_relpath :: jsstr
  breadcrumbs :: "nat list"
  storage_ok :: bool
  navpath :: "jsstr option"
  sync_class :: bool
  sync_html :: jsstr
  sync_top :: jsstr
  location_hash :: jsstr
  location_path :: jsstr
  loadTriggered :: bool
  readyTriggered :: bool
  load_args :: "(jsstr \<times> jsstr \<times> jsstr) option"
  outcomes :: "show_outcome list"

definition storeLink :: "jsstr \<Rightarrow> nav_page \<Rightarrow> nav_page" where
  "storeLink link s = (if \<not> sync_class s \<and> storage_ok s then s\<lparr>navpath := Some link\<rparr> else s)"

definition deleteLink :: "nav_page \<Rightarrow> nav_page" where
  "deleteLink s = (if storage_ok s then s\<lparr>navpath := Some []\<rparr> else s)"

text \<open>An item that was never set is \<open>null\<close>, which is as false as the empty string.\<close>

definition cachedLink :: "nav_page \<Rightarrow> jsstr" where
  "cachedLink s = (if storage_ok s then (case navpath s of None \<Rightarrow> [] | Some v \<Rightarrow> v) else [])"

definition deselect_all :: "nav_page \<Rightarrow> nav_page" where
  "deselect_all s = s\<lparr>tree := map_nodes (\<lambda>i. i\<lparr>selected := False\<rparr>) (tree s)\<rparr>"

definition ends_with :: "jsstr \<Rightarrow> jsstr \<Rightarrow> bool" where
  "ends_with e s \<longleftrightarrow> e \<noteq> [] \<and> length e \<le> length s \<and> drop (length s - length e) s = e"

text \<open>The nodes that \<^verbatim>\<open>$('.item a[class$="..."]')\<close> finds; the root itself has no anchor.\<close>

definition any_item :: "(node_info \<Rightarrow> bool) \<Rightarrow> nav_node \<Rightarrow> bool" where
  "any_item P t \<longleftrightarrow> list_ex (any_node P) (children t)"

definition map_items :: "(node_info \<Rightarrow> node_info) \<Rightarrow> nav_node \<Rightarrow> nav_node" where
  "map_items f t = Nav_Node (info t) (map (map_nodes f) (children t))"

definition selectAndHighlight :: "jsstr \<Rightarrow> nat list option \<Rightarrow> nav_page \<Rightarrow> nav_page" where
  "selectAndHighlight hash n s =
     (let link = stripPath (pathName (location_path s)) @ js '':'' @ substring_from 1 hash;
          hit = (\<lambda>i. ends_with link (a_class i));
          t = (if hash \<noteq> [] \<and> any_item hit (tree s)
               then map_items (\<lambda>i. if hit i then i\<lparr>selected := True\<rparr> else i) (tree s)
               else case n of Some p \<Rightarrow> upd_at p select_node (tree s) | None \<Rightarrow> tree s);
          first_selected = (case children t of [] \<Rightarrow> False | c # _ \<Rightarrow> selected (info c))
      in s\<lparr>tree := t, sync_top := (if first_selected then js ''30px'' else js ''5px'')\<rparr>)"

text \<open>\<^verbatim>\<open>o.toroot.replace(/\..+$/, '')\<close>: everything from the first dot that has a character after it.\<close>

definition strip_extension :: "jsstr \<Rightarrow> jsstr" where
  "strip_extension s =
     (case dropWhile (\<lambda>c. c \<noteq> 46) s of
        [] \<Rightarrow> s
      | _ # t \<Rightarrow> if t = [] then s else takeWhile (\<lambda>c. c \<noteq> 46) s)"

definition rootBase_expands :: "jsstr \<Rightarrow> bool" where
  "rootBase_expands troot \<longleftrightarrow>
     stripPath (strip_extension troot) \<in> {js ''index'', js ''pages'', js ''search''}"

text \<open>\<open>gotoNode\<close>: \<open>$.extend\<close> always returns an array, so the breadcrumbs are the found path or empty and the
  fallback is never taken.\<close>

definition gotoNode :: "nav_env \<Rightarrow> (jsstr \<Rightarrow> nat list option) \<Rightarrow> jsstr \<Rightarrow> jsstr \<Rightarrow> nav_page \<Rightarrow> nav_page" where
  "gotoNode env sub root hash s =
     (let crumbs = (case sub (root @ hash) of
                      Some nti \<Rightarrow> nti
                    | None \<Rightarrow> (case sub root of Some bs \<Rightarrow> bs | None \<Rightarrow> []));
          bs = 0 # crumbs;
          (t, r) = showNode (data_script env) (pathName (location_path s)) (rootBase_expands (toroot s)) [] bs (tree s);
          s1 = s\<lparr>breadcrumbs := bs, tree := t, outcomes := outcomes s @ [r]\<rparr>
      in case r of Highlight n \<Rightarrow> selectAndHighlight hash n s1 | _ \<Rightarrow> s1)"

text \<open>Strings compare by their code units.\<close>

fun js_le :: "jsstr \<Rightarrow> jsstr \<Rightarrow> bool" where
  "js_le [] t = True"
| "js_le (c # s) [] = False"
| "js_le (c # s) (d # t) = (c < d \<or> c = d \<and> js_le s t)"

text \<open>\<open>while (NAVTREEINDEX[i+1] <= url) i++\<close>, from \<open>i\<close>; a missing entry is not less or equal.\<close>

fun index_loop :: "jsstr list \<Rightarrow> jsstr \<Rightarrow> int \<Rightarrow> int" where
  "index_loop [] url i = i"
| "index_loop (e # es) url i = (if js_le e url then index_loop es url (i + 1) else i)"

definition line_anchor :: "jsstr \<Rightarrow> bool" where
  "line_anchor h \<longleftrightarrow> starts_with (js ''#l'') h \<and> drop 2 h \<noteq> [] \<and> list_all is_digit (drop 2 h)"

definition nav_target :: "nav_page \<Rightarrow> jsstr \<Rightarrow> jsstr \<Rightarrow> jsstr \<times> jsstr" where
  "nav_target s root hash =
     (let link = cachedLink s;
          (root1, hash1) =
            (if link \<noteq> [] then
               let parts = split_at_char 35 link
               in (hd parts, if length parts > 1 then js ''#'' @ keep_name_chars (parts ! 1) else [])
             else (root, hash))
      in (root1, if line_anchor hash1 then [] else hash1))"

definition navTo :: "nav_env \<Rightarrow> jsstr \<Rightarrow> jsstr \<Rightarrow> nav_page \<Rightarrow> nav_page js_result" where
  "navTo env root0 hash0 s =
     (let (root1, hash) = nav_target s root0 hash0;
          i0 = index_loop (NAVTREEINDEX env) (root1 @ hash) (-1)
      in case (if i0 = -1
               then (case NAVTREE env of
                       [] \<Rightarrow> Inl TypeError
                     | d # _ \<Rightarrow> Inr (0, case nd_link d of Some l \<Rightarrow> l | None \<Rightarrow> js ''null''))
               else Inr (nat i0, root1)) of
           Inl e \<Rightarrow> Inl e
         | Inr (i, root) \<Rightarrow>
             (case index_script env i of
                None \<Rightarrow> Inr (s\<lparr>outcomes := outcomes s @ [Waiting (js ''navtreeindex'' @ toString 10 i)]\<rparr>)
              | Some sub \<Rightarrow> Inr (gotoNode env sub root hash s)))"

definition sync_image :: "jsstr \<Rightarrow> jsstr \<Rightarrow> jsstr \<Rightarrow> jsstr" where
  "sync_image rel img msg =
     js ''<img src=\"'' @ rel @ img @ js ''\" title=\"'' @ msg @ js ''\"/>''"

definition showSyncOff :: "nav_env \<Rightarrow> jsstr \<Rightarrow> nav_page \<Rightarrow> nav_page" where
  "showSyncOff env rel s = s\<lparr>sync_html := sync_image rel (js ''sync_off.png'') (SYNCOFFMSG env)\<rparr>"

definition showSyncOn :: "nav_env \<Rightarrow> jsstr \<Rightarrow> nav_page \<Rightarrow> nav_page" where
  "showSyncOn env rel s = s\<lparr>sync_html := sync_image rel (js ''sync_on.png'') (SYNCONMSG env)\<rparr>"

definition toggleSyncButton :: "nav_env \<Rightarrow> jsstr \<Rightarrow> nav_page \<Rightarrow> nav_page" where
  "toggleSyncButton env rel s =
     (if sync_class s then
        storeLink (stripPath2 (pathName (location_path s)) @ hashUrl (location_hash s))
          (showSyncOff env rel (s\<lparr>sync_class := False\<rparr>))
      else deleteLink (showSyncOn env rel (s\<lparr>sync_class := True\<rparr>)))"

definition window_load :: "nav_env \<Rightarrow> nav_page \<Rightarrow> nav_page js_result" where
  "window_load env s =
     js_bind
       (if readyTriggered s then
          (case load_args s of
             Some (troot, url, rel) \<Rightarrow> navTo env troot url s
           | None \<Rightarrow> Inl TypeError)
        else Inr s)
       (\<lambda>s1. Inr (s1\<lparr>loadTriggered := True\<rparr>))"

definition root_node :: "nav_env \<Rightarrow> jsstr \<Rightarrow> nav_node" where
  "root_node env rel =
     Nav_Node \<lparr>childrenData = Children (NAVTREE env), expanded = False, childrenVisited = False, depth = 0,
       relpath = rel, isLast = True, label = [], a_class = [], a_href = [], a_link = None,
       plus_img = Some arrowRight, indent_px = 0, ul_display = Some [], selected = False\<rparr> []"

text \<open>The first part of \<open>initNavTree\<close>: the root and the synchronisation button.\<close>

definition init_tree :: "nav_env \<Rightarrow> jsstr \<Rightarrow> jsstr \<Rightarrow> nav_page \<Rightarrow> nav_page" where
  "init_tree env troot rel s0 =
     (let s1 = s0\<lparr>tree := root_node env rel, toroot := troot, page_relpath := rel\<rparr>
      in if storage_ok s1 then
           if cachedLink s1 \<noteq> [] then (showSyncOff env rel s1)\<lparr>sync_class := False\<rparr>
           else showSyncOn env rel s1
         else s1)"

definition initNavTree :: "nav_env \<Rightarrow> jsstr \<Rightarrow> jsstr \<Rightarrow> nav_page \<Rightarrow> nav_page js_result" where
  "initNavTree env troot rel s0 =
     (let s2 = init_tree env troot rel s0
      in if loadTriggered s2 then navTo env troot (hashUrl (location_hash s2)) s2
         else Inr (s2\<lparr>load_args := Some (troot, hashUrl (location_hash s2), rel), readyTriggered := True\<rparr>))"

text \<open>The handler of \<open>hashchange\<close>, outside an animation.\<close>

definition hashchange :: "nav_env \<Rightarrow> nav_page \<Rightarrow> nav_page js_result" where
  "hashchange env s =
     (if length (location_hash s) > 1 then
        let clslink = stripPath (pathName (location_path s)) @ js '':'' @ hashValue (location_hash s);
            s1 = (if any_item (\<lambda>i. ends_with clslink (a_class i) \<and> selected i) (tree s) then s else deselect_all s)
        in navTo env (stripPath2 (pathName (location_path s))) (hashUrl (location_hash s)) s1
      else navTo env (toroot s) (hashUrl (location_hash s)) (deselect_all s))"

text \<open>A click on a node's anchor, and on its arrow.\<close>

definition click_link :: "nav_env \<Rightarrow> nat list \<Rightarrow> nav_page \<Rightarrow> nav_page" where
  "click_link env p s =
     (case node_at (tree s) p of
        None \<Rightarrow> s
      | Some n \<Rightarrow>
          (case a_link (info n) of
             Some link \<Rightarrow>
               let s1 = storeLink link s in
               if indexOf link (js ''#'') \<noteq> None \<and> \<not> selected (info n)
               then let s2 = deselect_all s1 in s2\<lparr>tree := upd_at p select_node (tree s2)\<rparr>
               else s1
           | None \<Rightarrow>
               if a_class (info n) = js ''nolink''
               then s\<lparr>tree := upd_at p (expandToggle (data_script env) (pathName (location_path s)) (length p)) (tree s)\<rparr>
               else s))"

definition click_arrow :: "nav_env \<Rightarrow> nat list \<Rightarrow> nav_page \<Rightarrow> nav_page" where
  "click_arrow env p s =
     s\<lparr>tree := upd_at p (expandToggle (data_script env) (pathName (location_path s)) (length p)) (tree s)\<rparr>"

section \<open>The tree follows its data\<close>

text \<open>The entry at a path of breadcrumbs, through the scripts.\<close>

fun data_at :: "(jsstr \<Rightarrow> nav_data list option) \<Rightarrow> child_data \<Rightarrow> nat list \<Rightarrow> nav_data option" where
  "data_at sc c [] = None"
| "data_at sc c (b # bs) =
     (if \<not> has_children c then None
      else case load_children sc c of
        None \<Rightarrow> None
      | Some ds \<Rightarrow>
          if b < length ds then if bs = [] then Some (ds ! b) else data_at sc (nd_children (ds ! b)) bs
          else None)"

lemma size_child: "k < length cs \<Longrightarrow> size (cs ! k) < Suc (size_list size cs)"
  by (induction cs arbitrary: k) (auto simp: nth_Cons split: nat.splits, metis add_Suc_right less_Suc_eq trans_less_add2)

text \<open>A node agrees with its data: the same children once loaded, and the children it has made have the
  texts of their entries and agree with them.\<close>

function tree_ok :: "(jsstr \<Rightarrow> nav_data list option) \<Rightarrow> child_data \<Rightarrow> nav_node \<Rightarrow> bool" where
  "tree_ok sc c (Nav_Node i cs) \<longleftrightarrow>
     (childrenData i = c \<or>
      (case load_children sc c of None \<Rightarrow> False | Some ds \<Rightarrow> childrenData i = Children ds)) \<and>
     has_children (childrenData i) = has_children c \<and>
     (if childrenVisited i then
        (case load_children sc c of
           None \<Rightarrow> False
         | Some ds \<Rightarrow> length cs = length ds \<and>
             (\<forall>k < length cs. label (info (cs ! k)) = nd_text (ds ! k) \<and> tree_ok sc (nd_children (ds ! k)) (cs ! k)))
      else cs = [])"
  by pat_completeness auto
termination
  by (relation "measure (\<lambda>(sc, c, n). size n)") (auto simp: size_child)

declare tree_ok.simps [simp del]

lemma load_children_simps [simp]:
  "load_children sc (Children ds) = Some ds" "load_children sc (In_script v) = sc v"
  "load_children sc No_children = None"
  "has_children (Children ds)" "has_children (In_script v) = (v \<noteq> [])" "\<not> has_children No_children"
  by (simp_all add: load_children_def has_children_def)

lemma tree_ok_data:
  "tree_ok sc c n \<Longrightarrow> load_children sc (childrenData (info n)) = load_children sc c \<and>
   has_children (childrenData (info n)) = has_children c \<and>
   (childrenData (info n) = c \<or>
    (case load_children sc c of None \<Rightarrow> False | Some ds \<Rightarrow> childrenData (info n) = Children ds))"
  by (cases n) (auto simp: tree_ok.simps split: option.splits)

lemma newNode_ok:
  "tree_ok sc (nd_children d) (newNode pp po a d l)" "label (info (newNode pp po a d l)) = nd_text d"
  by (simp_all add: newNode_def Let_def tree_ok.simps split: prod.splits)

text \<open>Opening a node makes its children or keeps them.\<close>

lemma open_node_ok:
  fixes n pp a ds sh
  defines "n1 \<equiv> open_node pp a ds sh (set_data ds n)"
  assumes "tree_ok sc c n" "has_children c" "load_children sc c = Some ds"
  shows "tree_ok sc c n1" "length (children n1) = length ds" "expanded (info n1)"
    "ul_display (info n1) = Some sh" "label (info n1) = label (info n)" "childrenVisited (info n1)"
    "k < length ds \<Longrightarrow> label (info (children n1 ! k)) = nd_text (ds ! k) \<and>
      tree_ok sc (nd_children (ds ! k)) (children n1 ! k)"
proof -
  obtain i cs where n: "n = Nav_Node i cs" by (cases n)
  have cs: "length (children n1) = length ds \<and> childrenVisited (info n1) \<and> childrenData (info n1) = Children ds \<and>
     (\<forall>k < length ds. label (info (children n1 ! k)) = nd_text (ds ! k) \<and>
       tree_ok sc (nd_children (ds ! k)) (children n1 ! k))"
    using assms(2,4) unfolding n1_def n
    by (auto simp: open_node_def set_data_def getNode_def newNode_ok tree_ok.simps)
  show "expanded (info n1)" "ul_display (info n1) = Some sh" "label (info n1) = label (info n)"
    by (simp_all add: n1_def open_node_def set_data_def getNode_def Let_def)
  show "length (children n1) = length ds" "childrenVisited (info n1)"
    "k < length ds \<Longrightarrow> label (info (children n1 ! k)) = nd_text (ds ! k) \<and>
      tree_ok sc (nd_children (ds ! k)) (children n1 ! k)"
    using cs by simp_all
  show "tree_ok sc c n1"
    using cs assms(3,4)
    by (cases n1) (simp add: tree_ok.simps [of sc c])
qed

lemma set_data_ok:
  assumes "tree_ok sc c n" "childrenData (info n) = In_script v" "sc v = Some ds" "v \<noteq> []"
  shows "tree_ok sc c (set_data ds n)"
proof -
  obtain i cs where n: "n = Nav_Node i cs" by (cases n)
  have c: "c = In_script v" using tree_ok_data [OF assms(1)] assms(2) by (auto split: option.splits)
  show ?thesis
    using assms unfolding n c by (simp add: tree_ok.simps set_data_def)
qed

lemma expandNode_ok: "tree_ok sc c n \<Longrightarrow> tree_ok sc c (expandNode sc pp a n) \<and> label (info (expandNode sc pp a n)) = label (info n)"
  using open_node_ok(1,5) [of sc c n] tree_ok_data [of sc c n]
  by (auto simp: expandNode_def split: option.splits)

lemma tree_ok_update:
  assumes "tree_ok sc c (Nav_Node i cs)" "childrenVisited i" "load_children sc c = Some ds" "b < length cs"
    "tree_ok sc (nd_children (ds ! b)) n" "label (info n) = nd_text (ds ! b)"
  shows "tree_ok sc c (Nav_Node i (cs[b := n]))"
  using assms by (simp add: tree_ok.simps [of sc c] nth_list_update)

text \<open>The last step of \<open>showNode\<close>: the child's data are loaded, and the child is opened if it is asked for.\<close>

lemma showNode_last:
  assumes "has_children (childrenData (info node))" "load_children sc (childrenData (info node)) = Some ds"
    "open_node pp (length p) ds (js ''block'') (set_data ds node) = Nav_Node i cs" "b < length cs"
    "tree_ok sc c (cs ! b)" "\<And>v. c = In_script v \<Longrightarrow> v \<noteq> [] \<and> sc v \<noteq> None"
  obtains m where "showNode sc pp e p [b] node = (Nav_Node i (cs[b := m]), Highlight (Some (p @ [b])))"
    "tree_ok sc c m" "label (info m) = label (info (cs ! b))"
proof (cases "childrenData (info (cs ! b))")
  case (In_script v)
  have "c = In_script v" using tree_ok_data [OF assms(5)] In_script by (cases "load_children sc c") simp_all
  then obtain es where es: "sc v = Some es" "v \<noteq> []" using assms(6) by blast
  let ?m = "set_data es (cs ! b)"
  have ok: "tree_ok sc c ?m" by (rule set_data_ok [OF assms(5) In_script es])
  have lab: "label (info ?m) = label (info (cs ! b))" by (simp add: set_data_def)
  show thesis
    using that [of "if e then expandNode sc pp (Suc (length p)) ?m else ?m"] expandNode_ok [OF ok] ok lab
      assms(1-4) es In_script by (simp add: Let_def)
qed (use that [of "if e then expandNode sc pp (Suc (length p)) (cs ! b) else cs ! b"]
    expandNode_ok [OF assms(5)] assms(1-5) in \<open>simp_all add: Let_def\<close>)

lemma showNode_opens:
  assumes "tree_ok sc c node" "data_at sc c bs = Some d" "\<And>v. nd_children d = In_script v \<Longrightarrow> v \<noteq> [] \<and> sc v \<noteq> None"
  shows "\<exists>node' n. showNode sc pp e p bs node = (node', Highlight (Some (p @ bs))) \<and> tree_ok sc c node' \<and>
    label (info node') = label (info node) \<and> node_at node' bs = Some n \<and> label (info n) = nd_text d \<and>
    (\<forall>k < length bs. \<exists>m. node_at node' (take k bs) = Some m \<and> expanded (info m) \<and>
       ul_display (info m) = Some (js ''block''))"
  using assms(1,2)
proof (induction bs arbitrary: p c node)
  case (Cons b bs)
  from Cons.prems(2) obtain ds where ds: "has_children c" "load_children sc c = Some ds" "b < length ds"
    "(if bs = [] then Some (ds ! b) else data_at sc (nd_children (ds ! b)) bs) = Some d"
    by (auto split: if_splits option.splits)
  define n1 where "n1 = open_node pp (length p) ds (js ''block'') (set_data ds node)"
  note op = open_node_ok [OF Cons.prems(1) ds(1,2), where pp = pp and a = "length p" and sh = "js ''block''", folded n1_def]
  obtain i cs where n1: "n1 = Nav_Node i cs" by (cases n1)
  have child: "label (info (cs ! b)) = nd_text (ds ! b)" "tree_ok sc (nd_children (ds ! b)) (cs ! b)"
    "b < length cs" "length cs = length ds"
    using op(2) op(7) [OF ds(3)] ds(3) n1 by simp_all
  have data: "has_children (childrenData (info node))"
    "load_children sc (childrenData (info node)) = Some ds"
    using tree_ok_data [OF Cons.prems(1)] ds(1,2) by simp_all
  have upd: "tree_ok sc c (Nav_Node i (cs[b := m]))"
    if "tree_ok sc (nd_children (ds ! b)) m" "label (info m) = nd_text (ds ! b)" for m
    using tree_ok_update [OF _ _ ds(2) child(3) that] op(1,6) n1 by simp
  have root: "expanded i" "ul_display i = Some (js ''block'')" "label i = label (info node)"
    using op(3-5) n1 by simp_all
  show ?case
  proof (cases "bs = []")
    case True
    then have d: "d = ds ! b" using ds(4) by simp
    have op1: "open_node pp (length p) ds (js ''block'') (set_data ds node) = Nav_Node i cs" using n1 n1_def by simp
    have "v \<noteq> [] \<and> sc v \<noteq> None" if "nd_children (ds ! b) = In_script v" for v using assms(3) d that by simp
    then obtain m where m: "showNode sc pp e p [b] node = (Nav_Node i (cs[b := m]), Highlight (Some (p @ [b])))"
      "tree_ok sc (nd_children (ds ! b)) m" "label (info m) = nd_text (ds ! b)"
      using showNode_last [OF data op1 child(3,2)] child(1) by metis
    show ?thesis
      using True m upd [OF m(2,3)] child(3) root d by simp
  next
    case False
    have "data_at sc (nd_children (ds ! b)) bs = Some d" using ds(4) False by simp
    from Cons.IH [OF child(2) this, of "p @ [b]"] obtain m n where m:
      "showNode sc pp e (p @ [b]) bs (cs ! b) = (m, Highlight (Some ((p @ [b]) @ bs)))"
      "tree_ok sc (nd_children (ds ! b)) m" "label (info m) = label (info (cs ! b))" "node_at m bs = Some n"
      "label (info n) = nd_text d"
      "\<forall>k < length bs. \<exists>q. node_at m (take k bs) = Some q \<and> expanded (info q) \<and> ul_display (info q) = Some (js ''block'')"
      by blast
    have "showNode sc pp e p (b # bs) node = (Nav_Node i (cs[b := m]), Highlight (Some (p @ b # bs)))"
      using False data n1 n1_def child(3,4) m(1) by simp
    moreover have "\<exists>q. node_at (Nav_Node i (cs[b := m])) (take k (b # bs)) = Some q \<and> expanded (info q) \<and>
        ul_display (info q) = Some (js ''block'')" if "k < length (b # bs)" for k
      using that m(6) root child(3) by (cases k) auto
    ultimately show ?thesis
      using upd [OF m(2)] m(3-5) child(1,3) root by auto
  qed
qed simp

section \<open>Choosing the index and the page\<close>

lemma index_loop_spec:
  "i \<le> index_loop es url i \<and> index_loop es url i \<le> i + int (length es) \<and>
   (\<forall>k. int k < index_loop es url i - i \<longrightarrow> js_le (es ! k) url) \<and>
   (index_loop es url i < i + int (length es) \<longrightarrow> \<not> js_le (es ! nat (index_loop es url i - i)) url)"
proof (induction es arbitrary: i)
  case (Cons e es)
  show ?case
  proof (cases "js_le e url")
    case True
    let ?j = "index_loop es url (i + 1)"
    from Cons.IH [of "i + 1"] have ih: "i + 1 \<le> ?j" "?j \<le> i + 1 + int (length es)"
      "\<And>k. int k < ?j - (i + 1) \<Longrightarrow> js_le (es ! k) url"
      "?j < i + 1 + int (length es) \<Longrightarrow> \<not> js_le (es ! nat (?j - (i + 1))) url"
      by auto
    have "js_le ((e # es) ! k) url" if "int k < ?j - i" for k
      using that True ih(3) by (cases k) auto
    moreover have "nat (?j - i) = Suc (nat (?j - (i + 1)))" using ih(1) by linarith
    ultimately show ?thesis using True ih by auto
  qed simp
qed simp

definition with_flags :: "nav_page \<Rightarrow> nav_page \<Rightarrow> nav_page" where
  "with_flags f s = s\<lparr>loadTriggered := loadTriggered f, readyTriggered := readyTriggered f, load_args := load_args f\<rparr>"

lemma flags_simps [simp]:
  "tree (with_flags f s) = tree s" "toroot (with_flags f s) = toroot s" "location_path (with_flags f s) = location_path s"
  "outcomes (with_flags f s) = outcomes s" "cachedLink (with_flags f s) = cachedLink s"
  "nav_target (with_flags f s) = nav_target s"
  by (simp_all add: with_flags_def cachedLink_def nav_target_def fun_eq_iff)

lemma init_flags: "init_tree env troot rel (with_flags f s) = with_flags f (init_tree env troot rel s)"
  by (simp add: init_tree_def with_flags_def showSyncOff_def showSyncOn_def cachedLink_def Let_def)

lemma select_flags: "selectAndHighlight h n (with_flags f s) = with_flags f (selectAndHighlight h n s)"
  unfolding selectAndHighlight_def Let_def flags_simps by (simp add: with_flags_def)

lemma goto_flags: "gotoNode env sub r h (with_flags f s) = with_flags f (gotoNode env sub r h s)"
proof -
  have upd: "(with_flags f s)\<lparr>breadcrumbs := a, tree := b, outcomes := c\<rparr> =
      with_flags f (s\<lparr>breadcrumbs := a, tree := b, outcomes := c\<rparr>)" for a b c
    by (simp add: with_flags_def)
  show ?thesis
    unfolding gotoNode_def Let_def flags_simps upd
    by (simp add: select_flags split: prod.splits show_outcome.splits)
qed

lemma navTo_flags: "navTo env r h (with_flags f s) = map_sum id (with_flags f) (navTo env r h s)"
proof -
  have upd: "(with_flags f s)\<lparr>outcomes := c\<rparr> = with_flags f (s\<lparr>outcomes := c\<rparr>)" for c
    by (simp add: with_flags_def)
  show ?thesis
    unfolding navTo_def Let_def flags_simps upd goto_flags
    by (simp split: prod.splits sum.splits option.splits)
qed

section \<open>Synchronisation\<close>

definition sync_ok :: "nav_page \<Rightarrow> bool" where
  "sync_ok s \<longleftrightarrow> (sync_class s \<longrightarrow> cachedLink s = [])"

datatype nav_event = Ev_toggle | Ev_link "nat list" | Ev_arrow "nat list"

fun nav_handle :: "nav_env \<Rightarrow> nav_event \<Rightarrow> nav_page \<Rightarrow> nav_page" where
  "nav_handle env Ev_toggle s = toggleSyncButton env (page_relpath s) s"
| "nav_handle env (Ev_link p) s = click_link env p s"
| "nav_handle env (Ev_arrow p) s = click_arrow env p s"

lemma sync_ok_cong:
  "navpath s' = navpath s \<Longrightarrow> sync_class s' = sync_class s \<Longrightarrow> storage_ok s' = storage_ok s \<Longrightarrow> sync_ok s' = sync_ok s"
  by (simp add: sync_ok_def cachedLink_def)

definition same_sync :: "nav_page \<Rightarrow> nav_page \<Rightarrow> bool" where
  "same_sync s' s \<longleftrightarrow> navpath s' = navpath s \<and> sync_class s' = sync_class s \<and> storage_ok s' = storage_ok s"

lemma select_keeps: "same_sync (selectAndHighlight h n s) s"
  by (simp add: selectAndHighlight_def same_sync_def Let_def split: option.split)

lemma goto_keeps: "same_sync (gotoNode env sub r h s) s"
proof -
  have "same_sync (selectAndHighlight h n (s\<lparr>breadcrumbs := a, tree := b, outcomes := c\<rparr>)) s" for n a b c
    using select_keeps [of h n "s\<lparr>breadcrumbs := a, tree := b, outcomes := c\<rparr>"] by (simp add: same_sync_def)
  moreover have "same_sync (s\<lparr>breadcrumbs := a, tree := b, outcomes := c\<rparr>) s" for a b c
    by (simp add: same_sync_def)
  ultimately show ?thesis
    by (simp add: gotoNode_def Let_def del: showNode.simps split: prod.split show_outcome.split)
qed

lemma navTo_keeps: "navTo env r h s = Inr s' \<Longrightarrow> same_sync s' s"
  by (auto simp: navTo_def Let_def goto_keeps split: prod.splits sum.splits option.splits)
    (simp_all add: same_sync_def)

lemma sync_ok_init: "initNavTree env troot rel s0 = Inr s \<Longrightarrow> sync_ok s"
proof -
  assume init: "initNavTree env troot rel s0 = Inr s"
  have "sync_ok (init_tree env troot rel s0)"
    by (simp add: sync_ok_def init_tree_def showSyncOff_def showSyncOn_def cachedLink_def Let_def)
  with init show ?thesis
    by (auto simp: initNavTree_def Let_def sync_ok_def cachedLink_def same_sync_def dest: navTo_keeps split: if_splits)
qed

lemma sync_ok_handle: "sync_ok s \<Longrightarrow> sync_ok (nav_handle env e s)"
  by (cases e)
    (auto simp: sync_ok_def toggleSyncButton_def storeLink_def deleteLink_def showSyncOff_def showSyncOn_def
      cachedLink_def click_link_def click_arrow_def deselect_all_def Let_def split: option.splits)

lemma sync_ok_run: "sync_ok s \<Longrightarrow> sync_ok (fold (nav_handle env) es s)"
  by (induction es arbitrary: s) (auto intro: sync_ok_handle)

section \<open>Properties\<close>

text \<open>The tree of the documentation in small: an entry whose children are in another script.\<close>

definition nav_example_env :: nav_env where
  "nav_example_env = \<lparr>
     NAVTREE = [Nav_Data (js ''T'') (Some (js ''index.html''))
       (Children [Nav_Data (js ''A'') (Some (js ''a.html'')) No_children,
                  Nav_Data (js ''B'') (Some (js ''b.html'')) (In_script (js ''b''))])],
     NAVTREEINDEX = [js ''a.html''],
     index_script = (\<lambda>i. if i = 0 then Some (map_of [(js ''b.html#x'', [1, 0])]) else None),
     data_script = (\<lambda>v. if v = js ''b'' then Some [Nav_Data (js ''X'') (Some (js ''b.html#x'')) No_children] else None),
     SYNCONMSG = [], SYNCOFFMSG = []\<rparr>"

definition example_nav_page :: nav_page where
  "example_nav_page = \<lparr>tree = root_node nav_example_env [], toroot = js ''b.html'', page_relpath = [], breadcrumbs = [],
     storage_ok = True, navpath = None, sync_class = True, sync_html = [], sync_top = [], location_hash = js ''#x'',
     location_path = js ''/b.html'', loadTriggered = False, readyTriggered = False, load_args = None, outcomes = []\<rparr>"

text \<open>
  C28. Showing the node of a page opens the tree down to it. When the breadcrumbs lead to an entry of
  the tree's data, through the scripts that hold parts of it, \<open>showNode\<close> ends with a call of \<open>selectAndHighlight\<close> for the node at
  exactly these breadcrumbs (which highlights it, or the items that match the anchor of the address); the node carries the entry's text, every node on the way is expanded with
  its list displayed, and the tree still agrees with its data.
\<close>

theorem showNode_reaches_entry:
  assumes "tree_ok sc c node" and "data_at sc c bs = Some d"
    and "\<And>v. nd_children d = In_script v \<Longrightarrow> v \<noteq> [] \<and> sc v \<noteq> None"
  shows "\<exists>node' n. showNode sc pp e [] bs node = (node', Highlight (Some bs)) \<and> tree_ok sc c node' \<and>
    node_at node' bs = Some n \<and> label (info n) = nd_text d \<and>
    (\<forall>k < length bs. \<exists>m. node_at node' (take k bs) = Some m \<and> expanded (info m) \<and>
       ul_display (info m) = Some (js ''block''))"
  using showNode_opens [OF assms, of pp e "[]"] by auto

theorem showNode_reaches_entry_witness:
  "\<exists>node' n. showNode (data_script nav_example_env) [] False [] [0, 1, 0] (root_node nav_example_env []) =
      (node', Highlight (Some [0, 1, 0])) \<and> node_at node' [0, 1, 0] = Some n \<and> label (info n) = js ''X''"
proof -
  have ok: "tree_ok (data_script nav_example_env) (Children (NAVTREE nav_example_env)) (root_node nav_example_env [])"
    by (simp add: root_node_def tree_ok.simps)
  have d: "data_at (data_script nav_example_env) (Children (NAVTREE nav_example_env)) [0, 1, 0] =
      Some (Nav_Data (js ''X'') (Some (js ''b.html#x'')) No_children)"
    by (simp add: nav_example_env_def)
  have nv: "nd_children (Nav_Data t l No_children) = In_script v \<Longrightarrow> v \<noteq> [] \<and> data_script nav_example_env v \<noteq> None"
    for t l v by simp
  show ?thesis
    using showNode_reaches_entry [OF ok d nv, where pp = "[]" and e = False] by (simp del: showNode.simps node_at.simps) blast
qed

text \<open>
  The page is navigated to exactly once, with the same result, whether the document is ready before
  the window has loaded or after.
\<close>

theorem load_and_ready_commute:
  assumes "\<not> loadTriggered s" and "\<not> readyTriggered s"
  shows "map_sum id (\<lambda>x. x\<lparr>readyTriggered := True, load_args := None\<rparr>)
      (js_bind (initNavTree env troot rel s) (window_load env)) =
    map_sum id (\<lambda>x. x\<lparr>readyTriggered := True, load_args := None\<rparr>)
      (js_bind (window_load env s) (initNavTree env troot rel))"
proof -
  let ?t = "init_tree env troot rel s" and ?h = "hashUrl (location_hash s)"
  let ?f1 = "s\<lparr>load_args := Some (troot, ?h, rel), readyTriggered := True\<rparr>"
  let ?f2 = "s\<lparr>loadTriggered := True\<rparr>"
  have h: "location_hash ?t = location_hash s" "loadTriggered ?t = loadTriggered s"
    by (simp_all add: init_tree_def showSyncOff_def showSyncOn_def Let_def)
  have t1: "?t\<lparr>load_args := Some (troot, ?h, rel), readyTriggered := True\<rparr> = with_flags ?f1 ?t"
    using assms h by (simp add: with_flags_def)
  have "with_flags ?f2 s = ?f2" by (simp add: with_flags_def)
  then have t2: "init_tree env troot rel ?f2 = with_flags ?f2 ?t"
    using init_flags [of env troot rel ?f2 s] by (rule subst [where P = "\<lambda>x. init_tree env troot rel x = with_flags ?f2 ?t"])
  have l: "js_bind (initNavTree env troot rel s) (window_load env) =
      js_bind (map_sum id (with_flags ?f1) (navTo env troot ?h ?t)) (\<lambda>x. Inr (x\<lparr>loadTriggered := True\<rparr>))"
    using assms h by (simp add: initNavTree_def window_load_def t1 navTo_flags [symmetric]) (simp add: with_flags_def)
  have r: "js_bind (window_load env s) (initNavTree env troot rel) =
      map_sum id (with_flags ?f2) (navTo env troot ?h ?t)"
    using assms h by (simp add: window_load_def initNavTree_def t2 navTo_flags [symmetric]) (simp add: with_flags_def)
  show ?thesis
    unfolding l r by (cases "navTo env troot ?h ?t") (simp_all add: with_flags_def)
qed

theorem load_and_ready_commute_witness:
  "map_sum id (\<lambda>x. x\<lparr>readyTriggered := True, load_args := None\<rparr>)
      (js_bind (initNavTree nav_example_env (js ''b.html'') [] example_nav_page) (window_load nav_example_env)) =
    map_sum id (\<lambda>x. x\<lparr>readyTriggered := True, load_args := None\<rparr>)
      (js_bind (window_load nav_example_env example_nav_page) (initNavTree nav_example_env (js ''b.html'') []))"
  by (rule load_and_ready_commute) (simp_all add: example_nav_page_def)

text \<open>
  Of the sorted list of index files, \<open>navTo\<close> takes the last one whose first entry is not greater than
  the address: every entry up to it is at most the address, and the next one is greater.
\<close>

theorem navTo_index:
  "let i = index_loop es url (-1) in
   -1 \<le> i \<and> i < int (length es) \<and> (\<forall>k. int k \<le> i \<longrightarrow> js_le (es ! k) url) \<and>
   (i + 1 < int (length es) \<longrightarrow> \<not> js_le (es ! nat (i + 1)) url)"
  using index_loop_spec [of "-1" es url] by (auto simp: Let_def)

text \<open>
  C30. The tree is either in step with the page or stuck to a stored link, never both: after
  \<open>initNavTree\<close>, and then after any pressing of the button and any clicks on links, no link is stored
  while the button shows synchronisation, so navigation goes to the page itself. Pressing the button
  in that state stores the page's own address.
\<close>

theorem sync_or_stored_link:
  assumes "initNavTree env troot rel s0 = Inr s" and "s' = fold (nav_handle env) evs s" and "sync_class s'"
  shows "nav_target s' root hash = (root, if line_anchor hash then [] else hash) \<and>
    (storage_ok s' \<longrightarrow> cachedLink (toggleSyncButton env rel s') =
      stripPath2 (pathName (location_path s')) @ hashUrl (location_hash s'))"
proof -
  have "sync_ok s'" unfolding assms(2) using sync_ok_run [OF sync_ok_init [OF assms(1)]] .
  then show ?thesis
    using assms(3)
    by (simp add: sync_ok_def nav_target_def toggleSyncButton_def storeLink_def showSyncOff_def cachedLink_def)
qed

theorem sync_or_stored_link_witness:
  "\<exists>s. initNavTree nav_example_env (js ''b.html'') [] example_nav_page = Inr s \<and>
     nav_target (fold (nav_handle nav_example_env) [Ev_toggle, Ev_toggle] s) (js ''b.html'') [] = (js ''b.html'', [])"
proof -
  obtain s where s: "initNavTree nav_example_env (js ''b.html'') [] example_nav_page = Inr s" "sync_class s" "storage_ok s"
    by (simp add: initNavTree_def init_tree_def example_nav_page_def cachedLink_def showSyncOn_def)
  have t: "sync_class (fold (nav_handle nav_example_env) [Ev_toggle, Ev_toggle] s)"
    using s(2,3) by (simp add: toggleSyncButton_def storeLink_def deleteLink_def showSyncOff_def showSyncOn_def)
  have "\<not> line_anchor []" by (simp add: line_anchor_def)
  with sync_or_stored_link [OF s(1) refl t] s(1) show ?thesis by auto
qed

text \<open>
  Taking an element out of its parent and putting it back where it was leaves the parent's children
  as they were.
\<close>

theorem remove_and_reinsert:
  assumes "distinct xs" and "i < length xs"
  shows "(case removeToInsertLater i xs of (ys, put_back) \<Rightarrow> put_back ys) = xs"
proof -
  have id: "take i xs @ xs ! i # drop (Suc i) xs = xs" using assms(2) by (simp add: id_take_nth_drop [symmetric])
  show ?thesis
  proof (cases "Suc i < length xs")
    case True
    let ?n = "xs ! Suc i"
    have d: "drop (Suc i) xs = ?n # drop (Suc (Suc i)) xs" using True by (simp add: Cons_nth_drop_Suc)
    have "\<forall>y \<in> set (take i xs). y \<noteq> ?n"
      using assms True by (auto simp: in_set_conv_nth nth_eq_iff_index_eq)
    then have "takeWhile (\<lambda>y. y \<noteq> ?n) (take i xs @ drop (Suc i) xs) = take i xs"
      "dropWhile (\<lambda>y. y \<noteq> ?n) (take i xs @ drop (Suc i) xs) = drop (Suc i) xs"
      unfolding d by (simp_all add: takeWhile_append2 dropWhile_append2)
    then show ?thesis using True id by (simp add: removeToInsertLater_def)
  next
    case False
    then show ?thesis using assms(2) id by (simp add: removeToInsertLater_def)
  qed
qed

theorem remove_and_reinsert_witness:
  "(case removeToInsertLater 1 [5, 6, 7::nat] of (ys, put_back) \<Rightarrow> put_back ys) = [5, 6, 7]"
  by (rule remove_and_reinsert) simp_all

end
