(* ===== verification/JS_DarkMode.thy ===== *)
theory JS_DarkMode
  imports JS_Strings
begin

text \<open>
  The dark mode of the documentation pages, \<^verbatim>\<open>doxygen-awesome-darkmode-toggle.js\<close>, and the alternative
  theme of its demo. The tabs of a browser share the system's preference and \<open>localStorage\<close>; each has its
  own class object, its own root element and its own button. Only the tab in the foreground is visible; a
  change of the system's preference is delivered to every tab.
\<close>

section \<open>State\<close>

datatype icon = lightModeIcon | darkModeIcon

record tab =
  darkModeEnabled :: bool
  classList :: "jsstr list"
  button_icon :: "icon option"
  search_parent :: "jsstr list option"
  original_theme_active :: bool

record browser_state =
  systemPreference :: bool
  localStorage :: "jsstr \<rightharpoonup> jsstr"
  tabs :: "tab list"
  foreground :: nat

definition prefersLightModeInDarkModeKey :: jsstr where
  "prefersLightModeInDarkModeKey = js ''prefers-light-mode-in-dark-mode''"

definition prefersDarkModeInLightModeKey :: jsstr where
  "prefersDarkModeInLightModeKey = js ''prefers-dark-mode-in-light-mode''"

section \<open>The preference\<close>

text \<open>An item that is absent is \<open>null\<close>; the empty string is false too.\<close>

definition item_true :: "(jsstr \<rightharpoonup> jsstr) \<Rightarrow> jsstr \<Rightarrow> bool" where
  "item_true st k = (case st k of None \<Rightarrow> False | Some v \<Rightarrow> v \<noteq> [])"

definition userPreference :: "bool \<Rightarrow> (jsstr \<rightharpoonup> jsstr) \<Rightarrow> bool" where
  "userPreference sys st \<longleftrightarrow>
     \<not> sys \<and> item_true st prefersDarkModeInLightModeKey \<or>
     sys \<and> \<not> item_true st prefersLightModeInDarkModeKey"

definition enableDarkMode :: "bool \<Rightarrow> tab \<Rightarrow> tab" where
  "enableDarkMode enable t =
     (if enable
      then t\<lparr>darkModeEnabled := True,
             classList := remove_class (js ''light-mode'') (add_class (js ''dark-mode'') (classList t))\<rparr>
      else t\<lparr>darkModeEnabled := False,
             classList := add_class (js ''light-mode'') (remove_class (js ''dark-mode'') (classList t))\<rparr>)"

definition onSystemPreferenceChanged :: "bool \<Rightarrow> (jsstr \<rightharpoonup> jsstr) \<Rightarrow> tab \<Rightarrow> tab" where
  "onSystemPreferenceChanged sys st t =
     (let t1 = t\<lparr>darkModeEnabled := userPreference sys st\<rparr> in enableDarkMode (darkModeEnabled t1) t1)"

definition onUserPreferenceChanged :: "tab \<Rightarrow> tab" where
  "onUserPreferenceChanged t = enableDarkMode (darkModeEnabled t) t"

text \<open>The setter: what is stored, then what the tab does.\<close>

definition set_userPreference ::
  "bool \<Rightarrow> bool \<Rightarrow> (jsstr \<rightharpoonup> jsstr) \<Rightarrow> tab \<Rightarrow> (jsstr \<rightharpoonup> jsstr) \<times> tab" where
  "set_userPreference v sys st t =
     (let t1 = t\<lparr>darkModeEnabled := v\<rparr>;
          st1 = (if \<not> v then
                   if sys then st(prefersLightModeInDarkModeKey \<mapsto> js ''true'')
                   else st(prefersDarkModeInLightModeKey := None)
                 else if \<not> sys then st(prefersDarkModeInLightModeKey \<mapsto> js ''true'')
                   else st(prefersLightModeInDarkModeKey := None))
      in (st1, onUserPreferenceChanged t1))"

definition updateIcon :: "tab \<Rightarrow> tab" where
  "updateIcon t = t\<lparr>button_icon := Some (if darkModeEnabled t then darkModeIcon else lightModeIcon)\<rparr>"

definition toggleDarkMode :: "bool \<Rightarrow> (jsstr \<rightharpoonup> jsstr) \<Rightarrow> tab \<Rightarrow> (jsstr \<rightharpoonup> jsstr) \<times> tab" where
  "toggleDarkMode sys st t =
     (let (st1, t1) = set_userPreference (\<not> userPreference sys st) sys st t in (st1, updateIcon t1))"

section \<open>Loading a page\<close>

definition staticConstructor :: "bool \<Rightarrow> (jsstr \<rightharpoonup> jsstr) \<Rightarrow> tab \<Rightarrow> tab" where
  "staticConstructor sys st t = enableDarkMode (userPreference sys st) t"

definition toggle_button :: jsstr where
  "toggle_button = js ''doxygen-awesome-dark-mode-toggle''"

text \<open>\<open>appendChild\<close> of the button to the parent of the search box: a node that is already in the document
  moves. A page without a search box raises in the handler, which has nothing left to do.\<close>

definition append_button :: "tab \<Rightarrow> tab" where
  "append_button t =
     (case search_parent t of
        None \<Rightarrow> t
      | Some cs \<Rightarrow> t\<lparr>search_parent := Some (filter (\<lambda>c. c \<noteq> toggle_button) cs @ [toggle_button])\<rparr>)"

definition init :: "tab \<Rightarrow> tab" where
  "init t = append_button (updateIcon t)"

text \<open>The two listeners of a change of the system's preference, and of the tab becoming visible, in the
  order of their registration.\<close>

definition refresh :: "bool \<Rightarrow> (jsstr \<rightharpoonup> jsstr) \<Rightarrow> tab \<Rightarrow> tab" where
  "refresh sys st t = updateIcon (onSystemPreferenceChanged sys st t)"

definition toggle_alternative_theme :: "tab \<Rightarrow> tab" where
  "toggle_alternative_theme t =
     (if original_theme_active t
      then t\<lparr>classList := add_class (js ''alternative'') (classList t), original_theme_active := False\<rparr>
      else t\<lparr>classList := remove_class (js ''alternative'') (classList t), original_theme_active := True\<rparr>)"

section \<open>The browser\<close>

datatype tab_event =
  Load "jsstr list" "jsstr list option"
  | Click
  | Show_tab nat
  | System_change bool
  | Resize
  | Alternative_theme

text \<open>The click, the resizing and the theme are those of the tab in the foreground.\<close>

fun tab_step :: "tab_event \<Rightarrow> browser_state \<Rightarrow> browser_state" where
  "tab_step (Load cls par) b =
     b\<lparr>tabs := tabs b @
         [init (staticConstructor (systemPreference b) (localStorage b)
            \<lparr>darkModeEnabled = False, classList = cls, button_icon = None, search_parent = par,
             original_theme_active = True\<rparr>)],
       foreground := length (tabs b)\<rparr>"
| "tab_step Click b =
     (if foreground b < length (tabs b) then
        let (st, t) = toggleDarkMode (systemPreference b) (localStorage b) (tabs b ! foreground b)
        in b\<lparr>localStorage := st, tabs := (tabs b)[foreground b := t]\<rparr>
      else b)"
| "tab_step (Show_tab i) b =
     (if i < length (tabs b) then
        b\<lparr>foreground := i, tabs := (tabs b)[i := refresh (systemPreference b) (localStorage b) (tabs b ! i)]\<rparr>
      else b)"
| "tab_step (System_change v) b =
     b\<lparr>systemPreference := v, tabs := map (refresh v (localStorage b)) (tabs b)\<rparr>"
| "tab_step Resize b =
     (if foreground b < length (tabs b)
      then b\<lparr>tabs := (tabs b)[foreground b := append_button (tabs b ! foreground b)]\<rparr> else b)"
| "tab_step Alternative_theme b =
     (if foreground b < length (tabs b)
      then b\<lparr>tabs := (tabs b)[foreground b := toggle_alternative_theme (tabs b ! foreground b)]\<rparr> else b)"

section \<open>Coherence of a tab\<close>

text \<open>The flag, the root element's classes and the icon say the same.\<close>

definition tab_coherent :: "tab \<Rightarrow> bool" where
  "tab_coherent t \<longleftrightarrow>
     (js ''dark-mode'' \<in> set (classList t) \<longleftrightarrow> darkModeEnabled t) \<and>
     (js ''light-mode'' \<in> set (classList t) \<longleftrightarrow> \<not> darkModeEnabled t) \<and>
     button_icon t = Some (if darkModeEnabled t then darkModeIcon else lightModeIcon)"

lemma mode_names [simp]:
  "js ''dark-mode'' \<noteq> js ''light-mode''" "js ''light-mode'' \<noteq> js ''dark-mode''"
  "js ''dark-mode'' \<noteq> js ''alternative''" "js ''light-mode'' \<noteq> js ''alternative''"
  "prefersLightModeInDarkModeKey \<noteq> prefersDarkModeInLightModeKey"
  "prefersDarkModeInLightModeKey \<noteq> prefersLightModeInDarkModeKey"
  by (simp_all add: js_inj prefersLightModeInDarkModeKey_def prefersDarkModeInLightModeKey_def)

lemma enabled_coherent: "tab_coherent (updateIcon (enableDarkMode v t)) \<and> darkModeEnabled (enableDarkMode v t) = v"
  by (simp add: tab_coherent_def updateIcon_def enableDarkMode_def)

lemma refresh_coherent: "tab_coherent (refresh sys st t) \<and> darkModeEnabled (refresh sys st t) = userPreference sys st"
  using enabled_coherent [of "userPreference sys st" "t\<lparr>darkModeEnabled := userPreference sys st\<rparr>"]
  by (simp add: refresh_def onSystemPreferenceChanged_def Let_def) (simp add: updateIcon_def)

lemma append_button_coherent:
  "tab_coherent (append_button t) = tab_coherent t" "darkModeEnabled (append_button t) = darkModeEnabled t"
  by (simp_all add: append_button_def tab_coherent_def split: option.split)

lemma theme_coherent:
  "tab_coherent (toggle_alternative_theme t) = tab_coherent t"
  "darkModeEnabled (toggle_alternative_theme t) = darkModeEnabled t"
  by (simp_all add: toggle_alternative_theme_def tab_coherent_def)

lemma load_coherent:
  "tab_coherent (init (staticConstructor sys st t)) \<and>
   darkModeEnabled (init (staticConstructor sys st t)) = userPreference sys st"
  using enabled_coherent [of "userPreference sys st" t]
  by (simp add: init_def staticConstructor_def append_button_coherent) (simp add: updateIcon_def)

text \<open>What the setter stored is what the getter reads.\<close>

lemma set_get: "userPreference sys (fst (set_userPreference v sys st t)) = v"
  by (auto simp: set_userPreference_def userPreference_def item_true_def Let_def)

lemma set_keeps_other:
  "userPreference (\<not> sys) (fst (set_userPreference v sys st t)) = userPreference (\<not> sys) st"
  by (auto simp: set_userPreference_def userPreference_def item_true_def Let_def)

lemma toggle_coherent:
  assumes "toggleDarkMode sys st t = (st', t')"
  shows "tab_coherent t' \<and> darkModeEnabled t' = userPreference sys st' \<and>
    userPreference sys st' = (\<not> userPreference sys st) \<and> userPreference (\<not> sys) st' = userPreference (\<not> sys) st"
proof -
  let ?v = "\<not> userPreference sys st"
  have st: "st' = fst (set_userPreference ?v sys st t)" and
    t: "t' = updateIcon (enableDarkMode ?v (t\<lparr>darkModeEnabled := ?v\<rparr>))"
    using assms by (auto simp: toggleDarkMode_def set_userPreference_def onUserPreferenceChanged_def Let_def)
  have "darkModeEnabled t' = ?v" using enabled_coherent unfolding t by (simp add: updateIcon_def)
  then show ?thesis
    using enabled_coherent set_get set_keeps_other unfolding st t by metis
qed

definition browser_ok :: "browser_state \<Rightarrow> bool" where
  "browser_ok b \<longleftrightarrow> list_all tab_coherent (tabs b) \<and>
     (foreground b < length (tabs b) \<longrightarrow>
       darkModeEnabled (tabs b ! foreground b) = userPreference (systemPreference b) (localStorage b))"

lemma tab_step_ok:
  assumes "browser_ok b"
  shows "browser_ok (tab_step e b)"
proof (cases e)
  case Click
  obtain st t where tg: "toggleDarkMode (systemPreference b) (localStorage b) (tabs b ! foreground b) = (st, t)"
    by fastforce
  show ?thesis
    using assms toggle_coherent [OF tg] Click tg
    by (auto simp: browser_ok_def list_all_length nth_list_update)
qed (use assms in \<open>auto simp: browser_ok_def list_all_length nth_list_update nth_append less_Suc_eq
    refresh_coherent append_button_coherent theme_coherent load_coherent\<close>)

lemma tab_run_ok: "browser_ok b \<Longrightarrow> browser_ok (fold tab_step es b)"
  by (induction es arbitrary: b) (simp_all add: tab_step_ok)

text \<open>While the system has one preference, the choice for the other is not touched.\<close>

lemma other_mode_step:
  assumes "systemPreference c = (\<not> sys)" "\<forall>v. e \<noteq> System_change v"
  shows "systemPreference (tab_step e c) = (\<not> sys)"
    "userPreference sys (localStorage (tab_step e c)) = userPreference sys (localStorage c)"
proof -
  obtain st t where tg: "toggleDarkMode (\<not> sys) (localStorage c) (tabs c ! foreground c) = (st, t)" by fastforce
  have "userPreference sys st = userPreference sys (localStorage c)"
    using toggle_coherent [OF tg] by simp
  then show "systemPreference (tab_step e c) = (\<not> sys)"
    "userPreference sys (localStorage (tab_step e c)) = userPreference sys (localStorage c)"
    using assms tg by (cases e; simp)+
qed

definition start_browser :: "bool \<Rightarrow> (jsstr \<rightharpoonup> jsstr) \<Rightarrow> browser_state" where
  "start_browser sys st = \<lparr>systemPreference = sys, localStorage = st, tabs = [], foreground = 0\<rparr>"

section \<open>Properties\<close>

text \<open>
  C31. The dark mode of the tabs. After any sequence of page loads, clicks, changes of tab, changes of the
  system's preference, resizings and theme changes, every tab is coherent (its flag, the classes of its root
  element and its icon agree, and exactly one of the two mode classes is set), and the tab in the foreground
  shows what the stored preference asks for under the system's present preference. A tab in the background may
  be behind; it catches up when it is shown.
\<close>

theorem dark_mode_follows_preference:
  assumes "b = fold tab_step es (start_browser sys st)"
  shows "(\<forall>t \<in> set (tabs b). (js ''dark-mode'' \<in> set (classList t) \<longleftrightarrow> darkModeEnabled t) \<and>
        (js ''light-mode'' \<in> set (classList t) \<longleftrightarrow> \<not> darkModeEnabled t) \<and>
        button_icon t = Some (if darkModeEnabled t then darkModeIcon else lightModeIcon)) \<and>
    (foreground b < length (tabs b) \<longrightarrow>
      darkModeEnabled (tabs b ! foreground b) = userPreference (systemPreference b) (localStorage b))"
proof -
  have "browser_ok b" unfolding assms by (rule tab_run_ok) (simp add: browser_ok_def start_browser_def)
  then show ?thesis by (simp add: browser_ok_def list_all_iff tab_coherent_def)
qed

theorem dark_mode_follows_preference_witness:
  "\<exists>b. b = fold tab_step [Load [] (Some []), Click, Load [] None, Click, Show_tab 0] (start_browser False Map.empty) \<and>
     foreground b < length (tabs b) \<and> \<not> darkModeEnabled (tabs b ! foreground b) \<and>
     darkModeEnabled (tabs b ! foreground b) = userPreference (systemPreference b) (localStorage b)"
proof -
  define b where "b = fold tab_step [Load [] (Some []), Click, Load [] None, Click, Show_tab 0] (start_browser False Map.empty)"
  have sim: "foreground b < length (tabs b)" "\<not> userPreference (systemPreference b) (localStorage b)"
    by (simp_all add: b_def start_browser_def toggleDarkMode_def set_userPreference_def userPreference_def item_true_def)
  show ?thesis
    using dark_mode_follows_preference [OF b_def] sim b_def by blast
qed

text \<open>
  A choice is remembered per preference of the system: a click reverses the mode under the system's
  present preference and leaves the mode under the other one, and whatever happens while the system has the
  other preference, any number of clicks included, the choice is there when the system changes back.
\<close>

theorem dark_mode_choice_remembered:
  assumes "b1 = tab_step Click b" and "foreground b < length (tabs b)"
    and "list_all (\<lambda>e. \<forall>v. e \<noteq> System_change v) es"
    and "b2 = fold tab_step es (tab_step (System_change (\<not> systemPreference b)) b1)"
    and "b3 = tab_step (System_change (systemPreference b)) b2"
  shows "userPreference (systemPreference b3) (localStorage b3) =
      (\<not> userPreference (systemPreference b) (localStorage b)) \<and>
    (\<forall>t \<in> set (tabs b3). darkModeEnabled t = (\<not> userPreference (systemPreference b) (localStorage b)))"
proof -
  let ?sys = "systemPreference b"
  obtain st t where tg: "toggleDarkMode ?sys (localStorage b) (tabs b ! foreground b) = (st, t)" by fastforce
  have b1: "systemPreference b1 = ?sys" "userPreference ?sys (localStorage b1) = (\<not> userPreference ?sys (localStorage b))"
    using toggle_coherent [OF tg] assms(1,2) tg by simp_all
  have "systemPreference (fold tab_step es c) = (\<not> ?sys) \<and>
      userPreference ?sys (localStorage (fold tab_step es c)) = userPreference ?sys (localStorage c)"
    if "systemPreference c = (\<not> ?sys)" for c
    using that assms(3) by (induction es arbitrary: c) (simp_all add: other_mode_step del: tab_step.simps)
  from this [of "tab_step (System_change (\<not> ?sys)) b1"]
  have "userPreference ?sys (localStorage b2) = (\<not> userPreference ?sys (localStorage b))"
    unfolding assms(4) using b1(2) by simp
  then show ?thesis unfolding assms(5) by (auto simp: refresh_coherent)
qed

theorem dark_mode_choice_remembered_witness:
  "\<exists>b b3. b = tab_step (Load [] None) (start_browser True Map.empty) \<and>
     b3 = tab_step (System_change True) (fold tab_step [Click, Click, Click]
       (tab_step (System_change False) (tab_step Click b))) \<and>
     \<not> userPreference (systemPreference b3) (localStorage b3)"
proof -
  define b where "b = tab_step (Load [] None) (start_browser True Map.empty)"
  have s: "systemPreference b" "foreground b < length (tabs b)" "userPreference True (localStorage b)"
    by (simp_all add: b_def start_browser_def userPreference_def item_true_def)
  show ?thesis
    using dark_mode_choice_remembered [OF refl s(2) _ refl refl, of "[Click, Click, Click]"] s b_def
    by (auto simp del: tab_step.simps fold.simps)
qed

end
