(* ===== verification/JS_Widgets.thy ===== *)
theory JS_Widgets
  imports JS_Timers
begin

text \<open>
  The small extensions of the documentation pages under \<^verbatim>\<open>doc/doxygen-awesome-css\<close>: tabs, the interactive
  table of contents, the button that copies a code fragment and the permanent links of paragraphs. The first
  two work on lists of elements the page hands them; the last two on the tree of a page's elements.
\<close>

section \<open>Tabs\<close>

text \<open>A list item of a tabbed block, and the button made of its title. The items of a block are not nested
  in each other.\<close>

record tab_item =
  item_id :: jsstr
  item_class :: "jsstr list"
  item_title :: "jsstr option"

record tab_link =
  link_class :: "jsstr list"
  link_title :: jsstr

text \<open>A block with its buttons; the buttons are put before the block when all its items are done.\<close>

record tabbed =
  items :: "tab_item list"
  links :: "tab_link list"
  overview :: bool

text \<open>The body of the loop over the items. \<open>appendChild\<close> of a missing title raises, after the identifier is
  set.\<close>

fun make_tabs :: "nat \<Rightarrow> nat \<Rightarrow> tab_item list \<Rightarrow> js_error option \<times> tab_item list \<times> tab_link list" where
  "make_tabs b i [] = (None, [], [])"
| "make_tabs b i (t # ts) =
     (let t1 = t\<lparr>item_id := js ''tab_'' @ toString 10 b @ js ''_'' @ toString 10 i\<rparr> in
      case item_title t1 of
        None \<Rightarrow> (Some TypeError, t1 # ts, [])
      | Some h \<Rightarrow>
          let t2 = t1\<lparr>item_title := None,
                item_class := (if i = 0 then add_class (js ''selected'') (item_class t1) else item_class t1)\<rparr>;
              l = \<lparr>link_class = (if i = 0 then add_class (js ''active'') [js ''tab-button''] else [js ''tab-button'']),
                   link_title = h\<rparr>;
              (e, ts', ls) = make_tabs b (Suc i) ts
          in (e, t2 # ts', l # ls))"

text \<open>\<open>DoxygenAwesomeTabs.init\<close> at the load of the page: an exception ends the loop over the blocks too.\<close>

fun init_tabs :: "nat \<Rightarrow> tabbed list \<Rightarrow> js_error option \<times> tabbed list" where
  "init_tabs b [] = (None, [])"
| "init_tabs b (t # ts) =
     (case make_tabs b 0 (items t) of
        (Some e, is, ls) \<Rightarrow> (Some e, t\<lparr>items := is, links := []\<rparr> # ts)
      | (None, is, ls) \<Rightarrow>
          let (e, ts') = init_tabs (Suc b) ts in (e, t\<lparr>items := is, links := ls, overview := True\<rparr> # ts'))"

definition click_tab :: "nat \<Rightarrow> tabbed \<Rightarrow> tabbed" where
  "click_tab k t =
     (let is1 = map (\<lambda>i. i\<lparr>item_class := remove_class (js ''selected'') (item_class i)\<rparr>) (items t);
          ls1 = map (\<lambda>l. l\<lparr>link_class := remove_class (js ''active'') (link_class l)\<rparr>) (links t)
      in if k < length is1 \<and> k < length ls1
         then t\<lparr>items := is1[k := (is1 ! k)\<lparr>item_class := add_class (js ''selected'') (item_class (is1 ! k))\<rparr>],
                links := ls1[k := (ls1 ! k)\<lparr>link_class := add_class (js ''active'') (link_class (ls1 ! k))\<rparr>]\<rparr>
         else t)"

text \<open>Item \<open>k\<close> alone is selected and button \<open>k\<close> alone active.\<close>

definition shows_tab :: "nat \<Rightarrow> tabbed \<Rightarrow> bool" where
  "shows_tab k t \<longleftrightarrow> k < length (items t) \<and> length (links t) = length (items t) \<and>
     (\<forall>i < length (items t). (js ''selected'' \<in> set (item_class (items t ! i)) \<longleftrightarrow> i = k) \<and>
        (js ''active'' \<in> set (link_class (links t ! i)) \<longleftrightarrow> i = k))"

lemma click_shows: "shows_tab j t \<Longrightarrow> k < length (items t) \<Longrightarrow> shows_tab k (click_tab k t)"
  by (auto simp: shows_tab_def click_tab_def Let_def nth_list_update)

lemma click_items: "length (items (click_tab k t)) = length (items t)"
  by (simp add: click_tab_def Let_def)

lemma make_tabs_spec:
  "make_tabs b i ts = (None, is, ls) \<Longrightarrow> \<forall>t \<in> set ts. js ''selected'' \<notin> set (item_class t) \<Longrightarrow>
   length is = length ts \<and> length ls = length ts \<and>
   (\<forall>k < length ts. item_id (is ! k) = js ''tab_'' @ toString 10 b @ js ''_'' @ toString 10 (i + k) \<and>
     Some (link_title (ls ! k)) = item_title (ts ! k) \<and>
     (js ''selected'' \<in> set (item_class (is ! k)) \<longleftrightarrow> i + k = 0) \<and>
     (js ''active'' \<in> set (link_class (ls ! k)) \<longleftrightarrow> i + k = 0))"
proof (induction ts arbitrary: i "is" ls)
  case (Cons t ts)
  from Cons.prems(1) obtain h is' ls' where h: "item_title t = Some h" "make_tabs b (Suc i) ts = (None, is', ls')"
    "is = t\<lparr>item_id := js ''tab_'' @ toString 10 b @ js ''_'' @ toString 10 i, item_title := None,
       item_class := (if i = 0 then add_class (js ''selected'') (item_class t) else item_class t)\<rparr> # is'"
    "ls = \<lparr>link_class = (if i = 0 then add_class (js ''active'') [js ''tab-button''] else [js ''tab-button'']),
       link_title = h\<rparr> # ls'"
    by (auto simp: Let_def split: option.splits prod.splits)
  note ih = Cons.IH [OF h(2)]
  have rest: "length is' = length ts" "length ls' = length ts"
    "\<And>k. k < length ts \<Longrightarrow> item_id (is' ! k) = js ''tab_'' @ toString 10 b @ js ''_'' @ toString 10 (Suc i + k) \<and>
      Some (link_title (ls' ! k)) = item_title (ts ! k) \<and>
      js ''selected'' \<notin> set (item_class (is' ! k)) \<and> js ''active'' \<notin> set (link_class (ls' ! k))"
    using ih Cons.prems(2) by auto
  have b: "js ''active'' \<noteq> js ''tab-button''" by (simp add: js_inj)
  have hd: "js ''selected'' \<notin> set (item_class t)" using Cons.prems(2) by simp
  show ?case
    unfolding h(3,4) using rest h(1) b hd by (auto simp: nth_Cons split: nat.split)
qed simp

section \<open>Table of contents\<close>

text \<open>An entry: the classes of its anchor, and the position of its heading in the window (missing when the
  anchor names no element).\<close>

record toc_entry =
  toc_class :: "jsstr list"
  toc_top :: "int option"

definition topOffset :: int where "topOffset = 38"

text \<open>The loop of \<open>update\<close>, with the index of the active entry; it raises at the first missing heading.\<close>

fun toc_loop :: "nat \<Rightarrow> nat option \<Rightarrow> toc_entry list \<Rightarrow> js_error option \<times> nat option \<times> toc_entry list" where
  "toc_loop i active [] = (None, active, [])"
| "toc_loop i active (h # hs) =
     (case toc_top h of
        None \<Rightarrow> (Some TypeError, active, h # hs)
      | Some position \<Rightarrow>
          let cls = remove_class (js ''aboveActive'') (remove_class (js ''active'') (toc_class h));
              above = position < topOffset;
              h1 = h\<lparr>toc_class := (if above then add_class (js ''aboveActive'') cls else cls)\<rparr>;
              (e, a, hs') = toc_loop (Suc i) (if above then Some i else active) hs
          in (e, a, h1 # hs'))"

definition toc_update :: "toc_entry list \<Rightarrow> js_error option \<times> toc_entry list" where
  "toc_update hs =
     (case toc_loop 0 (if hs = [] then None else Some 0) hs of
        (Some e, a, hs') \<Rightarrow> (Some e, hs')
      | (None, None, hs') \<Rightarrow> (None, hs')
      | (None, Some a, hs') \<Rightarrow>
          (None, hs'[a := (hs' ! a)\<lparr>toc_class :=
             remove_class (js ''aboveActive'') (add_class (js ''active'') (toc_class (hs' ! a)))\<rparr>]))"

text \<open>The classes of the table itself: set up at load, and toggled by its heading.\<close>

definition toc_init :: "bool \<Rightarrow> jsstr list \<Rightarrow> jsstr list" where
  "toc_init hideMobileMenu cls =
     (let c1 = add_class (js ''interactive'') cls in if \<not> hideMobileMenu then add_class (js ''open'') c1 else c1)"

definition toc_click :: "jsstr list \<Rightarrow> jsstr list" where
  "toc_click cls = (if js ''open'' \<in> set cls then remove_class (js ''open'') cls else add_class (js ''open'') cls)"

text \<open>The entries are collected from the anchors of the table, each with the element its address names
  (\<open>tops\<close> gives the position of the element with an identifier); then the marks are set once.\<close>

definition toc_collect :: "(jsstr \<Rightarrow> int option) \<Rightarrow> (jsstr \<times> jsstr list) list \<Rightarrow> toc_entry list" where
  "toc_collect tops anchors =
     map (\<lambda>(href, cls). \<lparr>toc_class = cls, toc_top = tops (substring_from 1 href)\<rparr>) anchors"

definition toc_load ::
  "bool \<Rightarrow> (jsstr \<Rightarrow> int option) \<Rightarrow> jsstr list \<Rightarrow> (jsstr \<times> jsstr list) list \<Rightarrow>
    jsstr list \<times> js_error option \<times> toc_entry list" where
  "toc_load hideMobileMenu tops cls anchors = (toc_init hideMobileMenu cls, toc_update (toc_collect tops anchors))"

text \<open>The entry that should be active: the last whose heading is above the offset, or the first.\<close>

definition above_entries :: "toc_entry list \<Rightarrow> nat list" where
  "above_entries hs = filter (\<lambda>i. the (toc_top (hs ! i)) < topOffset) [0..<length hs]"

definition current_entry :: "toc_entry list \<Rightarrow> nat" where
  "current_entry hs = (if above_entries hs = [] then 0 else last (above_entries hs))"

lemma above_Cons:
  "above_entries (h # hs) = (if the (toc_top h) < topOffset then [0] else []) @ map Suc (above_entries hs)"
proof -
  have "[0..<length (h # hs)] = 0 # map Suc [0..<length hs]" by (simp add: upt_conv_Cons map_Suc_upt del: upt_Suc)
  then show ?thesis by (simp add: above_entries_def filter_map comp_def)
qed

lemma toc_loop_spec:
  "\<forall>h \<in> set hs. toc_top h \<noteq> None \<Longrightarrow> \<exists>hs'. toc_loop i a hs =
     (None, (if above_entries hs = [] then a else Some (i + last (above_entries hs))), hs') \<and>
   length hs' = length hs \<and>
   (\<forall>k < length hs. js ''active'' \<notin> set (toc_class (hs' ! k)) \<and>
      (js ''aboveActive'' \<in> set (toc_class (hs' ! k)) \<longleftrightarrow> the (toc_top (hs ! k)) < topOffset))"
proof (induction hs arbitrary: i a)
  case Nil
  then show ?case by (simp add: above_entries_def)
next
  case (Cons h hs)
  let ?above = "the (toc_top h) < topOffset"
  obtain hs' where ih: "toc_loop (Suc i) (if ?above then Some i else a) hs =
     (None, (if above_entries hs = [] then if ?above then Some i else a else Some (Suc i + last (above_entries hs))), hs')"
     "length hs' = length hs"
     "\<And>k. k < length hs \<Longrightarrow> js ''active'' \<notin> set (toc_class (hs' ! k)) \<and>
      (js ''aboveActive'' \<in> set (toc_class (hs' ! k)) \<longleftrightarrow> the (toc_top (hs ! k)) < topOffset)"
    using Cons.IH [of "Suc i" "if ?above then Some i else a"] Cons.prems by fastforce
  have n: "js ''active'' \<noteq> js ''aboveActive''" by (simp add: js_inj)
  have lst: "above_entries hs \<noteq> [] \<Longrightarrow> last (map Suc (above_entries hs)) = Suc (last (above_entries hs))"
    by (simp add: last_map)
  show ?case
    using Cons.prems ih n lst by (auto simp: Let_def above_Cons nth_Cons split: nat.split)
qed

lemma current_entry_less: "hs \<noteq> [] \<Longrightarrow> current_entry hs < length hs"
proof -
  assume "hs \<noteq> []"
  moreover have "above_entries hs \<noteq> [] \<Longrightarrow> last (above_entries hs) \<in> set (above_entries hs)" by (rule last_in_set)
  ultimately show ?thesis by (auto simp: current_entry_def above_entries_def)
qed

section \<open>Pages as trees\<close>

record html_elt =
  tag :: jsstr
  ident :: "jsstr option"
  classes :: "jsstr list"
  href :: jsstr

datatype html = Text jsstr | Elem (elem: html_elt) (kids: "html list")

fun textContent :: "html \<Rightarrow> jsstr" where
  "textContent (Text s) = s"
| "textContent (Elem e cs) = concat (map textContent cs)"

section \<open>Copying a fragment\<close>

text \<open>The number of newlines at the end of a string, counted by the loop of \<open>copyContent\<close>; \<open>charAt\<close> outside
  the string is empty.\<close>

definition charAt :: "jsstr \<Rightarrow> int \<Rightarrow> jsstr" where
  "charAt s i = (if 0 \<le> i \<and> i < int (length s) then [s ! nat i] else [])"

function count_newlines :: "jsstr \<Rightarrow> nat \<Rightarrow> nat" where
  "count_newlines s n = (if charAt s (int (length s) - (int n + 1)) = [10] then count_newlines s (Suc n) else n)"
  by pat_completeness auto
termination
  by (relation "measure (\<lambda>(s, n). length s - n)") (auto simp: charAt_def split: if_splits)

declare count_newlines.simps [simp del]

definition trim_newlines :: "jsstr \<Rightarrow> jsstr" where
  "trim_newlines s = substring 0 (int (length s) - int (count_newlines s 0)) s"

text \<open>\<^verbatim>\<open>content.querySelectorAll(".lineno, .ttc")\<close> with \<open>remove\<close>: the clone's descendants, not the clone.\<close>

definition unwanted :: "html \<Rightarrow> bool" where
  "unwanted h = (case h of Text _ \<Rightarrow> False
     | Elem e _ \<Rightarrow> js ''lineno'' \<in> set (classes e) \<or> js ''ttc'' \<in> set (classes e))"

fun strip_listing :: "html \<Rightarrow> html" where
  "strip_listing (Text s) = Text s"
| "strip_listing (Elem e cs) = Elem e (map strip_listing (filter (\<lambda>c. \<not> unwanted c) cs))"

datatype copy_icon = copyIcon | successIcon

record copy_button =
  btn_class :: "jsstr list"
  btn_icon :: copy_icon
  clipboard :: jsstr
  btn_timers :: "unit timers"

definition new_button :: "jsstr \<Rightarrow> copy_button" where
  "new_button clip = \<lparr>btn_class = [], btn_icon = copyIcon, clipboard = clip, btn_timers = no_timers\<rparr>"

definition copyContent :: "html \<Rightarrow> copy_button \<Rightarrow> copy_button" where
  "copyContent previousSibling b =
     (let text = textContent (strip_listing previousSibling)
      in b\<lparr>clipboard := trim_newlines text, btn_class := add_class (js ''success'') (btn_class b),
           btn_icon := successIcon, btn_timers := snd (setTimeout () (btn_timers b))\<rparr>)"

text \<open>The callback of a timer, when the browser runs it.\<close>

definition success_over :: "nat \<Rightarrow> copy_button \<Rightarrow> copy_button" where
  "success_over n b =
     (if n \<in> fst ` set (timer_list (btn_timers b))
      then b\<lparr>btn_timers := clearTimeout n (btn_timers b), btn_class := remove_class (js ''success'') (btn_class b),
             btn_icon := copyIcon\<rparr>
      else b)"

datatype copy_event = Copy_click | Copy_timer nat

fun copy_step :: "html \<Rightarrow> copy_event \<Rightarrow> copy_button \<Rightarrow> copy_button" where
  "copy_step f Copy_click b = copyContent f b"
| "copy_step f (Copy_timer n) b = success_over n b"

text \<open>\<open>init\<close>: every fragment of the page is put in a wrapper with a button after it.\<close>

definition button_elt :: html where
  "button_elt = Elem \<lparr>tag = js ''doxygen-awesome-fragment-copy-button'', ident = None, classes = [], href = []\<rparr> []"

fun wrap_fragments :: "html \<Rightarrow> html" where
  "wrap_fragments (Text s) = Text s"
| "wrap_fragments (Elem e cs) =
     (if js ''fragment'' \<in> set (classes e)
      then Elem \<lparr>tag = js ''div'', ident = None, classes = [js ''doxygen-awesome-fragment-wrapper''], href = []\<rparr>
             [Elem e (map wrap_fragments cs), button_elt]
      else Elem e (map wrap_fragments cs))"

definition init_copy :: "bool \<Rightarrow> html \<Rightarrow> html" where
  "init_copy has_clipboard page = (if has_clipboard then wrap_fragments page else page)"

lemma charAt_end:
  "charAt s (int (length s) - (int n + 1)) = (if n < length s then [s ! (length s - Suc n)] else [])"
proof (cases "n < length s")
  case True
  then have "nat (int (length s) - (int n + 1)) = length s - Suc n" by linarith
  with True show ?thesis by (simp add: charAt_def)
qed (simp add: charAt_def)

lemma rev_from: "n \<le> length s \<Longrightarrow> rev s = rev (drop (length s - n) s) @ rev (take (length s - n) s)"
  by (metis append_take_drop_id rev_append)

lemma count_newlines_spec:
  "n \<le> length s \<Longrightarrow> \<forall>c \<in> set (drop (length s - n) s). c = 10 \<Longrightarrow>
   count_newlines s n = length (takeWhile (\<lambda>c. c = 10) (rev s))"
proof (induction s n rule: count_newlines.induct)
  case (1 s n)
  show ?case
  proof (cases "n < length s \<and> s ! (length s - Suc n) = 10")
    case True
    then have l: "length s - Suc n < length s" by linarith
    have d: "drop (length s - Suc n) s = 10 # drop (length s - n) s"
      using Cons_nth_drop_Suc [OF l] True by (simp add: Suc_diff_Suc)
    have "count_newlines s (Suc n) = length (takeWhile (\<lambda>c. c = 10) (rev s))"
    proof (rule "1.IH")
      show "charAt s (int (length s) - (int n + 1)) = [10]" using True by (simp only: charAt_end if_True)
      show "\<forall>c \<in> set (drop (length s - Suc n) s). c = 10" unfolding d using "1.prems"(2) by simp
    qed (use True in simp)
    then show ?thesis using True by (simp add: count_newlines.simps [of s n] charAt_end)
  next
    case False
    have stop: "takeWhile (\<lambda>c. c = 10) (rev (take (length s - n) s)) = []"
    proof (cases "n < length s")
      case True
      then have l: "length s - Suc n < length s" by linarith
      have "take (length s - n) s = take (length s - Suc n) s @ [s ! (length s - Suc n)]"
        using take_Suc_conv_app_nth [OF l] True by (simp add: Suc_diff_Suc)
      then show ?thesis using False True by simp
    qed (use "1.prems"(1) in simp)
    have "takeWhile (\<lambda>c. c = 10) (rev s) = rev (drop (length s - n) s)"
      unfolding rev_from [OF "1.prems"(1)] using "1.prems"(2) stop by (subst takeWhile_append2) auto
    then show ?thesis using False "1.prems"(1) by (auto simp: count_newlines.simps [of s n] charAt_end)
  qed
qed

lemma trim_newlines_spec: "trim_newlines s = rev (dropWhile (\<lambda>c. c = 10) (rev s))"
proof -
  let ?k = "length (takeWhile (\<lambda>c. c = 10) (rev s))"
  have "?k \<le> length s" using length_takeWhile_le [of _ "rev s"] by simp
  then have "trim_newlines s = take (length s - ?k) s"
    using count_newlines_spec [of 0 s] by (simp add: trim_newlines_def substring_def nat_diff_distrib')
  then show ?thesis by (simp add: dropWhile_eq_drop rev_drop)
qed

section \<open>Permanent links\<close>

definition permanent_link :: "jsstr \<Rightarrow> html" where
  "permanent_link i =
     Elem \<lparr>tag = js ''a'', ident = None, classes = [js ''anchorlink''], href = js ''#'' @ i\<rparr> []"

text \<open>The selector \<^verbatim>\<open>.contents a.anchor[id], .contents .groupheader > a[id]\<close> for a child \<open>c\<close> of \<open>e\<close>;
  \<open>inside\<close> tells whether an ancestor of \<open>e\<close> has the class \<open>contents\<close>.\<close>

definition is_anchor :: "bool \<Rightarrow> html_elt \<Rightarrow> html \<Rightarrow> bool" where
  "is_anchor inside e c =
     (case c of Text _ \<Rightarrow> False
      | Elem a _ \<Rightarrow> tag a = js ''a'' \<and> ident a \<noteq> None \<and>
          ((inside \<or> js ''contents'' \<in> set (classes e)) \<and> js ''anchor'' \<in> set (classes a) \<or>
           inside \<and> js ''groupheader'' \<in> set (classes e)))"

definition mark_anchor :: "html \<Rightarrow> html" where
  "mark_anchor c = (case c of Text s \<Rightarrow> Text s
     | Elem a cs \<Rightarrow> Elem (a\<lparr>classes := add_class (js ''anchor'') (classes a)\<rparr>) cs)"

definition anchor_ident :: "html \<Rightarrow> jsstr" where
  "anchor_ident c = (case c of Text _ \<Rightarrow> [] | Elem a _ \<Rightarrow> (case ident a of None \<Rightarrow> [] | Some i \<Rightarrow> i))"

text \<open>\<open>DoxygenAwesomeParagraphLink.init\<close>: the list of nodes is taken before any link is added, and a link
  goes to the end of its node's parent.\<close>

fun add_links :: "bool \<Rightarrow> html \<Rightarrow> html" where
  "add_links inside (Text s) = Text s"
| "add_links inside (Elem e cs) =
     Elem e
       (map (\<lambda>c. if is_anchor inside e c
                 then mark_anchor (add_links (inside \<or> js ''contents'' \<in> set (classes e)) c)
                 else add_links (inside \<or> js ''contents'' \<in> set (classes e)) c) cs @
        map (\<lambda>c. permanent_link (anchor_ident c)) (filter (is_anchor inside e) cs))"

fun idents :: "html \<Rightarrow> jsstr list" where
  "idents (Text s) = []"
| "idents (Elem e cs) = (case ident e of None \<Rightarrow> [] | Some i \<Rightarrow> [i]) @ concat (map idents cs)"

fun anchor_links :: "html \<Rightarrow> jsstr list" where
  "anchor_links (Text s) = []"
| "anchor_links (Elem e cs) =
     (if js ''anchorlink'' \<in> set (classes e) then [href e] else []) @ concat (map anchor_links cs)"

lemma links_basic [simp]:
  "idents (permanent_link i) = []" "anchor_links (permanent_link i) = [js ''#'' @ i]"
  "idents (mark_anchor h) = idents h" "anchor_links (mark_anchor h) = anchor_links h"
  by (cases h; simp add: permanent_link_def mark_anchor_def js_inj)+

lemma idents_add_links: "idents (add_links inside h) = idents h"
proof (induction inside h rule: add_links.induct)
  case (2 inside e cs)
  have "idents (if is_anchor inside e c
      then mark_anchor (add_links (inside \<or> js ''contents'' \<in> set (classes e)) c)
      else add_links (inside \<or> js ''contents'' \<in> set (classes e)) c) = idents c" if "c \<in> set cs" for c
    using 2 that by simp
  moreover have "concat (map (\<lambda>c. []) cs') = []" for cs' :: "html list" by simp
  ultimately show ?case by (simp add: comp_def cong: map_cong del: concat_eq_Nil_conv)
qed simp

text \<open>A link added for an anchor is new; every other was there before.\<close>

lemma anchor_links_add:
  "x \<in> set (anchor_links (add_links inside h)) \<Longrightarrow>
   x \<in> set (anchor_links h) \<or> (\<exists>i \<in> set (idents h). x = js ''#'' @ i)"
proof (induction inside h rule: add_links.induct)
  case (2 inside e cs)
  let ?in = "inside \<or> js ''contents'' \<in> set (classes e)"
  from "2.prems" consider
      (own) "x \<in> set (anchor_links (Elem e []))"
    | (kid) c where "c \<in> set cs" "x \<in> set (anchor_links (add_links ?in c))"
    | (new) c where "c \<in> set cs" "is_anchor inside e c" "x = js ''#'' @ anchor_ident c"
    by (auto split: if_splits)
  then show ?case
  proof cases
    case kid
    have "x \<in> set (anchor_links c) \<or> (\<exists>i \<in> set (idents c). x = js ''#'' @ i)"
      using "2.IH" kid by (cases "is_anchor inside e c") auto
    then show ?thesis using kid(1) by auto
  next
    case new
    from new(2) have "anchor_ident c \<in> set (idents c)"
      by (cases c) (auto simp: is_anchor_def anchor_ident_def)
    then show ?thesis using new by auto
  qed auto
qed simp

section \<open>The button of a fragment\<close>

definition button_ok :: "copy_button \<Rightarrow> bool" where
  "button_ok b \<longleftrightarrow> timers_wf (btn_timers b) \<and>
     (js ''success'' \<in> set (btn_class b) \<longleftrightarrow> btn_icon b = successIcon) \<and>
     (btn_icon b = successIcon \<longrightarrow> timer_list (btn_timers b) \<noteq> [])"

lemma show_success_ok:
  "button_ok b \<Longrightarrow> button_ok (b\<lparr>clipboard := t, btn_class := add_class (js ''success'') (btn_class b),
     btn_icon := successIcon, btn_timers := snd (setTimeout () (btn_timers b))\<rparr>)"
proof -
  assume ok: "button_ok b"
  obtain n u where u: "setTimeout () (btn_timers b) = (n, u)" by fastforce
  from ok have wf: "timers_wf (btn_timers b)" by (simp add: button_ok_def)
  show ?thesis
    using browser.set_ok [OF wf u] browser.set_pending [OF wf u] u by (simp add: button_ok_def)
qed

lemma copyContent_ok: "button_ok b \<Longrightarrow> button_ok (copyContent f b)"
  unfolding copyContent_def Let_def by (rule show_success_ok)

lemma success_over_ok: "button_ok b \<Longrightarrow> button_ok (success_over n b)"
  using browser.clear_ok [of "btn_timers b" n] by (auto simp: button_ok_def success_over_def)

lemma copy_step_ok: "button_ok b \<Longrightarrow> button_ok (copy_step f e b)"
  by (cases e) (simp_all add: copyContent_ok success_over_ok)

lemma copy_run_ok: "button_ok b \<Longrightarrow> button_ok (fold (copy_step f) es b)"
  by (induction es arbitrary: b) (simp_all add: copy_step_ok)

lemma clipboard_run:
  "clipboard (fold (copy_step f) es b) =
     (if Copy_click \<in> set es then trim_newlines (textContent (strip_listing f)) else clipboard b)"
proof (induction es arbitrary: b)
  case (Cons e es)
  then show ?case by (cases e) (auto simp: copyContent_def success_over_def)
qed simp

section \<open>Properties\<close>

text \<open>
  Tabs. Where the set-up of a block succeeds on items of which none is marked as selected, there is one
  button per item with its title, and after any clicks on the buttons exactly one item is selected and
  exactly the button of this item is active: the one clicked last, or the first.
\<close>

theorem tabs_one_selected:
  assumes "make_tabs b 0 ts = (None, is, ls)" and "ts \<noteq> []"
    and "\<forall>t \<in> set ts. js ''selected'' \<notin> set (item_class t)" and "\<forall>k \<in> set ks. k < length ts"
  shows "map (\<lambda>l. Some (link_title l)) ls = map item_title ts \<and>
    shows_tab (if ks = [] then 0 else last ks)
      (fold click_tab ks \<lparr>items = is, links = ls, overview = True\<rparr>)"
proof -
  note spec = make_tabs_spec [OF assms(1,3)]
  have titles: "map (\<lambda>l. Some (link_title l)) ls = map item_title ts"
    using spec by (intro nth_equalityI) auto
  have start: "shows_tab 0 \<lparr>items = is, links = ls, overview = True\<rparr>"
    using spec assms(2) by (auto simp: shows_tab_def)
  have "shows_tab j t \<Longrightarrow> \<forall>k \<in> set ks. k < length (items t) \<Longrightarrow>
      shows_tab (if ks = [] then j else last ks) (fold click_tab ks t)" for j t ks
    by (induction ks arbitrary: j t) (auto simp: click_items intro: click_shows, (metis click_items click_shows)+)
  from this [OF start, of ks] titles assms(4) spec show ?thesis by simp
qed

theorem tabs_one_selected_witness:
  "\<exists>is ls. make_tabs 0 0 (replicate 3 \<lparr>item_id = [], item_class = [], item_title = Some []\<rparr>) = (None, is, ls) \<and>
     shows_tab 2 (fold click_tab [1, 2] \<lparr>items = is, links = ls, overview = True\<rparr>)"
proof -
  let ?ts = "replicate 3 \<lparr>item_id = [], item_class = [], item_title = Some []\<rparr>"
  obtain "is" ls where mk: "make_tabs 0 0 ?ts = (None, is, ls)"
    by (simp add: numeral_eq_Suc Let_def)
  show ?thesis
    using tabs_one_selected [OF mk, of "[1, 2]"] mk by auto
qed

text \<open>
  The table of contents. When every entry has its heading, \<open>update\<close> marks exactly one entry as active, the
  last one whose heading is above the offset or the first when there is none, whatever was marked before, and
  it marks as above the active one the other entries whose heading is above the offset.
\<close>

theorem toc_marks_current:
  assumes "\<forall>h \<in> set hs. toc_top h \<noteq> None"
  shows "\<exists>hs'. toc_update hs = (None, hs') \<and> length hs' = length hs \<and>
    (\<forall>k < length hs. (js ''active'' \<in> set (toc_class (hs' ! k)) \<longleftrightarrow> k = current_entry hs) \<and>
       (js ''aboveActive'' \<in> set (toc_class (hs' ! k)) \<longleftrightarrow>
          the (toc_top (hs ! k)) < topOffset \<and> k \<noteq> current_entry hs))"
proof -
  let ?a = "if hs = [] then None else Some 0"
  obtain hs' where l: "toc_loop 0 ?a hs = (None, (if above_entries hs = [] then ?a else Some (last (above_entries hs))), hs')"
    "length hs' = length hs"
    "\<And>k. k < length hs \<Longrightarrow> js ''active'' \<notin> set (toc_class (hs' ! k)) \<and>
      (js ''aboveActive'' \<in> set (toc_class (hs' ! k)) \<longleftrightarrow> the (toc_top (hs ! k)) < topOffset)"
    using toc_loop_spec [OF assms, of 0 ?a] by fastforce
  have n: "js ''active'' \<noteq> js ''aboveActive''" by (simp add: js_inj)
  show ?thesis
  proof (cases "hs = []")
    case False
    then have "toc_loop 0 ?a hs = (None, Some (current_entry hs), hs')" using l(1) by (simp add: current_entry_def)
    then show ?thesis
      using l(2,3) n current_entry_less [OF False] by (auto simp: toc_update_def nth_list_update)
  qed (simp add: toc_update_def)
qed

theorem toc_marks_current_witness:
  "\<exists>hs'. toc_update [\<lparr>toc_class = [], toc_top = Some 5\<rparr>, \<lparr>toc_class = [], toc_top = Some 20\<rparr>,
       \<lparr>toc_class = [js ''active''], toc_top = Some 90\<rparr>] = (None, hs') \<and>
     js ''active'' \<in> set (toc_class (hs' ! 1)) \<and> js ''active'' \<notin> set (toc_class (hs' ! 2))"
proof -
  let ?hs = "[\<lparr>toc_class = [], toc_top = Some 5\<rparr>, \<lparr>toc_class = [], toc_top = Some 20\<rparr>,
       \<lparr>toc_class = [js ''active''], toc_top = Some 90\<rparr>]"
  have "\<forall>h \<in> set ?hs. toc_top h \<noteq> None" by simp
  from toc_marks_current [OF this] obtain hs' where u: "toc_update ?hs = (None, hs')"
    "\<And>k. k < length ?hs \<Longrightarrow> js ''active'' \<in> set (toc_class (hs' ! k)) \<longleftrightarrow> k = current_entry ?hs" by blast
  have "current_entry ?hs = 1" by (simp add: current_entry_def above_entries_def topOffset_def)
  then show ?thesis using u(1) u(2) [of 1] u(2) [of 2] by simp
qed

text \<open>
  The copy button. After any sequence of clicks and expiring timers, the clipboard holds the fragment's text
  without the line numbers and tooltips and without newlines at its end, if there was a click; the loop that
  counts the newlines ends also on a text of newlines only. The button shows success only while a timer that
  will take it back is running.
\<close>

theorem copy_button:
  assumes "b = fold (copy_step f) es (new_button clip)"
  shows "clipboard b = (if Copy_click \<in> set es
      then rev (dropWhile (\<lambda>c. c = 10) (rev (textContent (strip_listing f)))) else clip) \<and>
    (btn_icon b = successIcon \<longleftrightarrow> js ''success'' \<in> set (btn_class b)) \<and>
    (timer_list (btn_timers b) = [] \<longrightarrow> btn_icon b = copyIcon)"
proof -
  have "button_ok (new_button clip)" by (simp add: button_ok_def new_button_def)
  then have ok: "button_ok b" unfolding assms by (rule copy_run_ok)
  have "clipboard b = (if Copy_click \<in> set es then trim_newlines (textContent (strip_listing f)) else clip)"
    unfolding assms clipboard_run by (simp add: new_button_def)
  then show ?thesis
    using ok by (cases "btn_icon b") (auto simp: button_ok_def trim_newlines_spec)
qed

theorem copy_button_witness:
  "\<exists>b. b = fold (copy_step (Text [65, 10, 66, 10, 10])) [Copy_click, Copy_click, Copy_timer 1, Copy_timer 2] (new_button []) \<and>
     clipboard b = [65, 10, 66] \<and> btn_icon b = copyIcon"
proof -
  define b where "b = fold (copy_step (Text [65, 10, 66, 10, 10])) [Copy_click, Copy_click, Copy_timer 1, Copy_timer 2] (new_button [])"
  have "timer_list (btn_timers b) = []"
    by (simp add: b_def new_button_def copyContent_def success_over_def setTimeout_def clearTimeout_def no_timers_def)
  with copy_button [OF b_def] have "clipboard b = [65, 10, 66] \<and> btn_icon b = copyIcon" by simp
  with b_def show ?thesis by blast
qed

text \<open>
  Permanent links lead somewhere: adding them keeps the identifiers of the page, and every link of the page
  afterwards was there before or is the address of an identifier the page has.
\<close>

theorem permanent_links_resolve:
  "idents (add_links False h) = idents h \<and>
   (\<forall>x. x \<in> set (anchor_links (add_links False h)) \<longrightarrow>
     x \<in> set (anchor_links h) \<or> (\<exists>i. i \<in> set (idents (add_links False h)) \<and> x = js ''#'' @ i))"
  using anchor_links_add [of _ False h] by (auto simp: idents_add_links)

theorem permanent_links_resolve_witness:
  "anchor_links (add_links False (Elem \<lparr>tag = [], ident = None, classes = [js ''contents''], href = []\<rparr>
      [Elem \<lparr>tag = js ''a'', ident = Some [120], classes = [js ''anchor''], href = []\<rparr> []])) = [js ''#'' @ [120]] \<and>
   (\<exists>i. i \<in> set (idents (add_links False (Elem \<lparr>tag = [], ident = None, classes = [js ''contents''], href = []\<rparr>
      [Elem \<lparr>tag = js ''a'', ident = Some [120], classes = [js ''anchor''], href = []\<rparr> []]))) \<and>
     js ''#'' @ [120] = js ''#'' @ i)"
proof -
  let ?h = "Elem \<lparr>tag = [], ident = None, classes = [js ''contents''], href = []\<rparr>
      [Elem \<lparr>tag = js ''a'', ident = Some [120], classes = [js ''anchor''], href = []\<rparr> []]"
  have new: "anchor_links (add_links False ?h) = [js ''#'' @ [120]]" and old: "anchor_links ?h = []"
    by (simp_all add: is_anchor_def anchor_ident_def js_inj)
  have "js ''#'' @ [120] \<in> set (anchor_links (add_links False ?h))" unfolding new by simp
  with permanent_links_resolve [of ?h] old
  have "\<exists>i. i \<in> set (idents (add_links False ?h)) \<and> js ''#'' @ [120] = js ''#'' @ i" by fastforce
  with new show ?thesis by blast
qed

end
