(* ===== verification/JS_Cookies.thy ===== *)
theory JS_Cookies
  imports JS_Strings
begin

text \<open>
  The browser's cookies, which \<^verbatim>\<open>doc/html/resize.js\<close> and \<^verbatim>\<open>external/tinyxml2/docs/cookie.js\<close> read and assign: a list
  of names and values, read as one text. What is written is read back, unless the name occurs inside another
  cookie.
\<close>

section \<open>Cookies\<close>

type_synonym jar = "(jsstr \<times> jsstr) list"

text \<open>Reading \<open>document.cookie\<close>: the pairs, separated by a semicolon and a space.\<close>

fun cookie_text :: "jar \<Rightarrow> jsstr" where
  "cookie_text [] = []"
| "cookie_text [(k, v)] = k @ 61 # v"
| "cookie_text ((k, v) # c # cs) = k @ 61 # v @ 59 # 32 # cookie_text (c # cs)"

fun set_pair :: "jsstr \<Rightarrow> jsstr \<Rightarrow> jar \<Rightarrow> jar" where
  "set_pair k v [] = [(k, v)]"
| "set_pair k v ((k', v') # cs) = (if k' = k then (k, v) # cs else (k', v') # set_pair k v cs)"

text \<open>Assigning \<open>document.cookie\<close> for an expiry in the future: what stands before the first semicolon is the
  pair, its name what stands before the first equals sign. Blanks around both are dropped. A cookie that exists
  keeps its place.\<close>

definition wsp :: "nat \<Rightarrow> bool" where
  "wsp c \<longleftrightarrow> c = 32 \<or> c = 9"

definition wsp_trim :: "jsstr \<Rightarrow> jsstr" where
  "wsp_trim s = rev (dropWhile wsp (rev (dropWhile wsp s)))"

definition assign_cookie :: "jsstr \<Rightarrow> jar \<Rightarrow> jar" where
  "assign_cookie t j =
     (let pair = takeWhile (\<lambda>c. c \<noteq> 59) t; k = takeWhile (\<lambda>c. c \<noteq> 61) pair
      in set_pair (wsp_trim k) (wsp_trim (drop (Suc (length k)) pair)) j)"

text \<open>An expiry in the past removes the cookie.\<close>

definition expire_cookie :: "jsstr \<Rightarrow> jar \<Rightarrow> jar" where
  "expire_cookie t j =
     (let k = takeWhile (\<lambda>c. c \<noteq> 61) (takeWhile (\<lambda>c. c \<noteq> 59) t) in filter (\<lambda>c. fst c \<noteq> wsp_trim k) j)"

text \<open>Reading a value: what stands between the name with its equals sign, at its first occurrence in the
  whole text, and the next semicolon.\<close>

definition cookie_lookup :: "jsstr \<Rightarrow> jar \<Rightarrow> jsstr option" where
  "cookie_lookup myCookie j =
     (let text = cookie_text j
      in if text = [] then None
         else case indexOf text myCookie of
           None \<Rightarrow> None
         | Some index \<Rightarrow>
             let valStart = index + length myCookie; rest = drop valStart text;
                 valEnd = (case indexOf rest (js '';'') of None \<Rightarrow> length text | Some i \<Rightarrow> valStart + i)
             in Some (substring (int valStart) (int valEnd) text))"

section \<open>Cookies are read back\<close>

lemma starts_with_before:
  "c \<notin> set p \<Longrightarrow> starts_with p (a @ c # b) = starts_with p a"
proof (induction p arbitrary: a)
  case (Cons x p)
  show ?case
  proof (cases a)
    case Nil
    then show ?thesis using Cons.prems by (auto simp: starts_with_def)
  next
    case (Cons y a')
    then show ?thesis using Cons.IH [of a'] Cons.prems by (simp add: starts_with_def)
  qed
qed (simp add: starts_with_def)

lemma indexOf_skip:
  assumes "c \<notin> set p" "p \<noteq> []" "indexOf a p = None"
  shows "indexOf (a @ c # b) p = map_option (\<lambda>i. i + Suc (length a)) (indexOf b p)"
  using assms(3)
proof (induction a)
  case Nil
  have "\<not> starts_with p (c # b)" using starts_with_before [OF assms(1), of "[]" b] assms(2) by (simp add: starts_with_def)
  then show ?case by simp
next
  case (Cons x a)
  then have "\<not> starts_with p (x # a)" "indexOf a p = None" by (auto split: if_splits)
  then show ?case
    using Cons.IH starts_with_before [OF assms(1), of "x # a" b] by (simp add: option.map_comp comp_def)
qed

lemma indexOf_char: "c \<notin> set a \<Longrightarrow> indexOf a [c] = None" "c \<notin> set a \<Longrightarrow> indexOf (a @ c # b) [c] = Some (length a)"
  by (induction a) (auto simp: starts_with_def)

lemma substring_nat: "m \<le> n \<Longrightarrow> substring (int m) (int n) t = drop m (take n t)"
  by (simp add: substring_def)

definition plain_name :: "jsstr \<Rightarrow> bool" where
  "plain_name k \<longleftrightarrow> k \<noteq> [] \<and> 59 \<notin> set k \<and> 32 \<notin> set k \<and> 61 \<notin> set k \<and> 9 \<notin> set k"

definition plain_value :: "jsstr \<Rightarrow> bool" where
  "plain_value v \<longleftrightarrow> 59 \<notin> set v \<and> (v = [] \<or> \<not> wsp (hd v) \<and> \<not> wsp (last v))"

lemma wsp_trim_idle: "v = [] \<or> \<not> wsp (hd v) \<and> \<not> wsp (last v) \<Longrightarrow> wsp_trim v = v"
proof -
  assume v: "v = [] \<or> \<not> wsp (hd v) \<and> \<not> wsp (last v)"
  then have "dropWhile wsp v = v" "dropWhile wsp (rev v) = rev v"
    by (auto simp: dropWhile_eq_self_iff hd_rev)
  then show ?thesis by (simp add: wsp_trim_def)
qed

lemma trim_plain [simp]: "plain_name k \<Longrightarrow> wsp_trim k = k" "plain_value v \<Longrightarrow> wsp_trim v = v"
proof -
  show "plain_name k \<Longrightarrow> wsp_trim k = k"
    by (rule wsp_trim_idle) (metis hd_in_set last_in_set plain_name_def wsp_def)
  show "plain_value v \<Longrightarrow> wsp_trim v = v"
    by (rule wsp_trim_idle) (simp add: plain_value_def)
qed

lemma plain_value_semicolon [simp]: "plain_value v \<Longrightarrow> 59 \<notin> set v"
  by (simp add: plain_value_def)

text \<open>The name with its equals sign does not occur in a cookie.\<close>

definition apart :: "jsstr \<Rightarrow> jsstr \<times> jsstr \<Rightarrow> bool" where
  "apart k c \<longleftrightarrow> indexOf (fst c @ 61 # snd c) (k @ [61]) = None"

lemma cookie_text_finds:
  assumes "plain_name k" "\<forall>c \<in> set pre. apart k c"
  shows "\<exists>a r. cookie_text (pre @ (k, v) # post) = a @ (k @ [61]) @ v @ r \<and>
    indexOf (cookie_text (pre @ (k, v) # post)) (k @ [61]) = Some (length a) \<and> (r = [] \<or> (\<exists>t. r = 59 # t))"
  using assms(2)
proof (induction pre)
  case Nil
  let ?p = "k @ [61]"
  obtain r where r: "cookie_text ((k, v) # post) = ?p @ v @ r" "r = [] \<or> (\<exists>t. r = 59 # t)"
    by (cases post) auto
  have "indexOf (?p @ v @ r) ?p = Some 0"
    using indexOf_append_here [of "[]" ?p "v @ r"] by simp
  then show ?case using r by (intro exI [of _ "[]"] exI [of _ r]) simp
next
  case (Cons c pre)
  let ?p = "k @ [61]" and ?e = "fst c @ 61 # snd c" and ?t = "cookie_text (pre @ (k, v) # post)"
  have "\<forall>c \<in> set pre. apart k c" using Cons.prems by simp
  from Cons.IH [OF this] obtain a r where
    t: "?t = a @ ?p @ v @ r" "indexOf ?t ?p = Some (length a)" "r = [] \<or> (\<exists>t. r = 59 # t)" by blast
  have whole: "cookie_text ((c # pre) @ (k, v) # post) = ?e @ 59 # 32 # ?t"
    by (cases c; cases "pre @ (k, v) # post") auto
  have out: "59 \<notin> set ?p" "32 \<notin> set ?p" "?p \<noteq> []" using assms(1) by (auto simp: plain_name_def)
  have "indexOf (32 # ?t) ?p = Some (Suc (length a))"
    using indexOf_skip [OF out(2,3), of "[]" ?t] t(2) by simp
  then have "indexOf (?e @ 59 # 32 # ?t) ?p = Some (length (?e @ [59, 32] @ a))"
    using indexOf_skip [OF out(1,3), of ?e "32 # ?t"] Cons.prems by (simp add: apart_def)
  then show ?case
    unfolding whole using t(1,3) by (intro exI [of _ "?e @ [59, 32] @ a"] exI [of _ r]) simp
qed

lemma cookie_lookup_finds:
  assumes "plain_name k" "\<forall>c \<in> set pre. apart k c" "59 \<notin> set v"
  shows "cookie_lookup (k @ [61]) (pre @ (k, v) # post) = Some v"
proof -
  let ?t = "cookie_text (pre @ (k, v) # post)" and ?p = "k @ [61]"
  obtain a r where t: "?t = a @ ?p @ v @ r" "indexOf ?t ?p = Some (length a)" "r = [] \<or> (\<exists>t. r = 59 # t)"
    using cookie_text_finds [OF assms(1,2)] by blast
  have semi: "js '';'' = [59]" by (simp add: js_def)
  have len: "length a + length ?p = length (a @ ?p)" by simp
  have rest: "drop (length a + length ?p) ?t = v @ r" unfolding t(1) len by (metis append.assoc append_eq_conv_conj)
  have "substring (int (length a + length ?p)) (int (length a + length ?p + length v)) ?t = v"
    using rest substring_nat [of "length a + length ?p" "length a + length ?p + length v" ?t]
    by (simp add: drop_take)
  moreover have "?t \<noteq> []" unfolding t(1) by simp
  moreover have "length ?t = length a + length ?p + length v" if "r = []" unfolding t(1) using that by simp
  ultimately show ?thesis
    unfolding cookie_lookup_def Let_def t(2) option.case semi rest
    using t(3) indexOf_char [OF assms(3)] by auto
qed

lemma set_pair_split:
  "\<exists>pre post. set_pair k v j = pre @ (k, v) # post \<and> set pre \<subseteq> {c \<in> set j. fst c \<noteq> k}"
proof (induction k v j rule: set_pair.induct)
  case (1 k v)
  show ?case by (intro exI [of _ "[]"]) simp
next
  case (2 k v k' v' cs)
  show ?case
  proof (cases "k' = k")
    case True
    then show ?thesis by (intro exI [of _ "[]"] exI [of _ cs]) simp
  next
    case False
    with 2 obtain pre post where "set_pair k v cs = pre @ (k, v) # post" "set pre \<subseteq> {c \<in> set cs. fst c \<noteq> k}" by blast
    with False show ?thesis by (intro exI [of _ "(k', v') # pre"] exI [of _ post]) auto
  qed
qed

lemma lookup_set_pair:
  assumes "plain_name k" "plain_value v" "\<forall>c \<in> set j. fst c \<noteq> k \<longrightarrow> apart k c"
  shows "cookie_lookup (k @ [61]) (set_pair k v j) = Some v"
proof -
  obtain pre post where sp: "set_pair k v j = pre @ (k, v) # post" "set pre \<subseteq> {c \<in> set j. fst c \<noteq> k}"
    using set_pair_split by blast
  have "\<forall>c \<in> set pre. apart k c" using sp(2) assms(3) by auto
  then show ?thesis unfolding sp(1) using cookie_lookup_finds [OF assms(1)] assms(2) by simp
qed

text \<open>The pair an assignment is about.\<close>

lemma assigned_name:
  assumes "plain_name k" "plain_value v"
  shows "takeWhile (\<lambda>c. c \<noteq> 59) (k @ 61 # v @ 59 # t) = k @ 61 # v" "takeWhile (\<lambda>c. c \<noteq> 61) (k @ 61 # v) = k"
proof -
  have no: "59 \<notin> set (k @ 61 # v)" "61 \<notin> set k" using assms by (auto simp: plain_name_def plain_value_def)
  have "takeWhile (\<lambda>c. c \<noteq> 59) ((k @ 61 # v) @ 59 # t) = k @ 61 # v" using no(1) by (subst takeWhile_append2) auto
  then show "takeWhile (\<lambda>c. c \<noteq> 59) (k @ 61 # v @ 59 # t) = k @ 61 # v" by simp
  show "takeWhile (\<lambda>c. c \<noteq> 61) (k @ 61 # v) = k" using no(2) by (subst takeWhile_append2) auto
qed

lemma assign_cookie_pair:
  "plain_name k \<Longrightarrow> plain_value v \<Longrightarrow> assign_cookie (k @ 61 # v @ 59 # t) j = set_pair k v j"
  by (simp add: assign_cookie_def assigned_name)

lemma expire_cookie_pair:
  "plain_name k \<Longrightarrow> plain_value v \<Longrightarrow> expire_cookie (k @ 61 # v @ 59 # t) j = filter (\<lambda>c. fst c \<noteq> k) j"
  by (simp add: expire_cookie_def assigned_name)

text \<open>A name that is in no cookie is not found.\<close>

lemma cookie_lookup_none:
  assumes "plain_name k" "\<forall>c \<in> set j. apart k c"
  shows "cookie_lookup (k @ [61]) j = None"
proof -
  have out: "59 \<notin> set (k @ [61])" "32 \<notin> set (k @ [61])" "k @ [61] \<noteq> []" using assms(1) by (auto simp: plain_name_def)
  have "indexOf (cookie_text j) (k @ [61]) = None"
    using assms(2)
  proof (induction j rule: cookie_text.induct)
    case (3 k' v c cs)
    then have "indexOf (32 # cookie_text (c # cs)) (k @ [61]) = None"
      using indexOf_skip [OF out(2,3), of "[]" "cookie_text (c # cs)"] by simp
    with 3 show ?case
      using indexOf_skip [OF out(1,3), of "k' @ 61 # v" "32 # cookie_text (c # cs)"] by (simp add: apart_def)
  qed (auto simp: apart_def starts_with_def)
  then show ?thesis by (simp add: cookie_lookup_def Let_def)
qed

end
