(* ===== verification/JS_Resize.thy ===== *)
theory JS_Resize
  imports JS_Cookies
begin

text \<open>
  The resizable side bar of the documentation pages, \<^verbatim>\<open>doc/html/resize.js\<close>: its width is kept in a cookie,
  and it is collapsed on narrow windows. Widths and heights are whole pixels; the layout of the page (the
  heights of header and footer, the padding of the bar) is part of the state.
\<close>

section \<open>The cookie of the width\<close>

definition cookie_namespace :: jsstr where
  "cookie_namespace = js ''doxygen''"

text \<open>\<open>readCookie\<close>; \<open>None\<close> is the number 0 it returns for a cookie that is not there.\<close>

definition readCookie :: "jsstr \<Rightarrow> jar \<Rightarrow> jsstr option" where
  "readCookie cookie j = cookie_lookup (cookie_namespace @ js ''_'' @ cookie @ js ''='') j"

text \<open>\<open>writeCookie\<close>; \<open>expiration\<close> is the printed date.\<close>

definition writeCookie :: "jsstr \<Rightarrow> jsstr \<Rightarrow> jsstr \<Rightarrow> jar \<Rightarrow> jar" where
  "writeCookie cookie val expiration j =
     assign_cookie (cookie_namespace @ js ''_'' @ cookie @ js ''='' @ val @ js ''; expires='' @ expiration @
       js ''; path=/'') j"

section \<open>Numbers in strings\<close>

definition digits_num :: "jsstr \<Rightarrow> int option" where
  "digits_num s = (if s \<noteq> [] \<and> list_all is_digit s then Some (int (radix_value 10 (map (\<lambda>c. c - 48) s))) else None)"

text \<open>\<open>Number(s)\<close> on the strings the script stores: whole numbers, with \<open>None\<close> for \<open>NaN\<close>.\<close>

definition to_number :: "jsstr \<Rightarrow> int option" where
  "to_number s =
     (case s of [] \<Rightarrow> Some 0
      | c # t \<Rightarrow> if c = 45 then map_option uminus (digits_num t) else digits_num s)"

text \<open>\<open>parseInt\<close> reads the longest numeral at the start.\<close>

definition parseInt :: "jsstr \<Rightarrow> int option" where
  "parseInt s =
     (case s of [] \<Rightarrow> None
      | c # t \<Rightarrow> if c = 45 then map_option uminus (digits_num (takeWhile is_digit t))
                 else digits_num (takeWhile is_digit s))"

section \<open>The page\<close>

record layout =
  cookies :: jar
  window_width :: int
  window_height :: int
  header_height :: int
  footer_height :: int
  side_width :: int
  side_padding :: int
  side_height :: int
  tree_height :: int
  content_height :: int
  content_margin :: int
  collapsed :: bool
  collapsedWidth :: int
  barWidth :: int

definition desktop_vp :: int where "desktop_vp = 768"

definition outerWidth :: "layout \<Rightarrow> int" where
  "outerWidth s = side_width s + side_padding s"

definition resizeWidth :: "jsstr \<Rightarrow> layout \<Rightarrow> layout" where
  "resizeWidth date s =
     (let sidenavWidth = outerWidth s
      in s\<lparr>content_margin := sidenavWidth,
           cookies := writeCookie (js ''width'') (num_str (sidenavWidth - barWidth s)) date (cookies s)\<rparr>)"

text \<open>\<open>restoreWidth\<close> with the width as text; style sheets ignore a negative width or one that is not a
  number, and a margin that is not a number.\<close>

definition restoreWidth :: "jsstr \<Rightarrow> layout \<Rightarrow> layout" where
  "restoreWidth navWidth s =
     s\<lparr>content_margin := (case parseInt navWidth of None \<Rightarrow> content_margin s | Some w \<Rightarrow> w + barWidth s),
       side_width := (case to_number navWidth of
          None \<Rightarrow> side_width s | Some w \<Rightarrow> if navWidth \<noteq> [] \<and> 0 \<le> w then w else side_width s)\<rparr>"

definition collapseExpand :: "layout \<Rightarrow> layout" where
  "collapseExpand s =
     (if side_width s > 0 then (restoreWidth (num_str 0) s)\<lparr>collapsed := True\<rparr>
      else
        let s1 = (case readCookie (js ''width'') (cookies s) of
                    None \<Rightarrow> restoreWidth (num_str 200) s
                  | Some width \<Rightarrow>
                      (case to_number width of
                         None \<Rightarrow> restoreWidth (num_str 200) s
                       | Some w \<Rightarrow> if w > 200 \<and> w < window_width s then restoreWidth width s
                                   else restoreWidth (num_str 200) s))
        in s1\<lparr>collapsed := False\<rparr>)"

definition resizeHeight :: "layout \<Rightarrow> layout" where
  "resizeHeight s =
     (let windowHeight = window_height s - header_height s - footer_height s;
          s1 = s\<lparr>content_height := windowHeight, tree_height := windowHeight, side_height := windowHeight\<rparr>;
          width = window_width s1
      in if width \<noteq> collapsedWidth s1 then
           let s2 = (if width < desktop_vp \<and> collapsedWidth s1 \<ge> desktop_vp then
                       if \<not> collapsed s1 then collapseExpand s1 else s1
                     else if width > desktop_vp \<and> collapsedWidth s1 < desktop_vp then
                       if collapsed s1 then collapseExpand s1 else s1
                     else s1)
           in s2\<lparr>collapsedWidth := width\<rparr>
         else s1)"

text \<open>\<open>initResizable\<close>, with whether the device is a touch device.\<close>

definition initResizable :: "bool \<Rightarrow> jsstr \<Rightarrow> layout \<Rightarrow> layout" where
  "initResizable touch_device date s0 =
     (let s = s0\<lparr>collapsed := False, collapsedWidth := 0, barWidth := 6\<rparr>;
          s1 = (if touch_device then s\<lparr>side_padding := 20, barWidth := 20\<rparr> else s);
          s2 = (case readCookie (js ''width'') (cookies s1) of
                  None \<Rightarrow> resizeWidth date s1
                | Some width \<Rightarrow> if width \<noteq> [] then restoreWidth width s1 else resizeWidth date s1)
      in resizeHeight s2)"

text \<open>The user drags the bar to a width; the window gets a new size.\<close>

definition drag_to :: "jsstr \<Rightarrow> int \<Rightarrow> layout \<Rightarrow> layout" where
  "drag_to date w s = resizeWidth date (s\<lparr>side_width := w\<rparr>)"

definition window_to :: "int \<Rightarrow> layout \<Rightarrow> layout" where
  "window_to w s = resizeHeight (s\<lparr>window_width := w\<rparr>)"

section \<open>Numbers are read back\<close>

lemma digits_num_toString: "digits_num (toString 10 n) = Some (int n)"
proof -
  have d: "d \<in> set (radix_digits 10 n) \<Longrightarrow> d < 10" for d by (rule radix_digits_bound) simp_all
  have "map (\<lambda>c. c - 48) (toString 10 n) = radix_digits 10 n"
    unfolding toString_def map_map
    by (rule map_idI) (use d in \<open>fastforce simp: digit_char_def\<close>)
  moreover have "list_all is_digit (toString 10 n)"
    using toString_10_digits by (auto simp: list_all_iff)
  ultimately show ?thesis by (simp add: digits_num_def radix_value_digits)
qed

lemma hd_toString: "toString 10 n = c # t \<Longrightarrow> c \<noteq> 45"
  using toString_10_digits [of c n] by (auto simp: is_digit_def)

lemma number_of_num_str:
  "0 \<le> w \<Longrightarrow> to_number (num_str w) = Some w" "0 \<le> w \<Longrightarrow> parseInt (num_str w) = Some w" "num_str w \<noteq> []"
proof -
  have tw: "\<forall>x \<in> set xs. is_digit x \<Longrightarrow> takeWhile is_digit xs = xs" for xs
    by (simp add: takeWhile_eq_all_conv)
  have dg: "\<forall>x \<in> set (toString 10 (nat w)). is_digit x" using toString_10_digits by blast
  show "0 \<le> w \<Longrightarrow> to_number (num_str w) = Some w" "0 \<le> w \<Longrightarrow> parseInt (num_str w) = Some w" "num_str w \<noteq> []"
    using digits_num_toString [of "nat w"] hd_toString [of "nat w"] dg
    by (auto simp: num_str_def to_number_def parseInt_def tw split: list.splits)
qed

lemma restoreWidth_number:
  "0 \<le> w \<Longrightarrow> restoreWidth (num_str w) s = s\<lparr>content_margin := w + barWidth s, side_width := w\<rparr>"
  by (simp add: restoreWidth_def number_of_num_str)

section \<open>The cookie is read back\<close>

text \<open>What \<open>writeCookie\<close> writes, \<open>readCookie\<close> reads, unless another cookie contains the name.\<close>

lemma write_read:
  assumes "k = cookie_namespace @ js ''_'' @ cookie" "plain_name k" "plain_value v"
    "\<forall>c \<in> set j. fst c \<noteq> k \<longrightarrow> apart k c"
  shows "readCookie cookie (writeCookie cookie v date j) = Some v"
proof -
  let ?rest = "js ''; expires='' @ date @ js ''; path=/''"
  obtain t where semi: "?rest = 59 # t" by (simp add: js_def)
  have eq: "js ''='' = [61]" by (simp add: js_def)
  have "writeCookie cookie v date j = set_pair k v j"
    unfolding writeCookie_def semi eq using assign_cookie_pair [OF assms(2,3), of t j] by (simp add: assms(1))
  moreover have "cookie_namespace @ js ''_'' @ cookie @ js ''='' = k @ [61]" by (simp add: assms(1) eq)
  ultimately show ?thesis unfolding readCookie_def by (simp only: lookup_set_pair [OF assms(2-4)])
qed

section \<open>Widths\<close>

definition width_key :: jsstr where
  "width_key = js ''doxygen_width''"

lemma width_key: "width_key = cookie_namespace @ js ''_'' @ js ''width''" "plain_name width_key"
  by (simp_all add: width_key_def cookie_namespace_def plain_name_def js_def)

lemma num_str_plain: "plain_value (num_str w)"
proof -
  have "is_digit c \<or> c = 45" if "c \<in> set (num_str w)" for c
    using that toString_10_digits [of c] by (auto simp: num_str_def js_def split: if_splits)
  then have "c \<noteq> 59 \<and> \<not> wsp c" if "c \<in> set (num_str w)" for c using that by (fastforce simp: is_digit_def wsp_def)
  then show ?thesis using number_of_num_str(3) [of w] by (auto simp: plain_value_def)
qed

lemma resizeWidth_read:
  assumes "\<forall>c \<in> set (cookies s). fst c \<noteq> width_key \<longrightarrow> apart width_key c"
  shows "readCookie (js ''width'') (cookies (resizeWidth date s)) = Some (num_str (outerWidth s - barWidth s))"
  using write_read [OF width_key num_str_plain assms] by (simp add: resizeWidth_def Let_def)

text \<open>A page that has just been loaded is never collapsed.\<close>

lemma resizeHeight_fresh:
  "\<not> collapsed s \<Longrightarrow> collapsedWidth s = 0 \<Longrightarrow>
   side_width (resizeHeight s) = side_width s \<and> content_margin (resizeHeight s) = content_margin s \<and>
   barWidth (resizeHeight s) = barWidth s \<and> cookies (resizeHeight s) = cookies s \<and>
   \<not> collapsed (resizeHeight s) \<and> collapsedWidth (resizeHeight s) = window_width s \<and>
   window_width (resizeHeight s) = window_width s"
  by (simp add: resizeHeight_def Let_def desktop_vp_def)

text \<open>A page with a stored width starts with it.\<close>

lemma init_stored:
  assumes "readCookie (js ''width'') (cookies t) = Some (num_str w)" "0 \<le> w"
  obtains u where "initResizable touch date t = resizeHeight (u\<lparr>content_margin := w + barWidth u, side_width := w\<rparr>)"
    "cookies u = cookies t" "barWidth u = (if touch then 20 else 6)" "\<not> collapsed u" "collapsedWidth u = 0"
    "window_width u = window_width t"
proof -
  define v where "v = t\<lparr>collapsed := False, collapsedWidth := 0, barWidth := 6\<rparr>"
  have "initResizable touch date t = resizeHeight (restoreWidth (num_str w)
      (if touch then v\<lparr>side_padding := 20, barWidth := 20\<rparr> else v))"
    using assms(1) number_of_num_str(3) by (simp add: initResizable_def v_def Let_def)
  then show thesis
    unfolding restoreWidth_number [OF assms(2)]
    by (intro that [of "if touch then v\<lparr>side_padding := 20, barWidth := 20\<rparr> else v"]) (simp_all add: v_def)
qed

section \<open>Collapsing\<close>

text \<open>The bar is collapsed exactly when it has no width, and the last window width was looked at.\<close>

definition bar_ok :: "layout \<Rightarrow> bool" where
  "bar_ok s \<longleftrightarrow> 0 \<le> side_width s \<and> (collapsed s \<longleftrightarrow> side_width s = 0) \<and>
     content_margin s = side_width s + barWidth s \<and>
     collapsedWidth s = window_width s \<and> collapsedWidth s \<noteq> desktop_vp \<and>
     (collapsed s \<longleftrightarrow> window_width s < desktop_vp)"

text \<open>Every width that \<open>collapseExpand\<close> reads from the cookie is the text of a number.\<close>

definition numeric_cookie :: "jar \<Rightarrow> bool" where
  "numeric_cookie j \<longleftrightarrow> (case readCookie (js ''width'') j of None \<Rightarrow> True | Some v \<Rightarrow> \<exists>w. v = num_str w)"

lemma to_number_neg: "w < 0 \<Longrightarrow> to_number (num_str w) = Some w"
  using digits_num_toString [of "nat (- w)"] by (simp add: num_str_def to_number_def js_def)

lemma to_number_num_str: "to_number (num_str w) = Some w"
  using to_number_neg number_of_num_str(1) by (cases "w < 0") auto

lemma collapse: "side_width s > 0 \<Longrightarrow>
  collapseExpand s = s\<lparr>content_margin := barWidth s, side_width := 0, collapsed := True\<rparr>"
  using restoreWidth_number [of 0 s] by (simp add: collapseExpand_def)

lemma expand:
  assumes "numeric_cookie (cookies s)" "side_width s = 0"
  shows "\<exists>w. 200 \<le> w \<and> collapseExpand s = s\<lparr>content_margin := w + barWidth s, side_width := w, collapsed := False\<rparr>"
proof (cases "readCookie (js ''width'') (cookies s)")
  case None
  then show ?thesis using assms(2) restoreWidth_number [of 200 s] by (auto simp: collapseExpand_def)
next
  case (Some v)
  then obtain w where v: "v = num_str w" using assms(1) by (auto simp: numeric_cookie_def)
  show ?thesis
  proof (cases "200 < w \<and> w < window_width s")
    case True
    then show ?thesis
      using assms(2) Some v restoreWidth_number [of w s]
      by (intro exI [of _ w]) (simp add: collapseExpand_def to_number_num_str)
  next
    case False
    then show ?thesis
      using assms(2) Some v restoreWidth_number [of 200 s]
      by (intro exI [of _ 200]) (auto simp: collapseExpand_def to_number_num_str)
  qed
qed

lemma window_to_ok:
  assumes "bar_ok s" "numeric_cookie (cookies s)" "w \<noteq> desktop_vp"
  shows "bar_ok (window_to w s) \<and> cookies (window_to w s) = cookies s \<and> window_width (window_to w s) = w"
proof -
  define h where "h = window_height s - header_height s - footer_height s"
  define t where "t = s\<lparr>window_width := w, content_height := h, tree_height := h, side_height := h\<rparr>"
  have t: "side_width t = side_width s" "collapsed t = collapsed s" "collapsedWidth t = window_width s"
    "cookies t = cookies s" "window_width t = w" "barWidth t = barWidth s" "content_margin t = content_margin s"
    using assms(1) by (simp_all add: t_def bar_ok_def)
  have step: "window_to w s =
      (if w = window_width s then t
       else (if w < desktop_vp \<and> window_width s \<ge> desktop_vp \<and> \<not> collapsed s \<or>
                w > desktop_vp \<and> window_width s < desktop_vp \<and> collapsed s
             then collapseExpand t else t)\<lparr>collapsedWidth := w\<rparr>)"
    using assms(1) by (auto simp: window_to_def resizeHeight_def Let_def t_def h_def bar_ok_def)
  consider "w < desktop_vp" "window_width s > desktop_vp" | "w > desktop_vp" "window_width s < desktop_vp"
    | "w < desktop_vp \<longleftrightarrow> window_width s < desktop_vp"
    using assms(1,3) by (fastforce simp: bar_ok_def)
  then show ?thesis
  proof cases
    case 1
    then have "side_width t > 0" using assms(1) t by (auto simp: bar_ok_def)
    then show ?thesis using 1 assms(1) t unfolding step by (auto simp: collapse bar_ok_def)
  next
    case 2
    then have "side_width t = 0" using assms(1) t by (auto simp: bar_ok_def)
    then obtain v where "200 \<le> v" "collapseExpand t = t\<lparr>content_margin := v + barWidth t, side_width := v, collapsed := False\<rparr>"
      using expand [of t] assms(2) t by auto
    then show ?thesis using 2 assms(1) t unfolding step by (auto simp: bar_ok_def)
  next
    case 3
    then show ?thesis using assms(1,3) t unfolding step by (auto simp: bar_ok_def)
  qed
qed

section \<open>Properties\<close>

text \<open>
  The width of the bar survives a reload. After the bar was dragged to a width, a page loaded with the
  resulting cookies shows the bar with exactly that width, the content beside it, and leaves the cookie as it
  is, unless another cookie of the site contains the text \<^verbatim>\<open>doxygen_width=\<close>. The width written leaves room for
  the bar's padding, which is as wide as the split bar.
\<close>

theorem width_survives_reload:
  assumes "0 \<le> w" and "side_padding s = barWidth s" and "cookies t = cookies (drag_to date w s)"
    and "\<forall>c \<in> set (cookies s). fst c \<noteq> width_key \<longrightarrow> apart width_key c"
  shows "side_width (initResizable touch date' t) = w \<and> cookies (initResizable touch date' t) = cookies t \<and>
    content_margin (initResizable touch date' t) = w + (if touch then 20 else 6)"
proof -
  let ?u = "s\<lparr>side_width := w\<rparr>"
  have "readCookie (js ''width'') (cookies (drag_to date w s)) = Some (num_str w)"
    using resizeWidth_read [of ?u date] assms(2,4) by (simp add: drag_to_def outerWidth_def)
  then have r: "readCookie (js ''width'') (cookies t) = Some (num_str w)" using assms(3) by simp
  obtain u where u: "initResizable touch date' t = resizeHeight (u\<lparr>content_margin := w + barWidth u, side_width := w\<rparr>)"
    "cookies u = cookies t" "barWidth u = (if touch then 20 else 6)" "\<not> collapsed u" "collapsedWidth u = 0"
    using init_stored [OF r assms(1)] by metis
  show ?thesis
    unfolding u(1) using resizeHeight_fresh [of "u\<lparr>content_margin := w + barWidth u, side_width := w\<rparr>"] u(2-5) by simp
qed

definition example_layout :: layout where
  "example_layout = \<lparr>cookies = [(js ''lang'', js ''en'')], window_width = 1000, window_height = 800, header_height = 50,
     footer_height = 30, side_width = 250, side_padding = 6, side_height = 0, tree_height = 0, content_height = 0,
     content_margin = 256, collapsed = False, collapsedWidth = 0, barWidth = 6\<rparr>"

theorem width_survives_reload_witness:
  "side_width (initResizable False [] (example_layout\<lparr>cookies := cookies (drag_to [] 310 example_layout)\<rparr>)) = 310"
proof -
  have "\<forall>c \<in> set (cookies example_layout). fst c \<noteq> width_key \<longrightarrow> apart width_key c"
    by (simp add: example_layout_def apart_def width_key_def js_def starts_with_def)
  then show ?thesis
    using width_survives_reload [of 310 example_layout "example_layout\<lparr>cookies := cookies (drag_to [] 310 example_layout)\<rparr>" "[]" False "[]"]
    by (simp add: example_layout_def)
qed

text \<open>
  The bar is collapsed on narrow windows and comes back on wide ones. On a page loaded in a wide window with a
  stored positive width, after any sequence of window widths of which none is exactly 768, the bar is collapsed
  exactly when the window is narrower than 768 pixels; a collapsed bar has width 0, a bar that is not has a
  positive width, and the content always begins right of it.
\<close>

theorem collapse_follows_window:
  assumes "readCookie (js ''width'') (cookies t) = Some (num_str w)" and "0 < w" and "desktop_vp < window_width t"
    and "desktop_vp \<notin> set ws" and "s = fold window_to ws (initResizable touch date t)"
  shows "(collapsed s \<longleftrightarrow> (if ws = [] then window_width t else last ws) < desktop_vp) \<and>
    (if collapsed s then side_width s = 0 else 0 < side_width s) \<and>
    content_margin s = side_width s + barWidth s"
proof -
  obtain u where start: "initResizable touch date t = resizeHeight (u\<lparr>content_margin := w + barWidth u, side_width := w\<rparr>)"
    and u: "cookies u = cookies t" "\<not> collapsed u" "collapsedWidth u = 0" "window_width u = window_width t"
    using init_stored [OF assms(1)] assms(2) by (metis less_imp_le)
  let ?r = "u\<lparr>content_margin := w + barWidth u, side_width := w\<rparr>"
  have b0: "bar_ok (resizeHeight ?r)" "cookies (resizeHeight ?r) = cookies t" "window_width (resizeHeight ?r) = window_width t"
    using resizeHeight_fresh [of ?r] u assms(2,3) by (auto simp: bar_ok_def desktop_vp_def)
  have nc: "numeric_cookie (cookies t)" using assms(1) by (auto simp: numeric_cookie_def)
  have "bar_ok x \<Longrightarrow> cookies x = cookies t \<Longrightarrow> desktop_vp \<notin> set ws \<Longrightarrow>
      bar_ok (fold window_to ws x) \<and>
      window_width (fold window_to ws x) = (if ws = [] then window_width x else last ws)" for x
  proof (induction ws arbitrary: x)
    case (Cons y ws)
    then show ?case using window_to_ok [of x y] nc by (cases ws) auto
  qed simp
  from this [OF b0(1,2) assms(4)] show ?thesis
    unfolding assms(5) start b0(3) by (auto simp: bar_ok_def)
qed

theorem collapse_follows_window_witness:
  "collapsed (fold window_to [900, 500] (initResizable False [] (example_layout\<lparr>cookies := [(width_key, num_str 300)]\<rparr>)))"
proof -
  let ?t = "example_layout\<lparr>cookies := [(width_key, num_str 300)]\<rparr>"
  have r: "readCookie (js ''width'') (cookies ?t) = Some (num_str 300)"
    using cookie_lookup_finds [OF width_key(2), of "[]" "num_str 300" "[]"] num_str_plain
    by (simp add: readCookie_def width_key_def cookie_namespace_def js_def)
  have w: "desktop_vp < window_width ?t" by (simp add: desktop_vp_def example_layout_def)
  have n: "desktop_vp \<notin> set [900, 500]" by (simp add: desktop_vp_def)
  show ?thesis
    using collapse_follows_window [OF r _ w n refl, of False "[]"] by (simp add: desktop_vp_def del: fold.simps fold_Cons)
qed

text \<open>
  A window that passes through a width of exactly 768 pixels on its way from narrow to wide keeps the bar
  collapsed: neither step crosses the boundary as the comparisons are written.
\<close>

theorem passing_768_keeps_collapsed:
  assumes "bar_ok s" and "window_width s < desktop_vp" and "desktop_vp < w"
  shows "collapsed (window_to w (window_to desktop_vp s)) \<and> side_width (window_to w (window_to desktop_vp s)) = 0"
proof -
  let ?t = "window_to desktop_vp s"
  have "collapsed ?t" "side_width ?t = 0" "collapsedWidth ?t = desktop_vp"
    using assms(1,2) by (auto simp: window_to_def resizeHeight_def Let_def bar_ok_def)
  then show ?thesis using assms(3) by (simp add: window_to_def [of w] resizeHeight_def Let_def)
qed

text \<open>The name is searched for in the whole text of the cookies, so a cookie whose name ends in it is taken for it.\<close>

theorem foreign_cookie_read:
  "readCookie (js ''width'') [(js ''my_doxygen_width'', js ''5''), (js ''doxygen_width'', js ''250'')] = Some (js ''5'')"
  by code_simp

end
