(* ===== verification/JS_Sections.thy ===== *)
theory JS_Sections
  imports JS_Strings
begin

text \<open>
  Sections, directory tables and the menu of the documentation pages, \<^verbatim>\<open>doc/html/dynsections.js\<close> and
  \<^verbatim>\<open>doc/html/menu.js\<close>. A directory table is the list of its rows; a row carries its identifier, whether it is
  displayed, the classes of its folder icon, the text of its arrow (a leaf has neither) and its stripe.
\<close>

section \<open>Collapsible sections\<close>

record dyn_section =
  content_shown :: bool
  summary_shown :: bool
  link_classes :: "jsstr list"
  trigger_src :: jsstr

definition toggleVisibility :: "dyn_section \<Rightarrow> dyn_section" where
  "toggleVisibility s =
     (let src = trigger_src s; n = int (length src) in
      if content_shown s then
        s\<lparr>content_shown := False, summary_shown := True,
          link_classes := remove_class (js ''opened'') (add_class (js ''closed'') (link_classes s)),
          trigger_src := substring 0 (n - 8) src @ js ''closed.png''\<rparr>
      else
        s\<lparr>content_shown := True, summary_shown := False,
          link_classes := add_class (js ''opened'') (remove_class (js ''closed'') (link_classes s)),
          trigger_src := substring 0 (n - 10) src @ js ''open.png''\<rparr>)"

text \<open>The inherited members of a class: the rows of one class name, all shown or all hidden together.\<close>

record inherit_rows =
  inherit_display :: "jsstr list"
  inherit_src :: jsstr

definition toggleInherit :: "inherit_rows \<Rightarrow> inherit_rows" where
  "toggleInherit s =
     (let src = inherit_src s; n = int (length src) in
      if (case inherit_display s of [] \<Rightarrow> False | d # _ \<Rightarrow> d \<noteq> js ''none'') then
        s\<lparr>inherit_display := map (\<lambda>_. js ''none'') (inherit_display s),
          inherit_src := substring 0 (n - 8) src @ js ''closed.png''\<rparr>
      else
        s\<lparr>inherit_display := map (\<lambda>_. js ''table-row'') (inherit_display s),
          inherit_src := substring 0 (n - 10) src @ js ''open.png''\<rparr>)"

section \<open>Directory tables\<close>

record dir_row =
  row_id :: jsstr
  row_shown :: bool
  row_icon :: "jsstr list option"
  row_arrow :: "jsstr option"
  row_even :: bool

definition arrow_down :: jsstr where "arrow_down = js ''&#9660;''"
definition arrow_right :: jsstr where "arrow_right = js ''&#9658;''"

text \<open>\<open>updateStripes\<close>: every other displayed row, from the first.\<close>

fun stripes :: "bool \<Rightarrow> dir_row list \<Rightarrow> dir_row list" where
  "stripes e [] = []"
| "stripes e (r # rs) =
     (if row_shown r then r\<lparr>row_even := e\<rparr> # stripes (\<not> e) rs else r\<lparr>row_even := False\<rparr> # stripes e rs)"

definition updateStripes :: "dir_row list \<Rightarrow> dir_row list" where
  "updateStripes rs = stripes True rs"

definition icon_to :: "jsstr \<Rightarrow> jsstr list \<Rightarrow> jsstr list" where
  "icon_to c cs = add_class c (remove_class (js ''iconfopen'') (remove_class (js ''iconfclosed'') cs))"

definition level_row :: "int \<Rightarrow> dir_row \<Rightarrow> dir_row" where
  "level_row level r =
     (let l = int (length (split_at_char 95 (row_id r))) - 1 in
      if l < level + 1 then
        r\<lparr>row_icon := map_option (icon_to (js ''iconfopen'')) (row_icon r),
          row_arrow := map_option (\<lambda>_. arrow_down) (row_arrow r), row_shown := True\<rparr>
      else if l = level + 1 then
        r\<lparr>row_icon := map_option (icon_to (js ''iconfclosed'')) (row_icon r),
          row_arrow := map_option (\<lambda>_. arrow_right) (row_arrow r), row_shown := True\<rparr>
      else r\<lparr>row_shown := False\<rparr>)"

definition toggleLevel :: "int \<Rightarrow> dir_row list \<Rightarrow> dir_row list" where
  "toggleLevel level rs = updateStripes (map (level_row level) rs)"

text \<open>The regular expression of a row directly below the folder \<open>id\<close>, with the flag for letter case.\<close>

definition is_child_row :: "jsstr \<Rightarrow> jsstr \<Rightarrow> bool" where
  "is_child_row i x =
     (let p = map ascii_lower (js ''row_'' @ i); y = map ascii_lower x; d = drop (length p) y
      in starts_with p y \<and> d \<noteq> [] \<and> last d = 95 \<and> butlast d \<noteq> [] \<and> list_all is_digit (butlast d))"

definition is_below :: "jsstr \<Rightarrow> jsstr \<Rightarrow> bool" where
  "is_below i x = starts_with (js ''row_'' @ i) x"

text \<open>Of the spans of a row, the folder icon and the arrow.\<close>

definition folder_close :: "dir_row \<Rightarrow> dir_row" where
  "folder_close r =
     r\<lparr>row_icon := map_option (\<lambda>cs. if js ''iconfopen'' \<in> set cs
           then add_class (js ''iconfclosed'') (remove_class (js ''iconfopen'') cs) else cs) (row_icon r),
       row_arrow := map_option (\<lambda>_. arrow_right) (row_arrow r)\<rparr>"

definition folder_open :: "dir_row \<Rightarrow> dir_row" where
  "folder_open r =
     r\<lparr>row_icon := map_option (\<lambda>cs. if js ''iconfclosed'' \<in> set cs
           then add_class (js ''iconfopen'') (remove_class (js ''iconfclosed'') cs) else cs) (row_icon r),
       row_arrow := map_option (\<lambda>_. arrow_down) (row_arrow r)\<rparr>"

text \<open>\<open>toggleFolder\<close>: the rows up to the clicked one, the clicked one, and those after it. Without such a row
  there are no rows after it either, and only the stripes are set.\<close>

definition toggleFolder :: "jsstr \<Rightarrow> dir_row list \<Rightarrow> dir_row list" where
  "toggleFolder i all =
     (let before = takeWhile (\<lambda>r. row_id r \<noteq> js ''row_'' @ i) all in
      case dropWhile (\<lambda>r. row_id r \<noteq> js ''row_'' @ i) all of
        [] \<Rightarrow> updateStripes all
      | cur # rows \<Rightarrow>
          updateStripes
            (if (case find (\<lambda>r. is_child_row i (row_id r)) rows of None \<Rightarrow> False | Some r \<Rightarrow> row_shown r) then
               before @ folder_close cur #
                 map (\<lambda>r. if is_below i (row_id r) then r\<lparr>row_shown := False\<rparr> else r) rows
             else
               before @ folder_open cur #
                 map (\<lambda>r. if is_child_row i (row_id r) then (folder_close r)\<lparr>row_shown := True\<rparr> else r) rows))"

section \<open>The menu\<close>

text \<open>An entry of \<^verbatim>\<open>menudata\<close>; the top has neither text nor address.\<close>

datatype menu = Menu (menu_text: jsstr) (menu_url: jsstr) (menu_children: "menu list option")

fun makeTree :: "jsstr \<Rightarrow> menu \<Rightarrow> jsstr" where
  "makeTree relPath (Menu t u cs) =
     (case cs of
        None \<Rightarrow> []
      | Some xs \<Rightarrow>
          js ''<ul>'' @
          concat (map (\<lambda>x. js ''<li><a href=\"'' @ relPath @ menu_url x @ js ''\">'' @ menu_text x @ js ''</a>'' @
            makeTree relPath x @ js ''</li>'') xs) @
          js ''</ul>'')"

text \<open>\<open>initMenu\<close>: the list of the tree becomes the main menu and gets an entry with the search box. Without a list there is
  nothing to add to.\<close>

record main_menu =
  menu_id :: jsstr
  menu_classes :: "jsstr list"
  menu_items :: jsstr

definition menu_server_item :: "jsstr \<Rightarrow> jsstr \<Rightarrow> jsstr \<Rightarrow> jsstr" where
  "menu_server_item relPath searchPage search =
       js ''<li style=\"float:right\"><div id=\"MSearchBox\" class=\"MSearchBoxInactive\"><div class=\"left\"><form id=\"FSearchBox\" action=\"'' @
       relPath @ searchPage @
       js ''\" method=\"get\"><img id=\"MSearchSelect\" src=\"'' @
       relPath @
       js ''search/mag.svg\" alt=\"\"/><input type=\"text\" id=\"MSearchField\" name=\"query\" value=\"'' @
       search @
       js ''\" size=\"20\" accesskey=\"S\" onfocus=\"searchBox.OnSearchFieldFocus(true)\" onblur=\"searchBox.OnSearchFieldFocus(false)\"></form></div><div class=\"right\"></div></div></li>''"

definition menu_client_item :: "jsstr \<Rightarrow> jsstr \<Rightarrow> jsstr" where
  "menu_client_item relPath search =
       js ''<li style=\"float:right\"><div id=\"MSearchBox\" class=\"MSearchBoxInactive\"><span class=\"left\"><img id=\"MSearchSelect\" src=\"'' @
       relPath @
       js ''search/mag_sel.svg\" onmouseover=\"return searchBox.OnSearchSelectShow()\" onmouseout=\"return searchBox.OnSearchSelectHide()\" alt=\"\"/><input type=\"text\" id=\"MSearchField\" value=\"'' @
       search @
       js ''\" accesskey=\"S\" onfocus=\"searchBox.OnSearchFieldFocus(true)\" onblur=\"searchBox.OnSearchFieldFocus(false)\" onkeyup=\"searchBox.OnSearchFieldChange(event)\"/></span><span class=\"right\"><a id=\"MSearchClose\" href=\"javascript:searchBox.CloseResultsWindow()\"><img id=\"MSearchCloseImg\" border=\"0\" src=\"'' @
       relPath @
       js ''search/close.svg\" alt=\"\"/></a></span></div></li>''"

definition initMenu :: "menu \<Rightarrow> jsstr \<Rightarrow> bool \<Rightarrow> bool \<Rightarrow> jsstr \<Rightarrow> jsstr \<Rightarrow> main_menu option" where
  "initMenu menudata relPath searchEnabled serverSide searchPage search =
     (let html = makeTree relPath menudata in
      if html = [] then None
      else Some \<lparr>menu_id = js ''main-menu'', menu_classes = [js ''sm'', js ''sm-dox''],
        menu_items = drop 4 (take (length html - 5) html) @
          (if searchEnabled then
             if serverSide then menu_server_item relPath searchPage search else menu_client_item relPath search
           else [])\<rparr>)"

lemma initMenu_items:
  "initMenu (Menu t u (Some xs)) relPath e s page txt = Some \<lparr>menu_id = js ''main-menu'', menu_classes = [js ''sm'', js ''sm-dox''],
     menu_items = concat (map (\<lambda>x. js ''<li><a href=\"'' @ relPath @ menu_url x @ js ''\">'' @ menu_text x @ js ''</a>'' @
         makeTree relPath x @ js ''</li>'') xs) @
       (if e then if s then menu_server_item relPath page txt else menu_client_item relPath txt else [])\<rparr>"
proof -
  let ?is = "concat (map (\<lambda>x. js ''<li><a href=\"'' @ relPath @ menu_url x @ js ''\">'' @ menu_text x @ js ''</a>'' @
         makeTree relPath x @ js ''</li>'') xs)"
  have h: "makeTree relPath (Menu t u (Some xs)) = js ''<ul>'' @ ?is @ js ''</ul>''" by simp
  have l: "length (js ''<ul>'') = 4" "length (js ''</ul>'') = 5" by (simp_all add: js_def)
  have "drop 4 (take (length (js ''<ul>'' @ ?is @ js ''</ul>'') - 5) (js ''<ul>'' @ ?is @ js ''</ul>'')) = ?is"
    using l by simp
  moreover have "js ''<ul>'' @ ?is @ js ''</ul>'' \<noteq> []" by (simp add: js_def)
  ultimately show ?thesis unfolding initMenu_def h Let_def by (simp only: if_False)
qed

section \<open>Identifiers of rows\<close>

text \<open>The generator numbers the rows by their place in the tree: \<^verbatim>\<open>row_0_3_\<close> is the fourth row below \<^verbatim>\<open>row_0_\<close>.\<close>

fun enc :: "nat list \<Rightarrow> jsstr" where
  "enc [] = []"
| "enc (n # p) = toString 10 n @ 95 # enc p"

definition path_id :: "nat list \<Rightarrow> jsstr" where
  "path_id p = js ''row_'' @ enc p"

lemma digits_no_underscore: "95 \<notin> set (toString 10 n)"
  using toString_10_digits [of 95 n] by (auto simp: is_digit_def)

lemma enc_append: "enc (p @ q) = enc p @ enc q"
  by (induction p) auto

lemma token_eq:
  assumes "95 \<notin> set a" "95 \<notin> set b" "a @ 95 # s = b @ 95 # t"
  shows "a = b \<and> s = t"
proof -
  have "takeWhile (\<lambda>c. c \<noteq> 95) (a @ 95 # s) = a" "takeWhile (\<lambda>c. c \<noteq> 95) (b @ 95 # t) = b"
    using assms(1,2) by (subst takeWhile_append2; force)+
  with assms(3) show ?thesis by simp
qed

lemma prefix_enc: "prefix (enc p) (enc q) \<longleftrightarrow> prefix p q"
proof (induction p arbitrary: q)
  case (Cons n p)
  show ?case
  proof (cases q)
    case (Cons m q')
    have "prefix (enc (n # p)) (enc (m # q')) \<longleftrightarrow> n = m \<and> prefix (enc p) (enc q')"
    proof
      assume "prefix (enc (n # p)) (enc (m # q'))"
      then obtain r where "toString 10 m @ 95 # enc q' = toString 10 n @ 95 # (enc p @ r)" by (auto simp: prefix_def)
      from token_eq [OF digits_no_underscore digits_no_underscore this]
      show "n = m \<and> prefix (enc p) (enc q')" by (simp add: toString_inj)
    qed (auto simp: prefix_def)
    then show ?thesis using Cons.IH Cons by simp
  qed simp
qed simp

lemma enc_inj: "enc p = enc q \<longleftrightarrow> p = q"
  using prefix_enc [of p q] prefix_enc [of q p] by (metis prefix_order.antisym prefix_order.refl)

lemma path_id_inj: "path_id p = path_id q \<longleftrightarrow> p = q"
  by (simp add: path_id_def enc_inj)

lemma is_below_path: "is_below (enc p) (path_id q) \<longleftrightarrow> prefix p q"
  by (simp add: is_below_def path_id_def starts_with_prefix prefix_enc)

lemma lower_path_id: "map ascii_lower (path_id p) = path_id p"
proof -
  have "map ascii_lower (toString 10 n) = toString 10 n" for n
    by (rule map_idI) (use toString_10_digits in \<open>fastforce simp: ascii_lower_def is_digit_def\<close>)
  then have "map ascii_lower (enc p) = enc p" by (induction p) (simp_all add: ascii_lower_def)
  then show ?thesis by (simp add: path_id_def js_def ascii_lower_def)
qed

lemma last_enc: "r \<noteq> [] \<Longrightarrow> enc r \<noteq> [] \<and> last (enc r) = 95"
  by (induction r rule: rev_nonempty_induct) (simp_all add: enc_append)

lemma is_child_path: "is_child_row (enc p) (path_id q) \<longleftrightarrow> (\<exists>n. q = p @ [n])"
proof -
  have st: "starts_with (path_id p) (path_id q) \<longleftrightarrow> prefix p q"
    by (simp add: path_id_def starts_with_prefix prefix_enc)
  define token where "token d \<longleftrightarrow> d \<noteq> [] \<and> last d = 95 \<and> butlast d \<noteq> [] \<and> list_all is_digit (butlast d)" for d
  have one: "token (enc r) \<longleftrightarrow> (\<exists>n. r = [n])" for r
  proof (cases r)
    case (Cons n t)
    have "butlast (enc r) = (if t = [] then toString 10 n else toString 10 n @ 95 # butlast (enc t))"
      using Cons last_enc [of t] by (simp add: butlast_append)
    moreover have "list_all is_digit (toString 10 n)" using toString_10_digits by (auto simp: list_all_iff)
    moreover have "\<not> is_digit 95" by (simp add: is_digit_def)
    ultimately show ?thesis using last_enc [of r] Cons by (auto simp: token_def)
  qed (simp add: token_def)
  have "is_child_row (enc p) (path_id q) \<longleftrightarrow> prefix p q \<and> token (drop (length (path_id p)) (path_id q))"
    unfolding is_child_row_def path_id_def [symmetric] lower_path_id Let_def st token_def ..
  moreover have "drop (length (path_id p)) (path_id (p @ r)) = enc r" for r by (simp add: path_id_def enc_append)
  ultimately show ?thesis using one by (auto simp: prefix_def simp del: enc.simps)
qed

lemma row_level: "length (split_at_char 95 (path_id p)) = length p + 2"
proof -
  have "length (split_at_char 95 (enc p)) = Suc (length p)" for p
    by (induction p) (simp_all add: split_at_char_append digits_no_underscore)
  moreover have "path_id p = js ''row'' @ 95 # enc p" "95 \<notin> set (js ''row'')" by (simp_all add: path_id_def js_def)
  ultimately show ?thesis by (simp add: split_at_char_append)
qed

section \<open>Tables\<close>

text \<open>The rows of a table are numbered, parents before their children, and a row with children has an arrow.\<close>

definition table_ok :: "nat list list \<Rightarrow> dir_row list \<Rightarrow> bool" where
  "table_ok ps rs \<longleftrightarrow> map row_id rs = map path_id ps \<and> sorted_wrt (\<lambda>p q. \<not> prefix q p) ps \<and>
     (\<forall>i < length ps. (\<exists>n. ps ! i @ [n] \<in> set ps) \<longrightarrow> row_arrow (rs ! i) \<noteq> None)"

text \<open>A row below another one is displayed exactly when that one is displayed and open.\<close>

definition consistent :: "nat list list \<Rightarrow> dir_row list \<Rightarrow> bool" where
  "consistent ps rs \<longleftrightarrow>
     (\<forall>i < length ps. \<forall>j < length ps. \<forall>n. ps ! j = ps ! i @ [n] \<longrightarrow>
       (row_shown (rs ! j) \<longleftrightarrow> row_shown (rs ! i) \<and> row_arrow (rs ! i) = Some arrow_down))"

definition core :: "dir_row \<Rightarrow> jsstr \<times> bool \<times> jsstr option" where
  "core r = (row_id r, row_shown r, row_arrow r)"

lemma core_stripes: "map core (stripes e rs) = map core rs"
  by (induction e rs rule: stripes.induct) (simp_all add: core_def)

lemma core_nth:
  assumes "map core rs = map core rs'" "i < length rs"
  shows "row_id (rs ! i) = row_id (rs' ! i)" "row_shown (rs ! i) = row_shown (rs' ! i)" "row_arrow (rs ! i) = row_arrow (rs' ! i)"
proof -
  have "length rs = length rs'" using assms(1) by (rule map_eq_imp_length_eq)
  then have "core (rs ! i) = core (rs' ! i)" using assms by (metis nth_map)
  then show "row_id (rs ! i) = row_id (rs' ! i)" "row_shown (rs ! i) = row_shown (rs' ! i)" "row_arrow (rs ! i) = row_arrow (rs' ! i)"
    by (simp_all add: core_def)
qed

lemma core_cong:
  assumes "map core rs = map core rs'"
  shows "table_ok ps rs = table_ok ps rs'" "table_ok ps rs \<Longrightarrow> consistent ps rs = consistent ps rs'"
proof -
  have ids: "map row_id rs = map row_id rs'"
    using arg_cong [OF assms, of "map fst"] by (simp add: comp_def core_def)
  have len: "map row_id rs = map path_id ps \<Longrightarrow> length rs = length ps" by (metis length_map)
  show "table_ok ps rs = table_ok ps rs'"
    unfolding table_ok_def using ids len core_nth [OF assms] by (metis (no_types, lifting))
  show "table_ok ps rs \<Longrightarrow> consistent ps rs = consistent ps rs'"
    unfolding consistent_def table_ok_def using len core_nth [OF assms] by (metis (no_types, lifting))
qed

lemma table_length: "table_ok ps rs \<Longrightarrow> length rs = length ps"
  unfolding table_ok_def by (drule conjunct1, drule map_eq_imp_length_eq)

lemma table_id:
  assumes "table_ok ps rs" "i < length ps"
  shows "row_id (rs ! i) = path_id (ps ! i)"
proof -
  have "map row_id rs ! i = map path_id ps ! i" using assms(1) by (simp add: table_ok_def)
  then show ?thesis using assms(2) table_length [OF assms(1)] by simp
qed

lemma table_order: "table_ok ps rs \<Longrightarrow> prefix (ps ! i) (ps ! j) \<Longrightarrow> i < length ps \<Longrightarrow> j < length ps \<Longrightarrow> i \<le> j"
  by (rule ccontr) (use sorted_wrt_nth_less [of "\<lambda>p q. \<not> prefix q p" ps j i] in \<open>auto simp: table_ok_def\<close>)

lemma table_distinct: "table_ok ps rs \<Longrightarrow> i < length ps \<Longrightarrow> j < length ps \<Longrightarrow> ps ! i = ps ! j \<Longrightarrow> i = j"
  using table_order [of ps rs i j] table_order [of ps rs j i] by (auto intro: antisym)

text \<open>Changing the rows one by one, without their identifiers and the presence of arrows.\<close>

lemma table_map:
  assumes "table_ok ps rs" "length rs' = length rs"
    "\<And>i. i < length ps \<Longrightarrow> row_id (rs' ! i) = row_id (rs ! i) \<and> (row_arrow (rs' ! i) = None \<longleftrightarrow> row_arrow (rs ! i) = None)"
  shows "table_ok ps rs'"
proof -
  have "map row_id rs' = map row_id rs"
    using assms table_length [OF assms(1)] by (intro nth_equalityI) auto
  then show ?thesis using assms(1,3) unfolding table_ok_def by metis
qed

section \<open>Levels\<close>

lemma level_row_path:
  assumes "row_id r = path_id p"
  shows "row_id (level_row n r) = row_id r"
    "row_arrow (level_row n r) = None \<longleftrightarrow> row_arrow r = None"
    "row_shown (level_row n r) \<longleftrightarrow> int (length p) \<le> n"
    "row_shown (level_row n r) \<and> row_arrow (level_row n r) = Some arrow_down \<longleftrightarrow>
       int (length p) < n \<and> row_arrow r \<noteq> None"
proof -
  have "arrow_down \<noteq> arrow_right" by (simp add: arrow_down_def arrow_right_def js_inj)
  then show "row_id (level_row n r) = row_id r"
    "row_arrow (level_row n r) = None \<longleftrightarrow> row_arrow r = None"
    "row_shown (level_row n r) \<longleftrightarrow> int (length p) \<le> n"
    "row_shown (level_row n r) \<and> row_arrow (level_row n r) = Some arrow_down \<longleftrightarrow>
       int (length p) < n \<and> row_arrow r \<noteq> None"
    by (auto simp: level_row_def assms row_level Let_def)
qed

lemma toggleLevel_ok:
  assumes "table_ok ps rs"
  shows "table_ok ps (toggleLevel n rs) \<and> consistent ps (toggleLevel n rs)"
proof -
  let ?rs = "map (level_row n) rs"
  note len = table_length [OF assms]
  have at: "?rs ! i = level_row n (rs ! i)" "row_id (rs ! i) = path_id (ps ! i)" if "i < length ps" for i
    using that len table_id [OF assms] by simp_all
  have ok: "table_ok ps ?rs"
    using level_row_path(1,2) at by (intro table_map [OF assms]) auto
  have arrow: "row_arrow (rs ! i) \<noteq> None" if "i < length ps" "j < length ps" "ps ! j = ps ! i @ [k]" for i j k
    using assms that nth_mem [OF that(2)] by (auto simp: table_ok_def)
  have "consistent ps ?rs"
    unfolding consistent_def
  proof (intro allI impI)
    fix i j k
    assume ij: "i < length ps" "j < length ps" "ps ! j = ps ! i @ [k]"
    have "row_shown (?rs ! j) \<longleftrightarrow> int (length (ps ! i)) < n"
      unfolding at(1) [OF ij(2)] level_row_path(3) [OF at(2) [OF ij(2)]] ij(3) by simp linarith
    moreover have "row_shown (?rs ! i) \<and> row_arrow (?rs ! i) = Some arrow_down \<longleftrightarrow> int (length (ps ! i)) < n"
      unfolding at(1) [OF ij(1)] level_row_path(4) [OF at(2) [OF ij(1)]] using arrow [OF ij] by simp
    ultimately show "row_shown (?rs ! j) \<longleftrightarrow> row_shown (?rs ! i) \<and> row_arrow (?rs ! i) = Some arrow_down" by simp
  qed
  then show ?thesis
    using ok core_cong [OF core_stripes [of True ?rs]] by (simp add: toggleLevel_def updateStripes_def)
qed

section \<open>Folders\<close>

text \<open>What \<open>toggleFolder\<close> does to row \<open>j\<close> when row \<open>k\<close> is clicked.\<close>

definition folder_row :: "bool \<Rightarrow> nat list \<Rightarrow> nat list \<Rightarrow> dir_row \<Rightarrow> dir_row" where
  "folder_row hide f p r =
     (if p = f then if hide then folder_close r else folder_open r
      else if hide then if prefix f p then r\<lparr>row_shown := False\<rparr> else r
      else if \<exists>n. p = f @ [n] then (folder_close r)\<lparr>row_shown := True\<rparr> else r)"

lemma split_rows:
  assumes "k < length rs" "row_id (rs ! k) = x" "\<And>j. j < k \<Longrightarrow> row_id (rs ! j) \<noteq> x"
  shows "takeWhile (\<lambda>r. row_id r \<noteq> x) rs = take k rs" "dropWhile (\<lambda>r. row_id r \<noteq> x) rs = rs ! k # drop (Suc k) rs"
proof -
  show tw: "takeWhile (\<lambda>r. row_id r \<noteq> x) rs = take k rs"
    using assms by (intro takeWhile_eq_take_P_nth) auto
  show "dropWhile (\<lambda>r. row_id r \<noteq> x) rs = rs ! k # drop (Suc k) rs"
    using assms(1) by (simp add: dropWhile_eq_drop tw Cons_nth_drop_Suc)
qed

text \<open>The rows after the clicked one have a child that is displayed.\<close>

definition hides :: "nat \<Rightarrow> nat list list \<Rightarrow> dir_row list \<Rightarrow> bool" where
  "hides k ps rs \<longleftrightarrow>
     (case find (\<lambda>r. is_child_row (enc (ps ! k)) (row_id r)) (drop (Suc k) rs) of None \<Rightarrow> False | Some r \<Rightarrow> row_shown r)"

lemma table_split:
  assumes ok: "table_ok ps rs" and k: "k < length ps"
  shows "takeWhile (\<lambda>r. row_id r \<noteq> path_id (ps ! k)) rs = take k rs"
    "dropWhile (\<lambda>r. row_id r \<noteq> path_id (ps ! k)) rs = rs ! k # drop (Suc k) rs"
proof -
  have "row_id (rs ! j) \<noteq> path_id (ps ! k)" if "j < k" for j
    using table_id [OF ok, of j] table_distinct [OF ok, of j k] that k by (auto simp: path_id_inj)
  moreover have "k < length rs" using k table_length [OF ok] by simp
  ultimately show "takeWhile (\<lambda>r. row_id r \<noteq> path_id (ps ! k)) rs = take k rs"
    "dropWhile (\<lambda>r. row_id r \<noteq> path_id (ps ! k)) rs = rs ! k # drop (Suc k) rs"
    using split_rows [of k rs "path_id (ps ! k)"] table_id [OF ok k] by blast+
qed

lemma map_upt_around: "k < n \<Longrightarrow> map g [0..<n] = map g [0..<k] @ g k # map g [Suc k..<n]"
  using upt_add_eq_append [of 0 k "n - k"] by (simp add: upt_conv_Cons)

lemma toggleFolder_rows:
  assumes ok: "table_ok ps rs" and k: "k < length ps"
  shows "toggleFolder (enc (ps ! k)) rs =
    updateStripes (map (\<lambda>j. folder_row (hides k ps rs) (ps ! k) (ps ! j) (rs ! j)) [0..<length ps])"
proof -
  let ?f = "ps ! k" and ?g = "\<lambda>j. folder_row (hides k ps rs) (ps ! k) (ps ! j) (rs ! j)"
  note len = table_length [OF ok]
  have x: "js ''row_'' @ enc ?f = path_id ?f" by (simp add: path_id_def)
  note split = table_split [OF ok k]
  have before: "take k rs = map ?g [0..<k]"
  proof (rule nth_equalityI)
    fix j assume j: "j < length (take k rs)"
    then have "\<not> prefix ?f (ps ! j)" using table_order [OF ok, of k j] k len by auto
    then have "?g j = rs ! j" by (auto simp: folder_row_def)
    with j show "take k rs ! j = map ?g [0..<k] ! j" by simp
  qed (use k len in simp)
  have after: "map g (drop (Suc k) rs) = map ?g [Suc k..<length ps]"
    if "\<And>j. k < j \<Longrightarrow> j < length ps \<Longrightarrow> g (rs ! j) = ?g j" for g
    using that len by (intro nth_equalityI) auto
  have ids: "is_below (enc ?f) (row_id (rs ! j)) \<longleftrightarrow> prefix ?f (ps ! j)"
    "is_child_row (enc ?f) (row_id (rs ! j)) \<longleftrightarrow> (\<exists>n. ps ! j = ?f @ [n])" if "j < length ps" for j
    using table_id [OF ok that] by (simp_all add: is_below_path is_child_path)
  have neq: "ps ! j \<noteq> ?f" if "k < j" "j < length ps" for j using table_distinct [OF ok, of j k] that k by auto
  note all = map_upt_around [OF k, of ?g]
  show ?thesis
  proof (cases "hides k ps rs")
    case True
    have "map (\<lambda>r. if is_below (enc ?f) (row_id r) then r\<lparr>row_shown := False\<rparr> else r) (drop (Suc k) rs) =
        map ?g [Suc k..<length ps]"
      using True ids neq by (intro after) (simp add: folder_row_def)
    then show ?thesis
      using True unfolding toggleFolder_def x Let_def split list.case hides_def [symmetric] all before
      by (simp add: folder_row_def [of True ?f ?f])
  next
    case False
    have "map (\<lambda>r. if is_child_row (enc ?f) (row_id r) then (folder_close r)\<lparr>row_shown := True\<rparr> else r) (drop (Suc k) rs) =
        map ?g [Suc k..<length ps]"
      using False ids neq by (intro after) (simp add: folder_row_def)
    then show ?thesis
      using False unfolding toggleFolder_def x Let_def split list.case hides_def [symmetric] all before
      by (simp add: folder_row_def [of False ?f ?f])
  qed
qed

lemma hides_iff:
  assumes ok: "table_ok ps rs" and cs: "consistent ps rs" and k: "k < length ps"
  shows "hides k ps rs \<longleftrightarrow> (\<exists>j < length ps. \<exists>n. ps ! j = ps ! k @ [n]) \<and>
    row_shown (rs ! k) \<and> row_arrow (rs ! k) = Some arrow_down"
proof -
  let ?f = "ps ! k" and ?K = "row_shown (rs ! k) \<and> row_arrow (rs ! k) = Some arrow_down"
  let ?child = "\<lambda>r. is_child_row (enc ?f) (row_id r)"
  note len = table_length [OF ok]
  have child: "?child (rs ! j) \<longleftrightarrow> (\<exists>n. ps ! j = ?f @ [n])" if "j < length ps" for j
    using table_id [OF ok that] by (simp add: is_child_path)
  have shown: "row_shown (rs ! j) \<longleftrightarrow> ?K" if "j < length ps" "ps ! j = ?f @ [n]" for j n
    using cs k that unfolding consistent_def by blast
  have later: "k < j" if "j < length ps" "ps ! j = ?f @ [n]" for j n
    using table_order [OF ok, of k j] that k by (cases "j = k") auto
  show ?thesis
  proof (cases "find ?child (drop (Suc k) rs)")
    case None
    have "\<not> (\<exists>n. ps ! j = ?f @ [n])" if j: "j < length ps" for j
    proof
      assume "\<exists>n. ps ! j = ?f @ [n]"
      then have "k < j" "?child (rs ! j)" using later j child [OF j] by blast+
      moreover have "drop (Suc k) rs ! (j - Suc k) = rs ! j" "j - Suc k < length (drop (Suc k) rs)"
        using j len \<open>k < j\<close> by simp_all
      ultimately show False using None by (metis find_None_iff nth_mem)
    qed
    then show ?thesis using None by (auto simp: hides_def)
  next
    case (Some r)
    then obtain m where m: "m < length (drop (Suc k) rs)" "r = drop (Suc k) rs ! m" "?child r"
      by (auto simp: find_Some_iff)
    let ?j = "Suc k + m"
    have j: "?j < length ps" "r = rs ! ?j" using m len by simp_all
    then obtain n where "ps ! ?j = ?f @ [n]" using child m(3) by blast
    then show ?thesis using Some shown [OF j(1)] j by (auto simp: hides_def)
  qed
qed

lemma folder_row_simps:
  "row_id (folder_row h f p r) = row_id r"
  "row_arrow (folder_row h f p r) = None \<longleftrightarrow> row_arrow r = None"
  "row_shown (folder_row h f p r) \<longleftrightarrow>
     (if p = f then row_shown r else if h then row_shown r \<and> \<not> prefix f p else row_shown r \<or> (\<exists>n. p = f @ [n]))"
  "row_arrow (folder_row h f p r) =
     (if p = f then map_option (\<lambda>_. if h then arrow_right else arrow_down) (row_arrow r)
      else if \<not> h \<and> (\<exists>n. p = f @ [n]) then map_option (\<lambda>_. arrow_right) (row_arrow r) else row_arrow r)"
  by (auto simp: folder_row_def folder_close_def folder_open_def)

lemma toggleFolder_ok:
  assumes ok: "table_ok ps rs" and cs: "consistent ps rs" and k: "k < length ps"
    and click: "row_shown (rs ! k)" "row_arrow (rs ! k) \<noteq> None"
  shows "table_ok ps (toggleFolder (enc (ps ! k)) rs) \<and> consistent ps (toggleFolder (enc (ps ! k)) rs)"
proof -
  let ?f = "ps ! k" and ?h = "hides k ps rs"
  define rs' where "rs' = map (\<lambda>j. folder_row ?h ?f (ps ! j) (rs ! j)) [0..<length ps]"
  have at: "rs' ! j = folder_row ?h ?f (ps ! j) (rs ! j)" if "j < length ps" for j using that by (simp add: rs'_def)
  have ok': "table_ok ps rs'"
    using at folder_row_simps(1,2) table_length [OF ok] by (intro table_map [OF ok]) (auto simp: rs'_def)
  have arrows: "arrow_right \<noteq> arrow_down" by (simp add: arrow_down_def arrow_right_def js_inj)
  have "consistent ps rs'"
    unfolding consistent_def
  proof (intro allI impI)
    fix i j n
    assume i: "i < length ps" and j: "j < length ps" and ij: "ps ! j = ps ! i @ [n]"
    have old: "row_shown (rs ! j) \<longleftrightarrow> row_shown (rs ! i) \<and> row_arrow (rs ! i) = Some arrow_down"
      using cs i j ij unfolding consistent_def by blast
    note hk = hides_iff [OF ok cs k]
    show "row_shown (rs' ! j) \<longleftrightarrow> row_shown (rs' ! i) \<and> row_arrow (rs' ! i) = Some arrow_down"
    proof (cases "ps ! i = ?f")
      case True
      then have "i = k" using table_distinct [OF ok i k] by simp
      then show ?thesis
        using True ij click arrows unfolding at [OF i] at [OF j] folder_row_simps by auto
    next
      case False
      have kid: "\<not> row_shown (rs ! i)" if "\<not> ?h" "ps ! i = ?f @ [m]" for m
      proof -
        have "row_shown (rs ! i) \<longleftrightarrow> row_shown (rs ! k) \<and> row_arrow (rs ! k) = Some arrow_down"
          using cs i k that(2) unfolding consistent_def by blast
        with hk that i show ?thesis by blast
      qed
      have up: "ps ! i @ [n] = ?f \<Longrightarrow> \<not> prefix ?f (ps ! i)" by (drule sym, auto dest: prefix_length_le)
      show ?thesis
        using False old kid arrows up unfolding at [OF i] at [OF j] folder_row_simps ij by (auto simp: prefix_snoc)
    qed
  qed
  then show ?thesis
    using ok' core_cong [OF core_stripes [of True rs']]
    unfolding toggleFolder_rows [OF ok k] rs'_def [symmetric] updateStripes_def by simp
qed

section \<open>The menu's text\<close>

fun strip_tags :: "bool \<Rightarrow> jsstr \<Rightarrow> jsstr" where
  "strip_tags inside [] = []"
| "strip_tags inside (c # s) =
     (if inside then strip_tags (c \<noteq> 62) s
      else if c = 60 then strip_tags True s else c # strip_tags False s)"

text \<open>No markup in the texts, no bracket in the addresses.\<close>

definition plain_text :: "jsstr \<Rightarrow> bool" where
  "plain_text s \<longleftrightarrow> 60 \<notin> set s \<and> 62 \<notin> set s"

fun plain_menu :: "menu \<Rightarrow> bool" where
  "plain_menu (Menu t u cs) \<longleftrightarrow> plain_text t \<and> plain_text u \<and>
     (case cs of None \<Rightarrow> True | Some xs \<Rightarrow> list_all plain_menu xs)"

fun menu_texts :: "menu \<Rightarrow> jsstr list" where
  "menu_texts (Menu t u cs) = (case cs of None \<Rightarrow> [] | Some xs \<Rightarrow> concat (map (\<lambda>x. menu_text x # menu_texts x) xs))"

lemma strip_plain: "plain_text s \<Longrightarrow> strip_tags False (s @ t) = s @ strip_tags False t"
  by (induction s) (auto simp: plain_text_def)

lemma strip_inside: "plain_text s \<Longrightarrow> strip_tags True (s @ t) = strip_tags True t"
  by (induction s) (auto simp: plain_text_def)

lemma strip_markup:
  "strip_tags False (js ''<ul>'' @ t) = strip_tags False t" "strip_tags False (js ''</ul>'' @ t) = strip_tags False t"
  "strip_tags False (js ''</a>'' @ t) = strip_tags False t" "strip_tags False (js ''</li>'' @ t) = strip_tags False t"
  "strip_tags False (js ''<li><a href=\"'' @ t) = strip_tags True t" "strip_tags True (js ''\">'' @ t) = strip_tags False t"
  by (simp_all add: js_def)

lemma menu_fields: "plain_menu x \<Longrightarrow> plain_text (menu_text x) \<and> plain_text (menu_url x)"
  by (cases x) simp

lemma strip_makeTree:
  "plain_text rel \<Longrightarrow> plain_menu m \<Longrightarrow> strip_tags False (makeTree rel m @ t) = concat (menu_texts m) @ strip_tags False t"
proof (induction rel m arbitrary: t rule: makeTree.induct)
  case (1 rel tx u cs)
  show ?case
  proof (cases cs)
    case (Some xs)
    have items: "strip_tags False (concat (map (\<lambda>x. js ''<li><a href=\"'' @ rel @ menu_url x @ js ''\">'' @ menu_text x @
          js ''</a>'' @ makeTree rel x @ js ''</li>'') ys) @ t') =
        concat (concat (map (\<lambda>x. menu_text x # menu_texts x) ys)) @ strip_tags False t'"
      if "set ys \<subseteq> set xs" for ys t'
      using that
    proof (induction ys)
      case (Cons y ys)
      have y: "plain_menu y" using Cons.prems "1.prems"(2) Some by (auto simp: list_all_iff)
      have "strip_tags False (makeTree rel y @ r) = concat (menu_texts y) @ strip_tags False r" for r
        using "1.IH" [OF Some, of y r] Cons.prems "1.prems"(1) y by auto
      then show ?case
        using Cons.IH Cons.prems "1.prems"(1) menu_fields [OF y]
        by (simp add: strip_markup strip_plain strip_inside del: strip_tags.simps)
    qed simp
    show ?thesis using items [of xs] Some by (simp add: strip_markup del: strip_tags.simps)
  qed simp
qed

section \<open>Properties\<close>

datatype dir_event = Level int | Click_arrow "nat list"

text \<open>Only the arrow of a displayed row can be clicked.\<close>

fun dir_step :: "dir_event \<Rightarrow> dir_row list \<Rightarrow> dir_row list" where
  "dir_step (Level n) rs = toggleLevel n rs"
| "dir_step (Click_arrow p) rs =
     (if list_ex (\<lambda>r. row_id r = path_id p \<and> row_shown r \<and> row_arrow r \<noteq> None) rs then toggleFolder (enc p) rs else rs)"

lemma dir_step_ok:
  assumes "table_ok ps rs" "consistent ps rs"
  shows "table_ok ps (dir_step e rs) \<and> consistent ps (dir_step e rs)"
proof (cases e)
  case (Level n)
  then show ?thesis using toggleLevel_ok [OF assms(1)] by simp
next
  case (Click_arrow p)
  show ?thesis
  proof (cases "list_ex (\<lambda>r. row_id r = path_id p \<and> row_shown r \<and> row_arrow r \<noteq> None) rs")
    case True
    then obtain k where k: "k < length ps" "row_id (rs ! k) = path_id p" "row_shown (rs ! k)" "row_arrow (rs ! k) \<noteq> None"
      using table_length [OF assms(1)] by (auto simp: list_ex_iff in_set_conv_nth)
    have "ps ! k = p" using table_id [OF assms(1) k(1)] k(2) by (simp add: path_id_inj)
    with toggleFolder_ok [OF assms k(1,3,4)] True Click_arrow show ?thesis by simp
  qed (use assms Click_arrow in simp)
qed

text \<open>
  A directory table shows a tree. For rows numbered as the generator numbers them, after any sequence of
  clicks on arrows and choices of a level, a row below a folder is displayed exactly when the folder is
  displayed and open; the table keeps its rows and their order.
\<close>

theorem folders_consistent:
  assumes "table_ok ps rs" and "consistent ps rs" and "rs' = fold dir_step es rs"
  shows "map row_id rs' = map path_id ps \<and>
    (\<forall>i < length ps. \<forall>j < length ps. \<forall>n. ps ! j = ps ! i @ [n] \<longrightarrow>
       (row_shown (rs' ! j) \<longleftrightarrow> row_shown (rs' ! i) \<and> row_arrow (rs' ! i) = Some arrow_down))"
proof -
  have "table_ok ps (fold dir_step es rs) \<and> consistent ps (fold dir_step es rs)"
    using assms(1,2) by (induction es arbitrary: rs) (simp_all add: dir_step_ok)
  then show ?thesis unfolding assms(3) table_ok_def consistent_def by blast
qed

definition example_rows :: "dir_row list" where
  "example_rows =
     map (\<lambda>p. \<lparr>row_id = path_id p, row_shown = True, row_icon = None,
         row_arrow = (if length p < 3 then Some arrow_down else None), row_even = False\<rparr>)
       [[0], [0, 0], [0, 0, 0], [0, 1], [1]]"

theorem folders_consistent_witness:
  "row_shown (fold dir_step [Level 1, Click_arrow [0]] example_rows ! 1) =
    (row_shown (fold dir_step [Level 1, Click_arrow [0]] example_rows ! 0) \<and>
     row_arrow (fold dir_step [Level 1, Click_arrow [0]] example_rows ! 0) = Some arrow_down)"
proof -
  let ?ps = "[[0], [0, 0], [0, 0, 0], [0, 1], [1]] :: nat list list"
  have ok: "table_ok ?ps example_rows"
    by (auto simp: table_ok_def example_rows_def less_Suc_eq)
  have cs: "consistent ?ps example_rows"
    by (auto simp: consistent_def example_rows_def less_Suc_eq)
  show ?thesis
    using folders_consistent [OF ok cs refl, of "[Level 1, Click_arrow [0]]"]
    by (auto simp del: dir_step.simps fold_simps dest!: spec [of _ 0] spec [of _ "Suc 0"])
qed

text \<open>
  Choosing a level shows exactly the rows up to it: a row of depth \<open>d\<close> is displayed when \<open>d\<close> is at most the
  level, and the folders above the level are open, those at it closed.
\<close>

theorem level_shows_depth:
  assumes "table_ok ps rs" and "i < length ps"
  shows "(row_shown (toggleLevel n rs ! i) \<longleftrightarrow> int (length (ps ! i)) \<le> n) \<and>
    (row_shown (toggleLevel n rs ! i) \<and> row_arrow (toggleLevel n rs ! i) = Some arrow_down \<longleftrightarrow>
      int (length (ps ! i)) < n \<and> row_arrow (rs ! i) \<noteq> None)"
proof -
  let ?rs = "map (level_row n) rs"
  have len: "length (stripes True ?rs) = length ?rs" using core_stripes by (rule map_eq_imp_length_eq)
  have i: "i < length (stripes True ?rs)" using assms table_length [OF assms(1)] len by simp
  have m: "?rs ! i = level_row n (rs ! i)" using assms table_length [OF assms(1)] by simp
  show ?thesis
    using core_nth(2,3) [OF core_stripes i] level_row_path(3,4) [OF table_id [OF assms], of n]
    unfolding toggleLevel_def updateStripes_def m by simp
qed

text \<open>
  The menu says what its data says: for texts and addresses without angle brackets, the text of the markup
  \<open>makeTree\<close> builds is the texts of the entries, each before those below it.
\<close>

theorem menu_text_of_tree:
  assumes "plain_text rel" and "plain_menu m"
  shows "strip_tags False (makeTree rel m) = concat (menu_texts m)"
  using strip_makeTree [OF assms, of "[]"] by simp

theorem menu_text_of_tree_witness:
  "strip_tags False (makeTree [] (Menu [] [] (Some [Menu [65] [66] None, Menu [67] [] (Some [Menu [68] [] None])]))) = [65, 67, 68]"
  using menu_text_of_tree [of "[]" "Menu [] [] (Some [Menu [65] [66] None, Menu [67] [] (Some [Menu [68] [] None])])"]
  by (simp add: plain_text_def del: makeTree.simps)

text \<open>
  Toggling a section twice restores it, picture included, where the picture belongs to the state.
\<close>

theorem section_toggles_back:
  assumes "trigger_src s = base @ (if content_shown s then js ''open.png'' else js ''closed.png'')"
  shows "content_shown (toggleVisibility s) \<longleftrightarrow> \<not> content_shown s"
    and "trigger_src (toggleVisibility s) = base @ (if content_shown s then js ''closed.png'' else js ''open.png'')"
    and "trigger_src (toggleVisibility (toggleVisibility s)) = trigger_src s"
  using assms by (auto simp: toggleVisibility_def Let_def substring_def js_def)

end
