(* ===== verification/JS_Settings.thy ===== *)
theory JS_Settings
  imports JS_Cookies
begin

text \<open>
  The settings of the pages of \<^verbatim>\<open>external/tinyxml2/docs\<close>, \<^verbatim>\<open>cookie.js\<close>: a setting is kept in the local or the session
  storage in Chrome, and in a cookie elsewhere. The interface \<open>setting_store\<close> states what a client that writes one
  setting relies on; it is interpreted on the setting of the search box.
\<close>

section \<open>The interface\<close>

locale setting_store =
  fixes recall :: "'s \<Rightarrow> 'v option" and keep :: "'v \<Rightarrow> 's \<Rightarrow> 's" and forget :: "'s \<Rightarrow> 's"
    and ok :: "'s \<Rightarrow> bool" and fit :: "'v \<Rightarrow> bool"
  assumes read_write: "ok s \<Longrightarrow> fit v \<Longrightarrow> recall (keep v s) = Some v"
    and read_erase: "ok s \<Longrightarrow> recall (forget s) = None"
    and ok_write: "ok s \<Longrightarrow> fit v \<Longrightarrow> ok (keep v s)"
    and ok_erase: "ok s \<Longrightarrow> ok (forget s)"
begin

text \<open>An operation on the setting: \<open>None\<close> erases it.\<close>

fun apply_op :: "'v option \<Rightarrow> 's \<Rightarrow> 's" where
  "apply_op None s = forget s"
| "apply_op (Some v) s = keep v s"

lemma ok_fold: "ok s \<Longrightarrow> \<forall>v. Some v \<in> set ops \<longrightarrow> fit v \<Longrightarrow> ok (fold apply_op ops s)"
proof (induction ops arbitrary: s)
  case (Cons x ops)
  then show ?case by (cases x) (auto simp: ok_write ok_erase)
qed simp

lemma last_operation_wins:
  assumes "ok s" "\<forall>v. Some v \<in> set ops \<longrightarrow> fit v"
  shows "recall (fold apply_op ops s) = (if ops = [] then recall s else last ops)"
proof (cases ops rule: rev_cases)
  case (snoc xs x)
  then have "ok (fold apply_op xs s)" using assms by (auto intro: ok_fold)
  then show ?thesis using snoc assms by (cases x) (auto simp: read_write read_erase)
qed simp

end

section \<open>cookie.js\<close>

record storage =
  chrome :: bool
  local_items :: "jsstr \<rightharpoonup> jsstr"
  session_items :: "jsstr \<rightharpoonup> jsstr"
  page_cookies :: jar
  session_names :: "jsstr list"

definition settings_namespace :: jsstr where
  "settings_namespace = js ''doxygen_''"

text \<open>An item that is missing or empty is false in a condition.\<close>

definition truthy :: "jsstr option \<Rightarrow> bool" where
  "truthy x \<longleftrightarrow> x \<noteq> None \<and> x \<noteq> Some []"

text \<open>\<open>readSetting\<close>, with \<open>None\<close> for the default value.\<close>

definition readSetting :: "jsstr \<Rightarrow> storage \<Rightarrow> jsstr option" where
  "readSetting cookie s =
     (if chrome s then
        let val = (if truthy (local_items s (settings_namespace @ cookie))
                   then local_items s (settings_namespace @ cookie)
                   else session_items s (settings_namespace @ cookie))
        in if truthy val then val else None
      else cookie_lookup (settings_namespace @ cookie @ js ''='') (page_cookies s))"

text \<open>\<open>writeSetting\<close>: \<open>date\<close> is the printed date \<open>days\<close> from now. A cookie without an expiry lasts until the browser
  is closed, one whose expiry has passed is removed.\<close>

definition writeSetting :: "jsstr \<Rightarrow> jsstr \<Rightarrow> int \<Rightarrow> jsstr \<Rightarrow> storage \<Rightarrow> storage" where
  "writeSetting cookie val days date s =
     (if chrome s then
        if days = 0 then s\<lparr>session_items := (session_items s)(settings_namespace @ cookie \<mapsto> val)\<rparr>
        else s\<lparr>local_items := (local_items s)(settings_namespace @ cookie \<mapsto> val)\<rparr>
      else
        let expiration = (if days \<noteq> 0 then js ''expires='' @ date @ js '';'' else []);
            text = settings_namespace @ cookie @ js ''='' @ val @ js ''; SameSite=Lax;'' @ expiration @ js ''path=/'';
            others = filter (\<lambda>k. k \<noteq> settings_namespace @ cookie) (session_names s)
        in if days < 0 then s\<lparr>page_cookies := expire_cookie text (page_cookies s), session_names := others\<rparr>
           else s\<lparr>page_cookies := assign_cookie text (page_cookies s),
                  session_names := (if days = 0 then (settings_namespace @ cookie) # others else others)\<rparr>)"

definition eraseSetting :: "jsstr \<Rightarrow> jsstr \<Rightarrow> storage \<Rightarrow> storage" where
  "eraseSetting cookie date s =
     (if chrome s then
        if truthy (local_items s (settings_namespace @ cookie))
        then s\<lparr>local_items := (local_items s)(settings_namespace @ cookie := None)\<rparr>
        else if truthy (session_items s (settings_namespace @ cookie))
        then s\<lparr>session_items := (session_items s)(settings_namespace @ cookie := None)\<rparr>
        else s
      else writeSetting cookie [] (-1) date s)"

text \<open>Closing the browser: the session ends.\<close>

definition restart_browser :: "storage \<Rightarrow> storage" where
  "restart_browser s =
     s\<lparr>session_items := Map.empty,
       page_cookies := filter (\<lambda>c. fst c \<notin> set (session_names s)) (page_cookies s), session_names := []\<rparr>"

section \<open>Settings are read back\<close>

definition setting_name :: "jsstr \<Rightarrow> bool" where
  "setting_name cookie \<longleftrightarrow> plain_name (settings_namespace @ cookie)"

text \<open>Nothing hides a setting of the session: there is no permanent one of that name, and no other cookie contains
  the name.\<close>

definition unshadowed :: "jsstr \<Rightarrow> storage \<Rightarrow> bool" where
  "unshadowed cookie s \<longleftrightarrow>
     (let k = settings_namespace @ cookie
      in if chrome s then \<not> truthy (local_items s k) else \<forall>c \<in> set (page_cookies s). fst c \<noteq> k \<longrightarrow> apart k c)"

definition setting_value :: "jsstr \<Rightarrow> bool" where
  "setting_value v \<longleftrightarrow> v \<noteq> [] \<and> plain_value v"

lemma write_cookie_text:
  assumes "setting_name cookie" "plain_value v" "k = settings_namespace @ cookie"
  shows "assign_cookie (settings_namespace @ cookie @ js ''='' @ v @ js ''; SameSite=Lax;'' @ r) j = set_pair k v j"
    and "expire_cookie (settings_namespace @ cookie @ js ''='' @ v @ js ''; SameSite=Lax;'' @ r) j =
         filter (\<lambda>c. fst c \<noteq> k) j"
proof -
  obtain t where t: "js ''; SameSite=Lax;'' @ r = 59 # t" by (simp add: js_def)
  have eq: "js ''='' = [61]" by (simp add: js_def)
  show "assign_cookie (settings_namespace @ cookie @ js ''='' @ v @ js ''; SameSite=Lax;'' @ r) j = set_pair k v j"
    unfolding t eq using assign_cookie_pair [of k v t j] assms by (simp add: setting_name_def)
  show "expire_cookie (settings_namespace @ cookie @ js ''='' @ v @ js ''; SameSite=Lax;'' @ r) j =
      filter (\<lambda>c. fst c \<noteq> k) j"
    unfolding t eq using expire_cookie_pair [of k v t j] assms by (simp add: setting_name_def)
qed

lemma lookup_key: "cookie_lookup (settings_namespace @ cookie @ js ''='') j = cookie_lookup ((settings_namespace @ cookie) @ [61]) j"
  by (simp add: js_def)

lemma set_pair_others: "c \<in> set (set_pair k v j) \<Longrightarrow> fst c \<noteq> k \<Longrightarrow> c \<in> set j"
  by (induction k v j rule: set_pair.induct) (auto split: if_splits)

lemma session_setting:
  assumes "setting_name cookie" "unshadowed cookie s"
  shows "setting_value v \<Longrightarrow> readSetting cookie (writeSetting cookie v 0 date s) = Some v"
    and "setting_value v \<Longrightarrow> unshadowed cookie (writeSetting cookie v 0 date s)"
    and "readSetting cookie (eraseSetting cookie date s) = None"
    and "unshadowed cookie (eraseSetting cookie date s)"
proof -
  let ?k = "settings_namespace @ cookie"
  have k: "plain_name ?k" using assms(1) by (simp add: setting_name_def)
  have pv: "plain_value v" if "setting_value v" for v using that by (simp add: setting_value_def)
  have nil: "plain_value []" by (simp add: plain_value_def)
  note expire = write_cookie_text(2) [OF assms(1) nil refl, simplified append_Nil]
  have apart: "\<forall>c \<in> set (page_cookies s). fst c \<noteq> ?k \<longrightarrow> apart ?k c" if "\<not> chrome s"
    using assms(2) that by (simp add: unshadowed_def Let_def)
  show "setting_value v \<Longrightarrow> readSetting cookie (writeSetting cookie v 0 date s) = Some v"
    using assms(2) lookup_set_pair [OF k pv apart]
    by (auto simp: readSetting_def writeSetting_def unshadowed_def truthy_def setting_value_def lookup_key Let_def
        write_cookie_text(1) [OF assms(1) _ refl])
  show "setting_value v \<Longrightarrow> unshadowed cookie (writeSetting cookie v 0 date s)"
    using assms(2) by (auto simp: writeSetting_def unshadowed_def setting_value_def Let_def
        write_cookie_text(1) [OF assms(1) _ refl] dest: set_pair_others)
  show "readSetting cookie (eraseSetting cookie date s) = None"
    using assms(2) cookie_lookup_none [OF k, of "filter (\<lambda>c. fst c \<noteq> ?k) (page_cookies s)"] apart
    by (auto simp: readSetting_def eraseSetting_def writeSetting_def unshadowed_def truthy_def lookup_key Let_def
        expire)
  show "unshadowed cookie (eraseSetting cookie date s)"
    using assms(2) by (auto simp: eraseSetting_def writeSetting_def unshadowed_def Let_def
        expire)
qed

section \<open>The setting of the search box\<close>

definition SEARCH_COOKIE_NAME :: jsstr where
  "SEARCH_COOKIE_NAME = js ''search_grp''"

lemma search_name: "setting_name SEARCH_COOKIE_NAME"
  by (simp add: setting_name_def SEARCH_COOKIE_NAME_def settings_namespace_def plain_name_def js_def)

interpretation search_setting: setting_store "readSetting SEARCH_COOKIE_NAME"
  "\<lambda>v. writeSetting SEARCH_COOKIE_NAME v 0 []" "eraseSetting SEARCH_COOKIE_NAME []" "unshadowed SEARCH_COOKIE_NAME"
  setting_value
  by unfold_locales (simp_all add: session_setting [OF search_name])

section \<open>Properties\<close>

text \<open>
  In Chrome a permanent setting hides one of the session: after both were written the permanent value is read
  whichever was written last, and erasing the setting removes only the permanent one, so the value of the session
  comes back.
\<close>

theorem permanent_setting_hides_session:
  assumes "chrome s" and "v \<noteq> []" and "w \<noteq> []" and "days \<noteq> 0"
    and "t = writeSetting cookie w 0 date (writeSetting cookie v days date s)"
  shows "readSetting cookie t = Some v \<and> readSetting cookie (eraseSetting cookie date t) = Some w \<and>
    readSetting cookie (restart_browser (eraseSetting cookie date t)) = None"
  using assms by (simp add: readSetting_def writeSetting_def eraseSetting_def restart_browser_def truthy_def)

definition empty_storage :: "bool \<Rightarrow> storage" where
  "empty_storage b = \<lparr>chrome = b, local_items = Map.empty, session_items = Map.empty, page_cookies = [], session_names = []\<rparr>"

theorem permanent_setting_hides_session_witness:
  "readSetting [97] (writeSetting [97] [50] 0 [] (writeSetting [97] [49] 3650 [] (empty_storage True))) = Some [49]"
  using permanent_setting_hides_session [of "empty_storage True" "[49]" "[50]" 3650 _ "[97]" "[]", OF _ _ _ _ refl]
  by (simp add: empty_storage_def)

end
