(* ===== verification/JS_PageSearch.thy ===== *)
theory JS_PageSearch
  imports JS_CreateResults JS_SearchBox JS_Settings
begin

text \<open>
  The search of the pages of \<^verbatim>\<open>external/tinyxml2/docs\<close>, \<^verbatim>\<open>search/search.js\<close>: a later generation of the script of
  \<^verbatim>\<open>doc/html/search\<close>, which shows its results in the page itself. A search loads the script with the data of its
  section and first character; when the script has run, the results are built and matched. Scripts that were
  asked for can arrive in any order. The active section is kept as a setting. The results are a document tree,
  the other elements of the page the records of \<open>JS_SearchBox\<close>; walking and matching the rows is the code of
  \<open>JS_SearchResults\<close> and \<open>JS_ResultNav\<close>. The labels of the sections are plain text.
\<close>

section \<open>createResults\<close>

definition page_set_target :: "bool \<Rightarrow> elt \<Rightarrow> elt" where
  "page_set_target b e =
     (if b then setAttribute (js ''target'') (js ''_parent'') e else setAttribute (js ''target'') (js ''_blank'') e)"

definition close_on_click :: "elt \<Rightarrow> elt" where
  "close_on_click e = setAttribute (js ''onclick'') (js ''searchBox.CloseResultsWindow()'') e"

definition page_child :: "jsstr \<Rightarrow> nat \<Rightarrow> nat \<Rightarrow> sr_link \<Rightarrow> dom" where
  "page_child path index c l =
     Dom ((page_set_target (link_parent l)
       (close_on_click
       (setAttribute (js ''href'') (path @ link_url l)
       (setClassAttr (js ''SRScope'')
       (setKeyActions (js ''return searchResults.NavChild(event,'' @ num_str (int index) @ js '','' @
                       num_str (int c) @ js '')'')
       (setAttribute (js ''id'') (item_child_id (int index) (int c)) (createElement (js ''a''))))))))
        \<lparr>innerHTML := link_scope l\<rparr>) []"

fun page_children :: "jsstr \<Rightarrow> nat \<Rightarrow> nat \<Rightarrow> sr_link list \<Rightarrow> dom list" where
  "page_children path index c [] = []"
| "page_children path index c (l # ls) = page_child path index c l # page_children path index (Suc c) ls"

definition page_link :: "nat \<Rightarrow> sr_entry \<Rightarrow> elt" where
  "page_link index x =
     (setClassAttr (js ''SRSymbol'')
       (setKeyActions (js ''return searchResults.Nav(event,'' @ num_str (int index) @ js '')'')
         (setAttribute (js ''id'') (item_id (int index)) (createElement (js ''a'')))))
      \<lparr>innerHTML := entry_name x\<rparr>"

definition page_entry_children :: "jsstr \<Rightarrow> nat \<Rightarrow> sr_entry \<Rightarrow> dom list" where
  "page_entry_children path index x =
     (case entry_links x of
        [l] \<Rightarrow>
          [Dom (page_set_target (link_parent l)
                 (close_on_click (setAttribute (js ''href'') (path @ link_url l) (page_link index x)))) [],
           Dom ((setClassAttr (js ''SRScope'') (createElement (js ''span'')))\<lparr>innerHTML := link_scope l\<rparr>) []]
      | ls \<Rightarrow>
          [Dom (setAttribute (js ''href'')
                 (js ''javascript:searchResults.Toggle(\"SR_'' @ entry_key x @ js ''\")'') (page_link index x)) [],
           Dom (setClassAttr (js ''SRChildren'') (createElement (js ''div''))) (page_children path index 0 ls)])"

definition page_result :: "jsstr \<Rightarrow> nat \<Rightarrow> sr_entry \<Rightarrow> dom" where
  "page_result path index x =
     Dom (setClassAttr (js ''SRResult'')
           (setAttribute (js ''id'') (js ''SR_'' @ entry_key x) (createElement (js ''div''))))
       [Dom (setClassAttr (js ''SREntry'') (createElement (js ''div''))) (page_entry_children path index x)]"

text \<open>\<open>results.innerHTML = ''\<close>\<close>

fun clear_children :: "path \<Rightarrow> dom \<Rightarrow> dom" where
  "clear_children [] (Dom e cs) = Dom e []"
| "clear_children (i # p) (Dom e cs) =
     (if i < length cs then Dom e (cs[i := clear_children p (cs ! i)]) else Dom e cs)"

fun page_create_loop :: "jsstr \<Rightarrow> path \<Rightarrow> nat \<Rightarrow> sr_entry list \<Rightarrow> dom \<Rightarrow> dom" where
  "page_create_loop path results index [] d = d"
| "page_create_loop path results index (x # searchData) d =
     page_create_loop path results (Suc index) searchData (appendChild results (page_result path index x) d)"

definition page_createResults :: "jsstr \<Rightarrow> sr_entry list \<Rightarrow> dom \<Rightarrow> dom js_result" where
  "page_createResults path searchData d =
     (case getElementById d (js ''SRResults'') of
        None \<Rightarrow> Inl TypeError
      | Some results \<Rightarrow> Inr (page_create_loop path results 0 searchData (clear_children results d)))"

section \<open>State\<close>

datatype page_focus = Focus_box box_id | Focus_section nat | Focus_result path

text \<open>A script that was asked for and has not arrived, with what its handler remembers.\<close>

record load =
  load_url :: jsstr
  load_value :: jsstr

record page_box =
  pg_name :: jsstr
  pg_resultsPath :: jsstr
  pg_keyTimeout :: nat
  pg_keyTimeoutLength :: nat
  pg_closeSelectionTimeout :: nat
  pg_lastSearchValue :: jsstr
  pg_lastResultsPage :: jsstr
  pg_hideTimeout :: nat
  pg_searchIndex :: int
  pg_searchActive :: bool
  pg_extension :: jsstr
  pg_alerts :: "jsstr list"
  pg_ui :: "box_id \<Rightarrow> ui_elt"
  pg_height :: jsstr
  pg_select :: "select_child list"
  pg_focus :: "page_focus option"
  pg_timers :: "timer_action timers"
  pg_results :: results
  pg_loads :: "load list"
  pg_searchData :: "sr_entry list option"
  pg_storage :: storage
  pg_stopped :: nat

text \<open>What the site gives the object: besides the tables and the layout, the height of the page, the address of
  the page and the data scripts.\<close>

record site_env = page_env +
  clientHeight :: int
  location_search :: jsstr
  site_files :: "jsstr \<Rightarrow> sr_entry list option"

definition new_page_box ::
    "jsstr \<Rightarrow> jsstr \<Rightarrow> jsstr \<Rightarrow> (box_id \<Rightarrow> ui_elt) \<Rightarrow> select_child list \<Rightarrow> dom \<Rightarrow> storage \<Rightarrow> page_box" where
  "new_page_box name path ext u cs d st =
     \<lparr>pg_name = name, pg_resultsPath = path, pg_keyTimeout = 0, pg_keyTimeoutLength = 500,
      pg_closeSelectionTimeout = 300, pg_lastSearchValue = [], pg_lastResultsPage = [], pg_hideTimeout = 0,
      pg_searchIndex = 0, pg_searchActive = False, pg_extension = (if ext = [] then js ''.html'' else ext),
      pg_alerts = (if name = [] \<or> path = [] then [js ''Missing parameters to SearchBox.''] else []),
      pg_ui = u, pg_height = [], pg_select = cs, pg_focus = None, pg_timers = no_timers,
      pg_results = new_SearchResults d, pg_loads = [], pg_searchData = None, pg_storage = st, pg_stopped = 0\<rparr>"

text \<open>\<open>e.stopPropagation()\<close>: the key events that do not reach the elements around the one they were meant for are counted.\<close>

definition stopPropagation :: "page_box \<Rightarrow> page_box" where
  "stopPropagation s = s\<lparr>pg_stopped := pg_stopped s + 1\<rparr>"

definition pg_set :: "box_id \<Rightarrow> (ui_elt \<Rightarrow> ui_elt) \<Rightarrow> page_box \<Rightarrow> page_box" where
  "pg_set b f s = s\<lparr>pg_ui := (pg_ui s)(b := f (pg_ui s b))\<rparr>"

definition pg_show :: "box_id \<Rightarrow> jsstr \<Rightarrow> page_box \<Rightarrow> page_box" where
  "pg_show b v = pg_set b (\<lambda>e. e\<lparr>ui_display := v\<rparr>)"

definition pg_value :: "page_box \<Rightarrow> jsstr" where
  "pg_value s = field_value (pg_ui s MSearchField)"

section \<open>Activation\<close>

definition page_Activate :: "bool \<Rightarrow> page_box \<Rightarrow> page_box" where
  "page_Activate isActive s =
     (if isActive \<or> ui_display (pg_ui s MSearchResultsWindow) = js ''block''
      then (pg_set MSearchBox (\<lambda>e. e\<lparr>ui_class := js ''MSearchBoxActive''\<rparr>) s)\<lparr>pg_searchActive := True\<rparr>
      else
        pg_set MSearchField (\<lambda>e. e\<lparr>field_value := []\<rparr>)
          ((pg_set MSearchBox (\<lambda>e. e\<lparr>ui_class := js ''MSearchBoxInactive''\<rparr>) s)
             \<lparr>pg_searchActive := False, pg_lastSearchValue := [], pg_lastResultsPage := []\<rparr>))"

definition page_OnSearchFieldFocus :: "bool \<Rightarrow> page_box \<Rightarrow> page_box" where
  "page_OnSearchFieldFocus isActive s = page_Activate isActive s"

definition page_CloseResultsWindow :: "page_box \<Rightarrow> page_box" where
  "page_CloseResultsWindow s =
     page_Activate False (pg_show MSearchClose (js ''none'') (pg_show MSearchResultsWindow (js ''none'') s))"

definition page_CloseSelectionWindow :: "page_box \<Rightarrow> page_box" where
  "page_CloseSelectionWindow s = pg_show MSearchSelectWindow (js ''none'') s"

section \<open>Searching\<close>

text \<open>Showing the results window below the search box, within the page.\<close>

definition page_open_window :: "site_env \<Rightarrow> page_box \<Rightarrow> page_box" where
  "page_open_window env s =
     (if ui_display (pg_ui s MSearchResultsWindow) = js ''block'' then s
      else
        let s1 = pg_show MSearchClose (js ''inline-block'') s;
            left = getXPos (layout env (pg_ui s1) MSearchBox) + 150;
            top = getYPos (layout env (pg_ui s1) MSearchBox) + 20;
            s2 = pg_show MSearchResultsWindow (js ''block'') s1;
            left' = left - offsetWidth (layout env (pg_ui s2) MSearchResults);
            maxWidth = clientWidth env;
            maxHeight = clientHeight env;
            left'' = (if left' < 10 then 10 else left');
            width = (if 300 + left'' + 8 > maxWidth then maxWidth - left'' - 8 else 300);
            height = (if 400 + top + 8 > maxHeight then maxHeight - top - 8 else 400)
        in (pg_set MSearchResultsWindow (\<lambda>e. e\<lparr>ui_top := px top, ui_left := px left'', ui_width := px width\<rparr>) s2)
             \<lparr>pg_height := px height\<rparr>)"

definition handleResults :: "site_env \<Rightarrow> bool \<Rightarrow> jsstr \<Rightarrow> page_box \<Rightarrow> page_box js_result" where
  "handleResults env found searchValue s =
     js_bind (style_display (js ''Loading'') (js ''none'') (document (pg_results s))) (\<lambda>d1.
     js_bind (case pg_searchData s of
                None \<Rightarrow> Inr d1
              | Some searchData \<Rightarrow>
                  js_bind (page_createResults (pg_resultsPath s) searchData d1)
                    (style_display (js ''NoMatches'') (js ''none''))) (\<lambda>d2.
     js_bind (SearchResults_Search (lower_case env) (location_search env)
                (if found then searchValue else js ''===='') ((pg_results s)\<lparr>document := d2\<rparr>)) (\<lambda>(_, r).
     Inr (page_open_window env (s\<lparr>pg_results := r\<rparr>)))))"

definition page_Search :: "site_env \<Rightarrow> page_box \<Rightarrow> page_box js_result" where
  "page_Search env s0 =
     (let s = s0\<lparr>pg_keyTimeout := 0\<rparr>;
          searchValue = strip_leading_spaces (pg_value s)
      in case indexSectionsWithContent env (pg_searchIndex s) of
           None \<Rightarrow> Inl TypeError
         | Some sections \<Rightarrow>
             js_bind
               (case indexOf sections (idx_char (lower_case env) searchValue) of
                  Some idx \<Rightarrow>
                    let jsFile = pg_resultsPath s @ or_undefined (indexSectionNames env (pg_searchIndex s)) @
                                 js ''_'' @ toString 16 idx @ js ''.js''
                    in Inr (s\<lparr>pg_loads := pg_loads s @ [\<lparr>load_url = jsFile, load_value = searchValue\<rparr>]\<rparr>)
                | None \<Rightarrow> handleResults env False searchValue s)
               (\<lambda>s1. Inr (s1\<lparr>pg_lastSearchValue := searchValue\<rparr>)))"

text \<open>A script arrives: it defines the data and its handler runs. A script that cannot be loaded is dropped.\<close>

definition script_arrives :: "site_env \<Rightarrow> nat \<Rightarrow> page_box \<Rightarrow> page_box js_result" where
  "script_arrives env k s =
     (if k < length (pg_loads s) then
        let l = pg_loads s ! k; s1 = s\<lparr>pg_loads := take k (pg_loads s) @ drop (Suc k) (pg_loads s)\<rparr>
        in case site_files env (load_url l) of
             None \<Rightarrow> Inr s1
           | Some searchData \<Rightarrow> handleResults env True (load_value l) (s1\<lparr>pg_searchData := Some searchData\<rparr>)
      else Inr s)"

section \<open>Event handlers\<close>

definition page_OnSearchSelectShow :: "site_env \<Rightarrow> page_box \<Rightarrow> bool \<times> page_box" where
  "page_OnSearchSelectShow env s =
     (let field = layout env (pg_ui s) MSearchSelect;
          left = getXPos field;
          top = getYPos field + offsetHeight field;
          s1 = pg_set MSearchSelectWindow
                 (\<lambda>e. e\<lparr>ui_display := js ''block'', ui_left := px left, ui_top := px top\<rparr>) s;
          s2 = (if pg_hideTimeout s1 \<noteq> 0
                then s1\<lparr>pg_timers := clearTimeout (pg_hideTimeout s1) (pg_timers s1), pg_hideTimeout := 0\<rparr>
                else s1)
      in (False, s2))"

definition page_OnSearchSelectHide :: "page_box \<Rightarrow> page_box" where
  "page_OnSearchSelectHide s =
     (let (n, t) = setTimeout Run_CloseSelectionWindow (pg_timers s) in s\<lparr>pg_timers := t, pg_hideTimeout := n\<rparr>)"

definition page_kill_timer :: "page_box \<Rightarrow> page_box" where
  "page_kill_timer s =
     (if pg_keyTimeout s \<noteq> 0
      then s\<lparr>pg_timers := clearTimeout (pg_keyTimeout s) (pg_timers s), pg_keyTimeout := 0\<rparr> else s)"

definition page_check_value :: "page_box \<Rightarrow> page_box" where
  "page_check_value s =
     (let searchValue = strip_all_spaces (pg_value s) in
      if searchValue \<noteq> pg_lastSearchValue s then
        if searchValue \<noteq> [] then
          let (n, t) = setTimeout Run_Search (pg_timers s) in s\<lparr>pg_timers := t, pg_keyTimeout := n\<rparr>
        else
          (pg_show MSearchClose (js ''none'') (pg_show MSearchResultsWindow (js ''none'') s))\<lparr>pg_lastSearchValue := []\<rparr>
      else s)"

definition page_OnSearchFieldChange :: "site_env \<Rightarrow> field_event \<Rightarrow> page_box \<Rightarrow> page_box js_result" where
  "page_OnSearchFieldChange env e s0 =
     (let s = page_kill_timer s0 in
      if fe_keyCode e = 40 \<or> fe_keyCode e = 13 then
        if fe_shiftKey e then
          let s1 = snd (page_OnSearchSelectShow env s) in
          Inr (case first_select_item 0 (pg_select s1) of
                 Some i \<Rightarrow> s1\<lparr>pg_focus := Some (Focus_section i)\<rparr>
               | None \<Rightarrow> s1)
        else
          js_bind (NavNext (document (pg_results s)) 0) (\<lambda>elem.
            Inr (page_check_value
              (case elem of None \<Rightarrow> s | Some p \<Rightarrow> s\<lparr>pg_focus := Some (Focus_result p)\<rparr>)))
      else if fe_keyCode e = 27 then
        Inr (page_Activate False
          ((pg_show MSearchClose (js ''none'') (pg_show MSearchResultsWindow (js ''none'') ((stopPropagation s)\<lparr>pg_focus := None\<rparr>)))
             \<lparr>pg_lastSearchValue := []\<rparr>))
      else Inr (page_check_value s))"

section \<open>Sections\<close>

definition page_SelectItemCount :: "page_box \<Rightarrow> int" where
  "page_SelectItemCount s = int (length (filter is_select_item (pg_select s)))"

text \<open>Comparing a string with the number 0, the default of the setting: the string is converted to a number.\<close>

definition decimal_is_zero :: "jsstr \<Rightarrow> bool" where
  "decimal_is_zero u =
     (let ds = takeWhile is_digit u; r = dropWhile is_digit u;
          fs = (if take 1 r = [46] then takeWhile is_digit (drop 1 r) else []);
          r' = (if take 1 r = [46] then dropWhile is_digit (drop 1 r) else r)
      in ds @ fs \<noteq> [] \<and>
         (case exponent_part r' of
            None \<Rightarrow> False
          | Some e \<Rightarrow>
              let k = e - int (length fs); m = dec_num (ds @ fs) in
              m = 0 \<or> k < 0 \<and> m * 2 ^ 1075 \<le> 10 ^ nat (- k)))"

definition str_eq_zero :: "jsstr \<Rightarrow> bool" where
  "str_eq_zero s =
     (let t = js_trim s in
      case t of
        [] \<Rightarrow> True
      | [c] \<Rightarrow> decimal_is_zero t
      | z # x # ds \<Rightarrow>
          if z = 48 \<and> x \<in> {120, 88, 111, 79, 98, 66} then ds \<noteq> [] \<and> list_all (\<lambda>c. c = 48) ds
          else decimal_is_zero (if z = 43 \<or> z = 45 then x # ds else t))"

text \<open>\<open>GetSelectionIdByName\<close>; the name is the setting or, when there is none, the number 0. A section without a
  label has no second child.\<close>

definition label_is :: "jsstr option \<Rightarrow> jsstr \<Rightarrow> bool" where
  "label_is name lbl = (case name of Some n \<Rightarrow> lbl = n | None \<Rightarrow> str_eq_zero lbl)"

fun selection_loop :: "jsstr option \<Rightarrow> int \<Rightarrow> select_child list \<Rightarrow> int js_result" where
  "selection_loop name j [] = Inr 0"
| "selection_loop name j (c # cs) =
     (if is_select_item c then
        if child_label c = [] then Inl TypeError
        else if label_is name (child_label c) then Inr j
        else selection_loop name (j + 1) cs
      else selection_loop name j cs)"

definition GetSelectionIdByName :: "jsstr option \<Rightarrow> page_box \<Rightarrow> int js_result" where
  "GetSelectionIdByName name s = selection_loop name 0 (pg_select s)"

text \<open>\<open>SelectItemSet\<close> marks the section and stores its label.\<close>

fun page_marks :: "int \<Rightarrow> int \<Rightarrow> select_child list \<Rightarrow> storage \<Rightarrow> (select_child list \<times> storage) js_result" where
  "page_marks j sel [] st = Inr ([], st)"
| "page_marks j sel (c # cs) st =
     (if is_select_item c then
        if mark c = None \<or> j = sel \<and> child_label c = [] then Inl TypeError
        else
          js_bind (page_marks (j + 1) sel cs
              (if j = sel then writeSetting SEARCH_COOKIE_NAME (child_label c) 0 [] st else st)) (\<lambda>(cs', st').
            Inr (c\<lparr>mark := Some (if j = sel then js ''&#8226;'' else js ''&#160;'')\<rparr> # cs', st'))
      else js_bind (page_marks j sel cs st) (\<lambda>(cs', st'). Inr (c # cs', st')))"

definition page_SelectItemSet :: "int \<Rightarrow> page_box \<Rightarrow> page_box js_result" where
  "page_SelectItemSet sel s =
     js_bind (page_marks 0 sel (pg_select s) (pg_storage s)) (\<lambda>(cs, st). Inr (s\<lparr>pg_select := cs, pg_storage := st\<rparr>))"

definition page_OnSelectItem :: "site_env \<Rightarrow> int \<Rightarrow> page_box \<Rightarrow> page_box js_result" where
  "page_OnSelectItem env sel s =
     js_bind (page_SelectItemSet sel (s\<lparr>pg_searchIndex := sel\<rparr>)) (\<lambda>s1.
       if strip_all_spaces (pg_value s1) \<noteq> [] \<and> pg_searchActive s1 then page_Search env s1 else Inr s1)"

definition page_OnSearchSelectKey :: "site_env \<Rightarrow> nat \<Rightarrow> page_box \<Rightarrow> (bool \<times> page_box) js_result" where
  "page_OnSearchSelectKey env key s =
     (if key = 40 \<and> pg_searchIndex s < page_SelectItemCount s then
        js_bind (page_OnSelectItem env (pg_searchIndex s + 1) (s\<lparr>pg_searchIndex := pg_searchIndex s + 1\<rparr>))
          (\<lambda>s1. Inr (False, s1))
      else if key = 38 \<and> 0 < pg_searchIndex s then
        js_bind (page_OnSelectItem env (pg_searchIndex s - 1) (s\<lparr>pg_searchIndex := pg_searchIndex s - 1\<rparr>))
          (\<lambda>s1. Inr (False, s1))
      else if key = 13 \<or> key = 27 then
        js_bind (page_OnSelectItem env (pg_searchIndex s) (stopPropagation s)) (\<lambda>s1.
          Inr (False, (page_CloseSelectionWindow s1)\<lparr>pg_focus := Some (Focus_box MSearchField)\<rparr>))
      else Inr (False, s))"

definition page_init_search :: "site_env \<Rightarrow> (int \<times> jsstr) list \<Rightarrow> page_box \<Rightarrow> page_box js_result" where
  "page_init_search env labels s =
     (let s1 = s\<lparr>pg_select := pg_select s @ map select_link labels\<rparr>;
          name = readSetting SEARCH_COOKIE_NAME (pg_storage s1)
      in js_bind (GetSelectionIdByName name s1) (\<lambda>i. page_OnSelectItem env i s1))"

text \<open>The key handler that \<open>init_search\<close> attaches to the magnifying glass; first whether it calls \<open>preventDefault\<close>.\<close>

definition select_keydown :: "site_env \<Rightarrow> nat \<Rightarrow> page_box \<Rightarrow> bool \<times> page_box" where
  "select_keydown env key s =
     (if key = 13 \<or> key = 40 then
        (True,
         if ui_display (pg_ui s MSearchSelectWindow) = js ''block'' then page_CloseSelectionWindow s
         else (snd (page_OnSearchSelectShow env s))\<lparr>pg_focus := Some (Focus_box MSearchSelectWindow)\<rparr>)
      else (False, s))"

section \<open>Keys on the results\<close>

definition pg_focus_on :: "page_focus \<Rightarrow> page_box \<Rightarrow> page_box" where
  "pg_focus_on f s = s\<lparr>pg_focus := Some f\<rparr>"

abbreviation pg_doc :: "page_box \<Rightarrow> dom" where
  "pg_doc s \<equiv> document (pg_results s)"

definition page_nav_up :: "(jsstr \<Rightarrow> jsstr) \<Rightarrow> int \<Rightarrow> page_box \<Rightarrow> page_box js_result" where
  "page_nav_up U itemIndex s =
     (let newIndex = itemIndex - 1 in
      js_bind (NavPrev (pg_doc s) newIndex) (\<lambda>focusItem.
        case focusItem of
          None \<Rightarrow> Inr (pg_focus_on (Focus_box MSearchField) s)
        | Some p \<Rightarrow>
            js_bind (children_of_item U (pg_doc s) p) (\<lambda>child.
              Inr (pg_focus_on (Focus_result
                (if expanded (pg_doc s) child then last_child_loop (pg_doc s) newIndex 0 p else p)) s))))"

definition page_nav_down :: "(jsstr \<Rightarrow> jsstr) \<Rightarrow> int \<Rightarrow> page_box \<Rightarrow> page_box js_result" where
  "page_nav_down U itemIndex s =
     (case getElementById (pg_doc s) (item_id itemIndex) of
        None \<Rightarrow> Inl TypeError
      | Some item \<Rightarrow>
          js_bind (children_of_item U (pg_doc s) item) (\<lambda>elem.
            let focusItem =
              (if expanded (pg_doc s) elem then getElementById (pg_doc s) (item_child_id itemIndex 0) else None) in
            js_bind (case focusItem of None \<Rightarrow> NavNext (pg_doc s) (itemIndex + 1) | Some p \<Rightarrow> Inr (Some p))
              (\<lambda>f. Inr (case f of None \<Rightarrow> s | Some p \<Rightarrow> pg_focus_on (Focus_result p) s))))"

definition page_nav_expand :: "(jsstr \<Rightarrow> jsstr) \<Rightarrow> int \<Rightarrow> jsstr \<Rightarrow> page_box \<Rightarrow> page_box js_result" where
  "page_nav_expand U itemIndex v s =
     (case getElementById (pg_doc s) (item_id itemIndex) of
        None \<Rightarrow> Inl TypeError
      | Some item \<Rightarrow>
          js_bind (children_of_item U (pg_doc s) item) (\<lambda>elem. Inr (s\<lparr>pg_results := set_display_at elem v (pg_results s)\<rparr>)))"

definition page_escape :: "page_box \<Rightarrow> page_box" where
  "page_escape s = pg_focus_on (Focus_box MSearchField) (page_CloseResultsWindow (stopPropagation s))"

definition page_ProcessKeys :: "key_event \<Rightarrow> page_box \<Rightarrow> bool \<times> page_box" where
  "page_ProcessKeys e s = (let (go, r) = ProcessKeys e (pg_results s) in (go, s\<lparr>pg_results := r\<rparr>))"

abbreviation pg_key :: "page_box \<Rightarrow> nat" where
  "pg_key s \<equiv> lastKey (pg_results s)"

definition page_Nav :: "(jsstr \<Rightarrow> jsstr) \<Rightarrow> key_event \<Rightarrow> int \<Rightarrow> page_box \<Rightarrow> (bool \<times> page_box) js_result" where
  "page_Nav U e itemIndex s =
     (if keyCode e = 13 then Inr (True, s)
      else let (go, s1) = page_ProcessKeys e s in
        if \<not> go then Inr (False, s1)
        else if pg_key s1 = 38 then js_bind (page_nav_up U itemIndex s1) (\<lambda>s2. Inr (False, s2))
        else if pg_key s1 = 40 then js_bind (page_nav_down U itemIndex s1) (\<lambda>s2. Inr (False, s2))
        else if pg_key s1 = 39 then js_bind (page_nav_expand U itemIndex (js ''block'') s1) (\<lambda>s2. Inr (False, s2))
        else if pg_key s1 = 37 then js_bind (page_nav_expand U itemIndex (js ''none'') s1) (\<lambda>s2. Inr (False, s2))
        else if pg_key s1 = 27 then Inr (False, page_escape s1)
        else if pg_key s1 = 13 then Inr (True, s1)
        else Inr (False, s1))"

definition page_focus_id :: "jsstr \<Rightarrow> page_box \<Rightarrow> page_box js_result" where
  "page_focus_id x s =
     (case getElementById (pg_doc s) x of None \<Rightarrow> Inl TypeError | Some p \<Rightarrow> Inr (pg_focus_on (Focus_result p) s))"

definition page_NavChild :: "key_event \<Rightarrow> int \<Rightarrow> int \<Rightarrow> page_box \<Rightarrow> (bool \<times> page_box) js_result" where
  "page_NavChild e itemIndex childIndex s =
     (if keyCode e = 13 then Inr (True, s)
      else let (go, s1) = page_ProcessKeys e s in
        if \<not> go then Inr (False, s1)
        else if pg_key s1 = 38 then
          js_bind (if childIndex > 0 then page_focus_id (item_child_id itemIndex (childIndex - 1)) s1
                   else page_focus_id (item_id itemIndex) s1) (\<lambda>s2. Inr (False, s2))
        else if pg_key s1 = 40 then
          js_bind (case getElementById (pg_doc s1) (item_child_id itemIndex (childIndex + 1)) of
                     None \<Rightarrow> NavNext (pg_doc s1) (itemIndex + 1)
                   | Some p \<Rightarrow> Inr (Some p))
            (\<lambda>elem. Inr (False, case elem of None \<Rightarrow> s1 | Some p \<Rightarrow> pg_focus_on (Focus_result p) s1))
        else if pg_key s1 = 27 then Inr (False, page_escape s1)
        else if pg_key s1 = 13 then Inr (True, s1)
        else Inr (False, s1))"

section \<open>The markup of the site\<close>

text \<open>The results window of every page of the site, with its rows and what is displayed of the three status lines.\<close>

definition site_status :: "jsstr \<Rightarrow> jsstr \<Rightarrow> dom" where
  "site_status x v =
     Dom ((setAttribute (js ''class'') (js ''SRStatus'') (setAttribute (js ''id'') x (createElement (js ''div''))))
       \<lparr>display := v\<rparr>) []"

definition site_doc :: "dom list \<Rightarrow> jsstr \<Rightarrow> jsstr \<Rightarrow> jsstr \<Rightarrow> dom" where
  "site_doc rows dl ds dn =
     Dom (setAttribute (js ''class'') (js ''SRPage'') (createElement (js ''div'')))
       [Dom (setAttribute (js ''id'') (js ''SRIndex'') (createElement (js ''div'')))
         [Dom (setAttribute (js ''id'') (js ''SRResults'') (createElement (js ''div''))) rows,
          site_status (js ''Loading'') dl, site_status (js ''Searching'') ds, site_status (js ''NoMatches'') dn]]"

definition row_id :: "elt \<Rightarrow> bool" where
  "row_id e = (case getAttribute e (js ''id'') of
     None \<Rightarrow> True | Some x \<Rightarrow> starts_with (js ''SR_'') x \<or> starts_with (js ''Item'') x)"

definition row_ids_ok :: "dom list \<Rightarrow> bool" where
  "row_ids_ok rows \<longleftrightarrow> (\<forall>c \<in> set rows. list_all row_id (elts c))"

lemma find_status_rows:
  assumes "row_ids_ok rows" "\<not> starts_with (js ''SR_'') x" "\<not> starts_with (js ''Item'') x"
  shows "find_elts (has_id x) rows i = None"
  using assms by (fastforce simp: find_elt_None(2) row_ids_ok_def list_all_iff row_id_def)

lemma site_find:
  "getElementById (site_doc rows dl ds dn) (js ''SRResults'') = Some [0, 0]"
  "row_ids_ok rows \<Longrightarrow> getElementById (site_doc rows dl ds dn) (js ''Loading'') = Some [0, 1]"
  "row_ids_ok rows \<Longrightarrow> getElementById (site_doc rows dl ds dn) (js ''Searching'') = Some [0, 2]"
  "row_ids_ok rows \<Longrightarrow> getElementById (site_doc rows dl ds dn) (js ''NoMatches'') = Some [0, 3]"
proof -
  have no: "\<not> starts_with (js ''SR_'') x" "\<not> starts_with (js ''Item'') x"
    if "x \<in> {js ''Loading'', js ''Searching'', js ''NoMatches''}" for x
    using that by (auto simp: starts_with_def js_def)
  show "getElementById (site_doc rows dl ds dn) (js ''SRResults'') = Some [0, 0]"
    by (simp add: getElementById_def site_doc_def js_inj)
  show "row_ids_ok rows \<Longrightarrow> getElementById (site_doc rows dl ds dn) (js ''Loading'') = Some [0, 1]"
    "row_ids_ok rows \<Longrightarrow> getElementById (site_doc rows dl ds dn) (js ''Searching'') = Some [0, 2]"
    "row_ids_ok rows \<Longrightarrow> getElementById (site_doc rows dl ds dn) (js ''NoMatches'') = Some [0, 3]"
    by (simp_all add: getElementById_def site_doc_def site_status_def js_inj find_status_rows no)
qed

section \<open>The rows that are built\<close>

fun page_rows :: "jsstr \<Rightarrow> nat \<Rightarrow> sr_entry list \<Rightarrow> dom list" where
  "page_rows path i [] = []"
| "page_rows path i (x # xs) = page_result path i x # page_rows path (Suc i) xs"

lemma page_create_loop_eq: "page_create_loop path p i xs d = append_children p (page_rows path i xs) d"
  by (induction xs arbitrary: i d) (auto simp: append_children_Nil append_children_step)

lemma length_page_rows [simp]: "length (page_rows path i xs) = length xs"
  by (induction xs arbitrary: i) auto

lemma nth_page_rows: "j < length xs \<Longrightarrow> page_rows path i xs ! j = page_result path (i + j) (xs ! j)"
proof (induction xs arbitrary: i j)
  case (Cons x xs)
  then show ?case by (cases j) auto
qed simp

definition row_elt :: "sr_entry \<Rightarrow> elt" where
  "row_elt x = setClassAttr (js ''SRResult'')
     (setAttribute (js ''id'') (js ''SR_'' @ entry_key x) (createElement (js ''div'')))"

text \<open>An element inside a row: it has no identifier or one of an item, and is no row itself.\<close>

definition inner_elt :: "elt \<Rightarrow> bool" where
  "inner_elt e \<longleftrightarrow> row_id e \<and> className e \<noteq> js ''SRResult''"

lemma page_attr_simps [simp]:
  "getAttribute (page_set_target b e) (js ''id'') = getAttribute e (js ''id'')"
  "getAttribute (page_set_target b e) (js ''class'') = getAttribute e (js ''class'')"
  "getAttribute (close_on_click e) (js ''id'') = getAttribute e (js ''id'')"
  "getAttribute (close_on_click e) (js ''class'') = getAttribute e (js ''class'')"
  "getAttribute (page_link i x) (js ''id'') = Some (item_id (int i))"
  "getAttribute (page_link i x) (js ''class'') = Some (js ''SRSymbol'')"
  by (simp_all add: page_set_target_def close_on_click_def page_link_def js_inj)

lemma inner_children: "c \<in> set (page_children path i k ls) \<Longrightarrow> list_all inner_elt (elts c)"
  by (induction path i k ls rule: page_children.induct)
    (auto simp: page_child_def inner_elt_def row_id_def className_def reflected_def js_inj)

lemma inner_entry: "c \<in> set (page_entry_children path i x) \<Longrightarrow> list_all inner_elt (elts c)"
proof -
  note defs = inner_elt_def row_id_def className_def reflected_def js_inj
  have e: "inner_elt (page_set_target b (close_on_click (setAttribute (js ''href'') v (page_link i x))))"
    "inner_elt ((setClassAttr (js ''SRScope'') (createElement (js ''span'')))\<lparr>innerHTML := v\<rparr>)"
    "inner_elt (setAttribute (js ''href'') v (page_link i x))"
    "inner_elt (setClassAttr (js ''SRChildren'') (createElement (js ''div'')))" for b v
    by (simp_all add: defs)
  assume "c \<in> set (page_entry_children path i x)"
  moreover have "list_all inner_elt (concat (map elts (page_children path i 0 (entry_links x))))"
    using inner_children [of _ path i 0 "entry_links x"] by (auto simp: list_all_iff)
  ultimately show ?thesis
    using e by (auto simp: page_entry_children_def simp del: page_children.simps split: list.splits)
qed

lemma elts_page_result:
  obtains es where "elts (page_result path i x) = row_elt x # es" "list_all inner_elt es"
proof -
  have "inner_elt (setClassAttr (js ''SREntry'') (createElement (js ''div'')))"
    by (simp add: inner_elt_def row_id_def className_def reflected_def js_inj)
  then have "list_all inner_elt (setClassAttr (js ''SREntry'') (createElement (js ''div'')) #
      concat (map elts (page_entry_children path i x)))"
    using inner_entry [of _ path i x] by (auto simp: list_all_iff)
  then show ?thesis using that by (simp add: page_result_def row_elt_def)
qed

lemma page_rows_ids: "row_ids_ok (page_rows path i xs)"
proof (induction xs arbitrary: i)
  case (Cons x xs)
  obtain es where "elts (page_result path i x) = row_elt x # es" "list_all inner_elt es" by (rule elts_page_result)
  then have "list_all row_id (elts (page_result path i x))"
    by (auto simp: row_elt_def row_id_def inner_elt_def list_all_iff)
  then show ?case using Cons by (simp add: row_ids_ok_def)
qed (simp add: row_ids_ok_def)

lemma row_ids_after [simp]: "row_ids_ok (map (map_dom (row_after U w)) rows) = row_ids_ok rows"
  by (auto simp: row_ids_ok_def elts_map_dom list_all_iff row_id_def)

definition entry_shown :: "(jsstr \<Rightarrow> jsstr) \<Rightarrow> jsstr \<Rightarrow> sr_entry \<Rightarrow> bool" where
  "entry_shown U w x = row_matches U w (row_elt x)"

lemma row_elt_row: "is_div U (row_elt x)" "className (row_elt x) = js ''SRResult''"
  by (subst is_div_created; simp add: row_elt_def) (simp add: row_elt_def className_def reflected_def)

lemma count_rows:
  "length (filter (shown_row U w) (concat (map elts (page_rows path i xs)))) = length (filter (entry_shown U w) xs)"
proof (induction xs arbitrary: i)
  case (Cons x xs)
  obtain es where es: "elts (page_result path i x) = row_elt x # es" "list_all inner_elt es" by (rule elts_page_result)
  then have "filter (shown_row U w) es = []"
    by (auto simp: filter_empty_conv shown_row_def inner_elt_def list_all_iff)
  moreover have "shown_row U w (row_elt x) = entry_shown U w x" by (simp add: shown_row_def entry_shown_def row_elt_row)
  ultimately show ?case using Cons es(1) by simp
qed simp

section \<open>What a script that arrives shows\<close>

lemma upd_site:
  "upd [0, 1] (\<lambda>e. e\<lparr>display := v\<rparr>) (site_doc rows a b c) = site_doc rows v b c"
  "upd [0, 2] (\<lambda>e. e\<lparr>display := v\<rparr>) (site_doc rows a b c) = site_doc rows a v c"
  "upd [0, 3] (\<lambda>e. e\<lparr>display := v\<rparr>) (site_doc rows a b c) = site_doc rows a b v"
  by (simp_all add: site_doc_def site_status_def eval_nat_numeral)

lemma style_site:
  assumes "row_ids_ok rows"
  shows "style_display (js ''Loading'') v (site_doc rows a b c) = Inr (site_doc rows v b c)"
    "style_display (js ''NoMatches'') v (site_doc rows a b c) = Inr (site_doc rows a b v)"
  by (simp_all add: style_display_def site_find assms upd_site [simplified])

lemma page_createResults_site:
  "page_createResults path data (site_doc rows a b c) = Inr (site_doc (page_rows path 0 data) a b c)"
proof -
  have "page_createResults path data (site_doc rows a b c) =
      Inr (append_children [0, 0] (page_rows path 0 data) (clear_children [0, 0] (site_doc rows a b c)))"
    by (simp only: page_createResults_def site_find option.case page_create_loop_eq)
  then show ?thesis by (simp add: site_doc_def)
qed

text \<open>The rows of an entry list after a search for a word.\<close>

definition shown_rows :: "(jsstr \<Rightarrow> jsstr) \<Rightarrow> jsstr \<Rightarrow> jsstr \<Rightarrow> sr_entry list \<Rightarrow> dom list" where
  "shown_rows U w path data = map (map_dom (row_after U w)) (page_rows path 0 data)"

definition results_of :: "(jsstr \<Rightarrow> jsstr) \<Rightarrow> jsstr \<Rightarrow> jsstr \<Rightarrow> sr_entry list \<Rightarrow> dom" where
  "results_of U w path data = site_doc (shown_rows U w path data) (js ''none'') (js ''none'')
     (if filter (entry_shown U w) data = [] then js ''block'' else js ''none'')"

lemma shown_rows_ids: "row_ids_ok (shown_rows U w path data)"
  by (simp add: shown_rows_def page_rows_ids)

lemma shown_rows_display:
  assumes "j < length data"
  shows "display (node (shown_rows U w path data ! j)) =
    (if entry_shown U w (data ! j) then js ''block'' else js ''none'')"
proof -
  have "node (page_result path j (data ! j)) = row_elt (data ! j)" by (simp add: page_result_def row_elt_def)
  then show ?thesis
    using assms by (simp add: shown_rows_def nth_page_rows row_after_row [OF row_elt_row] entry_shown_def)
qed

lemma row_after_site: "map_dom (row_after U w) (site_doc rows a b c) = site_doc (map (map_dom (row_after U w)) rows) a b c"
proof -
  have "className (setAttribute (js ''class'') (js ''SRPage'') (createElement (js ''div''))) \<noteq> js ''SRResult''"
    "className (setAttribute (js ''id'') x (createElement (js ''div''))) \<noteq> js ''SRResult''"
    "className ((setAttribute (js ''class'') (js ''SRStatus'') e)\<lparr>display := v\<rparr>) \<noteq> js ''SRResult''" for x e v
    by (simp_all add: className_def reflected_def js_inj) (simp add: js_def)
  then show ?thesis by (simp add: site_doc_def site_status_def row_after_other)
qed

lemma count_site:
  "length (filter (shown_row U w) (elts (site_doc (page_rows path 0 data) a b c))) = length (filter (entry_shown U w) data)"
proof -
  have "\<not> shown_row U w (setAttribute (js ''class'') (js ''SRPage'') (createElement (js ''div'')))"
    "\<not> shown_row U w (setAttribute (js ''id'') x (createElement (js ''div'')))"
    "\<not> shown_row U w ((setAttribute (js ''class'') (js ''SRStatus'') e)\<lparr>display := v\<rparr>)" for x e v
    by (simp_all add: shown_row_def className_def reflected_def js_inj) (simp add: js_def)
  then show ?thesis by (simp add: site_doc_def site_status_def count_rows)
qed

lemma handleResults_site:
  assumes "pg_doc s = site_doc rows a b c" "row_ids_ok rows" "pg_searchData s = Some data"
    and "w = search_word (lower_case env) (location_search env) (if found then v else js ''===='')"
  shows "handleResults env found v s = Inr (page_open_window env (s\<lparr>pg_results := (pg_results s)
    \<lparr>document := results_of (lower_case env) w (pg_resultsPath s) data,
     lastMatchCount := length (filter (entry_shown (lower_case env) w) data)\<rparr>\<rparr>))"
proof -
  let ?U = "lower_case env" and ?rows = "page_rows (pg_resultsPath s) 0 data"
  let ?d = "site_doc ?rows (js ''none'') b (js ''none'')"
  let ?r = "(pg_results s)\<lparr>document := ?d\<rparr>" and ?n = "length (filter (entry_shown ?U w) data)"
  have "SearchResults_Search ?U (location_search env) (if found then v else js ''===='') ?r =
      Inr (True, ?r\<lparr>document := results_of ?U w (pg_resultsPath s) data, lastMatchCount := ?n\<rparr>)"
    using Search_result [of ?r "[0, 2]" "[0, 3]" w ?U "location_search env" "if found then v else js ''===='' " ?n]
    by (simp add: site_find page_rows_ids assms(4) count_site row_after_site upd_site [simplified] results_of_def
        shown_rows_def)
  then show ?thesis
    using assms(1-3)
    by (simp add: handleResults_def style_site page_createResults_site page_rows_ids)
qed

lemma pg_set_frame [simp]:
  "pg_results (pg_set b f s) = pg_results s" "pg_loads (pg_set b f s) = pg_loads s"
  "pg_lastSearchValue (pg_set b f s) = pg_lastSearchValue s" "pg_resultsPath (pg_set b f s) = pg_resultsPath s"
  "pg_storage (pg_set b f s) = pg_storage s" "pg_select (pg_set b f s) = pg_select s"
  "pg_ui (pg_set b f s) b' = (if b' = b then f (pg_ui s b) else pg_ui s b')"
  by (simp_all add: pg_set_def)

lemma open_window_frame [simp]:
  "pg_results (page_open_window env s) = pg_results s" "pg_loads (page_open_window env s) = pg_loads s"
  "pg_lastSearchValue (page_open_window env s) = pg_lastSearchValue s"
  "pg_resultsPath (page_open_window env s) = pg_resultsPath s"
  by (simp_all add: page_open_window_def pg_show_def Let_def)

lemma open_window_block [simp]: "ui_display (pg_ui (page_open_window env s) MSearchResultsWindow) = js ''block''"
  by (simp add: page_open_window_def pg_show_def Let_def)

text \<open>The page is one of the site's: its results window has the site's markup.\<close>

definition site_page :: "page_box \<Rightarrow> bool" where
  "site_page s \<longleftrightarrow> (\<exists>rows a b c. pg_doc s = site_doc rows a b c \<and> row_ids_ok rows)"

text \<open>What a script shows: the rows of its data, matched against the word its handler remembers.\<close>

definition shows_load :: "site_env \<Rightarrow> load \<Rightarrow> page_box \<Rightarrow> bool" where
  "shows_load env l s \<longleftrightarrow>
     (\<exists>data. site_files env (load_url l) = Some data \<and>
        pg_doc s = results_of (lower_case env)
          (search_word (lower_case env) (location_search env) (load_value l)) (pg_resultsPath s) data) \<and>
     ui_display (pg_ui s MSearchResultsWindow) = js ''block''"

lemma script_arrives_site:
  assumes "site_page s" "k < length (pg_loads s)" "site_files env (load_url (pg_loads s ! k)) \<noteq> None"
  obtains s' where "script_arrives env k s = Inr s'" "shows_load env (pg_loads s ! k) s'"
    "pg_loads s' = take k (pg_loads s) @ drop (Suc k) (pg_loads s)" "pg_lastSearchValue s' = pg_lastSearchValue s"
    "pg_resultsPath s' = pg_resultsPath s"
proof -
  obtain data where data: "site_files env (load_url (pg_loads s ! k)) = Some data" using assms(3) by blast
  obtain rows a b c where d: "pg_doc s = site_doc rows a b c" "row_ids_ok rows"
    using assms(1) by (auto simp: site_page_def)
  let ?s = "s\<lparr>pg_loads := take k (pg_loads s) @ drop (Suc k) (pg_loads s), pg_searchData := Some data\<rparr>"
  have "pg_doc ?s = site_doc rows a b c" using d by simp
  note h = handleResults_site [OF this d(2), of data _ env True "load_value (pg_loads s ! k)", OF _ refl]
  have "script_arrives env k s = handleResults env True (load_value (pg_loads s ! k)) ?s"
    using assms(2) data by (simp add: script_arrives_def Let_def)
  then show thesis using that h data by (simp add: shows_load_def)
qed

lemma shows_load_site: "shows_load env l s \<Longrightarrow> site_page s"
  using shown_rows_ids by (fastforce simp: shows_load_def site_page_def results_of_def)

lemma page_Search_asks:
  assumes "indexSectionsWithContent env (pg_searchIndex s) = Some sections"
    and "v = strip_leading_spaces (pg_value s)"
    and "indexOf sections (idx_char (lower_case env) v) = Some idx"
    and "url = pg_resultsPath s @ or_undefined (indexSectionNames env (pg_searchIndex s)) @ js ''_'' @
         toString 16 idx @ js ''.js''"
  shows "page_Search env s = Inr (s\<lparr>pg_keyTimeout := 0, pg_loads := pg_loads s @ [\<lparr>load_url = url, load_value = v\<rparr>],
    pg_lastSearchValue := v\<rparr>)"
  using assms by (simp add: page_Search_def pg_value_def Let_def)

section \<open>Properties\<close>

text \<open>A site for the examples: two sections with one data script.\<close>

definition example_site :: site_env where
  "example_site =
     \<lparr>layout = (\<lambda>_ _. Offset_Item 0 0 0 0 True None), clientWidth = 800,
      indexSectionsWithContent = (\<lambda>i. if i = 0 \<or> i = 1 then Some (js ''de'') else None),
      indexSectionNames = (\<lambda>i. if i = 0 then Some (js ''all'') else Some (js ''pages'')), lower_case = id,
      clientHeight = 600, location_search = [],
      site_files = (\<lambda>u. if u = js ''search/all_0.js'' then Some (take 1 example_data)
                        else if u = js ''search/all_1.js'' then Some (drop 1 example_data) else None)\<rparr>"

definition example_ui :: "jsstr \<Rightarrow> box_id \<Rightarrow> ui_elt" where
  "example_ui v b = \<lparr>ui_display = [], ui_left = [], ui_top = [], ui_width = [], ui_position = [], ui_class = [],
     field_value = (if b = MSearchField then v else [])\<rparr>"

definition example_box :: "jsstr \<Rightarrow> page_box" where
  "example_box v = new_page_box (js ''searchBox'') (js ''search/'') (js ''.html'') (example_ui v) []
     (site_doc [] [] [] []) (empty_storage True)"

lemma example_simps:
  "pg_searchIndex (example_box v) = 0" "pg_resultsPath (example_box v) = js ''search/''" "pg_loads (example_box v) = []"
  "pg_value (example_box v) = v" "indexSectionsWithContent example_site 0 = Some (js ''de'')"
  "or_undefined (indexSectionNames example_site 0) = js ''all''" "lower_case example_site = id"
  "location_search example_site = []"
  by (simp_all add: example_box_def new_page_box_def pg_value_def example_ui_def example_site_def or_undefined_def)

lemma example_words:
  "strip_leading_spaces (js ''d'') = js ''d''" "strip_leading_spaces (js ''e'') = js ''e''"
  "indexOf (js ''de'') (idx_char id (js ''d'')) = Some 0" "indexOf (js ''de'') (idx_char id (js ''e'')) = Some 1"
  "js ''search/'' @ js ''all'' @ js ''_'' @ toString 16 0 @ js ''.js'' = js ''search/all_0.js''"
  "js ''search/'' @ js ''all'' @ js ''_'' @ toString 16 (Suc 0) @ js ''.js'' = js ''search/all_1.js''"
  by (simp_all add: strip_leading_spaces_def js_def ascii_def ascii_lower_def starts_with_def toString_def
      radix_digits_small digit_char_def)

lemma example_box_site: "site_page (example_box v)"
  unfolding site_page_def by (intro exI [of _ "[]"]) (simp add: example_box_def new_page_box_def row_ids_ok_def)

text \<open>
  A search whose first character is in the table of the active section asks for one script; when it arrives, the
  results window is displayed, its rows are the entries of the script's data in their order, each displayed exactly
  when its identifier starts with the converted search word, and the line \<open>No Matches\<close> is displayed exactly when no
  row is.
\<close>

lemma search_displays:
  assumes "site_page s" and "indexSectionsWithContent env (pg_searchIndex s) = Some sections"
    and "v = strip_leading_spaces (pg_value s)" and "indexOf sections (idx_char (lower_case env) v) = Some idx"
    and "site_files env (pg_resultsPath s @ or_undefined (indexSectionNames env (pg_searchIndex s)) @ js ''_'' @
      toString 16 idx @ js ''.js'') = Some data"
    and "w = search_word (lower_case env) (location_search env) v"
  shows "\<exists>s1 s2 rows nm. page_Search env s = Inr s1 \<and> script_arrives env (length (pg_loads s)) s1 = Inr s2 \<and>
    pg_loads s2 = pg_loads s \<and> pg_lastSearchValue s2 = v \<and>
    ui_display (pg_ui s2 MSearchResultsWindow) = js ''block'' \<and>
    pg_doc s2 = site_doc rows (js ''none'') (js ''none'') nm \<and> length rows = length data \<and>
    (\<forall>j < length data. elt_id (node (rows ! j)) = js ''SR_'' @ entry_key (data ! j) \<and>
       display (node (rows ! j)) = (if entry_shown (lower_case env) w (data ! j) then js ''block'' else js ''none'')) \<and>
    (nm = js ''block'' \<longleftrightarrow> (\<forall>x \<in> set data. \<not> entry_shown (lower_case env) w x))"
proof -
  obtain s1 where s1: "page_Search env s = Inr s1" "pg_results s1 = pg_results s" "pg_lastSearchValue s1 = v"
    "pg_loads s1 = pg_loads s @ [\<lparr>load_url = pg_resultsPath s @ or_undefined (indexSectionNames env (pg_searchIndex s)) @
       js ''_'' @ toString 16 idx @ js ''.js'', load_value = v\<rparr>]"
    using page_Search_asks [OF assms(2-4) refl] by simp
  have site: "site_page s1" using assms(1) s1(2) by (simp add: site_page_def)
  obtain s2 where s2: "script_arrives env (length (pg_loads s)) s1 = Inr s2" "shows_load env (pg_loads s1 ! length (pg_loads s)) s2"
    "pg_loads s2 = pg_loads s" "pg_lastSearchValue s2 = v"
    using script_arrives_site [OF site, of "length (pg_loads s)" env] s1(3,4) assms(5) by auto
  let ?rows = "shown_rows (lower_case env) w (pg_resultsPath s2) data"
  have doc: "pg_doc s2 = results_of (lower_case env) w (pg_resultsPath s2) data"
    "ui_display (pg_ui s2 MSearchResultsWindow) = js ''block''"
    using s2(2) s1(4) assms(5,6) by (auto simp: shows_load_def)
  have "elt_id (node (?rows ! j)) = js ''SR_'' @ entry_key (data ! j)" if "j < length data" for j
    using that by (simp add: shown_rows_def nth_page_rows page_result_def elt_id_def reflected_def)
  then show ?thesis
    using s1(1) s2(1,3,4) doc shown_rows_display [of _ data "lower_case env" w "pg_resultsPath s2"]
    by (intro exI [of _ s1] exI [of _ s2] exI [of _ ?rows]) (auto simp: results_of_def filter_empty_conv shown_rows_def js_inj)
qed

text \<open>
  C23. The results are those of the script that arrives last. When two searches are under way and their scripts arrive
  in the order they were asked for, the results are those of the newer search; when they arrive the other way round,
  the results are those of the older search, although the newer one is the last search value.
\<close>

theorem late_script_shows_old_results:
  assumes "site_page s" and "pg_loads s = [l1, l2]" and "pg_lastSearchValue s = load_value l2"
    and "site_files env (load_url l1) \<noteq> None" and "site_files env (load_url l2) \<noteq> None"
  shows "(\<exists>s1 s2. script_arrives env 0 s = Inr s1 \<and> script_arrives env 0 s1 = Inr s2 \<and> shows_load env l2 s2) \<and>
    (\<exists>s1 s2. script_arrives env 1 s = Inr s1 \<and> script_arrives env 0 s1 = Inr s2 \<and> shows_load env l1 s2 \<and>
      pg_lastSearchValue s2 = load_value l2)"
proof -
  obtain s1 where s1: "script_arrives env 0 s = Inr s1" "shows_load env l1 s1" "pg_loads s1 = [l2]"
    using script_arrives_site [OF assms(1), of 0 env] assms(2,4) by auto
  obtain s2 where "script_arrives env 0 s1 = Inr s2" "shows_load env l2 s2"
    using script_arrives_site [OF shows_load_site [OF s1(2)], of 0 env] s1(3) assms(5) by auto
  note newer = this
  obtain t1 where t1: "script_arrives env 1 s = Inr t1" "shows_load env l2 t1" "pg_loads t1 = [l1]"
    "pg_lastSearchValue t1 = load_value l2"
    using script_arrives_site [OF assms(1), of 1 env] assms(2,3,5) by auto
  obtain t2 where "script_arrives env 0 t1 = Inr t2" "shows_load env l1 t2" "pg_lastSearchValue t2 = load_value l2"
    using script_arrives_site [OF shows_load_site [OF t1(2)], of 0 env] t1(3,4) assms(4) by auto
  with t1 s1 newer show ?thesis by blast
qed

theorem late_script_shows_old_results_witness:
  "\<exists>s s1 s2. js_bind (page_Search example_site (example_box (js ''d'')))
       (\<lambda>t. page_Search example_site (pg_set MSearchField (\<lambda>e. e\<lparr>field_value := js ''e''\<rparr>) t)) = Inr s \<and>
     script_arrives example_site 1 s = Inr s1 \<and> script_arrives example_site 0 s1 = Inr s2 \<and>
     shows_load example_site \<lparr>load_url = js ''search/all_0.js'', load_value = js ''d''\<rparr> s2 \<and>
     pg_lastSearchValue s2 = js ''e''"
proof -
  let ?b = "example_box (js ''d'')" and ?l1 = "\<lparr>load_url = js ''search/all_0.js'', load_value = js ''d''\<rparr>"
    and ?l2 = "\<lparr>load_url = js ''search/all_1.js'', load_value = js ''e''\<rparr>"
  have files: "site_files example_site (load_url ?l1) \<noteq> None" "site_files example_site (load_url ?l2) \<noteq> None"
    by (simp_all add: example_site_def)
  have one: "page_Search example_site ?b = Inr (?b\<lparr>pg_keyTimeout := 0, pg_loads := pg_loads ?b @ [?l1], pg_lastSearchValue := js ''d''\<rparr>)"
    by (rule page_Search_asks [where sections = "js ''de''" and idx = 0]) (simp_all only: example_simps example_words)
  let ?t = "pg_set MSearchField (\<lambda>e. e\<lparr>field_value := js ''e''\<rparr>)
    (?b\<lparr>pg_keyTimeout := 0, pg_loads := pg_loads ?b @ [?l1], pg_lastSearchValue := js ''d''\<rparr>)"
  let ?s = "?t\<lparr>pg_keyTimeout := 0, pg_loads := pg_loads ?t @ [?l2], pg_lastSearchValue := js ''e''\<rparr>"
  have two: "page_Search example_site ?t = Inr ?s"
    by (rule page_Search_asks [where sections = "js ''de''" and idx = "Suc 0"])
      (simp_all add: example_simps example_words pg_set_def pg_value_def)
  have run: "js_bind (page_Search example_site ?b)
       (\<lambda>t. page_Search example_site (pg_set MSearchField (\<lambda>e. e\<lparr>field_value := js ''e''\<rparr>) t)) = Inr ?s"
    unfolding one js_bind.simps two ..
  have site: "site_page ?s" using example_box_site [of "js ''d''"] by (simp add: site_page_def)
  have "pg_loads ?s = [?l1, ?l2]" "pg_lastSearchValue ?s = load_value ?l2"
    by (simp_all add: example_box_def new_page_box_def)
  from late_script_shows_old_results [OF site this files] run show ?thesis by (simp only: load.simps) blast
qed

section \<open>The active section survives a reload\<close>

text \<open>The selection window shows sections with these labels.\<close>

definition has_sections :: "jsstr list \<Rightarrow> select_child list \<Rightarrow> bool" where
  "has_sections labels cs \<longleftrightarrow> map child_label cs = labels \<and> list_all (\<lambda>c. is_select_item c \<and> mark c \<noteq> None) cs"

lemma page_marks_sections:
  assumes "has_sections labels cs" "[] \<notin> set labels"
  shows "\<exists>cs'. page_marks j sel cs st = Inr (cs',
      if j \<le> sel \<and> sel < j + int (length labels)
      then writeSetting SEARCH_COOKIE_NAME (labels ! nat (sel - j)) 0 [] st else st) \<and> has_sections labels cs'"
  using assms
proof (induction cs arbitrary: j st labels)
  case (Cons c cs)
  obtain l ls where l: "labels = l # ls" "child_label c = l" "has_sections ls cs" "l \<noteq> []" "is_select_item c"
    "mark c \<noteq> None" "[] \<notin> set ls"
    using Cons.prems by (cases labels) (auto simp: has_sections_def)
  let ?st = "if j = sel then writeSetting SEARCH_COOKIE_NAME l 0 [] st else st"
  from Cons.IH [OF l(3,7), of "j + 1" ?st] obtain cs' where
    cs': "page_marks (j + 1) sel cs ?st = Inr (cs', if j + 1 \<le> sel \<and> sel < j + 1 + int (length ls)
        then writeSetting SEARCH_COOKIE_NAME (ls ! nat (sel - (j + 1))) 0 [] ?st else ?st)" "has_sections ls cs'"
    by blast
  have "nat (sel - j) = Suc (nat (sel - (j + 1)))" if "j < sel" using that by simp
  then show ?case
    using l cs' by (cases "j = sel") (auto simp: has_sections_def is_select_item_def)
qed (auto simp: has_sections_def)

lemma selection_loop_finds:
  assumes "has_sections labels cs" "[] \<notin> set labels" "distinct labels" "i < length labels"
  shows "selection_loop (Some (labels ! i)) j cs = Inr (j + int i)"
  using assms
proof (induction cs arbitrary: j labels i)
  case (Cons c cs)
  obtain l ls where l: "labels = l # ls" "child_label c = l" "has_sections ls cs" "l \<noteq> []" "is_select_item c"
    "[] \<notin> set ls" "distinct ls" "l \<notin> set ls"
    using Cons.prems by (cases labels) (auto simp: has_sections_def)
  show ?case
  proof (cases i)
    case 0
    then show ?thesis using l by (simp add: label_is_def)
  next
    case (Suc k)
    then have "k < length ls" using Cons.prems(4) l(1) by simp
    then show ?thesis
      using l Suc Cons.IH [OF l(3,6,7), of k "j + 1"] by (auto simp: label_is_def)
  qed
qed (simp add: has_sections_def)

lemma select_links: "has_sections (map snd labels) (map select_link labels)"
  by (induction labels) (auto simp: has_sections_def select_link_def is_select_item_def)

text \<open>Selecting sections one after the other on a page whose search is not active.\<close>

fun select_all :: "site_env \<Rightarrow> nat list \<Rightarrow> page_box \<Rightarrow> page_box js_result" where
  "select_all env [] s = Inr s"
| "select_all env (i # is) s = js_bind (page_OnSelectItem env (int i) s) (select_all env is)"

lemma select_item:
  assumes "has_sections labels (pg_select s)" "[] \<notin> set labels" "\<not> pg_searchActive s" "i < length labels"
  obtains s' where "page_OnSelectItem env (int i) s = Inr s'" "has_sections labels (pg_select s')"
    "\<not> pg_searchActive s'" "pg_searchIndex s' = int i"
    "pg_storage s' = writeSetting SEARCH_COOKIE_NAME (labels ! i) 0 [] (pg_storage s)"
proof -
  obtain cs' where "page_marks 0 (int i) (pg_select s) (pg_storage s) =
      Inr (cs', writeSetting SEARCH_COOKIE_NAME (labels ! i) 0 [] (pg_storage s))" "has_sections labels cs'"
    using page_marks_sections [OF assms(1,2), of 0 "int i" "pg_storage s"] assms(4) by auto
  then show thesis
    using that assms(3) by (simp add: page_OnSelectItem_def page_SelectItemSet_def)
qed

lemma select_all_storage:
  assumes "has_sections labels (pg_select s)" "[] \<notin> set labels" "\<not> pg_searchActive s" "\<forall>i \<in> set is. i < length labels"
  shows "\<exists>s'. select_all env is s = Inr s' \<and>
    pg_storage s' = fold search_setting.apply_op (map (\<lambda>i. Some (labels ! i)) is) (pg_storage s)"
  using assms
proof (induction "is" arbitrary: s)
  case (Cons i "is")
  have i: "i < length labels" and rest: "\<forall>k \<in> set is. k < length labels" using Cons.prems(4) by auto
  obtain s1 where s1: "page_OnSelectItem env (int i) s = Inr s1" "has_sections labels (pg_select s1)"
    "\<not> pg_searchActive s1" "pg_storage s1 = writeSetting SEARCH_COOKIE_NAME (labels ! i) 0 [] (pg_storage s)"
    using select_item [OF Cons.prems(1-3) i] by blast
  from Cons.IH [OF s1(2) Cons.prems(2) s1(3) rest] s1(1,4) show ?case by auto
qed simp

text \<open>
  C21. The section of a search is remembered: after any selections of sections on one page, the next page that is
  loaded with the same storage starts with the section selected last, in Chrome and in other browsers, provided the
  labels are distinct, not empty and without semicolons or outer blanks, and no setting hides that of the session.
\<close>

theorem section_survives_reload:
  assumes "has_sections (map snd labels) (pg_select s)" and "\<not> pg_searchActive s"
    and "distinct (map snd labels)" and "\<forall>l \<in> set labels. setting_value (snd l)"
    and "unshadowed SEARCH_COOKIE_NAME (pg_storage s)" and "is \<noteq> []" and "\<forall>i \<in> set is. i < length labels"
  shows "\<exists>s1 s2. select_all env is s = Inr s1 \<and>
    page_init_search env labels (new_page_box name path ext u [] d (pg_storage s1)) = Inr s2 \<and>
    pg_searchIndex s2 = int (last is)"
proof -
  let ?ls = "map snd labels"
  have ne: "[] \<notin> set ?ls" using assms(4) by (auto simp: setting_value_def)
  have len: "\<forall>i \<in> set is. i < length ?ls" using assms(7) by simp
  obtain s1 where s1: "select_all env is s = Inr s1"
    "pg_storage s1 = fold search_setting.apply_op (map (\<lambda>i. Some (?ls ! i)) is) (pg_storage s)"
    using select_all_storage [OF assms(1) ne assms(2) len] by blast
  have fit: "\<forall>v. Some v \<in> set (map (\<lambda>i. Some (?ls ! i)) is) \<longrightarrow> setting_value v" using assms(4,7) by auto
  have "readSetting SEARCH_COOKIE_NAME (pg_storage s1) = Some (?ls ! last is)"
    unfolding s1(2) search_setting.last_operation_wins [OF assms(5) fit] using assms(6) by (simp add: last_map)
  moreover have last: "last is < length ?ls" using assms(6,7) by simp
  let ?n = "new_page_box name path ext u [] d (pg_storage s1)"
  let ?m = "?n\<lparr>pg_select := map select_link labels\<rparr>"
  have sec: "has_sections ?ls (pg_select ?m)" "\<not> pg_searchActive ?m"
    by (simp_all add: select_links new_page_box_def)
  have "GetSelectionIdByName (Some (?ls ! last is)) ?m = Inr (int (last is))"
    using selection_loop_finds [OF sec(1) ne assms(3) last, of 0] by (simp add: GetSelectionIdByName_def)
  moreover obtain s2 where "page_OnSelectItem env (int (last is)) ?m = Inr s2" "pg_searchIndex s2 = int (last is)"
    using select_item [OF sec(1) ne sec(2) last] by blast
  moreover have "pg_storage ?n = pg_storage s1" "pg_select ?n = []" by (simp_all add: new_page_box_def)
  ultimately show ?thesis using s1(1) by (simp add: page_init_search_def Let_def)
qed

definition example_labels :: "(int \<times> jsstr) list" where
  "example_labels = [(0, js ''All''), (1, js ''Classes''), (2, js ''Pages'')]"

theorem section_survives_reload_witness:
  "\<exists>s1 s2. select_all example_site [1, 2] (example_box []\<lparr>pg_select := map select_link example_labels\<rparr>) = Inr s1 \<and>
     page_init_search example_site example_labels
       (new_page_box [1] [1] [] (example_ui []) [] (site_doc [] [] [] []) (pg_storage s1)) = Inr s2 \<and>
     pg_searchIndex s2 = 2"
proof -
  let ?s = "example_box []\<lparr>pg_select := map select_link example_labels\<rparr>"
  have "has_sections (map snd example_labels) (pg_select ?s)" "\<not> pg_searchActive ?s"
    by (simp_all add: select_links example_box_def new_page_box_def)
  moreover have "distinct (map snd example_labels)" by (simp add: example_labels_def js_inj)
  moreover have "\<forall>l \<in> set example_labels. setting_value (snd l)"
    by (simp add: example_labels_def setting_value_def plain_value_def wsp_def js_def)
  moreover have "unshadowed SEARCH_COOKIE_NAME (pg_storage ?s)"
    by (simp add: unshadowed_def example_box_def new_page_box_def empty_storage_def truthy_def)
  moreover have "[1, 2] \<noteq> ([] :: nat list)" "\<forall>i \<in> set [1, 2 :: nat]. i < length example_labels"
    by (simp_all add: example_labels_def)
  ultimately show ?thesis
    using section_survives_reload [of example_labels ?s "[1, 2]" example_site "[1]" "[1]" "[]" "example_ui []" "site_doc [] [] [] []"]
    by (simp del: select_all.simps)
qed

section \<open>The two generations of the key handlers\<close>

text \<open>The script of \<^verbatim>\<open>doc/html/search\<close> runs in a frame and calls its parent; here the same calls act on the page.\<close>

fun perform :: "parent_call \<Rightarrow> page_box \<Rightarrow> page_box" where
  "perform Parent_CloseResultsWindow s = page_CloseResultsWindow s"
| "perform Parent_focus_MSearchField s = pg_focus_on (Focus_box MSearchField) s"

definition merge_frame :: "results \<Rightarrow> page_box \<Rightarrow> page_box" where
  "merge_frame r s =
     fold perform (parent_calls r)
       ((case focused r of None \<Rightarrow> s | Some p \<Rightarrow> pg_focus_on (Focus_result p) s)
         \<lparr>pg_results := r\<lparr>parent_calls := [], focused := None\<rparr>\<rparr>)"

definition merged :: "(bool \<times> results) js_result \<Rightarrow> page_box \<Rightarrow> (bool \<times> page_box) js_result" where
  "merged x s = js_bind x (\<lambda>(b, r). Inr (b, merge_frame r s))"

lemma merge_simps:
  assumes "parent_calls r = []" "focused r = None"
  shows "merge_frame r s = s\<lparr>pg_results := r\<rparr>"
    "merge_frame (focus_on p r) s = pg_focus_on (Focus_result p) (s\<lparr>pg_results := r\<rparr>)"
    "merge_frame (call_parent c r) s = perform c (s\<lparr>pg_results := r\<rparr>)"
    "merge_frame (nav_escape r) s = (page_escape (s\<lparr>pg_results := r\<rparr>))\<lparr>pg_stopped := pg_stopped s\<rparr>"
proof -
  have r: "r\<lparr>parent_calls := [], focused := None\<rparr> = r" using assms by (cases r) simp
  show "merge_frame r s = s\<lparr>pg_results := r\<rparr>"
    "merge_frame (focus_on p r) s = pg_focus_on (Focus_result p) (s\<lparr>pg_results := r\<rparr>)"
    "merge_frame (call_parent c r) s = perform c (s\<lparr>pg_results := r\<rparr>)"
    "merge_frame (nav_escape r) s = (page_escape (s\<lparr>pg_results := r\<rparr>))\<lparr>pg_stopped := pg_stopped s\<rparr>"
    using assms
    by (simp_all add: merge_frame_def focus_on_def call_parent_def nav_escape_def page_escape_def pg_focus_on_def
        page_CloseResultsWindow_def pg_show_def pg_set_def stopPropagation_def page_Activate_def Let_def r)
qed

lemma merge_display:
  assumes "parent_calls r = []" "focused r = None"
  shows "merge_frame (set_display_at el v r) s = s\<lparr>pg_results := set_display_at el v r\<rparr>"
  using assms merge_simps(1) [of "set_display_at el v r" s]
  by (cases el) (simp_all add: set_display_at_def)

lemma nav_parts:
  assumes "parent_calls (pg_results s) = []" "focused (pg_results s) = None"
  shows "js_bind (page_nav_up U i s) (\<lambda>s2. Inr (False, s2)) =
      merged (js_bind (nav_up U i (pg_results s)) (\<lambda>s2. Inr (False, s2))) s"
    "js_bind (page_nav_down U i s) (\<lambda>s2. Inr (False, s2)) =
      merged (js_bind (nav_down U i (pg_results s)) (\<lambda>s2. Inr (False, s2))) s"
    "js_bind (page_nav_expand U i v s) (\<lambda>s2. Inr (False, s2)) =
      merged (js_bind (nav_expand U i v (pg_results s)) (\<lambda>s2. Inr (False, s2))) s"
    "js_bind (page_focus_id x s) (\<lambda>s2. Inr (False, s2)) =
      merged (js_bind (focus_id x (pg_results s)) (\<lambda>s2. Inr (False, s2))) s"
proof -
  note m = merge_simps [OF assms] merge_display [OF assms]
  have split: "js_bind x f = (case x of Inl e \<Rightarrow> Inl e | Inr y \<Rightarrow> f y)" for x :: "'c js_result" and f :: "'c \<Rightarrow> 'd js_result"
    by (cases x) simp_all
  show "js_bind (page_nav_up U i s) (\<lambda>s2. Inr (False, s2)) =
      merged (js_bind (nav_up U i (pg_results s)) (\<lambda>s2. Inr (False, s2))) s"
    by (auto simp: page_nav_up_def nav_up_def merged_def split m Let_def split: sum.splits option.splits)
  show "js_bind (page_nav_down U i s) (\<lambda>s2. Inr (False, s2)) =
      merged (js_bind (nav_down U i (pg_results s)) (\<lambda>s2. Inr (False, s2))) s"
    by (auto simp: page_nav_down_def nav_down_def merged_def split m Let_def split: sum.splits option.splits)
  show "js_bind (page_nav_expand U i v s) (\<lambda>s2. Inr (False, s2)) =
      merged (js_bind (nav_expand U i v (pg_results s)) (\<lambda>s2. Inr (False, s2))) s"
    by (auto simp: page_nav_expand_def nav_expand_def merged_def split m Let_def split: sum.splits option.splits)
  show "js_bind (page_focus_id x s) (\<lambda>s2. Inr (False, s2)) =
      merged (js_bind (focus_id x (pg_results s)) (\<lambda>s2. Inr (False, s2))) s"
    by (auto simp: page_focus_id_def focus_id_def merged_def split m split: sum.splits option.splits)
qed

lemma process_keys_frame:
  "parent_calls (snd (ProcessKeys e r)) = parent_calls r" "focused (snd (ProcessKeys e r)) = focused r"
  by (auto simp: ProcessKeys_def Let_def split: key_type.splits)

text \<open>
  \<open>Nav\<close> and \<open>NavChild\<close> in the page do what the
  handlers of the results frame do when their calls of the parent frame act on the page, errors included, except that they stop the event
  on Escape.
\<close>

lemma key_handlers_agree:
  assumes "parent_calls (pg_results s) = []" and "focused (pg_results s) = None"
    and "lastKey (snd (ProcessKeys e (pg_results s))) \<noteq> 27"
  shows "page_Nav U e i s = merged (Nav U e i (pg_results s)) s \<and>
    page_NavChild e i c s = merged (NavChild e i c (pg_results s)) s"
proof -
  obtain go r where p: "ProcessKeys e (pg_results s) = (go, r)" by fastforce
  have r: "parent_calls r = []" "focused r = None" using process_keys_frame [of e "pg_results s"] p assms by simp_all
  let ?s = "s\<lparr>pg_results := r\<rparr>"
  have s: "parent_calls (pg_results ?s) = []" "focused (pg_results ?s) = None" using r by simp_all
  have later: "merged x ?s = merged x s" for x
    by (cases x) (auto simp: merged_def merge_frame_def pg_focus_on_def split: option.splits)
  note parts = nav_parts [OF s, unfolded later]
  have key: "lastKey r \<noteq> 27" using assms(3) p by simp
  have page: "page_ProcessKeys e s = (go, ?s)" using p by (simp add: page_ProcessKeys_def)
  have m: "merged (Inr (b, r)) s = Inr (b, ?s)" for b
    using merge_simps [OF r] by (simp_all add: merged_def)
  have stay: "merged (Inr (b, s')) s = Inr (b, s)" if "s' = pg_results s" for b s'
    using merge_simps(1) [OF assms(1,2)] that by (simp add: merged_def)
  have "page_Nav U e i s = merged (Nav U e i (pg_results s)) s"
    using parts(1-3) [of U i] m stay key by (simp add: page_Nav_def Nav_def page p)
  moreover have "page_NavChild e i c s = merged (NavChild e i c (pg_results s)) s"
  proof -
    have down: "js_bind x (\<lambda>el. Inr (False, case el of None \<Rightarrow> ?s | Some p \<Rightarrow> pg_focus_on (Focus_result p) ?s)) =
        merged (js_bind x (\<lambda>el. Inr (False, case el of None \<Rightarrow> r | Some p \<Rightarrow> focus_on p r))) s" for x
      using merge_simps [OF r] by (cases x) (auto simp: merged_def split: option.splits)
    have child: "js_bind (if b then page_focus_id x ?s else page_focus_id y ?s) (\<lambda>s2. Inr (False, s2)) =
        merged (js_bind (if b then focus_id x r else focus_id y r) (\<lambda>s2. Inr (False, s2))) s" for b x y
      using parts(4) by (cases b) simp_all
    show ?thesis
      using m stay down child key by (simp add: page_NavChild_def NavChild_def page p cong: option.case_cong)
  qed
  ultimately show ?thesis ..
qed

lemma escape_handlers_differ:
  assumes "parent_calls (pg_results s) = []" and "focused (pg_results s) = None" and "event_type e = KeyDown" and "keyCode e = 27"
  shows "\<exists>s'. page_Nav U e i s = Inr (False, s') \<and> page_NavChild e i c s = Inr (False, s') \<and> pg_stopped s' = pg_stopped s + 1 \<and>
    merged (Nav U e i (pg_results s)) s = Inr (False, s'\<lparr>pg_stopped := pg_stopped s\<rparr>) \<and>
    merged (NavChild e i c (pg_results s)) s = Inr (False, s'\<lparr>pg_stopped := pg_stopped s\<rparr>)"
proof -
  let ?r = "(pg_results s)\<lparr>repeatOn := False, lastKey := 27\<rparr>"
  have p: "ProcessKeys e (pg_results s) = (True, ?r)" using assms(3,4) by (simp add: ProcessKeys_def)
  have r: "parent_calls ?r = []" "focused ?r = None" using assms by simp_all
  let ?s = "page_escape (s\<lparr>pg_results := ?r\<rparr>)"
  have "pg_stopped ?s = pg_stopped s + 1"
    by (simp add: page_escape_def pg_focus_on_def page_CloseResultsWindow_def pg_show_def pg_set_def stopPropagation_def page_Activate_def Let_def)
  then show ?thesis
    using merge_simps(4) [OF r, of s] assms(4)
    by (intro exI [of _ ?s]) (simp add: page_Nav_def page_NavChild_def page_ProcessKeys_def Nav_def NavChild_def p merged_def)
qed

end
