(* ===== verification/JS_PageSections.thy ===== *)
theory JS_PageSections
  imports JS_Sections
begin

text \<open>
  The object \<open>dynsection\<close> of \<^verbatim>\<open>external/tinyxml2/docs/dynsections.js\<close>, the later generation of the sections and directory
  tables of \<open>JS_Sections\<close>: the rows of a table have a second stripe for the odd ones. What the scripts do to the rest of a row
  is shared.
\<close>

section \<open>dynsection\<close>

record page_row =
  p_row :: dir_row
  p_odd :: bool

text \<open>\<open>updateStripes\<close>: the classes \<open>even\<close> and \<open>odd\<close> of the displayed rows, in two passes over the table.\<close>

fun even_stripes :: "bool \<Rightarrow> page_row list \<Rightarrow> page_row list" where
  "even_stripes e [] = []"
| "even_stripes e (r # rs) =
     (if row_shown (p_row r) then r\<lparr>p_row := (p_row r)\<lparr>row_even := e\<rparr>\<rparr> # even_stripes (\<not> e) rs
      else r\<lparr>p_row := (p_row r)\<lparr>row_even := False\<rparr>\<rparr> # even_stripes e rs)"

fun odd_stripes :: "bool \<Rightarrow> page_row list \<Rightarrow> page_row list" where
  "odd_stripes e [] = []"
| "odd_stripes e (r # rs) =
     (if row_shown (p_row r) then r\<lparr>p_odd := \<not> e\<rparr> # odd_stripes (\<not> e) rs else r\<lparr>p_odd := False\<rparr> # odd_stripes e rs)"

definition page_updateStripes :: "page_row list \<Rightarrow> page_row list" where
  "page_updateStripes rs = odd_stripes True (even_stripes True rs)"

definition on_row :: "(dir_row \<Rightarrow> dir_row) \<Rightarrow> page_row \<Rightarrow> page_row" where
  "on_row f r = r\<lparr>p_row := f (p_row r)\<rparr>"

definition page_toggleLevel :: "int \<Rightarrow> page_row list \<Rightarrow> page_row list" where
  "page_toggleLevel level rs = page_updateStripes (map (on_row (level_row level)) rs)"

definition page_toggleFolder :: "jsstr \<Rightarrow> page_row list \<Rightarrow> page_row list" where
  "page_toggleFolder i all =
     (let before = takeWhile (\<lambda>r. row_id (p_row r) \<noteq> js ''row_'' @ i) all in
      case dropWhile (\<lambda>r. row_id (p_row r) \<noteq> js ''row_'' @ i) all of
        [] \<Rightarrow> page_updateStripes all
      | currentRow # rows \<Rightarrow>
          let childRows = filter (\<lambda>r. is_child_row i (row_id (p_row r))) rows in
          page_updateStripes
            (if childRows \<noteq> [] \<and> row_shown (p_row (hd childRows)) then
               before @ on_row folder_close currentRow #
                 map (\<lambda>r. if is_below i (row_id (p_row r)) then on_row (row_shown_update (\<lambda>_. False)) r else r) rows
             else
               before @ on_row folder_open currentRow #
                 map (\<lambda>r. if is_child_row i (row_id (p_row r))
                   then on_row (\<lambda>x. (folder_close x)\<lparr>row_shown := True\<rparr>) r else r) rows))"

definition page_toggleVisibility :: "dyn_section \<Rightarrow> dyn_section" where
  "page_toggleVisibility s =
     (let src = trigger_src s; n = int (length src) in
      if content_shown s then
        s\<lparr>content_shown := False, summary_shown := True,
          link_classes := remove_class (js ''opened'') (add_class (js ''closed'') (link_classes s)),
          trigger_src := substring 0 (n - 8) src @ js ''closed.png''\<rparr>
      else
        s\<lparr>content_shown := True, summary_shown := False,
          link_classes := add_class (js ''opened'') (remove_class (js ''closed'') (link_classes s)),
          trigger_src := substring 0 (n - 10) src @ js ''open.png''\<rparr>)"

definition page_toggleInherit :: "inherit_rows \<Rightarrow> inherit_rows" where
  "page_toggleInherit s =
     (let src = inherit_src s; n = int (length src) in
      if inherit_display s \<noteq> [] \<and> hd (inherit_display s) \<noteq> js ''none'' then
        s\<lparr>inherit_display := map (\<lambda>_. js ''none'') (inherit_display s),
          inherit_src := substring 0 (n - 8) src @ js ''closed.png''\<rparr>
      else
        s\<lparr>inherit_display := map (\<lambda>_. js ''table-row'') (inherit_display s),
          inherit_src := substring 0 (n - 10) src @ js ''open.png''\<rparr>)"

fun page_dir_step :: "dir_event \<Rightarrow> page_row list \<Rightarrow> page_row list" where
  "page_dir_step (Level n) rs = page_toggleLevel n rs"
| "page_dir_step (Click_arrow p) rs =
     (if list_ex (\<lambda>r. row_id (p_row r) = path_id p \<and> row_shown (p_row r) \<and> row_arrow (p_row r) \<noteq> None) rs
      then page_toggleFolder (enc p) rs else rs)"

section \<open>The two generations\<close>

lemma p_row_stripes: "map p_row (even_stripes e rs) = stripes e (map p_row rs)" "map p_row (odd_stripes e rs) = map p_row rs"
  by (induction rs arbitrary: e) simp_all

lemma p_row_updateStripes: "map p_row (page_updateStripes rs) = updateStripes (map p_row rs)"
  by (simp add: page_updateStripes_def updateStripes_def p_row_stripes)

lemma p_row_on_row [simp]: "p_row (on_row f r) = f (p_row r)" "map p_row (map (on_row f) rs) = map f (map p_row rs)"
  by (simp_all add: on_row_def)

lemma find_filter_hd: "find P xs = (if filter P xs = [] then None else Some (hd (filter P xs)))"
  by (induction xs) auto

lemma page_toggleFolder_rows: "map p_row (page_toggleFolder i rs) = toggleFolder i (map p_row rs)"
proof -
  let ?P = "\<lambda>r. row_id r \<noteq> js ''row_'' @ i"
  have tw: "takeWhile ?P (map p_row rs) = map p_row (takeWhile (\<lambda>r. ?P (p_row r)) rs)"
    and dw: "dropWhile ?P (map p_row rs) = map p_row (dropWhile (\<lambda>r. ?P (p_row r)) rs)"
    by (simp_all add: takeWhile_map dropWhile_map comp_def)
  show ?thesis
  proof (cases "dropWhile (\<lambda>r. ?P (p_row r)) rs")
    case Nil
    then show ?thesis
      by (simp only: page_toggleFolder_def toggleFolder_def dw p_row_updateStripes Let_def list.case list.map)
  next
    case (Cons cur rows)
    let ?C = "\<lambda>r. is_child_row i (row_id r)"
    have "(case find ?C (map p_row rows) of None \<Rightarrow> False | Some r \<Rightarrow> row_shown r) \<longleftrightarrow>
        filter (\<lambda>r. ?C (p_row r)) rows \<noteq> [] \<and> row_shown (p_row (hd (filter (\<lambda>r. ?C (p_row r)) rows)))"
      by (simp add: find_filter_hd filter_map comp_def hd_map)
    moreover have "map p_row (map (\<lambda>r. if Q (row_id (p_row r)) then on_row f r else r) rows) =
        map (\<lambda>r. if Q (row_id r) then f r else r) (map p_row rows)" for Q f
      by simp
    ultimately show ?thesis
      by (simp only: page_toggleFolder_def toggleFolder_def tw dw Cons p_row_updateStripes Let_def list.case list.map
          if_distrib [of "map p_row"] map_append p_row_on_row(1))
  qed
qed

lemma page_dir_step_rows: "map p_row (page_dir_step e rs) = dir_step e (map p_row rs)"
proof (cases e)
  case (Level n)
  then show ?thesis by (simp add: page_toggleLevel_def toggleLevel_def p_row_updateStripes comp_def)
next
  case (Click_arrow p)
  then show ?thesis by (auto simp: page_toggleFolder_rows list_ex_iff)
qed

lemma page_run_rows: "map p_row (fold page_dir_step es rs) = fold dir_step es (map p_row rs)"
  by (induction es arbitrary: rs) (simp_all add: page_dir_step_rows)

text \<open>Displayed rows carry \<open>even\<close> and \<open>odd\<close> in turn, the others neither.\<close>

definition striped :: "page_row list \<Rightarrow> bool" where
  "striped rs \<longleftrightarrow> (\<forall>r \<in> set rs. \<not> row_shown (p_row r) \<longrightarrow> \<not> row_even (p_row r) \<and> \<not> p_odd r) \<and>
     (\<forall>k < length (filter (\<lambda>r. row_shown (p_row r)) rs). let r = filter (\<lambda>r. row_shown (p_row r)) rs ! k in
        (row_even (p_row r) \<longleftrightarrow> even k) \<and> (p_odd r \<longleftrightarrow> odd k))"

lemma stripes_from:
  "(\<forall>r \<in> set (odd_stripes b (even_stripes b rs)). \<not> row_shown (p_row r) \<longrightarrow> \<not> row_even (p_row r) \<and> \<not> p_odd r) \<and>
   (\<forall>k < length (filter (\<lambda>r. row_shown (p_row r)) (odd_stripes b (even_stripes b rs))).
      let r = filter (\<lambda>r. row_shown (p_row r)) (odd_stripes b (even_stripes b rs)) ! k in
        (row_even (p_row r) \<longleftrightarrow> (even k \<longleftrightarrow> b)) \<and> (p_odd r \<longleftrightarrow> (odd k \<longleftrightarrow> b)))"
proof (induction rs arbitrary: b)
  case (Cons r rs)
  show ?case using Cons.IH [of b] Cons.IH [of "\<not> b"] by (auto simp: nth_Cons Let_def split: nat.splits)
qed simp

lemma page_updateStripes_striped: "striped (page_updateStripes rs)"
  using stripes_from [of True rs] by (simp add: striped_def page_updateStripes_def)

lemma page_dir_step_striped: "striped rs \<Longrightarrow> striped (page_dir_step e rs)"
  by (cases e) (auto simp: page_toggleLevel_def page_toggleFolder_def page_updateStripes_striped Let_def split: list.splits)

section \<open>Properties\<close>

text \<open>
  The sections of the two generations behave alike. The later directory table does over any clicks what the earlier one does,
  row for row, and from a striped table on its displayed rows always carry \<open>even\<close> and \<open>odd\<close> in turn and the hidden ones
  neither; choosing a level stripes any table. Collapsible sections and inherited members are toggled alike.
\<close>

theorem page_sections_agree:
  "map p_row (fold page_dir_step es rs) = fold dir_step es (map p_row rs) \<and>
   striped (page_dir_step (Level n) rs) \<and> (striped rs \<longrightarrow> striped (fold page_dir_step es rs)) \<and>
   page_toggleVisibility = toggleVisibility \<and> page_toggleInherit = toggleInherit"
proof -
  have "striped rs \<longrightarrow> striped (fold page_dir_step es rs)"
    by (induction es arbitrary: rs) (simp_all add: page_dir_step_striped)
  moreover have "page_toggleVisibility s = toggleVisibility s" for s
    by (simp add: page_toggleVisibility_def toggleVisibility_def)
  moreover have "page_toggleInherit s = toggleInherit s" for s
    by (cases "inherit_display s") (simp_all add: page_toggleInherit_def toggleInherit_def Let_def)
  ultimately show ?thesis by (simp add: page_run_rows page_toggleLevel_def page_updateStripes_striped fun_eq_iff)
qed

theorem page_sections_agree_witness:
  "map p_row (fold page_dir_step [Level 1, Click_arrow [0]] (map (\<lambda>r. \<lparr>p_row = r, p_odd = False\<rparr>) example_rows)) =
     fold dir_step [Level 1, Click_arrow [0]] example_rows \<and>
   striped (fold page_dir_step [Click_arrow [0]] (page_dir_step (Level 1) (map (\<lambda>r. \<lparr>p_row = r, p_odd = False\<rparr>) example_rows)))"
proof -
  let ?rs = "map (\<lambda>r. \<lparr>p_row = r, p_odd = False\<rparr>) example_rows"
  have "map p_row ?rs = example_rows" by (simp add: comp_def)
  with page_sections_agree [of "[Level 1, Click_arrow [0]]" ?rs 1] page_sections_agree [of "[Click_arrow [0]]" "page_dir_step (Level 1) ?rs" 1]
  show ?thesis by metis
qed

end
