(* ===== verification/JS_PageMenu.thy ===== *)
theory JS_PageMenu
  imports JS_Sections
begin

text \<open>
  The menu and the code folding of the pages of \<^verbatim>\<open>external/tinyxml2/docs\<close>, \<^verbatim>\<open>menu.js\<close> and the object \<open>codefold\<close> of
  \<^verbatim>\<open>dynsections.js\<close>. The search box is put into one of two places that depend on the width of the window; the menu
  is shown and hidden by a check box on narrow windows. A sliding animation of jQuery ends some time after it was
  started, in the order of the starts, and then runs its completion; its intermediate frames are not modelled.
\<close>

section \<open>initMenu\<close>

definition page_url :: "jsstr \<Rightarrow> jsstr \<Rightarrow> jsstr" where
  "page_url relPath link = (if take 1 link = js ''^'' then drop 1 link else relPath @ link)"

fun page_makeTree :: "jsstr \<Rightarrow> menu \<Rightarrow> jsstr" where
  "page_makeTree relPath (Menu t u cs) =
     (case cs of
        None \<Rightarrow> []
      | Some xs \<Rightarrow>
          js ''<ul>'' @
          concat (map (\<lambda>x. js ''<li><a href=\"'' @ page_url relPath (menu_url x) @ js ''\">'' @ menu_text x @ js ''</a>'' @
            page_makeTree relPath x @ js ''</li>'') xs) @
          js ''</ul>'')"

definition server_box :: "jsstr \<Rightarrow> jsstr \<Rightarrow> jsstr \<Rightarrow> jsstr" where
  "server_box relPath searchPage search =
       js ''<div id=\"MSearchBox\" class=\"MSearchBoxInactive\"><div class=\"left\"><form id=\"FSearchBox\" action=\"'' @
       relPath @
       searchPage @
       js ''\" method=\"get\"><span id=\"MSearchSelectExt\">&#160;</span><input type=\"text\" id=\"MSearchField\" name=\"query\" value=\"\" placeholder=\"'' @
       search @
       js ''\" size=\"20\" accesskey=\"S\" onfocus=\"searchBox.OnSearchFieldFocus(true)\" onblur=\"searchBox.OnSearchFieldFocus(false)\"/></form></div><div class=\"right\"></div></div>''"

definition client_box :: "jsstr \<Rightarrow> jsstr \<Rightarrow> jsstr" where
  "client_box relPath search =
       js ''<div id=\"MSearchBox\" class=\"MSearchBoxInactive\"><span class=\"left\"><span id=\"MSearchSelect\" onmouseover=\"return searchBox.OnSearchSelectShow()\" onmouseout=\"return searchBox.OnSearchSelectHide()\">&#160;</span><input type=\"text\" id=\"MSearchField\" value=\"\" placeholder=\"'' @
       search @
       js ''\" accesskey=\"S\" onfocus=\"searchBox.OnSearchFieldFocus(true)\" onblur=\"searchBox.OnSearchFieldFocus(false)\" onkeyup=\"searchBox.OnSearchFieldChange(event)\"/></span><span class=\"right\"><a id=\"MSearchClose\" href=\"javascript:searchBox.CloseResultsWindow()\"><img id=\"MSearchCloseImg\" border=\"0\" src=\"'' @
       relPath @
       js ''search/close.svg\" alt=\"\"/></a></span></div>''"

text \<open>\<open>None\<close> is \<open>undefined\<close>.\<close>

definition searchBoxHtml :: "bool \<Rightarrow> bool \<Rightarrow> jsstr \<Rightarrow> jsstr \<Rightarrow> jsstr \<Rightarrow> jsstr option" where
  "searchBoxHtml searchEnabled serverSide relPath searchPage search =
     (if searchEnabled then
        Some (if serverSide then server_box relPath searchPage search else client_box relPath search)
      else None)"

text \<open>\<open>pos2_shown\<close> and \<open>menu_shown\<close> are the \<open>display\<close> of the elements \<open>searchBoxPos2\<close> and \<open>main-menu\<close> themselves; \<open>searchBoxPos2\<close> is
  inside \<open>main-menu\<close>.\<close>

record menu_page =
  main_nav :: jsstr
  box_html :: "jsstr option"
  box_pos1 :: jsstr
  box_pos2 :: "jsstr option"
  pos2_shown :: bool
  menu_shown :: bool
  menu_checked :: bool
  prevWidth :: int
  menu_window :: int
  sliding :: "bool list"
  results_closed :: nat

text \<open>The page after \<open>initMenu\<close>, before the window is ready; the place in the menu exists when the search is enabled
  and the menu has children, without which there is no \<open>main-menu\<close>.\<close>

definition page_initMenu :: "menu \<Rightarrow> bool \<Rightarrow> bool \<Rightarrow> jsstr \<Rightarrow> jsstr \<Rightarrow> jsstr \<Rightarrow> int \<Rightarrow> menu_page" where
  "page_initMenu menudata searchEnabled serverSide relPath searchPage search width =
     (let html = searchBoxHtml searchEnabled serverSide relPath searchPage search
      in \<lparr>main_nav = page_makeTree relPath menudata, box_html = html, box_pos1 = [],
          box_pos2 = (case menudata of Menu _ _ None \<Rightarrow> None | Menu _ _ (Some _) \<Rightarrow> map_option (\<lambda>_. []) html), pos2_shown = True, menu_shown = True, menu_checked = False,
          prevWidth = 0, menu_window = width, sliding = [], results_closed = 0\<rparr>)"

text \<open>\<open>html(undefined)\<close> reads, and an element that does not exist is skipped.\<close>

definition set_html :: "jsstr option \<Rightarrow> jsstr \<Rightarrow> jsstr" where
  "set_html html old = (case html of None \<Rightarrow> old | Some h \<Rightarrow> h)"

definition resetState :: "menu_page \<Rightarrow> menu_page" where
  "resetState s =
     (let newWidth = menu_window s in
      if newWidth \<noteq> prevWidth s then
        (if menu_window s < 768
         then s\<lparr>menu_checked := False, menu_shown := False, box_pos1 := set_html (box_html s) (box_pos1 s),
                pos2_shown := False\<rparr>
         else s\<lparr>menu_shown := True, box_pos1 := [], box_pos2 := map_option (set_html (box_html s)) (box_pos2 s),
                pos2_shown := True\<rparr>)
        \<lparr>results_closed := Suc (results_closed s), prevWidth := newWidth\<rparr>
      else s)"

text \<open>The check box changes: the menu slides down or up, displayed meanwhile. The animation ends.\<close>

definition state_change :: "menu_page \<Rightarrow> menu_page" where
  "state_change s = s\<lparr>menu_checked := \<not> menu_checked s, menu_shown := True, sliding := sliding s @ [\<not> menu_checked s]\<rparr>"

definition slide_complete :: "menu_page \<Rightarrow> menu_page" where
  "slide_complete s = (case sliding s of [] \<Rightarrow> s | b # bs \<Rightarrow> s\<lparr>menu_shown := b, sliding := bs\<rparr>)"

definition window_resized :: "int \<Rightarrow> menu_page \<Rightarrow> menu_page" where
  "window_resized w s = resetState (s\<lparr>menu_window := w\<rparr>)"

section \<open>codefold\<close>

record fold_block =
  fold_id :: jsstr
  open_shown :: bool
  closed_shown :: bool

record folding =
  fold_opened :: bool
  fold_image :: jsstr
  fold_blocks :: "fold_block list"

definition plusImg :: "bool \<Rightarrow> jsstr" where
  "plusImg relPath = (if relPath then js ''var(--fold-plus-image-relpath)'' else js ''var(--fold-plus-image)'')"

definition minusImg :: "bool \<Rightarrow> jsstr" where
  "minusImg relPath = (if relPath then js ''var(--fold-minus-image-relpath)'' else js ''var(--fold-minus-image)'')"

definition toggle_all :: "bool \<Rightarrow> folding \<Rightarrow> folding" where
  "toggle_all relPath s =
     (if fold_opened s
      then s\<lparr>fold_image := plusImg relPath,
             fold_blocks := map (\<lambda>b. b\<lparr>open_shown := False, closed_shown := True\<rparr>) (fold_blocks s)\<rparr>
      else s\<lparr>fold_image := minusImg relPath,
             fold_blocks := map (\<lambda>b. b\<lparr>open_shown := True, closed_shown := False\<rparr>) (fold_blocks s)\<rparr>)
     \<lparr>fold_opened := \<not> fold_opened s\<rparr>"

definition toggle_fold :: "jsstr \<Rightarrow> folding \<Rightarrow> folding" where
  "toggle_fold x s =
     s\<lparr>fold_blocks := map (\<lambda>b. if fold_id b = x
        then b\<lparr>open_shown := \<not> open_shown b, closed_shown := \<not> closed_shown b\<rparr> else b) (fold_blocks s)\<rparr>"

section \<open>Runs\<close>

datatype menu_event = Menu_resize int | Menu_change | Menu_slide_done

fun menu_handle :: "menu_event \<Rightarrow> menu_page \<Rightarrow> menu_page" where
  "menu_handle (Menu_resize w) s = window_resized w s"
| "menu_handle Menu_change s = state_change s"
| "menu_handle Menu_slide_done s = slide_complete s"

text \<open>The check box can be reached on narrow windows only. A calm step does not resize the window while the menu
  slides.\<close>

fun menu_can :: "menu_event \<Rightarrow> menu_page \<Rightarrow> bool" where
  "menu_can (Menu_resize w) s \<longleftrightarrow> 0 < w"
| "menu_can Menu_change s \<longleftrightarrow> menu_window s < 768"
| "menu_can Menu_slide_done s \<longleftrightarrow> sliding s \<noteq> []"

fun calm :: "menu_event \<Rightarrow> menu_page \<Rightarrow> bool" where
  "calm (Menu_resize w) s \<longleftrightarrow> sliding s = []"
| "calm e s \<longleftrightarrow> True"

inductive menu_run :: "menu_page \<Rightarrow> bool \<Rightarrow> menu_page \<Rightarrow> bool" where
  menu_ready: "menu_run s True (resetState s)"
| menu_step: "menu_run s c s1 \<Longrightarrow> menu_can e s1 \<Longrightarrow> menu_run s (c \<and> calm e s1) (menu_handle e s1)"

text \<open>The place of the element that \<open>getElementById("MSearchBox")\<close> finds, the first in the document, and whether it
  is displayed: in the menu only with the menu.\<close>

definition found_box :: "menu_page \<Rightarrow> nat option" where
  "found_box s =
     (if box_html s = None then None
      else if box_html s = Some (box_pos1 s) then Some 1
      else if box_html s = box_pos2 s then Some 2 else None)"

definition box_displayed :: "menu_page \<Rightarrow> bool" where
  "box_displayed s = (case found_box s of None \<Rightarrow> False | Some k \<Rightarrow> k = 1 \<or> pos2_shown s \<and> menu_shown s)"

definition boxes :: "menu_page \<Rightarrow> nat" where
  "boxes s = (if box_html s = Some (box_pos1 s) then 1 else 0) + (if box_html s \<noteq> None \<and> box_html s = box_pos2 s then 1 else 0)"

definition box_inv_at :: "jsstr \<Rightarrow> menu_page \<Rightarrow> bool" where
  "box_inv_at h s \<longleftrightarrow> box_html s = Some h \<and> h \<noteq> [] \<and> prevWidth s = menu_window s \<and> box_pos2 s \<noteq> None \<and> 0 < menu_window s \<and>
     (if menu_window s < 768 then box_pos1 s = h \<and> \<not> pos2_shown s
      else box_pos1 s = [] \<and> box_pos2 s = Some h \<and> pos2_shown s)"

definition menu_inv :: "menu_page \<Rightarrow> bool" where
  "menu_inv s \<longleftrightarrow> (if menu_window s < 768
     then (if sliding s = [] then menu_shown s = menu_checked s else last (sliding s) = menu_checked s)
     else sliding s = [] \<and> menu_shown s)"

lemma box_markup: "searchBoxHtml True b r p t = Some h \<Longrightarrow> h \<noteq> []"
  by (auto simp: searchBoxHtml_def server_box_def client_box_def split: if_splits)

lemma box_inv_init:
  assumes "searchBoxHtml True b r p t = Some h" "0 < w"
  shows "box_inv_at h (resetState (page_initMenu (Menu x y (Some ms)) True b r p t w))"
    "menu_inv (resetState (page_initMenu (Menu x y (Some ms)) True b r p t w))"
  using assms box_markup [OF assms(1)]
  by (simp_all add: resetState_def page_initMenu_def box_inv_at_def menu_inv_def set_html_def Let_def)

lemma box_inv_step: "box_inv_at h s \<Longrightarrow> menu_can e s \<Longrightarrow> box_inv_at h (menu_handle e s)"
  by (cases e)
    (auto simp: box_inv_at_def window_resized_def resetState_def state_change_def slide_complete_def set_html_def Let_def
      split: list.splits)

lemma menu_inv_step: "menu_inv s \<Longrightarrow> box_inv_at h s \<Longrightarrow> menu_can e s \<Longrightarrow> calm e s \<Longrightarrow> menu_inv (menu_handle e s)"
  by (cases e)
    (auto simp: menu_inv_def box_inv_at_def window_resized_def resetState_def state_change_def slide_complete_def Let_def
      split: list.splits if_splits)

lemma menu_run_inv:
  assumes "menu_run s c s'" "box_inv_at h (resetState s)" "menu_inv (resetState s)"
  shows "box_inv_at h s' \<and> (c \<longrightarrow> menu_inv s')"
  using assms by (induction rule: menu_run.induct) (auto intro: box_inv_step menu_inv_step)

text \<open>Every block of a listing is displayed once, folded or not.\<close>

definition fold_inv :: "folding \<Rightarrow> bool" where
  "fold_inv s \<longleftrightarrow> list_all (\<lambda>b. open_shown b \<noteq> closed_shown b) (fold_blocks s)"

datatype fold_event = Fold_all bool | Fold_one jsstr

fun fold_handle :: "fold_event \<Rightarrow> folding \<Rightarrow> folding" where
  "fold_handle (Fold_all r) s = toggle_all r s"
| "fold_handle (Fold_one x) s = toggle_fold x s"

lemma fold_inv_run: "fold_inv s \<Longrightarrow> fold_inv (fold fold_handle es s)"
proof (induction es arbitrary: s)
  case (Cons e es)
  have "fold_inv (fold_handle e s)"
    using Cons.prems by (cases e) (auto simp: fold_inv_def toggle_all_def toggle_fold_def list_all_iff)
  then show ?case using Cons.IH by simp
qed simp

section \<open>Properties\<close>

text \<open>
  C27. On a page whose menu has entries the search box can be reached at every width, unless the window is resized while the menu slides. From the moment the page is ready, over any resizes and clicks on
  the menu, the search box that the scripts find is the one beside the menu button on narrow windows, where it is displayed,
  and the one in the menu on wide ones, although a window that has become narrow holds the box twice. When the window was never
  resized while the menu slid, the box found is displayed, with the menu around it, the menu is displayed on wide windows and, once it rests, exactly when it is
  checked on narrow ones. A window that is made wide while the menu slides up shows no search box at all, in spite of its \<open>searchBoxPos2\<close>.
\<close>

theorem search_box_reachable:
  assumes "0 < w" and "menu_run (page_initMenu (Menu x y (Some ms)) True b r p t w) c s"
  shows "found_box s = Some (if menu_window s < 768 then 1 else 2) \<and> pos2_shown s = (768 \<le> menu_window s) \<and>
    (menu_window s < 768 \<or> c \<longrightarrow> box_displayed s) \<and> (768 \<le> menu_window s \<longrightarrow> boxes s = 1) \<and>
    (c \<and> (768 \<le> menu_window s \<or> sliding s = []) \<longrightarrow> menu_shown s = (768 \<le> menu_window s \<or> menu_checked s)) \<and>
    (menu_window s < 768 \<and> sliding s = [] \<and> menu_checked s \<and> 768 \<le> w' \<longrightarrow>
      \<not> box_displayed (slide_complete (window_resized w' (state_change s))))"
proof -
  obtain h where h: "searchBoxHtml True b r p t = Some h" by (simp add: searchBoxHtml_def)
  have inv: "box_inv_at h s" "c \<longrightarrow> menu_inv s"
    using menu_run_inv [OF assms(2) box_inv_init [OF h assms(1)]] by auto
  then have late: "\<not> box_displayed (slide_complete (window_resized w' (state_change s)))"
    if "menu_window s < 768 \<and> sliding s = [] \<and> menu_checked s \<and> 768 \<le> w'"
    using that by (auto simp: box_displayed_def found_box_def slide_complete_def window_resized_def resetState_def state_change_def
        box_inv_at_def Let_def)
  from inv show ?thesis
    using late by (auto simp: box_inv_at_def menu_inv_def found_box_def boxes_def box_displayed_def split: if_splits)
qed

definition example_menu :: menu_page where
  "example_menu = page_initMenu (Menu [] [] (Some [])) True False [] [] [] 900"

lemma example_menu_run: "menu_run example_menu True (menu_handle Menu_change (menu_handle (Menu_resize 500) (resetState example_menu)))"
proof -
  have "menu_run example_menu (True \<and> calm (Menu_resize 500) (resetState example_menu)) (menu_handle (Menu_resize 500) (resetState example_menu))"
    by (rule menu_step [OF menu_ready]) simp
  then have "menu_run example_menu ((True \<and> calm (Menu_resize 500) (resetState example_menu)) \<and> True)
      (menu_handle Menu_change (menu_handle (Menu_resize 500) (resetState example_menu)))"
    using menu_step [of example_menu _ _ Menu_change]
    by (simp add: window_resized_def resetState_def example_menu_def page_initMenu_def Let_def)
  then show ?thesis by (simp add: resetState_def example_menu_def page_initMenu_def Let_def)
qed

theorem search_box_reachable_witness:
  "box_displayed (menu_handle Menu_change (menu_handle (Menu_resize 500) (resetState example_menu)))"
  using search_box_reachable [OF _ example_menu_run [unfolded example_menu_def]]
  by (simp add: window_resized_def resetState_def example_menu_def page_initMenu_def state_change_def Let_def)

text \<open>
  A menu that slides up while the window is made wide ends up hidden on the wide window, and stays so until the
  width changes again.
\<close>

theorem late_slide_hides_menu:
  assumes "menu_window s < 768" and "prevWidth s = menu_window s" and "sliding s = []" and "menu_checked s" and "768 \<le> w"
  shows "\<not> menu_shown (slide_complete (window_resized w (state_change s)))"
  using assms by (simp add: slide_complete_def window_resized_def resetState_def state_change_def Let_def)

text \<open>
  Code folding shows every block once: when each block starts either open or folded, then after any clicks on the
  blocks and on the switch for all of them each block is either open or folded, and after a click on
  the switch all blocks are open or all are folded, as the switch then says.
\<close>

theorem folding_shows_once:
  assumes "fold_inv s"
  shows "fold_inv (fold fold_handle es s) \<and>
    (\<forall>b \<in> set (fold_blocks (toggle_all r (fold fold_handle es s))).
       open_shown b = (\<not> fold_opened (fold fold_handle es s)) \<and> closed_shown b = fold_opened (fold fold_handle es s))"
  using fold_inv_run [OF assms] by (auto simp: toggle_all_def)

theorem folding_shows_once_witness:
  "fold_inv (fold fold_handle [Fold_one [49], Fold_all False]
     \<lparr>fold_opened = True, fold_image = [],
      fold_blocks = [\<lparr>fold_id = [49], open_shown = True, closed_shown = False\<rparr>]\<rparr>)"
proof -
  have "fold_inv \<lparr>fold_opened = True, fold_image = [],
      fold_blocks = [\<lparr>fold_id = [49], open_shown = True, closed_shown = False\<rparr>]\<rparr>" by (simp add: fold_inv_def)
  from folding_shows_once [OF this] show ?thesis by blast
qed

end
