(* ===== verification/JS_Listings.thy ===== *)
theory JS_Listings
  imports JS_Widgets JS_PageMenu
begin

text \<open>
  The source listings of \<^verbatim>\<open>external/tinyxml2/docs\<close>: the copy buttons of \<^verbatim>\<open>clipboard.js\<close> and the markup that
  \<open>codefold.init\<close> of \<^verbatim>\<open>dynsections.js\<close> adds for the folding of blocks.
\<close>

section \<open>The text that is copied\<close>

text \<open>White space and ends of lines as the regular expressions of the language know them.\<close>

definition is_ws :: "nat \<Rightarrow> bool" where
  "is_ws c \<longleftrightarrow> 9 \<le> c \<and> c \<le> 13 \<or> 8192 \<le> c \<and> c \<le> 8202 \<or>
     c \<in> {32, 160, 5760, 8232, 8233, 8239, 8287, 12288, 65279}"

definition line_end :: "nat \<Rightarrow> bool" where
  "line_end c \<longleftrightarrow> c \<in> {10, 13, 8232, 8233}"

text \<open>The match of \<^verbatim>\<open>/^\s*\n/\<close> at the start of a line: white space up to its last newline.\<close>

definition blank_len :: "jsstr \<Rightarrow> nat" where
  "blank_len s = length (dropWhile (\<lambda>c. c \<noteq> 10) (rev (takeWhile is_ws s)))"

lemma blank_len_pos: "10 \<in> set (takeWhile is_ws s) \<Longrightarrow> 0 < blank_len s"
  by (auto simp: blank_len_def dropWhile_eq_Nil_conv)

text \<open>\<^verbatim>\<open>replace(/^\s*\n/gm,'\n')\<close>, from a position that is the start of a line or not.\<close>

function squeeze_blank :: "bool \<Rightarrow> jsstr \<Rightarrow> jsstr" where
  "squeeze_blank b [] = []"
| "squeeze_blank b (c # cs) =
     (if b \<and> 10 \<in> set (takeWhile is_ws (c # cs))
      then 10 # squeeze_blank True (drop (blank_len (c # cs)) (c # cs))
      else c # squeeze_blank (line_end c) cs)"
  by pat_completeness auto
termination
  by (relation "measure (\<lambda>(b, s). length s)") (use blank_len_pos in \<open>auto split: if_splits\<close>)

declare squeeze_blank.simps(2) [simp del]

text \<open>\<^verbatim>\<open>replace(/\n*$/,'')\<close>: the leftmost match takes all newlines at the end.\<close>

definition strip_final_newlines :: "jsstr \<Rightarrow> jsstr" where
  "strip_final_newlines s = rev (dropWhile (\<lambda>c. c = 10) (rev s))"

definition clip_text :: "jsstr \<Rightarrow> jsstr" where
  "clip_text s = strip_final_newlines (squeeze_blank True s)"

text \<open>Blank lines are empty, and no two follow each other: white space from the start of a line never reaches
  over a character to a newline.\<close>

definition no_blank :: "bool \<Rightarrow> jsstr \<Rightarrow> bool" where
  "no_blank b s \<longleftrightarrow> (\<forall>p w q. s = p @ w @ 10 # q \<and> (if p = [] then b else line_end (last p)) \<and> list_all is_ws w \<longrightarrow> w = [])"

lemma ws_newline [simp]: "is_ws 10" "line_end 10"
  by (simp_all add: is_ws_def line_end_def)

lemma blank_split:
  assumes "10 \<in> set (takeWhile is_ws s)"
  obtains w where "take (blank_len s) s = w @ [10]" "list_all is_ws w" "10 \<notin> set (takeWhile is_ws (drop (blank_len s) s))"
proof -
  let ?w = "takeWhile is_ws s"
  obtain u v where uv: "?w = u @ 10 # v" "10 \<notin> set v" using split_list_last [OF assms] by blast
  have "dropWhile (\<lambda>c. c \<noteq> 10) (rev v @ 10 # rev u) = 10 # rev u"
    using uv(2) by (subst dropWhile_append2) auto
  then have "blank_len s = Suc (length u)" unfolding blank_len_def uv(1) by simp
  moreover have s: "s = u @ 10 # v @ dropWhile is_ws s" using uv(1) takeWhile_dropWhile_id [of is_ws s] by simp
  ultimately have "take (blank_len s) s = u @ [10]" "drop (blank_len s) s = v @ dropWhile is_ws s"
    by (metis append.assoc append_Cons append_Nil append_eq_conv_conj length_append_singleton)+
  moreover have ws: "c \<in> set u \<union> set v \<Longrightarrow> is_ws c" for c using uv(1) set_takeWhileD [of c is_ws s] by auto
  moreover have "takeWhile is_ws (v @ dropWhile is_ws s) = v"
  proof -
    have "takeWhile is_ws (dropWhile is_ws s) = []" by (induction s) auto
    then show ?thesis using ws by (subst takeWhile_append2) auto
  qed
  ultimately show thesis using that [of u] uv(2) by (simp add: list_all_iff)
qed

lemma squeeze_run: "10 \<notin> set (takeWhile is_ws s) \<Longrightarrow> takeWhile is_ws (squeeze_blank b s) = takeWhile is_ws s"
proof (induction s arbitrary: b)
  case (Cons c s)
  then show ?case by (cases "is_ws c") (auto simp: squeeze_blank.simps)
qed simp

lemma squeeze_keeps_text: "filter (\<lambda>c. \<not> is_ws c) (squeeze_blank b s) = filter (\<lambda>c. \<not> is_ws c) s"
proof (induction b s rule: squeeze_blank.induct)
  case (2 b c cs)
  let ?s = "c # cs"
  show ?case
  proof (cases "b \<and> 10 \<in> set (takeWhile is_ws ?s)")
    case True
    then obtain w where w: "take (blank_len ?s) ?s = w @ [10]" "list_all is_ws w" using blank_split by blast
    have "filter (\<lambda>c. \<not> is_ws c) ?s =
        filter (\<lambda>c. \<not> is_ws c) (take (blank_len ?s) ?s) @ filter (\<lambda>c. \<not> is_ws c) (drop (blank_len ?s) ?s)"
      by (metis append_take_drop_id filter_append)
    also have "\<dots> = filter (\<lambda>c. \<not> is_ws c) (drop (blank_len ?s) ?s)"
      using w(2) unfolding w(1) by (simp add: list_all_iff filter_empty_conv)
    finally show ?thesis using True "2.IH"(1) by (simp only: squeeze_blank.simps if_True simp_thms filter.simps ws_newline if_False)
  next
    case False
    then show ?thesis using "2.IH"(2) by (simp only: squeeze_blank.simps if_False filter.simps simp_thms)
  qed
qed simp

lemma no_blank_push:
  assumes "no_blank (line_end c) x" and "\<And>w q. b \<Longrightarrow> c # x = w @ 10 # q \<Longrightarrow> list_all is_ws w \<Longrightarrow> w = []"
  shows "no_blank b (c # x)"
  unfolding no_blank_def
proof (intro allI impI, elim conjE)
  fix p w q assume a: "c # x = p @ w @ 10 # q" "if p = [] then b else line_end (last p)" "list_all is_ws w"
  show "w = []"
  proof (cases p)
    case Nil
    then show ?thesis using a assms(2) by simp
  next
    case (Cons d p')
    then have "x = p' @ w @ 10 # q" "if p' = [] then line_end c else line_end (last p')" using a(1,2) by (auto split: if_splits)
    then show ?thesis using assms(1) a(3) unfolding no_blank_def by blast
  qed
qed

lemma no_newline_run: "10 \<notin> set (takeWhile is_ws x) \<Longrightarrow> x = w @ 10 # q \<Longrightarrow> list_all is_ws w \<Longrightarrow> False"
  by (simp add: list_all_iff takeWhile_append2)

lemma squeeze_no_blank: "no_blank b (squeeze_blank b s)"
proof (induction b s rule: squeeze_blank.induct)
  case (2 b c cs)
  let ?s = "c # cs"
  show ?case
  proof (cases "b \<and> 10 \<in> set (takeWhile is_ws ?s)")
    case True
    let ?x = "squeeze_blank True (drop (blank_len ?s) ?s)"
    have eq: "squeeze_blank b ?s = 10 # ?x" using True by (simp only: squeeze_blank.simps if_True simp_thms)
    have "10 \<notin> set (takeWhile is_ws ?x)" using True blank_split [of ?s] squeeze_run by metis
    then have "w = []" if "10 # ?x = w @ 10 # q" "list_all is_ws w" for w q
      using that no_newline_run [of ?x] by (cases w) auto
    then show ?thesis unfolding eq using "2.IH"(1) True by (intro no_blank_push) simp_all
  next
    case False
    let ?x = "squeeze_blank (line_end c) cs"
    have eq: "squeeze_blank b ?s = c # ?x" using False by (simp only: squeeze_blank.simps if_False)
    have "10 \<notin> set (takeWhile is_ws (c # ?x))" if b using False that squeeze_run [of ?s b] unfolding eq by simp
    then show ?thesis unfolding eq using "2.IH"(2) False no_newline_run by (intro no_blank_push) blast+
  qed
qed (simp add: no_blank_def)

lemma no_blank_Cons: "no_blank b (c # cs) \<Longrightarrow> no_blank (line_end c) cs"
  unfolding no_blank_def
  by (intro allI impI, elim conjE) (metis append_Cons last_ConsL last_ConsR list.discI)

lemma squeeze_id: "no_blank b s \<Longrightarrow> squeeze_blank b s = s"
proof (induction b s rule: squeeze_blank.induct)
  case (2 b c cs)
  let ?s = "c # cs"
  note tl = no_blank_Cons [OF "2.prems"]
  show ?case
  proof (cases "b \<and> 10 \<in> set (takeWhile is_ws ?s)")
    case True
    then obtain w where w: "take (blank_len ?s) ?s = w @ [10]" "list_all is_ws w" using blank_split by blast
    then have s: "?s = w @ 10 # drop (blank_len ?s) ?s" by (metis append.assoc append_Cons append_Nil append_take_drop_id)
    have "w = []" using "2.prems" True w(2) s unfolding no_blank_def by (metis append_Nil)
    then have "c = 10" "drop (blank_len ?s) ?s = cs" using s by (metis append_Nil list.inject)+
    then show ?thesis using True tl "2.IH"(1) by (simp add: squeeze_blank.simps)
  next
    case False
    then show ?thesis using tl "2.IH"(2) by (simp only: squeeze_blank.simps if_False simp_thms)
  qed
qed simp

lemma no_blank_prefix: "no_blank b (s @ t) \<Longrightarrow> no_blank b s"
  unfolding no_blank_def by (metis append.assoc append_Cons)

lemma strip_final_prefix: "\<exists>n. s = strip_final_newlines s @ replicate n 10"
proof -
  have "rev s = takeWhile (\<lambda>c. c = 10) (rev s) @ dropWhile (\<lambda>c. c = 10) (rev s)" by simp
  then have "s = strip_final_newlines s @ rev (takeWhile (\<lambda>c. c = 10) (rev s))"
    by (metis rev_append rev_rev_ident strip_final_newlines_def)
  moreover have "rev (takeWhile (\<lambda>c. c = 10) (rev s)) = replicate (length (takeWhile (\<lambda>c. c = 10) (rev s))) 10"
    by (intro replicate_eqI) (auto dest: set_takeWhileD)
  ultimately show ?thesis by metis
qed

lemma strip_final_last: "strip_final_newlines s \<noteq> [] \<Longrightarrow> last (strip_final_newlines s) \<noteq> 10"
  using hd_dropWhile [of "\<lambda>c. c = 10" "rev s"] by (simp add: strip_final_newlines_def last_rev)

lemma clip_text_spec:
  "filter (\<lambda>c. \<not> is_ws c) (clip_text s) = filter (\<lambda>c. \<not> is_ws c) s \<and>
   (clip_text s \<noteq> [] \<longrightarrow> last (clip_text s) \<noteq> 10) \<and> no_blank True (clip_text s) \<and>
   (no_blank True s \<longrightarrow> (\<exists>n. s = clip_text s @ replicate n 10))"
proof -
  obtain n where n: "squeeze_blank True s = clip_text s @ replicate n 10"
    using strip_final_prefix unfolding clip_text_def by blast
  have "filter (\<lambda>c. \<not> is_ws c) (clip_text s) = filter (\<lambda>c. \<not> is_ws c) (clip_text s @ replicate n 10)"
    by simp
  also have "\<dots> = filter (\<lambda>c. \<not> is_ws c) s" using squeeze_keeps_text [of True s] n by simp
  finally have kept: "filter (\<lambda>c. \<not> is_ws c) (clip_text s) = filter (\<lambda>c. \<not> is_ws c) s" .
  have "no_blank True (clip_text s)" using squeeze_no_blank [of True s] unfolding n by (rule no_blank_prefix)
  moreover have "no_blank True s \<longrightarrow> (\<exists>n. s = clip_text s @ replicate n 10)" using n squeeze_id [of True s] by metis
  moreover have "clip_text s \<noteq> [] \<longrightarrow> last (clip_text s) \<noteq> 10" unfolding clip_text_def by (rule impI, rule strip_final_last)
  ultimately show ?thesis using kept by blast
qed

section \<open>Pages with listings\<close>

text \<open>An element with what the scripts look at: the class attribute as it is written, the inline style, the markers of a
  fold, the handler of a click and the address of a link.\<close>

record l_elt =
  l_tag :: jsstr
  l_ident :: "jsstr option"
  l_class :: jsstr
  l_style :: "(jsstr \<times> jsstr) list"
  l_start :: "jsstr option"
  l_end :: "jsstr option"
  l_onclick :: jsstr
  l_href :: jsstr

datatype listing = LText jsstr | LElem (l_elem: l_elt) (l_kids: "listing list")

definition l_new :: "jsstr \<Rightarrow> jsstr \<Rightarrow> l_elt" where
  "l_new t c = \<lparr>l_tag = t, l_ident = None, l_class = c, l_style = [], l_start = None, l_end = None, l_onclick = [], l_href = []\<rparr>"

definition has_token :: "jsstr \<Rightarrow> l_elt \<Rightarrow> bool" where
  "has_token c e \<longleftrightarrow> c \<in> set (split_at_char 32 (l_class e))"

fun l_text :: "listing \<Rightarrow> jsstr" where
  "l_text (LText s) = s"
| "l_text (LElem e cs) = concat (map l_text cs)"

section \<open>Copy buttons\<close>

text \<open>\<^verbatim>\<open>content.querySelectorAll(".lineno, .ttc, .foldclosed")\<close> with \<open>remove\<close>, on the descendants of the clone.\<close>

definition clip_unwanted :: "listing \<Rightarrow> bool" where
  "clip_unwanted h = (case h of LText _ \<Rightarrow> False
     | LElem e _ \<Rightarrow> has_token (js ''lineno'') e \<or> has_token (js ''ttc'') e \<or> has_token (js ''foldclosed'') e)"

fun clip_strip :: "listing \<Rightarrow> listing" where
  "clip_strip (LText s) = LText s"
| "clip_strip (LElem e cs) = LElem e (map clip_strip (filter (\<lambda>c. \<not> clip_unwanted c) cs))"

text \<open>The button is the first child of its fragment; its picture has no text.\<close>

definition clipboard_div :: listing where
  "clipboard_div = LElem (l_new (js ''div'') (js ''clipboard'')) []"

fun add_clipboards :: "listing \<Rightarrow> listing" where
  "add_clipboards (LText s) = LText s"
| "add_clipboards (LElem e cs) =
     LElem e ((if has_token (js ''fragment'') e then [clipboard_div] else []) @ map add_clipboards cs)"

definition init_clipboard :: "bool \<Rightarrow> listing \<Rightarrow> listing" where
  "init_clipboard has_clipboard page = (if has_clipboard then add_clipboards page else page)"

text \<open>The click handler, with the fragment at the time of the click; the callback of its timer is \<open>success_over\<close>.\<close>

definition clip_click :: "listing \<Rightarrow> copy_button \<Rightarrow> copy_button" where
  "clip_click parentNode b =
     b\<lparr>clipboard := clip_text (l_text (clip_strip parentNode)), btn_class := add_class (js ''success'') (btn_class b),
       btn_icon := successIcon, btn_timers := snd (setTimeout () (btn_timers b))\<rparr>"

section \<open>codefold.init\<close>

definition set_css :: "jsstr \<Rightarrow> jsstr \<Rightarrow> l_elt \<Rightarrow> l_elt" where
  "set_css k v e = e\<lparr>l_style := (k, v) # filter (\<lambda>x. fst x \<noteq> k) (l_style e)\<rparr>"

definition lineno_css :: "l_elt \<Rightarrow> l_elt" where
  "lineno_css e = fold (\<lambda>(k, v). set_css k v)
     [(js ''padding-right'', js ''4px''), (js ''margin-right'', js ''2px''), (js ''display'', js ''inline-block''),
      (js ''width'', js ''54px''),
      (js ''background'', js ''linear-gradient(var(--fold-line-color),var(--fold-line-color)) no-repeat 46px/2px 100%'')] e"

definition fold_span :: listing where
  "fold_span = LElem (l_new (js ''span'') (js ''fold'')) []"

definition relPath_str :: "bool \<Rightarrow> jsstr" where
  "relPath_str relPath = (if relPath then js ''1'' else js ''0'')"

definition fold_all_span :: "bool \<Rightarrow> listing" where
  "fold_all_span relPath = LElem ((l_new (js ''span'') (js ''fold''))\<lparr>l_ident := Some (js ''fold_all''),
     l_onclick := js ''javascript:codefold.toggle_all('' @ relPath_str relPath @ js '');'',
     l_style := [(js ''background-image'', minusImg relPath)]\<rparr>) []"

definition toggle_call :: "jsstr \<Rightarrow> jsstr" where
  "toggle_call i = js ''javascript:codefold.toggle('' @ 39 # i @ 39 # js '')''"

definition fold_control :: "bool \<Rightarrow> jsstr \<Rightarrow> l_elt" where
  "fold_control relPath i = (l_new (js ''span'') (js ''fold''))\<lparr>l_onclick := toggle_call i @ js '';'',
     l_style := [(js ''background-image'', minusImg relPath)]\<rparr>"

text \<open>\<^verbatim>\<open>span[class=c]\<close> compares the whole attribute.\<close>

definition is_span :: "jsstr \<Rightarrow> l_elt \<Rightarrow> bool" where
  "is_span c e \<longleftrightarrow> l_tag e = js ''span'' \<and> l_class e = c"

definition is_foldopen :: "l_elt \<Rightarrow> bool" where
  "is_foldopen e \<longleftrightarrow> l_tag e = js ''div'' \<and> l_class e = js ''foldopen''"

text \<open>The line numbers in the order of the document: the first gets the switch for all blocks, the others a line.\<close>

fun mark_lines :: "bool \<Rightarrow> bool \<Rightarrow> listing list \<Rightarrow> bool \<times> listing list" where
  "mark_lines relPath seen [] = (seen, [])"
| "mark_lines relPath seen (LText s # xs) = (case mark_lines relPath seen xs of (seen1, xs1) \<Rightarrow> (seen1, LText s # xs1))"
| "mark_lines relPath seen (LElem e cs # xs) =
     (let no = is_span (js ''lineno'') e in
      case mark_lines relPath (seen \<or> no) cs of (seen1, cs1) \<Rightarrow>
      case mark_lines relPath seen1 xs of (seen2, xs1) \<Rightarrow>
        (seen2, (if no then LElem (lineno_css e) (cs1 @ [if seen then fold_span else fold_all_span relPath]) else LElem e cs1) # xs1))"

text \<open>\<^verbatim>\<open>find('span[class=fold]:first').replaceWith\<close>, and whether there was one.\<close>

fun replace_fold :: "l_elt \<Rightarrow> listing list \<Rightarrow> bool \<times> listing list" where
  "replace_fold new [] = (False, [])"
| "replace_fold new (LText s # xs) = (case replace_fold new xs of (b, xs1) \<Rightarrow> (b, LText s # xs1))"
| "replace_fold new (LElem e cs # xs) =
     (if is_span (js ''fold'') e then (True, LElem new [] # xs)
      else case replace_fold new cs of (b, cs1) \<Rightarrow>
        if b then (True, LElem e cs1 # xs)
        else case replace_fold new xs of (b1, xs1) \<Rightarrow> (b1, LElem e cs # xs1))"

text \<open>The line that stands for a folded block: a copy of the first line, without the start marker at its end, with the ellipsis
  and the end marker. The marker is cut from the markup of the line by a regular expression; the generator writes
  \<^verbatim>\<open>{\<close>, which stands for itself and occurs at the end of the markup only at the end of a text. A space that the markup writes as an
  entity is not matched.\<close>

definition html_ws :: "nat \<Rightarrow> bool" where
  "html_ws c \<longleftrightarrow> is_ws c \<and> c \<noteq> 160"

definition strip_end_ws :: "jsstr \<Rightarrow> jsstr" where
  "strip_end_ws s = rev (dropWhile html_ws (rev s))"

definition cut_marker :: "jsstr \<Rightarrow> jsstr \<Rightarrow> jsstr" where
  "cut_marker start s =
     (let u = strip_end_ws s in
      if length start \<le> length u \<and> drop (length u - length start) u = start
      then strip_end_ws (take (length u - length start) u) else s)"

definition cut_last_text :: "jsstr \<Rightarrow> listing list \<Rightarrow> listing list" where
  "cut_last_text start cs =
     (case rev cs of
        LText s # xs \<Rightarrow> (let t = cut_marker start s in rev xs @ (if t = [] then [] else [LText t]))
      | _ \<Rightarrow> cs)"

text \<open>\<open>removeClass\<close> writes the remaining names back with single spaces.\<close>

definition remove_token :: "jsstr \<Rightarrow> l_elt \<Rightarrow> l_elt" where
  "remove_token c e = e\<lparr>l_class :=
     drop 1 (concat (map (\<lambda>t. 32 # t) (filter (\<lambda>t. t \<noteq> [] \<and> t \<noteq> c) (split_at_char 32 (l_class e)))))\<rparr>"

fun set_plus :: "bool \<Rightarrow> listing \<Rightarrow> listing" where
  "set_plus relPath (LText s) = LText s"
| "set_plus relPath (LElem e cs) =
     LElem (if is_span (js ''fold'') e then set_css (js ''background-image'') (plusImg relPath) e else e) (map (set_plus relPath) cs)"

definition undef_str :: "jsstr option \<Rightarrow> jsstr" where
  "undef_str x = (case x of None \<Rightarrow> js ''undefined'' | Some s \<Rightarrow> s)"

definition ellipsis_link :: "jsstr \<Rightarrow> listing" where
  "ellipsis_link i = LElem ((l_new (js ''a'') [])\<lparr>l_href := toggle_call i\<rparr>) [LText [8230]]"

definition folded_line :: "bool \<Rightarrow> jsstr \<Rightarrow> jsstr option \<Rightarrow> jsstr option \<Rightarrow> l_elt \<Rightarrow> listing list \<Rightarrow> listing" where
  "folded_line relPath i start stop e cs =
     LElem (remove_token (js ''glow'') e)
       (map (set_plus relPath) (case start of None \<Rightarrow> cs | Some m \<Rightarrow> if m = [] then cs else cut_last_text m cs) @
        [LText (32 # undef_str start), ellipsis_link i] @ (if undef_str stop = [] then [] else [LText (undef_str stop)]))"

text \<open>A block without a line: reading the markup of nothing and cutting from it raises.\<close>

definition folded_content ::
  "bool \<Rightarrow> jsstr \<Rightarrow> jsstr option \<Rightarrow> jsstr option \<Rightarrow> listing list \<Rightarrow> listing list js_result" where
  "folded_content relPath i start stop cs =
     (case find (\<lambda>c. case c of LText _ \<Rightarrow> False | LElem _ _ \<Rightarrow> True) cs of
        Some (LElem e ls) \<Rightarrow> Inr [folded_line relPath i start stop e ls]
      | _ \<Rightarrow> if start = None \<or> start = Some [] then Inr [] else Inl TypeError)"

definition fold_id_of :: "jsstr \<Rightarrow> jsstr" where
  "fold_id_of i = (case indexOf i (js ''foldopen'') of None \<Rightarrow> i | Some k \<Rightarrow> take k i @ drop (k + 8) i)"

definition closed_elt :: "jsstr \<Rightarrow> l_elt" where
  "closed_elt i = (l_new (js ''div'') (js ''foldclosed''))\<lparr>l_ident := Some (js ''foldclosed'' @ i),
     l_style := [(js ''display'', js ''none'')]\<rparr>"

fun l_nodes :: "listing list \<Rightarrow> nat" where
  "l_nodes [] = 0"
| "l_nodes (LText s # xs) = Suc (l_nodes xs)"
| "l_nodes (LElem e cs # xs) = Suc (l_nodes cs + l_nodes xs)"

lemma replace_fold_nodes: "l_nodes (snd (replace_fold new xs)) \<le> l_nodes xs"
  by (induction new xs rule: replace_fold.induct) (auto split: prod.splits)

text \<open>The blocks in the order of the document, an outer one before those in it. Their identifiers are distinct, since the generator
  numbers them by lines: \<^verbatim>\<open>#foldclosed<id>\<close> is the element just made.\<close>

function open_folds :: "bool \<Rightarrow> listing list \<Rightarrow> listing list js_result" where
  "open_folds relPath [] = Inr []"
| "open_folds relPath (LText s # xs) = js_bind (open_folds relPath xs) (\<lambda>xs1. Inr (LText s # xs1))"
| "open_folds relPath (LElem e cs # xs) =
     (if is_foldopen e then
        case l_ident e of
          None \<Rightarrow> Inl TypeError
        | Some i \<Rightarrow>
            js_bind (folded_content relPath (fold_id_of i) (l_start e) (l_end e) (snd (replace_fold (fold_control relPath (fold_id_of i)) cs)))
              (\<lambda>line.
            js_bind (open_folds relPath (snd (replace_fold (fold_control relPath (fold_id_of i)) cs))) (\<lambda>cs1.
            js_bind (open_folds relPath xs) (\<lambda>xs1. Inr (LElem e cs1 # LElem (closed_elt (fold_id_of i)) line # xs1))))
      else js_bind (open_folds relPath cs) (\<lambda>cs1. js_bind (open_folds relPath xs) (\<lambda>xs1. Inr (LElem e cs1 # xs1))))"
  by pat_completeness auto
termination
  by (relation "measure (\<lambda>(r, xs). l_nodes xs)") (use replace_fold_nodes in \<open>auto simp: less_Suc_eq_le intro: trans_le_add1\<close>)

definition codefold_init :: "bool \<Rightarrow> listing list \<Rightarrow> listing list js_result" where
  "codefold_init relPath doc = open_folds relPath (snd (mark_lines relPath False doc))"

section \<open>Folding and copying\<close>

text \<open>The text that is copied from a list of nodes.\<close>

definition kept_text :: "listing list \<Rightarrow> jsstr" where
  "kept_text xs = concat (map (\<lambda>x. l_text (clip_strip x)) (filter (\<lambda>c. \<not> clip_unwanted c) xs))"

lemma kept_text_simps [simp]:
  "kept_text [] = []" "kept_text (LText s # xs) = s @ kept_text xs"
  "kept_text (LElem e cs # xs) = (if clip_unwanted (LElem e cs) then [] else kept_text cs) @ kept_text xs"
  "kept_text (xs @ ys) = kept_text xs @ kept_text ys"
  by (simp_all add: kept_text_def clip_unwanted_def comp_def)

lemma l_text_strip: "l_text (clip_strip (LElem e cs)) = kept_text cs"
  by (simp add: kept_text_def comp_def)

text \<open>Outside of what is removed, nothing looks like a fold mark.\<close>

fun no_fold_marks :: "listing list \<Rightarrow> bool" where
  "no_fold_marks [] = True"
| "no_fold_marks (LText s # xs) = no_fold_marks xs"
| "no_fold_marks (LElem e cs # xs) =
     ((clip_unwanted (LElem e cs) \<or> \<not> is_span (js ''fold'') e \<and> no_fold_marks cs) \<and> no_fold_marks xs)"

lemma class_tokens:
  "l_class e = js ''lineno'' \<Longrightarrow> clip_unwanted (LElem e cs)" "l_class e = js ''foldclosed'' \<Longrightarrow> clip_unwanted (LElem e cs)"
  "l_class e = js ''fold'' \<Longrightarrow> \<not> clip_unwanted (LElem e cs)" "l_class e = js ''foldopen'' \<Longrightarrow> \<not> clip_unwanted (LElem e cs)"
  "l_class e = js ''clipboard'' \<Longrightarrow> \<not> clip_unwanted (LElem e cs)"
  by (simp_all add: clip_unwanted_def has_token_def js_def)

lemma unwanted_same_class: "l_class e = l_class f \<Longrightarrow> clip_unwanted (LElem e cs) = clip_unwanted (LElem f ds)"
  by (simp add: clip_unwanted_def has_token_def)

lemma lineno_css_class [simp]: "l_class (lineno_css e) = l_class e"
  by (simp add: lineno_css_def set_css_def)

lemma span_lineno_unwanted: "is_span (js ''lineno'') e \<Longrightarrow> clip_unwanted (LElem e cs)"
  by (simp add: is_span_def class_tokens)

lemma mark_lines_keeps:
  "kept_text (snd (mark_lines r seen xs)) = kept_text xs \<and> (no_fold_marks xs \<longrightarrow> no_fold_marks (snd (mark_lines r seen xs)))"
proof (induction r seen xs rule: mark_lines.induct)
  case (3 r seen e cs xs)
  let ?no = "is_span (js ''lineno'') e"
  obtain b1 cs1 where cs: "mark_lines r (seen \<or> ?no) cs = (b1, cs1)" by fastforce
  obtain b2 xs1 where xs: "mark_lines r b1 xs = (b2, xs1)" by fastforce
  have ih: "kept_text cs1 = kept_text cs" "no_fold_marks cs \<longrightarrow> no_fold_marks cs1"
    "kept_text xs1 = kept_text xs" "no_fold_marks xs \<longrightarrow> no_fold_marks xs1"
    using "3.IH"(1) [OF refl] "3.IH"(2) [OF refl cs [symmetric]] cs xs by simp_all
  have u: "clip_unwanted (LElem e cs1) = clip_unwanted (LElem e cs)" by (rule unwanted_same_class) simp
  have v: "?no \<Longrightarrow> clip_unwanted (LElem (lineno_css e) ds)" for ds
    using unwanted_same_class [of "lineno_css e" e] span_lineno_unwanted [of e ds] by (metis lineno_css_class)
  have "snd (mark_lines r seen (LElem e cs # xs)) =
      (if ?no then LElem (lineno_css e) (cs1 @ [if seen then fold_span else fold_all_span r]) else LElem e cs1) # xs1"
    by (simp add: cs xs Let_def)
  then show ?case
    using ih u v span_lineno_unwanted [of e cs] by (cases ?no) simp_all
qed (auto split: prod.splits)

lemma replace_fold_keeps:
  "no_fold_marks xs \<Longrightarrow> kept_text (snd (replace_fold new xs)) = kept_text xs \<and> no_fold_marks (snd (replace_fold new xs))"
proof (induction new xs rule: replace_fold.induct)
  case (3 new e cs xs)
  obtain b cs1 where cs: "replace_fold new cs = (b, cs1)" by fastforce
  obtain b1 xs1 where xs: "replace_fold new xs = (b1, xs1)" by fastforce
  have nf: "\<not> is_span (js ''fold'') e" using "3.prems" class_tokens(3) [of e] by (auto simp: is_span_def)
  have u: "clip_unwanted (LElem e cs1) = clip_unwanted (LElem e cs)" by (rule unwanted_same_class) simp
  show ?case
  proof (cases b)
    case True
    then show ?thesis using "3.IH"(1) [OF nf] "3.prems" nf u by (auto simp: cs)
  next
    case False
    then show ?thesis using "3.IH"(2) [OF nf cs [symmetric] False] "3.prems" nf by (auto simp: cs xs)
  qed
qed (auto split: prod.splits)

lemma js_bind_Inr: "js_bind a f = Inr y \<longleftrightarrow> (\<exists>x. a = Inr x \<and> f x = Inr y)"
  by (cases a) auto

lemma open_folds_keeps: "no_fold_marks xs \<Longrightarrow> open_folds r xs = Inr ys \<Longrightarrow> kept_text ys = kept_text xs"
proof (induction r xs arbitrary: ys rule: open_folds.induct)
  case (3 r e cs xs)
  have closed: "clip_unwanted (LElem (closed_elt i) ls)" for i ls
    by (rule class_tokens(2)) (simp add: closed_elt_def l_new_def)
  show ?case
  proof (cases "is_foldopen e")
    case True
    with "3.prems"(2) obtain i line cs1 xs1 where i: "l_ident e = Some i"
      "open_folds r (snd (replace_fold (fold_control r (fold_id_of i)) cs)) = Inr cs1" "open_folds r xs = Inr xs1"
      "ys = LElem e cs1 # LElem (closed_elt (fold_id_of i)) line # xs1"
      by (auto simp: js_bind_Inr split: option.splits)
    have "\<not> clip_unwanted (LElem e cs)" "\<not> clip_unwanted (LElem e cs1)" for cs
      using True class_tokens(4) by (simp_all add: is_foldopen_def)
    moreover from this have "no_fold_marks cs" using "3.prems"(1) by simp
    note rep = replace_fold_keeps [OF this, of "fold_control r (fold_id_of i)"]
    ultimately show ?thesis
      using "3.IH"(1) [OF True i(1) _ i(2)] "3.IH"(2) [OF True i(1) _ i(3)] rep closed "3.prems"(1) by (simp add: i(4))
  next
    case False
    with "3.prems"(2) obtain cs1 xs1 where i: "open_folds r cs = Inr cs1" "open_folds r xs = Inr xs1" "ys = LElem e cs1 # xs1"
      by (auto simp: js_bind_Inr)
    have "clip_unwanted (LElem e cs1) = clip_unwanted (LElem e cs)" by (rule unwanted_same_class) simp
    then show ?thesis
      using "3.IH"(3) [OF False _ i(1)] "3.IH"(4) [OF False _ i(2)] "3.prems"(1) by (auto simp: i(3))
  qed
qed (auto simp: js_bind_Inr)

text \<open>The generator's blocks have an identifier and a line.\<close>

fun folds_wf :: "listing list \<Rightarrow> bool" where
  "folds_wf [] = True"
| "folds_wf (LText s # xs) = folds_wf xs"
| "folds_wf (LElem e cs # xs) =
     ((is_foldopen e \<longrightarrow> l_ident e \<noteq> None \<and> list_ex (\<lambda>c. case c of LText _ \<Rightarrow> False | LElem _ _ \<Rightarrow> True) cs) \<and>
      folds_wf cs \<and> folds_wf xs)"

abbreviation has_elem :: "listing list \<Rightarrow> bool" where
  "has_elem \<equiv> list_ex (\<lambda>c. case c of LText _ \<Rightarrow> False | LElem _ _ \<Rightarrow> True)"

lemma div_not_span: "js ''div'' \<noteq> js ''span''"
  by (simp add: js_inj)

lemma mark_lines_wf:
  "folds_wf xs \<Longrightarrow> folds_wf (snd (mark_lines r seen xs)) \<and> has_elem (snd (mark_lines r seen xs)) = has_elem xs"
proof (induction r seen xs rule: mark_lines.induct)
  case (3 r seen e cs xs)
  let ?no = "is_span (js ''lineno'') e"
  obtain b1 cs1 where cs: "mark_lines r (seen \<or> ?no) cs = (b1, cs1)" by fastforce
  obtain b2 xs1 where xs: "mark_lines r b1 xs = (b2, xs1)" by fastforce
  have app: "folds_wf (ys @ zs) \<longleftrightarrow> folds_wf ys \<and> folds_wf zs" for ys zs by (induction ys rule: folds_wf.induct) auto
  have leaf: "folds_wf [fold_span]" "folds_wf [fold_all_span r]" "?no \<Longrightarrow> \<not> is_foldopen e \<and> \<not> is_foldopen (lineno_css e)"
    using div_not_span by (auto simp: fold_span_def fold_all_span_def l_new_def is_foldopen_def is_span_def lineno_css_def set_css_def)
  have eq: "snd (mark_lines r seen (LElem e cs # xs)) =
      (if ?no then LElem (lineno_css e) (cs1 @ [if seen then fold_span else fold_all_span r]) else LElem e cs1) # xs1"
    by (simp add: cs xs Let_def)
  have "folds_wf cs1 \<and> has_elem cs1 = has_elem cs" "folds_wf xs1 \<and> has_elem xs1 = has_elem xs"
    using "3.IH"(1) [OF refl] "3.IH"(2) [OF refl cs [symmetric]] "3.prems" cs xs by simp_all
  then show ?case
    unfolding eq using "3.prems" leaf by (cases ?no) (auto simp: app)
qed (auto split: prod.splits)

lemma replace_fold_wf:
  "l_tag new = js ''span'' \<Longrightarrow> folds_wf xs \<Longrightarrow>
   folds_wf (snd (replace_fold new xs)) \<and> has_elem (snd (replace_fold new xs)) = has_elem xs"
proof (induction new xs rule: replace_fold.induct)
  case (3 new e cs xs)
  obtain b cs1 where cs: "replace_fold new cs = (b, cs1)" by fastforce
  obtain b1 xs1 where xs: "replace_fold new xs = (b1, xs1)" by fastforce
  have "\<not> is_foldopen new" using "3.prems"(1) div_not_span by (simp add: is_foldopen_def)
  then show ?case
    using 3 by (cases "is_span (js ''fold'') e"; cases b) (auto simp: cs xs)
qed (auto split: prod.splits)

lemma open_folds_total: "folds_wf xs \<Longrightarrow> \<exists>ys. open_folds r xs = Inr ys"
proof (induction r xs rule: open_folds.induct)
  case (3 r e cs xs)
  show ?case
  proof (cases "is_foldopen e")
    case True
    then obtain i where i: "l_ident e = Some i" using "3.prems" by auto
    let ?cs = "snd (replace_fold (fold_control r (fold_id_of i)) cs)"
    have tag: "l_tag (fold_control r (fold_id_of i)) = js ''span''" by (simp add: fold_control_def l_new_def)
    have "folds_wf ?cs" "has_elem ?cs"
      using replace_fold_wf [OF tag, of cs] "3.prems" True by auto
    moreover have "\<exists>line. folded_content r (fold_id_of i) (l_start e) (l_end e) ?cs = Inr line"
    proof -
      let ?el = "\<lambda>c. case c of LText _ \<Rightarrow> False | LElem _ _ \<Rightarrow> True"
      obtain c where c: "find ?el ?cs = Some c"
        using \<open>has_elem ?cs\<close> by (cases "find ?el ?cs") (auto simp: find_None_iff list_ex_iff)
      then have "?el c" by (auto simp: find_Some_iff)
      with c show ?thesis by (cases c) (simp_all add: folded_content_def)
    qed
    ultimately show ?thesis
      using "3.IH"(1) [OF True i] "3.IH"(2) [OF True i] "3.prems" True i by auto
  next
    case False
    then show ?thesis using "3.IH"(3,4) "3.prems" by auto
  qed
qed auto

lemma add_clipboards_keeps:
  "kept_text (map add_clipboards xs) = kept_text xs" "no_fold_marks xs \<Longrightarrow> no_fold_marks (map add_clipboards xs)"
  "folds_wf xs \<Longrightarrow> folds_wf (map add_clipboards xs) \<and> has_elem (map add_clipboards xs) = has_elem xs"
proof -
  have b: "kept_text (clipboard_div # ys) = kept_text ys" "no_fold_marks (clipboard_div # ys) = no_fold_marks ys"
    "folds_wf (clipboard_div # ys) = folds_wf ys" "has_elem (clipboard_div # ys)" for ys
    by (simp_all add: clipboard_div_def l_new_def is_span_def is_foldopen_def js_inj)
  have u: "clip_unwanted (LElem e ds) = clip_unwanted (LElem e [])" for e ds by (rule unwanted_same_class) simp
  have "kept_text (map add_clipboards xs) = kept_text xs \<and> (no_fold_marks xs \<longrightarrow> no_fold_marks (map add_clipboards xs)) \<and>
    (folds_wf xs \<longrightarrow> folds_wf (map add_clipboards xs) \<and> has_elem (map add_clipboards xs) = has_elem xs)"
  proof (induction xs rule: l_nodes.induct)
    case (3 e cs xs)
    then show ?case
      by (cases "has_token (js ''fragment'') e") (auto simp: b u [of e "clipboard_div # map add_clipboards cs"]
          u [of e "map add_clipboards cs"] u [of e cs])
  qed auto
  then show "kept_text (map add_clipboards xs) = kept_text xs" "no_fold_marks xs \<Longrightarrow> no_fold_marks (map add_clipboards xs)"
    "folds_wf xs \<Longrightarrow> folds_wf (map add_clipboards xs) \<and> has_elem (map add_clipboards xs) = has_elem xs"
    by blast+
qed

section \<open>The blocks after the set-up\<close>

definition l_shown :: "l_elt \<Rightarrow> bool" where
  "l_shown e \<longleftrightarrow> map_of (l_style e) (js ''display'') \<noteq> Some (js ''none'')"

definition block_id :: "l_elt \<Rightarrow> jsstr" where
  "block_id e = fold_id_of (case l_ident e of None \<Rightarrow> [] | Some i \<Rightarrow> i)"

text \<open>The blocks of a page, and each with what follows it: the identifier of the next element and whether they are displayed.
  Copies of lines are not looked into.\<close>

fun open_ids :: "listing list \<Rightarrow> jsstr list" where
  "open_ids [] = []"
| "open_ids (LText s # xs) = open_ids xs"
| "open_ids (LElem e cs # xs) = (if is_foldopen e then [block_id e] else []) @ open_ids cs @ open_ids xs"

definition next_elem :: "listing list \<Rightarrow> (jsstr option \<times> bool) option" where
  "next_elem xs = (case xs of LElem f _ # _ \<Rightarrow> Some (l_ident f, l_shown f) | _ \<Rightarrow> None)"

fun fold_view :: "listing list \<Rightarrow> (jsstr \<times> bool \<times> (jsstr option \<times> bool) option) list" where
  "fold_view [] = []"
| "fold_view (LText s # xs) = fold_view xs"
| "fold_view (LElem e cs # xs) =
     (if is_foldopen e then [(block_id e, l_shown e, next_elem xs)] else []) @
     (if l_class e = js ''foldclosed'' then [] else fold_view cs) @ fold_view xs"

text \<open>A page as the generator writes it: no folded copies, all blocks displayed, and no marks with something in them.\<close>

fun unfolded_page :: "listing list \<Rightarrow> bool" where
  "unfolded_page [] = True"
| "unfolded_page (LText s # xs) = unfolded_page xs"
| "unfolded_page (LElem e cs # xs) =
     (l_class e \<noteq> js ''foldclosed'' \<and> (is_foldopen e \<longrightarrow> l_shown e) \<and> (is_span (js ''fold'') e \<longrightarrow> cs = []) \<and>
      unfolded_page cs \<and> unfolded_page xs)"

lemma unfolded_append:
  "unfolded_page (xs @ ys) \<longleftrightarrow> unfolded_page xs \<and> unfolded_page ys" "open_ids (xs @ ys) = open_ids xs @ open_ids ys"
  by (induction xs rule: unfolded_page.induct) auto

lemma mark_lines_blocks:
  "unfolded_page xs \<Longrightarrow> unfolded_page (snd (mark_lines r seen xs)) \<and> open_ids (snd (mark_lines r seen xs)) = open_ids xs"
proof (induction r seen xs rule: mark_lines.induct)
  case (3 r seen e cs xs)
  let ?no = "is_span (js ''lineno'') e"
  obtain b1 cs1 where cs: "mark_lines r (seen \<or> ?no) cs = (b1, cs1)" by fastforce
  obtain b2 xs1 where xs: "mark_lines r b1 xs = (b2, xs1)" by fastforce
  have eq: "snd (mark_lines r seen (LElem e cs # xs)) =
      (if ?no then LElem (lineno_css e) (cs1 @ [if seen then fold_span else fold_all_span r]) else LElem e cs1) # xs1"
    by (simp add: cs xs Let_def)
  have leaf: "unfolded_page [if seen then fold_span else fold_all_span r]" "open_ids [if seen then fold_span else fold_all_span r] = []"
    by (simp_all add: fold_span_def fold_all_span_def l_new_def is_foldopen_def js_inj)
  have no: "?no \<Longrightarrow> \<not> is_foldopen e \<and> \<not> is_foldopen (lineno_css e) \<and> \<not> is_span (js ''fold'') (lineno_css e) \<and> l_class e \<noteq> js ''foldclosed''"
    by (auto simp: is_foldopen_def is_span_def js_inj lineno_css_def set_css_def)
  have ih: "unfolded_page cs1" "open_ids cs1 = open_ids cs" "unfolded_page xs1" "open_ids xs1 = open_ids xs"
    using "3.IH"(1) [OF refl] "3.IH"(2) [OF refl cs [symmetric]] "3.prems" cs xs by simp_all
  have nil: "cs = [] \<Longrightarrow> cs1 = []" using cs by auto
  show ?case
    unfolding eq using "3.prems" ih leaf no nil by (cases ?no) (auto simp: unfolded_append)
qed (auto split: prod.splits)

lemma replace_fold_blocks:
  "l_tag new = js ''span'' \<Longrightarrow> l_class new = js ''fold'' \<Longrightarrow> unfolded_page xs \<Longrightarrow>
   unfolded_page (snd (replace_fold new xs)) \<and> open_ids (snd (replace_fold new xs)) = open_ids xs"
proof (induction new xs rule: replace_fold.induct)
  case (3 new e cs xs)
  obtain b cs1 where cs: "replace_fold new cs = (b, cs1)" by fastforce
  obtain b1 xs1 where xs: "replace_fold new xs = (b1, xs1)" by fastforce
  have new: "\<not> is_foldopen new" "l_class new \<noteq> js ''foldclosed''"
    using "3.prems"(1,2) by (simp_all add: is_foldopen_def js_inj)
  show ?case
  proof (cases "is_span (js ''fold'') e")
    case True
    then have "\<not> is_foldopen e" by (simp add: is_foldopen_def is_span_def js_inj)
    then show ?thesis using True "3.prems" new by auto
  next
    case False
    then show ?thesis using 3 by (cases b) (auto simp: cs xs)
  qed
qed (auto split: prod.splits)

lemma open_folds_view:
  "unfolded_page xs \<Longrightarrow> open_folds r xs = Inr ys \<Longrightarrow>
   fold_view ys = map (\<lambda>i. (i, True, Some (Some (js ''foldclosed'' @ i), False))) (open_ids xs)"
proof (induction r xs arbitrary: ys rule: open_folds.induct)
  case (3 r e cs xs)
  have closed: "l_class (closed_elt i) = js ''foldclosed''" "\<not> is_foldopen (closed_elt i)" "l_ident (closed_elt i) = Some (js ''foldclosed'' @ i)"
    "\<not> l_shown (closed_elt i)" for i
    by (simp_all add: closed_elt_def l_new_def is_foldopen_def l_shown_def js_inj)
  show ?case
  proof (cases "is_foldopen e")
    case True
    with "3.prems"(2) obtain i line cs1 xs1 where i: "l_ident e = Some i"
      "open_folds r (snd (replace_fold (fold_control r (fold_id_of i)) cs)) = Inr cs1" "open_folds r xs = Inr xs1"
      "ys = LElem e cs1 # LElem (closed_elt (fold_id_of i)) line # xs1"
      by (auto simp: js_bind_Inr split: option.splits)
    have "l_tag (fold_control r (fold_id_of i)) = js ''span''" "l_class (fold_control r (fold_id_of i)) = js ''fold''"
      by (simp_all add: fold_control_def l_new_def)
    note rep = replace_fold_blocks [OF this, of cs]
    show ?thesis
      using "3.IH"(1) [OF True i(1) _ i(2)] "3.IH"(2) [OF True i(1) _ i(3)] rep closed True i(1) "3.prems"(1)
      by (simp add: i(4) next_elem_def block_id_def)
  next
    case False
    with "3.prems"(2) obtain cs1 xs1 where i: "open_folds r cs = Inr cs1" "open_folds r xs = Inr xs1" "ys = LElem e cs1 # xs1"
      by (auto simp: js_bind_Inr)
    then show ?thesis
      using "3.IH"(3) [OF False _ i(1)] "3.IH"(4) [OF False _ i(2)] False "3.prems"(1) by auto
  qed
qed (auto simp: js_bind_Inr)

section \<open>The button\<close>

definition new_clip_button :: "jsstr \<Rightarrow> copy_button" where
  "new_clip_button clip = \<lparr>btn_class = [js ''clipboard''], btn_icon = copyIcon, clipboard = clip, btn_timers = no_timers\<rparr>"

fun clip_step :: "listing \<Rightarrow> copy_event \<Rightarrow> copy_button \<Rightarrow> copy_button" where
  "clip_step f Copy_click b = clip_click f b"
| "clip_step f (Copy_timer n) b = success_over n b"

lemma clip_run_ok: "button_ok b \<Longrightarrow> button_ok (fold (clip_step f) es b)"
proof (induction es arbitrary: b)
  case (Cons e es)
  then have "button_ok (clip_step f e b)"
    by (cases e) (simp_all add: clip_click_def show_success_ok success_over_ok)
  then show ?case using Cons.IH by simp
qed simp

lemma clip_run_text:
  "clipboard (fold (clip_step f) es b) = (if Copy_click \<in> set es then clip_text (l_text (clip_strip f)) else clipboard b)"
proof (induction es arbitrary: b)
  case (Cons e es)
  then show ?case by (cases e) (auto simp: clip_click_def success_over_def)
qed simp

section \<open>Properties\<close>

text \<open>
  C32. Copying a listing does not depend on its folding. A listing of the generator gets its copy button and then the marks and
  folded copies of \<open>codefold.init\<close>, which does not fail on it. A click on the button then copies the text the listing had
  before: line numbers with the marks in them and the folded copies are left out, and nothing else was changed.
\<close>

theorem copy_ignores_folding:
  assumes "l_tag e = js ''div''" and "l_class e = js ''fragment''" and "no_fold_marks cs" and "folds_wf cs"
  shows "\<exists>cs'. codefold_init r [init_clipboard True (LElem e cs)] = Inr [LElem e cs'] \<and>
    clipboard (clip_click (LElem e cs') b) = clip_text (l_text (clip_strip (LElem e cs)))"
proof -
  have e: "\<not> is_span c e" "\<not> is_foldopen e" for c using assms(1,2) by (simp_all add: is_span_def is_foldopen_def js_inj)
  define bs where "bs = l_kids (add_clipboards (LElem e cs))"
  have page: "init_clipboard True (LElem e cs) = LElem e bs" by (simp add: init_clipboard_def bs_def)
  have u: "\<not> clip_unwanted (LElem e ds)" for ds
    using assms(2) by (simp add: clip_unwanted_def has_token_def js_def)
  have bs: "kept_text bs = kept_text cs" "no_fold_marks bs" "folds_wf bs"
    using add_clipboards_keeps [of "[LElem e cs]"] assms(3,4) e u by (simp_all add: bs_def)
  obtain seen ms where ms: "mark_lines r False bs = (seen, ms)" by fastforce
  have m: "kept_text ms = kept_text cs" "no_fold_marks ms" "folds_wf ms"
    using mark_lines_keeps [of r False bs] mark_lines_wf [of bs r False] bs ms by simp_all
  then obtain cs' where cs': "open_folds r ms = Inr cs'" using open_folds_total by blast
  have "codefold_init r [init_clipboard True (LElem e cs)] = Inr [LElem e cs']"
    using e ms cs' by (simp add: codefold_init_def page Let_def)
  moreover have "kept_text cs' = kept_text cs" using open_folds_keeps [OF m(2) cs'] m(1) by simp
  ultimately show ?thesis by (simp add: clip_click_def l_text_strip del: clip_strip.simps)
qed

text \<open>A listing of two lines, the first of which opens a block with a brace.\<close>

definition lineno_elt :: "jsstr \<Rightarrow> listing" where
  "lineno_elt n = LElem (l_new (js ''span'') (js ''lineno'')) [LText n]"

definition example_block :: "listing list" where
  "example_block =
     [LElem ((l_new (js ''div'') (js ''foldopen''))\<lparr>l_ident := Some (js ''foldopen1''), l_start := Some (js ''{''), l_end := Some (js ''}'')\<rparr>)
       [LElem (l_new (js ''div'') (js ''line'')) [lineno_elt (js ''1''), LText (js ''f {'')], LText [10],
        LElem (l_new (js ''div'') (js ''line'')) [lineno_elt (js ''2''), LText (js ''}'')], LText [10]]]"

theorem copy_ignores_folding_witness:
  "\<exists>cs'. codefold_init False [init_clipboard True (LElem (l_new (js ''div'') (js ''fragment'')) example_block)] =
      Inr [LElem (l_new (js ''div'') (js ''fragment'')) cs'] \<and>
     clipboard (clip_click (LElem (l_new (js ''div'') (js ''fragment'')) cs') (new_clip_button [])) = js ''f {'' @ [10] @ js ''}''"
proof -
  let ?e = "l_new (js ''div'') (js ''fragment'')"
  have e: "l_tag ?e = js ''div''" "l_class ?e = js ''fragment''" by (simp_all add: l_new_def)
  have wf: "no_fold_marks example_block" "folds_wf example_block"
    by (simp_all add: example_block_def lineno_elt_def l_new_def is_span_def is_foldopen_def js_inj)
  have "kept_text example_block = js ''f {'' @ [10] @ js ''}'' @ [10]"
    by (simp add: example_block_def lineno_elt_def l_new_def clip_unwanted_def has_token_def js_def)
  moreover have "clip_text (js ''f {'' @ [10] @ js ''}'' @ [10]) = js ''f {'' @ [10] @ js ''}''"
    by (simp add: clip_text_def js_def squeeze_blank.simps blank_len_def is_ws_def line_end_def strip_final_newlines_def)
  ultimately show ?thesis
    using copy_ignores_folding [OF e wf, of False "new_clip_button []"] by (simp add: l_text_strip del: clip_strip.simps)
qed

text \<open>
  The text of the copy button of tinyxml2's pages. After any clicks and expiring timers, if there was a click, the clipboard
  holds all characters of the listing that are not white space, in order; it does not end in a newline; blank
  lines are empty and no two follow each other. A listing without such lines is copied as it is, but for newlines at the
  end. The button shows success only while a timer runs that will take it back.
\<close>

theorem copied_text_tidy:
  assumes "b = fold (clip_step f) es (new_clip_button clip)" and "Copy_click \<in> set es" and "s = l_text (clip_strip f)"
  shows "filter (\<lambda>c. \<not> is_ws c) (clipboard b) = filter (\<lambda>c. \<not> is_ws c) s \<and>
    (clipboard b \<noteq> [] \<longrightarrow> last (clipboard b) \<noteq> 10) \<and> no_blank True (clipboard b) \<and>
    (no_blank True s \<longrightarrow> (\<exists>n. s = clipboard b @ replicate n 10)) \<and>
    (btn_icon b = successIcon \<longleftrightarrow> js ''success'' \<in> set (btn_class b)) \<and>
    (timer_list (btn_timers b) = [] \<longrightarrow> btn_icon b = copyIcon)"
proof -
  have "button_ok (new_clip_button clip)" by (simp add: button_ok_def new_clip_button_def js_inj)
  then have ok: "button_ok b" unfolding assms(1) by (rule clip_run_ok)
  have "clipboard b = clip_text s" using assms(2) unfolding assms(1,3) clip_run_text by simp
  with ok clip_text_spec [of s] show ?thesis by (cases "btn_icon b") (auto simp: button_ok_def)
qed

theorem copied_text_tidy_witness:
  "\<exists>b. b = fold (clip_step (LElem (l_new [] []) [LText [97, 10, 32, 10, 10, 98, 10]])) [Copy_click] (new_clip_button []) \<and>
     clipboard b = [97, 10, 10, 98] \<and> no_blank True (clipboard b)"
proof -
  define b where "b = fold (clip_step (LElem (l_new [] []) [LText [97, 10, 32, 10, 10, 98, 10]])) [Copy_click] (new_clip_button [])"
  have "Copy_click \<in> set [Copy_click]" by simp
  from copied_text_tidy [OF b_def this refl] have "no_blank True (clipboard b)" by blast
  moreover have "clipboard b = [97, 10, 10, 98]"
    by (simp add: b_def clip_click_def clip_unwanted_def clip_text_def squeeze_blank.simps blank_len_def is_ws_def line_end_def
        strip_final_newlines_def)
  ultimately show ?thesis using b_def by blast
qed

text \<open>
  \<open>codefold.init\<close> sets the folding up. On a page as the generator writes it, every block is afterwards displayed and directly
  followed by its folded copy, which is hidden and has the identifier the toggle looks for. From then on, over any
  clicks on the blocks and on the switch for all of them, each block is displayed once, open or folded.
\<close>

theorem folding_after_init:
  assumes "unfolded_page doc" and "codefold_init r doc = Inr doc'"
    and "s = \<lparr>fold_opened = True, fold_image = minusImg r, fold_blocks = map (\<lambda>(i, o', c).
      \<lparr>fold_id = i, open_shown = o', closed_shown = (case c of None \<Rightarrow> False | Some x \<Rightarrow> snd x)\<rparr>) (fold_view doc')\<rparr>"
  shows "fold_view doc' = map (\<lambda>i. (i, True, Some (Some (js ''foldclosed'' @ i), False))) (open_ids doc) \<and>
    list_all (\<lambda>b. open_shown b \<noteq> closed_shown b) (fold_blocks (fold fold_handle es s))"
proof -
  have "unfolded_page (snd (mark_lines r False doc))" "open_ids (snd (mark_lines r False doc)) = open_ids doc"
    using mark_lines_blocks [OF assms(1)] by simp_all
  then have view: "fold_view doc' = map (\<lambda>i. (i, True, Some (Some (js ''foldclosed'' @ i), False))) (open_ids doc)"
    using open_folds_view [of "snd (mark_lines r False doc)" r doc'] assms(2) by (simp add: codefold_init_def)
  then have "fold_inv s" by (simp add: assms(3) fold_inv_def list_all_iff)
  with fold_inv_run view show ?thesis by (auto simp: fold_inv_def)
qed

theorem folding_after_init_witness:
  "\<exists>doc'. codefold_init False example_block = Inr doc' \<and> fold_view doc' = [(js ''1'', True, Some (Some (js ''foldclosed1''), False))]"
proof -
  have "unfolded_page example_block" "folds_wf (snd (mark_lines False False example_block))"
    using mark_lines_wf [of example_block False False]
    by (simp_all add: example_block_def lineno_elt_def l_new_def is_span_def is_foldopen_def l_shown_def js_inj)
  then obtain doc' where doc: "codefold_init False example_block = Inr doc'"
    using open_folds_total by (auto simp: codefold_init_def)
  have "open_ids example_block = [js ''1'']"
    by (simp add: example_block_def lineno_elt_def l_new_def is_foldopen_def block_id_def fold_id_of_def starts_with_def js_def)
  with folding_after_init [OF \<open>unfolded_page example_block\<close> doc refl] doc show ?thesis
    by (auto simp: js_def)
qed

end
