(* ===== verification/JS_NavEffects.thy ===== *)
theory JS_NavEffects
  imports JS_NavTree JS_Timers
begin

text \<open>
  What \<^verbatim>\<open>doc/html/navtree.js\<close> does around the tree: loading of scripts and their variables, scrolling to an anchor, the glow of
  the target and scrolling the tree to the selected item. Lengths are pixels. Animations and delays of jQuery wait in the
  queue of their element and are taken to end in their order; their frames are not modelled.
\<close>

section \<open>Scripts and storage\<close>

text \<open>What the browser says about the storage: there is none, it is \<open>null\<close>, reading it raises, or it is there.\<close>

datatype storage_access = Storage_absent | Storage_null | Storage_denied | Storage_there

definition localStorageSupported :: "storage_access \<Rightarrow> bool" where
  "localStorageSupported a = (case a of Storage_there \<Rightarrow> True | _ \<Rightarrow> False)"

text \<open>\<open>getData\<close>: the variable a script has defined, \<open>None\<close> when there is none (a \<open>ReferenceError\<close>).\<close>

definition data_name :: "jsstr \<Rightarrow> jsstr" where
  "data_name varName =
     (let i = lastIndexOf varName 47; n = (if i \<ge> 0 then substring_from (i + 1) varName else varName)
      in map (\<lambda>c. if c = 45 then 95 else c) n)"

definition getData :: "(jsstr \<Rightarrow> 'v option) \<Rightarrow> jsstr \<Rightarrow> 'v option" where
  "getData globals varName = globals (data_name varName)"

record 'k script_tag =
  script_id :: jsstr
  script_type :: jsstr
  script_src :: jsstr
  script_onload :: 'k

definition getScript :: "jsstr \<Rightarrow> 'k \<Rightarrow> 'k script_tag list \<Rightarrow> 'k script_tag list" where
  "getScript scriptName func head =
     head @ [\<lparr>script_id = scriptName, script_type = js ''text/javascript'', script_src = scriptName @ js ''.js'',
              script_onload = func\<rparr>]"

section \<open>Scrolling to an anchor\<close>

text \<open>An anchor of the page with its parent. Of the position of an anchor that does not exist there is nothing.\<close>

record anchor_view =
  parent_class :: jsstr
  parent_header :: bool
  parent_top :: int
  anchor_top :: int

definition has_class :: "jsstr \<Rightarrow> jsstr \<Rightarrow> bool" where
  "has_class c cls \<longleftrightarrow> c \<in> set (split_at_char 32 cls)"

record fx =
  fx_target :: int
  fx_duration :: int
  fx_name :: jsstr
  fx_update :: bool

record doc_content =
  scroll_top :: int
  offset_top :: int
  content_height :: int
  scroll_height :: int
  fx_queue :: "fx list"
  animationInProgress :: bool
  location_href :: jsstr

definition anchor_pos :: "anchor_view option \<Rightarrow> int option" where
  "anchor_pos anchor =
     map_option (\<lambda>a. if has_class (js ''memItemLeft'') (parent_class a) \<or> has_class (js ''memtitle'') (parent_class a) \<or>
         has_class (js ''fieldname'') (parent_class a) \<or> has_class (js ''fieldtype'') (parent_class a) \<or> parent_header a
       then parent_top a else anchor_top a) anchor"

text \<open>\<open>gotoAnchor\<close>; the position 0 is as false as no position.\<close>

definition gotoAnchor :: "anchor_view option \<Rightarrow> jsstr \<Rightarrow> bool \<Rightarrow> doc_content \<Rightarrow> doc_content" where
  "gotoAnchor anchor aname updateLocation s =
     (case anchor_pos anchor of
        None \<Rightarrow> s
      | Some pos \<Rightarrow>
          if pos = 0 then s
          else
            let dist = \<bar>min (pos - offset_top s) (scroll_height s - content_height s - scroll_top s)\<bar>
            in s\<lparr>animationInProgress := True,
                 fx_queue := fx_queue s @ [\<lparr>fx_target = pos + scroll_top s - offset_top s,
                   fx_duration = max 50 (min 500 dist), fx_name = aname, fx_update = updateLocation\<rparr>]\<rparr>)"

text \<open>The first animation of the queue ends; the browser keeps the position within the content.\<close>

definition clamp_scroll :: "doc_content \<Rightarrow> int \<Rightarrow> int" where
  "clamp_scroll s x = max 0 (min x (scroll_height s - content_height s))"

definition animation_done :: "doc_content \<Rightarrow> doc_content" where
  "animation_done s =
     (case fx_queue s of
        [] \<Rightarrow> s
      | a # as \<Rightarrow>
          s\<lparr>fx_queue := as, scroll_top := clamp_scroll s (fx_target a), animationInProgress := False,
            location_href := (if fx_update a then fx_name a else location_href s)\<rparr>)"

section \<open>Glowing\<close>

text \<open>Elements are numbered; \<open>glow_queue\<close> holds the queued removals of the class.\<close>

record glow_state =
  glowing :: "nat list"
  glow_queue :: "(nat \<times> int) list"

definition glowEffect :: "nat list \<Rightarrow> int \<Rightarrow> glow_state \<Rightarrow> glow_state" where
  "glowEffect n duration s =
     s\<lparr>glowing := fold (\<lambda>x g. if x \<in> set g then g else g @ [x]) n (glowing s),
       glow_queue := glow_queue s @ map (\<lambda>x. (x, duration)) n\<rparr>"

text \<open>A delay of an element ends and the class is removed: the first one queued for it.\<close>

definition glow_over :: "nat \<Rightarrow> glow_state \<Rightarrow> glow_state" where
  "glow_over x s =
     (case find (\<lambda>p. fst p = x) (glow_queue s) of
        None \<Rightarrow> s
      | Some p \<Rightarrow> s\<lparr>glow_queue := remove1 p (glow_queue s), glowing := filter (\<lambda>y. y \<noteq> x) (glowing s)\<rparr>)"

text \<open>The elements around the anchor of the address: the cells of the rows of a member without details, the parent of its
  parent, its parent, and what follows it.\<close>

record anchor_context =
  ctx_parent_class :: jsstr
  ctx_parent_header :: bool
  ctx_row_cells :: "nat list"
  ctx_grandparent :: "nat list"
  ctx_parent :: "nat list"
  ctx_next :: "nat list"

definition highlightAnchor :: "anchor_context \<Rightarrow> glow_state \<Rightarrow> glow_state" where
  "highlightAnchor c s =
     (if ctx_parent_class c = js ''memItemLeft'' then glowEffect (ctx_row_cells c) 300 s
      else if ctx_parent_class c = js ''fieldname'' then glowEffect (ctx_grandparent c) 1000 s
      else if ctx_parent_class c = js ''fieldtype'' then glowEffect (ctx_grandparent c) 1000 s
      else if ctx_parent_header c then glowEffect (ctx_parent c) 1000 s
      else glowEffect (ctx_next c) 1000 s)"

section \<open>Scrolling the tree\<close>

text \<open>\<open>showRoot\<close> tries to scroll to the selected item until the call does not raise; \<open>root_offsets\<close> holds twice the offsets of the
  calls that succeeded. A timer carries the height of the window of its attempt.\<close>

record root_scroll =
  root_timers :: "int timers"
  root_offsets :: "int list"

definition root_attempt :: "bool \<Rightarrow> int \<Rightarrow> root_scroll \<Rightarrow> root_scroll" where
  "root_attempt ok windowHeight s =
     (if ok then s\<lparr>root_offsets := root_offsets s @ [- windowHeight]\<rparr>
      else s\<lparr>root_timers := snd (setTimeout windowHeight (root_timers s))\<rparr>)"

definition showRoot :: "bool \<Rightarrow> int \<Rightarrow> int \<Rightarrow> int \<Rightarrow> root_scroll \<Rightarrow> root_scroll" where
  "showRoot ok window headerHeight footerHeight s = root_attempt ok (window - headerHeight - footerHeight) s"

text \<open>A timer expires and the attempt is made again.\<close>

definition root_retry :: "nat \<Rightarrow> bool \<Rightarrow> root_scroll \<Rightarrow> root_scroll" where
  "root_retry n ok s =
     (case map_of (timer_list (root_timers s)) n of
        None \<Rightarrow> s
      | Some h \<Rightarrow> root_attempt ok h (s\<lparr>root_timers := clearTimeout n (root_timers s)\<rparr>))"

section \<open>Runs\<close>

datatype scroll_event = Goto "anchor_view option" jsstr bool | Animation_done

fun scroll_step :: "scroll_event \<Rightarrow> doc_content \<Rightarrow> doc_content" where
  "scroll_step (Goto anchor aname u) s = gotoAnchor anchor aname u s"
| "scroll_step Animation_done s = animation_done s"

definition scroll_inv :: "doc_content \<Rightarrow> bool" where
  "scroll_inv s \<longleftrightarrow> (animationInProgress s \<longrightarrow> fx_queue s \<noteq> []) \<and>
     list_all (\<lambda>a. 50 \<le> fx_duration a \<and> fx_duration a \<le> 500) (fx_queue s)"

lemma scroll_step_inv: "scroll_inv s \<Longrightarrow> scroll_inv (scroll_step e s)"
  by (cases e) (auto simp: scroll_inv_def gotoAnchor_def animation_done_def Let_def split: option.splits list.splits)

lemma scroll_run_inv: "scroll_inv s \<Longrightarrow> scroll_inv (fold scroll_step es s)"
  by (induction es arbitrary: s) (simp_all add: scroll_step_inv)

datatype glow_event = Highlight_anchor anchor_context | Glow_line "nat list" | Glow_over nat

fun glow_step :: "glow_event \<Rightarrow> glow_state \<Rightarrow> glow_state" where
  "glow_step (Highlight_anchor c) s = highlightAnchor c s"
| "glow_step (Glow_line ns) s = glowEffect ns 1000 s"
| "glow_step (Glow_over x) s = glow_over x s"

definition glow_inv :: "glow_state \<Rightarrow> bool" where
  "glow_inv s \<longleftrightarrow> set (glowing s) \<subseteq> fst ` set (glow_queue s)"

lemma set_add_new: "set (fold (\<lambda>x g. if x \<in> set g then g else g @ [x]) ns g) = set g \<union> set ns"
  by (induction ns arbitrary: g) auto

lemma glowEffect_inv: "glow_inv s \<Longrightarrow> glow_inv (glowEffect ns d s)"
  by (force simp: glow_inv_def glowEffect_def set_add_new)

lemma glow_over_inv: "glow_inv s \<Longrightarrow> glow_inv (glow_over x s)"
proof (cases "find (\<lambda>p. fst p = x) (glow_queue s)")
  case (Some p)
  assume inv: "glow_inv s"
  have p: "fst p = x" using Some by (auto simp: find_Some_iff)
  have "y \<in> fst ` set (remove1 p (glow_queue s))" if "y \<in> fst ` set (glow_queue s)" "y \<noteq> x" for y
  proof -
    from that(1) obtain q where q: "q \<in> set (glow_queue s)" "fst q = y" by auto
    then have "q \<in> set (remove1 p (glow_queue s))" using that(2) p by (intro in_set_remove1 [THEN iffD2]) auto
    then show ?thesis using q(2) by blast
  qed
  then have "set (filter (\<lambda>y. y \<noteq> x) (glowing s)) \<subseteq> fst ` set (remove1 p (glow_queue s))"
    using inv by (intro subsetI) (simp add: glow_inv_def subset_eq)
  then show ?thesis using Some by (simp add: glow_inv_def glow_over_def)
qed (simp add: glow_over_def)

lemma glow_run_inv: "glow_inv s \<Longrightarrow> glow_inv (fold glow_step es s)"
proof (induction es arbitrary: s)
  case (Cons e es)
  then have "glow_inv (glow_step e s)" by (cases e) (simp_all add: glowEffect_inv glow_over_inv highlightAnchor_def)
  then show ?case using Cons.IH by simp
qed simp

datatype root_event = Show_root bool int int int | Root_timer nat bool

fun root_step :: "root_event \<Rightarrow> root_scroll \<Rightarrow> root_scroll" where
  "root_step (Show_root ok w h f) s = showRoot ok w h f s"
| "root_step (Root_timer n ok) s = root_retry n ok s"

definition root_inv :: "int list \<Rightarrow> root_scroll \<Rightarrow> bool" where
  "root_inv hs s \<longleftrightarrow> timers_wf (root_timers s) \<and>
     mset (map uminus (root_offsets s)) + mset (map snd (timer_list (root_timers s))) = mset hs"

lemma root_attempt_inv: "root_inv hs s \<Longrightarrow> root_inv (hs @ [h]) (root_attempt ok h s)"
proof -
  assume inv: "root_inv hs s"
  obtain n t where t: "setTimeout h (root_timers s) = (n, t)" by fastforce
  have "timers_wf t" "timer_list t = timer_list (root_timers s) @ [(n, h)]"
    using browser.set_ok [OF _ t] browser.set_pending [OF _ t] inv by (auto simp: root_inv_def)
  then show ?thesis using inv t by (simp add: root_inv_def root_attempt_def)
qed

lemma mset_drop_timer:
  "distinct (map fst ts) \<Longrightarrow> map_of ts n = Some h \<Longrightarrow>
   mset (map snd ts) = add_mset h (mset (map snd (filter (\<lambda>x. fst x \<noteq> n) ts)))"
proof (induction ts)
  case (Cons x ts)
  show ?case
  proof (cases "fst x = n")
    case True
    then have "\<forall>y \<in> set ts. fst y \<noteq> n" using Cons.prems(1) by auto (metis fst_conv image_eqI)
    then have "filter (\<lambda>x. fst x \<noteq> n) ts = ts" by (simp add: filter_id_conv)
    then show ?thesis using True Cons.prems by (cases x) simp
  qed (use Cons in \<open>cases x, auto\<close>)
qed simp

lemma root_retry_inv: "root_inv hs s \<Longrightarrow> root_inv hs (root_retry n ok s)"
proof (cases "map_of (timer_list (root_timers s)) n")
  case (Some h)
  assume inv: "root_inv hs s"
  let ?s = "s\<lparr>root_timers := clearTimeout n (root_timers s)\<rparr>"
  have wf: "timers_wf (root_timers s)" using inv by (simp add: root_inv_def)
  have m: "mset (map snd (timer_list (root_timers s))) = add_mset h (mset (map snd (timer_list (root_timers ?s))))"
    using mset_drop_timer [OF _ Some] wf by (simp add: timers_wf_def clearTimeout_def)
  obtain hs' where hs': "mset hs = mset (hs' @ [h])" "root_inv hs' ?s"
  proof
    let ?hs = "map uminus (root_offsets s) @ map snd (timer_list (root_timers ?s))"
    show "mset hs = mset (?hs @ [h])" using inv m by (simp add: root_inv_def)
    show "root_inv ?hs ?s" using browser.clear_ok [OF wf] by (simp add: root_inv_def)
  qed
  have "root_inv (hs' @ [h]) (root_attempt ok h ?s)" by (rule root_attempt_inv [OF hs'(2)])
  then show ?thesis using Some hs'(1) by (simp add: root_retry_def root_inv_def)
qed (simp add: root_retry_def)

fun root_heights :: "root_event list \<Rightarrow> int list" where
  "root_heights [] = []"
| "root_heights (Show_root ok w h f # es) = (w - h - f) # root_heights es"
| "root_heights (Root_timer n ok # es) = root_heights es"

lemma root_run_inv: "root_inv hs s \<Longrightarrow> root_inv (hs @ root_heights es) (fold root_step es s)"
proof (induction es arbitrary: hs s)
  case (Cons e es)
  show ?case
  proof (cases e)
    case (Show_root ok w h f)
    then show ?thesis
      using Cons.IH [OF root_attempt_inv [OF Cons.prems, of "w - h - f" ok]] by (simp add: showRoot_def)
  next
    case (Root_timer n ok)
    then show ?thesis using Cons.IH [OF root_retry_inv [OF Cons.prems, of n ok]] by simp
  qed
qed simp

section \<open>Properties\<close>

text \<open>
  The effects of the navigation come to rest. Over any clicks, navigations, expiring delays and timers: an animation takes
  between 50 and 500 milliseconds, and when no animation is queued none is said to be in progress; an element glows only
  while its removal from the glow is queued; and every request to scroll the tree to the selected item is answered by
  exactly one successful call, with the offset it was made for, or is still pending.
\<close>

theorem effects_come_to_rest:
  assumes "d = fold scroll_step es d0" and "fx_queue d0 = []" and "\<not> animationInProgress d0"
    and "g = fold glow_step gs \<lparr>glowing = [], glow_queue = []\<rparr>"
    and "t = fold root_step rs \<lparr>root_timers = no_timers, root_offsets = []\<rparr>"
  shows "list_all (\<lambda>a. 50 \<le> fx_duration a \<and> fx_duration a \<le> 500) (fx_queue d) \<and>
    (fx_queue d = [] \<longrightarrow> \<not> animationInProgress d) \<and>
    (\<forall>x \<in> set (glowing g). x \<in> fst ` set (glow_queue g)) \<and>
    mset (map uminus (root_offsets t)) + mset (map snd (timer_list (root_timers t))) = mset (root_heights rs)"
proof -
  have "scroll_inv d" unfolding assms(1) by (rule scroll_run_inv) (simp add: scroll_inv_def assms(2,3))
  moreover have "glow_inv g" unfolding assms(4) by (rule glow_run_inv) (simp add: glow_inv_def)
  moreover have "root_inv ([] @ root_heights rs) t" unfolding assms(5)
    by (rule root_run_inv) (simp add: root_inv_def, simp add: no_timers_def)
  ultimately show ?thesis by (auto simp: scroll_inv_def glow_inv_def root_inv_def)
qed

definition example_content :: doc_content where
  "example_content = \<lparr>scroll_top = 100, offset_top = 50, content_height = 400, scroll_height = 2000, fx_queue = [],
     animationInProgress = False, location_href = []\<rparr>"

theorem effects_come_to_rest_witness:
  "\<exists>t. t = fold root_step [Show_root False 900 60 30, Root_timer 1 True] \<lparr>root_timers = no_timers, root_offsets = []\<rparr> \<and>
     mset (map uminus (root_offsets t)) + mset (map snd (timer_list (root_timers t))) = {#810#}"
proof -
  define t where "t = fold root_step [Show_root False 900 60 30, Root_timer 1 True] \<lparr>root_timers = no_timers, root_offsets = []\<rparr>"
  have d: "fx_queue example_content = []" "\<not> animationInProgress example_content" by (simp_all add: example_content_def)
  from effects_come_to_rest [OF refl d refl t_def] t_def show ?thesis by auto
qed

text \<open>
  An anchor below the top is reached: when nothing is queued, going to an anchor and the end of the animation bring it to
  the top of the content, as far as the content allows, and the address names it. An anchor at position 0 is not
  gone to and the address does not change.
\<close>

theorem anchor_reached:
  assumes "fx_queue s = []" and "anchor_pos anchor = Some p"
  shows "(p \<noteq> 0 \<longrightarrow> scroll_top (animation_done (gotoAnchor anchor n True s)) =
      max 0 (min (p + scroll_top s - offset_top s) (scroll_height s - content_height s)) \<and>
      location_href (animation_done (gotoAnchor anchor n True s)) = n \<and>
      \<not> animationInProgress (animation_done (gotoAnchor anchor n True s))) \<and>
    (p = 0 \<longrightarrow> gotoAnchor anchor n True s = s)"
  using assms by (simp add: gotoAnchor_def animation_done_def clamp_scroll_def Let_def)

text \<open>The data of a folder is found under the name without its directory and with underscores, wherever the page lies.\<close>

lemma getData_relative: "47 \<notin> set v \<Longrightarrow> getData globals (dir @ 47 # v) = getData globals v"
proof -
  assume v: "47 \<notin> set v"
  have none: "lastIndexOf v 47 = -1" using v by (induction v) (auto simp: Let_def)
  have "lastIndexOf (dir @ 47 # v) 47 = int (length dir)" by (induction dir) (auto simp: none Let_def)
  then show ?thesis by (simp add: getData_def data_name_def none substring_from_def Let_def nat_add_distrib)
qed

end
