(* ===== verification/JS_SiteIndex.thy ===== *)
theory JS_SiteIndex
  imports JS_PageSearch JS_Sections
begin

text \<open>
  The data of the documentation of tinyxml2 as it is shipped, under \<^verbatim>\<open>external/tinyxml2/docs/\<close>: its menu (\<^verbatim>\<open>menudata.js\<close>)
  and the scripts of its search, \<^verbatim>\<open>search/all_*.js\<close> to \<^verbatim>\<open>search/pages_*.js\<close>, one for every section and first character.
\<close>

named_theorems site_scripts

section \<open>The scripts of the search\<close>

definition sr :: "string \<Rightarrow> string \<Rightarrow> (string \<times> bool \<times> string) list \<Rightarrow> sr_entry" where
  "sr key name links =
     \<lparr>entry_key = js key, entry_name = js name,
      entry_links = map (\<lambda>(u, p, s). \<lparr>link_url = js u, link_parent = p, link_scope = js s\<rparr>) links\<rparr>"

definition search_all_0 :: "sr_entry list" where [site_scripts]:
  "search_all_0 =
     [sr ''2_0'' ''TinyXML-2'' [(''../index.html'', True, '''')]]"

definition search_all_1 :: "sr_entry list" where [site_scripts]:
  "search_all_1 =
     [sr ''accept_0'' ''Accept'' [(''../classtinyxml2_1_1_x_m_l_node.html#a81e66df0a44c67a7af17f3b77a152785'', True, ''tinyxml2::XMLNode::Accept()''), (''../classtinyxml2_1_1_x_m_l_text.html#a4022fa0089f2964203c7a69cd0f3726f'', True, ''tinyxml2::XMLText::Accept()''), (''../classtinyxml2_1_1_x_m_l_comment.html#a171ccb71232b90cd0d6945b92cfc4aec'', True, ''tinyxml2::XMLComment::Accept()''), (''../classtinyxml2_1_1_x_m_l_declaration.html#afd861abee3ed6c88e9a6965dac32f8b7'', True, ''tinyxml2::XMLDeclaration::Accept()''), (''../classtinyxml2_1_1_x_m_l_unknown.html#ab510bfaa18873a3968964655353d2946'', True, ''tinyxml2::XMLUnknown::Accept()''), (''../classtinyxml2_1_1_x_m_l_element.html#acae4a763d74c13ce4a31eb70b4db9f82'', True, ''tinyxml2::XMLElement::Accept()''), (''../classtinyxml2_1_1_x_m_l_document.html#a853f05e2f7f51eb598e32ec61d8bc53c'', True, ''tinyxml2::XMLDocument::Accept()'')],
      sr ''an_20xml_20file_1'' ''Load an XML File'' [(''../_example_1.html'', True, '''')],
      sr ''an_20xml_20from_20char_20buffer_2'' ''Parse an XML from char buffer'' [(''../_example_2.html'', True, '''')],
      sr ''and_20text_20information_3'' ''Read attributes and text information.'' [(''../_example_4.html'', True, '''')],
      sr ''attribute_4'' ''Attribute'' [(''../classtinyxml2_1_1_x_m_l_element.html#a48cf4a315cfbac7d74cd0d5ff2c5df51'', True, ''tinyxml2::XMLElement'')],
      sr ''attributes_20and_20text_20information_5'' ''Read attributes and text information.'' [(''../_example_4.html'', True, '''')]]"

definition search_all_2 :: "sr_entry list" where [site_scripts]:
  "search_all_2 =
     [sr ''boolattribute_0'' ''BoolAttribute'' [(''../classtinyxml2_1_1_x_m_l_element.html#a53eda26131e1ad1031ef8ec8adb51bd8'', True, ''tinyxml2::XMLElement'')],
      sr ''booltext_1'' ''BoolText'' [(''../classtinyxml2_1_1_x_m_l_element.html#a68569f59f6382bcea7f5013ec59736d2'', True, ''tinyxml2::XMLElement'')],
      sr ''boolvalue_2'' ''BoolValue'' [(''../classtinyxml2_1_1_x_m_l_attribute.html#a98ce5207344ad33a265b0422addae1ff'', True, ''tinyxml2::XMLAttribute'')],
      sr ''buffer_3'' ''Parse an XML from char buffer'' [(''../_example_2.html'', True, '''')]]"

definition search_all_3 :: "sr_entry list" where [site_scripts]:
  "search_all_3 =
     [sr ''cdata_0'' ''CData'' [(''../classtinyxml2_1_1_x_m_l_text.html#ac1bb5ea4166c320882d9e0ad16fd385b'', True, ''tinyxml2::XMLText'')],
      sr ''char_20buffer_1'' ''Parse an XML from char buffer'' [(''../_example_2.html'', True, '''')],
      sr ''clear_2'' ''Clear'' [(''../classtinyxml2_1_1_x_m_l_document.html#a65656b0b2cbc822708eb351504178aaf'', True, ''tinyxml2::XMLDocument'')],
      sr ''clearbuffer_3'' ''ClearBuffer'' [(''../classtinyxml2_1_1_x_m_l_printer.html#a690cb140ba98b7339734ff865f56b0b3'', True, ''tinyxml2::XMLPrinter'')],
      sr ''clearerror_4'' ''ClearError'' [(''../classtinyxml2_1_1_x_m_l_document.html#a4085d9c52f1d93214311459d6d1fcf17'', True, ''tinyxml2::XMLDocument'')],
      sr ''closeelement_5'' ''CloseElement'' [(''../classtinyxml2_1_1_x_m_l_printer.html#ad04d29562b46fcdb23ab320f8b664240'', True, ''tinyxml2::XMLPrinter'')],
      sr ''cstr_6'' ''CStr'' [(''../classtinyxml2_1_1_x_m_l_printer.html#abfa772366c44a17cdeb8aea294d57f78'', True, ''tinyxml2::XMLPrinter'')],
      sr ''cstrsize_7'' ''CStrSize'' [(''../classtinyxml2_1_1_x_m_l_printer.html#a3256cf3523d4898b91abb18b924be04c'', True, ''tinyxml2::XMLPrinter'')]]"

definition search_all_4 :: "sr_entry list" where [site_scripts]:
  "search_all_4 =
     [sr ''deepclone_0'' ''DeepClone'' [(''../classtinyxml2_1_1_x_m_l_node.html#a3bb369fd733f1989b751d99a9417adab'', True, ''tinyxml2::XMLNode'')],
      sr ''deepcopy_1'' ''DeepCopy'' [(''../classtinyxml2_1_1_x_m_l_document.html#af592ffc91514e25a39664521ac83db45'', True, ''tinyxml2::XMLDocument'')],
      sr ''deleteattribute_2'' ''DeleteAttribute'' [(''../classtinyxml2_1_1_x_m_l_element.html#aebd45aa7118964c30b32fe12e944628a'', True, ''tinyxml2::XMLElement'')],
      sr ''deletechild_3'' ''DeleteChild'' [(''../classtinyxml2_1_1_x_m_l_node.html#a363b6edbd6ebd55f8387d2b89f2b0921'', True, ''tinyxml2::XMLNode'')],
      sr ''deletechildren_4'' ''DeleteChildren'' [(''../classtinyxml2_1_1_x_m_l_node.html#a0360085cc54df5bff85d5c5da13afdce'', True, ''tinyxml2::XMLNode'')],
      sr ''deletenode_5'' ''DeleteNode'' [(''../classtinyxml2_1_1_x_m_l_document.html#ac1d6e2c7fcc1a660624ac4f68e96380d'', True, ''tinyxml2::XMLDocument'')],
      sr ''doubleattribute_6'' ''DoubleAttribute'' [(''../classtinyxml2_1_1_x_m_l_element.html#a10a90c505aea716bf073eea1c97f33b5'', True, ''tinyxml2::XMLElement'')],
      sr ''doubletext_7'' ''DoubleText'' [(''../classtinyxml2_1_1_x_m_l_element.html#a81b1ff0cf2f2cd09be8badc08b39a2b7'', True, ''tinyxml2::XMLElement'')],
      sr ''doublevalue_8'' ''DoubleValue'' [(''../classtinyxml2_1_1_x_m_l_attribute.html#a4aa73513f54ff0087d3e804f0f54e30f'', True, ''tinyxml2::XMLAttribute'')]]"

definition search_all_5 :: "sr_entry list" where [site_scripts]:
  "search_all_5 =
     [sr ''error_0'' ''Error'' [(''../classtinyxml2_1_1_x_m_l_document.html#a34e6318e182e40e3cc4f4ba5d59ed9ed'', True, ''tinyxml2::XMLDocument'')],
      sr ''errorid_1'' ''ErrorID'' [(''../classtinyxml2_1_1_x_m_l_document.html#afa3ed33b3107f920ec2b301f805ac17d'', True, ''tinyxml2::XMLDocument'')],
      sr ''errorlinenum_2'' ''ErrorLineNum'' [(''../classtinyxml2_1_1_x_m_l_document.html#a57400f816dbe7799ece33615ead9ab76'', True, ''tinyxml2::XMLDocument'')],
      sr ''errorstr_3'' ''ErrorStr'' [(''../classtinyxml2_1_1_x_m_l_document.html#ae97fff2402a0d01e0509c430b37996b3'', True, ''tinyxml2::XMLDocument'')]]"

definition search_all_6 :: "sr_entry list" where [site_scripts]:
  "search_all_6 =
     [sr ''file_0'' ''Load an XML File'' [(''../_example_1.html'', True, '''')],
      sr ''findattribute_1'' ''FindAttribute'' [(''../classtinyxml2_1_1_x_m_l_element.html#a157750dac8037a316fd1af1a973dfa2c'', True, ''tinyxml2::XMLElement'')],
      sr ''firstattribute_2'' ''FirstAttribute'' [(''../classtinyxml2_1_1_x_m_l_element.html#a4a7c4392658833bb8138c474d15a805a'', True, ''tinyxml2::XMLElement'')],
      sr ''firstchild_3'' ''FirstChild'' [(''../classtinyxml2_1_1_x_m_l_node.html#abcc2e572dce329539689b426a0840661'', True, ''tinyxml2::XMLNode::FirstChild()''), (''../classtinyxml2_1_1_x_m_l_handle.html#a536447dc7f54c0cd11e031dad94795ae'', True, ''tinyxml2::XMLHandle::FirstChild()'')],
      sr ''firstchildelement_4'' ''FirstChildElement'' [(''../classtinyxml2_1_1_x_m_l_node.html#a1bec132dcf085284e0a10755f2cf0d57'', True, ''tinyxml2::XMLNode::FirstChildElement()''), (''../classtinyxml2_1_1_x_m_l_handle.html#a74b04dd0f15e0bf01860e282b840b6a3'', True, ''tinyxml2::XMLHandle::FirstChildElement()'')],
      sr ''floatattribute_5'' ''FloatAttribute'' [(''../classtinyxml2_1_1_x_m_l_element.html#ab1f4be2332e27dc640e9b6abd01d64dd'', True, ''tinyxml2::XMLElement'')],
      sr ''floattext_6'' ''FloatText'' [(''../classtinyxml2_1_1_x_m_l_element.html#a45444eb21f99ca46101545992dc2e927'', True, ''tinyxml2::XMLElement'')],
      sr ''floatvalue_7'' ''FloatValue'' [(''../classtinyxml2_1_1_x_m_l_attribute.html#a27797b45d21c981257720db94f5f8801'', True, ''tinyxml2::XMLAttribute'')],
      sr ''from_20char_20buffer_8'' ''Parse an XML from char buffer'' [(''../_example_2.html'', True, '''')]]"

definition search_all_7 :: "sr_entry list" where [site_scripts]:
  "search_all_7 =
     [sr ''get_20information_20out_20of_20xml_0'' ''Get information out of XML'' [(''../_example_3.html'', True, '''')],
      sr ''getdocument_1'' ''GetDocument'' [(''../classtinyxml2_1_1_x_m_l_node.html#a6ce3bbe80357f5a4dc5db31a66f2bb18'', True, ''tinyxml2::XMLNode::GetDocument() const''), (''../classtinyxml2_1_1_x_m_l_node.html#a48d1695f7c834129e072548957a50501'', True, ''tinyxml2::XMLNode::GetDocument()'')],
      sr ''getlinenum_2'' ''GetLineNum'' [(''../classtinyxml2_1_1_x_m_l_node.html#a9b5fc636646fda761d342c72e91cb286'', True, ''tinyxml2::XMLNode::GetLineNum()''), (''../classtinyxml2_1_1_x_m_l_attribute.html#a02d5ea924586e35f9c13857d1671b765'', True, ''tinyxml2::XMLAttribute::GetLineNum()'')],
      sr ''gettext_3'' ''GetText'' [(''../classtinyxml2_1_1_x_m_l_element.html#a0fa5bea0a4daf3ddd503dcabb823eba6'', True, ''tinyxml2::XMLElement'')],
      sr ''getuserdata_4'' ''GetUserData'' [(''../classtinyxml2_1_1_x_m_l_node.html#a18cc02ebd0b06f6bf5db7ef87653e00e'', True, ''tinyxml2::XMLNode'')]]"

definition search_all_8 :: "sr_entry list" where [site_scripts]:
  "search_all_8 =
     [sr ''hasbom_0'' ''HasBOM'' [(''../classtinyxml2_1_1_x_m_l_document.html#a33fc5d159db873a179fa26338adb05bd'', True, ''tinyxml2::XMLDocument'')]]"

definition search_all_9 :: "sr_entry list" where [site_scripts]:
  "search_all_9 =
     [sr ''information_0'' ''Read attributes and text information.'' [(''../_example_4.html'', True, '''')],
      sr ''information_20out_20of_20xml_1'' ''Get information out of XML'' [(''../_example_3.html'', True, '''')],
      sr ''insertafterchild_2'' ''InsertAfterChild'' [(''../classtinyxml2_1_1_x_m_l_node.html#a9275138a1b8dd5d8e2c26789bdc23ac8'', True, ''tinyxml2::XMLNode'')],
      sr ''insertendchild_3'' ''InsertEndChild'' [(''../classtinyxml2_1_1_x_m_l_node.html#ae3b422e98914d6002ca99bb1d2837103'', True, ''tinyxml2::XMLNode'')],
      sr ''insertfirstchild_4'' ''InsertFirstChild'' [(''../classtinyxml2_1_1_x_m_l_node.html#ac609a8f3ea949027f439280c640bbaf2'', True, ''tinyxml2::XMLNode'')],
      sr ''insertnewchildelement_5'' ''InsertNewChildElement'' [(''../classtinyxml2_1_1_x_m_l_element.html#abf01fdeb702165fddbc97bcc8af8a1ad'', True, ''tinyxml2::XMLElement'')],
      sr ''insertnewcomment_6'' ''InsertNewComment'' [(''../classtinyxml2_1_1_x_m_l_element.html#aaed36d3a8082b083ec4f1de55ee68cc2'', True, ''tinyxml2::XMLElement'')],
      sr ''insertnewdeclaration_7'' ''InsertNewDeclaration'' [(''../classtinyxml2_1_1_x_m_l_element.html#a7f11671a928649add7e3e18de7adf84a'', True, ''tinyxml2::XMLElement'')],
      sr ''insertnewtext_8'' ''InsertNewText'' [(''../classtinyxml2_1_1_x_m_l_element.html#ac30367a5e25ff30e178b56e0e1456d23'', True, ''tinyxml2::XMLElement'')],
      sr ''insertnewunknown_9'' ''InsertNewUnknown'' [(''../classtinyxml2_1_1_x_m_l_element.html#afe6cfefb48f8fbcb29a790f2042b55a4'', True, ''tinyxml2::XMLElement'')],
      sr ''int64attribute_10'' ''Int64Attribute'' [(''../classtinyxml2_1_1_x_m_l_element.html#a66d96972adecd816194191f13cc4a0a0'', True, ''tinyxml2::XMLElement'')],
      sr ''int64text_11'' ''Int64Text'' [(''../classtinyxml2_1_1_x_m_l_element.html#aab6151f7e3b4c2c0a8234e262d7b6b8a'', True, ''tinyxml2::XMLElement'')],
      sr ''intattribute_12'' ''IntAttribute'' [(''../classtinyxml2_1_1_x_m_l_element.html#a95a89b13bb14a2d4655e2b5b406c00d4'', True, ''tinyxml2::XMLElement'')],
      sr ''intvalue_13'' ''IntValue'' [(''../classtinyxml2_1_1_x_m_l_attribute.html#adfa2433f0fdafd5c3880936de9affa80'', True, ''tinyxml2::XMLAttribute'')]]"

definition search_all_a :: "sr_entry list" where [site_scripts]:
  "search_all_a =
     [sr ''lastchild_0'' ''LastChild'' [(''../classtinyxml2_1_1_x_m_l_node.html#a69a29bb8263ff5e9815be180bf27e7af'', True, ''tinyxml2::XMLNode::LastChild()''), (''../classtinyxml2_1_1_x_m_l_handle.html#a9d09f04435f0f2f7d0816b0198d0517b'', True, ''tinyxml2::XMLHandle::LastChild()'')],
      sr ''lastchildelement_1'' ''LastChildElement'' [(''../classtinyxml2_1_1_x_m_l_node.html#a609e02f02044f39b928d1a3e0de9f532'', True, ''tinyxml2::XMLNode::LastChildElement()''), (''../classtinyxml2_1_1_x_m_l_handle.html#a42cccd0ce8b1ce704f431025e9f19e0c'', True, ''tinyxml2::XMLHandle::LastChildElement()'')],
      sr ''load_20an_20xml_20file_2'' ''Load an XML File'' [(''../_example_1.html'', True, '''')],
      sr ''loadfile_3'' ''LoadFile'' [(''../classtinyxml2_1_1_x_m_l_document.html#a2ebd4647a8af5fc6831b294ac26a150a'', True, ''tinyxml2::XMLDocument::LoadFile(const char *filename)''), (''../classtinyxml2_1_1_x_m_l_document.html#a5f1d330fad44c52f3d265338dd2a6dc2'', True, ''tinyxml2::XMLDocument::LoadFile(FILE *)'')]]"

definition search_all_b :: "sr_entry list" where [site_scripts]:
  "search_all_b =
     [sr ''name_0'' ''Name'' [(''../classtinyxml2_1_1_x_m_l_attribute.html#a5a5c135d24cce7abda6f17301c6274d8'', True, ''tinyxml2::XMLAttribute::Name()''), (''../classtinyxml2_1_1_x_m_l_element.html#abd36e34e4428a8eeeffbe87eab0b124d'', True, ''tinyxml2::XMLElement::Name()'')],
      sr ''newcomment_1'' ''NewComment'' [(''../classtinyxml2_1_1_x_m_l_document.html#a386df0befd06aadb5e0cd21381aa955a'', True, ''tinyxml2::XMLDocument'')],
      sr ''newdeclaration_2'' ''NewDeclaration'' [(''../classtinyxml2_1_1_x_m_l_document.html#ae519030c0262fa2daff8993681990e16'', True, ''tinyxml2::XMLDocument'')],
      sr ''newelement_3'' ''NewElement'' [(''../classtinyxml2_1_1_x_m_l_document.html#a3c335a700a43d7c363a393142a23f234'', True, ''tinyxml2::XMLDocument'')],
      sr ''newtext_4'' ''NewText'' [(''../classtinyxml2_1_1_x_m_l_document.html#acece5de77a0819f2341b08c1e1ed9987'', True, ''tinyxml2::XMLDocument'')],
      sr ''newunknown_5'' ''NewUnknown'' [(''../classtinyxml2_1_1_x_m_l_document.html#a4954f502c5fd7f49de54c3c0c99bb73d'', True, ''tinyxml2::XMLDocument'')],
      sr ''next_6'' ''Next'' [(''../classtinyxml2_1_1_x_m_l_attribute.html#aa8c7cf4c94a636ae75046658e551614e'', True, ''tinyxml2::XMLAttribute'')],
      sr ''nextsibling_7'' ''NextSibling'' [(''../classtinyxml2_1_1_x_m_l_node.html#af986c568061b020cf6232bec091388c0'', True, ''tinyxml2::XMLNode::NextSibling()''), (''../classtinyxml2_1_1_x_m_l_handle.html#aad2eccc7c7c7b18145877c978c3850b5'', True, ''tinyxml2::XMLHandle::NextSibling()'')],
      sr ''nextsiblingelement_8'' ''NextSiblingElement'' [(''../classtinyxml2_1_1_x_m_l_node.html#a14ea560df31110ff07a9f566171bf797'', True, ''tinyxml2::XMLNode::NextSiblingElement()''), (''../classtinyxml2_1_1_x_m_l_handle.html#ae41d88ee061f3c49a081630ff753b2c5'', True, ''tinyxml2::XMLHandle::NextSiblingElement()'')],
      sr ''nochildren_9'' ''NoChildren'' [(''../classtinyxml2_1_1_x_m_l_node.html#ac3ab489e6e202a3cd1762d3b332e89d4'', True, ''tinyxml2::XMLNode'')]]"

definition search_all_c :: "sr_entry list" where [site_scripts]:
  "search_all_c =
     [sr ''of_20xml_0'' ''Get information out of XML'' [(''../_example_3.html'', True, '''')],
      sr ''openelement_1'' ''OpenElement'' [(''../classtinyxml2_1_1_x_m_l_printer.html#a20fb06c83bd13e5140d7dd13af06c010'', True, ''tinyxml2::XMLPrinter'')],
      sr ''operator_3d_2'' ''operator='' [(''../classtinyxml2_1_1_x_m_l_handle.html#aa07c9a53f78d7b2dc1018668641521d8'', True, ''tinyxml2::XMLHandle'')],
      sr ''out_20of_20xml_3'' ''Get information out of XML'' [(''../_example_3.html'', True, '''')]]"

definition search_all_d :: "sr_entry list" where [site_scripts]:
  "search_all_d =
     [sr ''parent_0'' ''Parent'' [(''../classtinyxml2_1_1_x_m_l_node.html#a4d76b30d1bf4b166d3e4fa3419d51595'', True, ''tinyxml2::XMLNode'')],
      sr ''parse_1'' ''Parse'' [(''../classtinyxml2_1_1_x_m_l_document.html#af2b616169e6517182f6725f2498e9a01'', True, ''tinyxml2::XMLDocument'')],
      sr ''parse_20an_20xml_20from_20char_20buffer_2'' ''Parse an XML from char buffer'' [(''../_example_2.html'', True, '''')],
      sr ''previoussibling_3'' ''PreviousSibling'' [(''../classtinyxml2_1_1_x_m_l_node.html#a92ee96b0d8628bc609f1d34e56d69dfa'', True, ''tinyxml2::XMLNode::PreviousSibling()''), (''../classtinyxml2_1_1_x_m_l_handle.html#a428374e756f4db4cbc287fec64eae02c'', True, ''tinyxml2::XMLHandle::PreviousSibling()'')],
      sr ''previoussiblingelement_4'' ''PreviousSiblingElement'' [(''../classtinyxml2_1_1_x_m_l_node.html#a9453cda5e970375a7b1b2099f8a7c40a'', True, ''tinyxml2::XMLNode::PreviousSiblingElement()''), (''../classtinyxml2_1_1_x_m_l_handle.html#a786957e498039554ed334cdc36612a7e'', True, ''tinyxml2::XMLHandle::PreviousSiblingElement()'')],
      sr ''print_5'' ''Print'' [(''../classtinyxml2_1_1_x_m_l_document.html#a867cf5fa3e3ff6ae4847a8b7ee8ec083'', True, ''tinyxml2::XMLDocument'')],
      sr ''printerror_6'' ''PrintError'' [(''../classtinyxml2_1_1_x_m_l_document.html#a1d033945b42e125d933d6231e4571552'', True, ''tinyxml2::XMLDocument'')],
      sr ''printspace_7'' ''PrintSpace'' [(''../classtinyxml2_1_1_x_m_l_printer.html#a01148e2ebe6776e38c5a3e41bc5feb74'', True, ''tinyxml2::XMLPrinter'')],
      sr ''pushattribute_8'' ''PushAttribute'' [(''../classtinyxml2_1_1_x_m_l_printer.html#a9a4e2c9348b42e147629d5a99f4af3f0'', True, ''tinyxml2::XMLPrinter'')],
      sr ''pushcomment_9'' ''PushComment'' [(''../classtinyxml2_1_1_x_m_l_printer.html#afc8416814219591c2fd5656e0c233140'', True, ''tinyxml2::XMLPrinter'')],
      sr ''pushheader_10'' ''PushHeader'' [(''../classtinyxml2_1_1_x_m_l_printer.html#a178c608ce8476043d5d6513819cde903'', True, ''tinyxml2::XMLPrinter'')],
      sr ''pushtext_11'' ''PushText'' [(''../classtinyxml2_1_1_x_m_l_printer.html#a1cc16a9362df4332012cb13cff6441b3'', True, ''tinyxml2::XMLPrinter::PushText(const char *text, bool cdata=false)''), (''../classtinyxml2_1_1_x_m_l_printer.html#a3e0d4d78de25d4cf081009e1431cea7e'', True, ''tinyxml2::XMLPrinter::PushText(int value)''), (''../classtinyxml2_1_1_x_m_l_printer.html#a661fb50e7e0a4918d2d259cb0fae647e'', True, ''tinyxml2::XMLPrinter::PushText(unsigned value)''), (''../classtinyxml2_1_1_x_m_l_printer.html#a96b0a0bfe105154a0a6c37d725258f0a'', True, ''tinyxml2::XMLPrinter::PushText(int64_t value)''), (''../classtinyxml2_1_1_x_m_l_printer.html#a60b0a4cf57371ff8679c2c7556ccb708'', True, ''tinyxml2::XMLPrinter::PushText(uint64_t value)''), (''../classtinyxml2_1_1_x_m_l_printer.html#a4390e5fa1ed05189a8686647345ab29f'', True, ''tinyxml2::XMLPrinter::PushText(bool value)''), (''../classtinyxml2_1_1_x_m_l_printer.html#a1dbb1390e829d0673af66b9cd1928bd7'', True, ''tinyxml2::XMLPrinter::PushText(float value)''), (''../classtinyxml2_1_1_x_m_l_printer.html#aa715302dfc09473c77c853cbd5431965'', True, ''tinyxml2::XMLPrinter::PushText(double value)'')]]"

definition search_all_e :: "sr_entry list" where [site_scripts]:
  "search_all_e =
     [sr ''queryattribute_0'' ''QueryAttribute'' [(''../classtinyxml2_1_1_x_m_l_element.html#a5b7df3bed2b8954eabf227fa204522eb'', True, ''tinyxml2::XMLElement'')],
      sr ''queryboolattribute_1'' ''QueryBoolAttribute'' [(''../classtinyxml2_1_1_x_m_l_element.html#a14c1bb77c39689838be01838d86ca872'', True, ''tinyxml2::XMLElement'')],
      sr ''querybooltext_2'' ''QueryBoolText'' [(''../classtinyxml2_1_1_x_m_l_element.html#a3fe5417d59eb8f5c4afe924b7d332736'', True, ''tinyxml2::XMLElement'')],
      sr ''queryboolvalue_3'' ''QueryBoolValue'' [(''../classtinyxml2_1_1_x_m_l_attribute.html#a5f32e038954256f61c21ff20fd13a09c'', True, ''tinyxml2::XMLAttribute'')],
      sr ''querydoubleattribute_4'' ''QueryDoubleAttribute'' [(''../classtinyxml2_1_1_x_m_l_element.html#a5f0964e2dbd8e2ee7fce9beab689443c'', True, ''tinyxml2::XMLElement'')],
      sr ''querydoubletext_5'' ''QueryDoubleText'' [(''../classtinyxml2_1_1_x_m_l_element.html#a684679c99bb036a25652744cec6c4d96'', True, ''tinyxml2::XMLElement'')],
      sr ''querydoublevalue_6'' ''QueryDoubleValue'' [(''../classtinyxml2_1_1_x_m_l_attribute.html#a2aa6e55e8ea03af0609cf6690bff79b9'', True, ''tinyxml2::XMLAttribute'')],
      sr ''queryfloatattribute_7'' ''QueryFloatAttribute'' [(''../classtinyxml2_1_1_x_m_l_element.html#acd5eeddf6002ef90806af794b9d9a5a5'', True, ''tinyxml2::XMLElement'')],
      sr ''queryfloattext_8'' ''QueryFloatText'' [(''../classtinyxml2_1_1_x_m_l_element.html#afa332afedd93210daa6d44b88eb11e29'', True, ''tinyxml2::XMLElement'')],
      sr ''queryfloatvalue_9'' ''QueryFloatValue'' [(''../classtinyxml2_1_1_x_m_l_attribute.html#a049dea6449a6259b6cfed44a9427b607'', True, ''tinyxml2::XMLAttribute'')],
      sr ''queryint64attribute_10'' ''QueryInt64Attribute'' [(''../classtinyxml2_1_1_x_m_l_element.html#a7c0955d80b6f8d196744eacb0f6e90a8'', True, ''tinyxml2::XMLElement'')],
      sr ''queryint64text_11'' ''QueryInt64Text'' [(''../classtinyxml2_1_1_x_m_l_element.html#a120c538c8eead169e635dbc70fb226d8'', True, ''tinyxml2::XMLElement'')],
      sr ''queryint64value_12'' ''QueryInt64Value'' [(''../classtinyxml2_1_1_x_m_l_attribute.html#a4e25344d6e4159026be34dbddf1dcac2'', True, ''tinyxml2::XMLAttribute'')],
      sr ''queryintattribute_13'' ''QueryIntAttribute'' [(''../classtinyxml2_1_1_x_m_l_element.html#a8a78bc1187c1c45ad89f2690eab567b1'', True, ''tinyxml2::XMLElement'')],
      sr ''queryinttext_14'' ''QueryIntText'' [(''../classtinyxml2_1_1_x_m_l_element.html#a926357996bef633cb736e1a558419632'', True, ''tinyxml2::XMLElement'')],
      sr ''queryintvalue_15'' ''QueryIntValue'' [(''../classtinyxml2_1_1_x_m_l_attribute.html#a6d5176260db00ea301c01af8457cd993'', True, ''tinyxml2::XMLAttribute'')],
      sr ''querystringattribute_16'' ''QueryStringAttribute'' [(''../classtinyxml2_1_1_x_m_l_element.html#adb8ae765f98d0c5037faec48deea78bc'', True, ''tinyxml2::XMLElement'')],
      sr ''queryunsigned64attribute_17'' ''QueryUnsigned64Attribute'' [(''../classtinyxml2_1_1_x_m_l_element.html#a13dd590b5d3958ce2ed79844aacd9405'', True, ''tinyxml2::XMLElement'')],
      sr ''queryunsigned64text_18'' ''QueryUnsigned64Text'' [(''../classtinyxml2_1_1_x_m_l_element.html#ac2239b3bd172ad8f5b78d04d4236144b'', True, ''tinyxml2::XMLElement'')],
      sr ''queryunsigned64value_19'' ''QueryUnsigned64Value'' [(''../classtinyxml2_1_1_x_m_l_attribute.html#af793c695e7ee65cf20b8010d38b1d157'', True, ''tinyxml2::XMLAttribute'')],
      sr ''queryunsignedattribute_20'' ''QueryUnsignedAttribute'' [(''../classtinyxml2_1_1_x_m_l_element.html#a26fc84cbfba6769dafcfbf256c05e22f'', True, ''tinyxml2::XMLElement'')],
      sr ''queryunsignedtext_21'' ''QueryUnsignedText'' [(''../classtinyxml2_1_1_x_m_l_element.html#a14d38aa4b5e18a46274a27425188a6a1'', True, ''tinyxml2::XMLElement'')],
      sr ''queryunsignedvalue_22'' ''QueryUnsignedValue'' [(''../classtinyxml2_1_1_x_m_l_attribute.html#a48a7f3496f1415832e451bd8d09c9cb9'', True, ''tinyxml2::XMLAttribute'')]]"

definition search_all_f :: "sr_entry list" where [site_scripts]:
  "search_all_f =
     [sr ''read_20attributes_20and_20text_20information_0'' ''Read attributes and text information.'' [(''../_example_4.html'', True, '''')],
      sr ''rootelement_1'' ''RootElement'' [(''../classtinyxml2_1_1_x_m_l_document.html#a0e6855771cbe87d839fb301d3646f5b8'', True, ''tinyxml2::XMLDocument'')]]"

definition search_all_10 :: "sr_entry list" where [site_scripts]:
  "search_all_10 =
     [sr ''savefile_0'' ''SaveFile'' [(''../classtinyxml2_1_1_x_m_l_document.html#a73ac416b4a2aa0952e841220eb3da18f'', True, ''tinyxml2::XMLDocument::SaveFile(const char *filename, bool compact=false)''), (''../classtinyxml2_1_1_x_m_l_document.html#a8b95779479a0035acc67b3a61dfe1b74'', True, ''tinyxml2::XMLDocument::SaveFile(FILE *fp, bool compact=false)'')],
      sr ''setattribute_1'' ''SetAttribute'' [(''../classtinyxml2_1_1_x_m_l_attribute.html#a406d2c4a13c7af99a65edb59dd9f7581'', True, ''tinyxml2::XMLAttribute::SetAttribute(const char *value)''), (''../classtinyxml2_1_1_x_m_l_attribute.html#ad86d7d7058d76761c3a80662566a57e5'', True, ''tinyxml2::XMLAttribute::SetAttribute(int value)''), (''../classtinyxml2_1_1_x_m_l_attribute.html#ae70468c0f6df2748ba3529c716999fae'', True, ''tinyxml2::XMLAttribute::SetAttribute(unsigned value)''), (''../classtinyxml2_1_1_x_m_l_attribute.html#a7c1240f479722b9aa29b6c030aa116c2'', True, ''tinyxml2::XMLAttribute::SetAttribute(int64_t value)''), (''../classtinyxml2_1_1_x_m_l_attribute.html#a10964060a5c0d92486ecf8705bdf37da'', True, ''tinyxml2::XMLAttribute::SetAttribute(uint64_t value)''), (''../classtinyxml2_1_1_x_m_l_attribute.html#ab3516def4fe058fe328f2b89fc2d77da'', True, ''tinyxml2::XMLAttribute::SetAttribute(bool value)''), (''../classtinyxml2_1_1_x_m_l_attribute.html#a9a65ab3147abe8ccbbd373ce8791e818'', True, ''tinyxml2::XMLAttribute::SetAttribute(double value)''), (''../classtinyxml2_1_1_x_m_l_attribute.html#ae95e843313aaf5d56c32530b6456df02'', True, ''tinyxml2::XMLAttribute::SetAttribute(float value)''), (''../classtinyxml2_1_1_x_m_l_element.html#a11943abf2d0831548c3790dd5d9f119c'', True, ''tinyxml2::XMLElement::SetAttribute(const char *name, const char *value)''), (''../classtinyxml2_1_1_x_m_l_element.html#aae6568c64c7f1cc88be8461ba41a79cf'', True, ''tinyxml2::XMLElement::SetAttribute(const char *name, int value)''), (''../classtinyxml2_1_1_x_m_l_element.html#ae143997e90064ba82326b29a9930ea8f'', True, ''tinyxml2::XMLElement::SetAttribute(const char *name, unsigned value)''), (''../classtinyxml2_1_1_x_m_l_element.html#aaeefdf9171fec91b13a776b42299b0dd'', True, ''tinyxml2::XMLElement::SetAttribute(const char *name, int64_t value)''), (''../classtinyxml2_1_1_x_m_l_element.html#ad598868c0599ddc4695dab18552c308d'', True, ''tinyxml2::XMLElement::SetAttribute(const char *name, uint64_t value)''), (''../classtinyxml2_1_1_x_m_l_element.html#aa848b696e6a75e4e545c6da9893b11e1'', True, ''tinyxml2::XMLElement::SetAttribute(const char *name, bool value)''), (''../classtinyxml2_1_1_x_m_l_element.html#a233397ee81e70eb5d4b814c5f8698533'', True, ''tinyxml2::XMLElement::SetAttribute(const char *name, double value)''), (''../classtinyxml2_1_1_x_m_l_element.html#a554b70d882e65b28fc084b23df9b9759'', True, ''tinyxml2::XMLElement::SetAttribute(const char *name, float value)'')],
      sr ''setbom_2'' ''SetBOM'' [(''../classtinyxml2_1_1_x_m_l_document.html#a14419b698f7c4b140df4e80f3f0c93b0'', True, ''tinyxml2::XMLDocument'')],
      sr ''setcdata_3'' ''SetCData'' [(''../classtinyxml2_1_1_x_m_l_text.html#ad080357d76ab7cc59d7651249949329d'', True, ''tinyxml2::XMLText'')],
      sr ''setname_4'' ''SetName'' [(''../classtinyxml2_1_1_x_m_l_element.html#a97712009a530d8cb8a63bf705f02b4f1'', True, ''tinyxml2::XMLElement'')],
      sr ''settext_5'' ''SetText'' [(''../classtinyxml2_1_1_x_m_l_element.html#a1f9c2cd61b72af5ae708d37b7ad283ce'', True, ''tinyxml2::XMLElement::SetText(const char *inText)''), (''../classtinyxml2_1_1_x_m_l_element.html#aeae8917b5ea6060b3c08d4e3d8d632d7'', True, ''tinyxml2::XMLElement::SetText(int value)''), (''../classtinyxml2_1_1_x_m_l_element.html#a7bbfcc11d516598bc924a8fba4d08597'', True, ''tinyxml2::XMLElement::SetText(unsigned value)''), (''../classtinyxml2_1_1_x_m_l_element.html#a7b62cd33acdfeff7ea2b1b330d4368e4'', True, ''tinyxml2::XMLElement::SetText(int64_t value)''), (''../classtinyxml2_1_1_x_m_l_element.html#a6e615bc745afd1ca8ded56d7aac02657'', True, ''tinyxml2::XMLElement::SetText(uint64_t value)''), (''../classtinyxml2_1_1_x_m_l_element.html#ae4b543d6770de76fb6ab68e541c192a4'', True, ''tinyxml2::XMLElement::SetText(bool value)''), (''../classtinyxml2_1_1_x_m_l_element.html#a67bd77ac9aaeff58ff20b4275a65ba4e'', True, ''tinyxml2::XMLElement::SetText(double value)''), (''../classtinyxml2_1_1_x_m_l_element.html#a51d560da5ae3ad6b75e0ab9ffb2ae42a'', True, ''tinyxml2::XMLElement::SetText(float value)'')],
      sr ''setuserdata_6'' ''SetUserData'' [(''../classtinyxml2_1_1_x_m_l_node.html#a002978fc889cc011d143185f2377eca2'', True, ''tinyxml2::XMLNode'')],
      sr ''setvalue_7'' ''SetValue'' [(''../classtinyxml2_1_1_x_m_l_node.html#a09dd68cf9eae137579f6e50f36487513'', True, ''tinyxml2::XMLNode'')],
      sr ''shallowclone_8'' ''ShallowClone'' [(''../classtinyxml2_1_1_x_m_l_node.html#a9046880c05b81ad99ee645f4b2a53ecd'', True, ''tinyxml2::XMLNode::ShallowClone()''), (''../classtinyxml2_1_1_x_m_l_text.html#a277bbcf2e0e1326ca7f6f7c4d0820bb0'', True, ''tinyxml2::XMLText::ShallowClone()''), (''../classtinyxml2_1_1_x_m_l_comment.html#a5396d702a6ca251ee1493707a3ac6086'', True, ''tinyxml2::XMLComment::ShallowClone()''), (''../classtinyxml2_1_1_x_m_l_declaration.html#a0e1151bfb4c2a42ed8a1991169cbc59e'', True, ''tinyxml2::XMLDeclaration::ShallowClone()''), (''../classtinyxml2_1_1_x_m_l_unknown.html#a5ffeb6cd9e55008ebc160c1ceb4115ec'', True, ''tinyxml2::XMLUnknown::ShallowClone()''), (''../classtinyxml2_1_1_x_m_l_element.html#a6dc4d8774d1e77a8c37a7b3d039d3049'', True, ''tinyxml2::XMLElement::ShallowClone()''), (''../classtinyxml2_1_1_x_m_l_document.html#a01ab2fc16fbce5f4456d67d24090e70b'', True, ''tinyxml2::XMLDocument::ShallowClone()'')],
      sr ''shallowequal_9'' ''ShallowEqual'' [(''../classtinyxml2_1_1_x_m_l_node.html#a7ce18b751c3ea09eac292dca264f9226'', True, ''tinyxml2::XMLNode::ShallowEqual()''), (''../classtinyxml2_1_1_x_m_l_text.html#a032269f8d4d0357912fcb9bdc796f50c'', True, ''tinyxml2::XMLText::ShallowEqual()''), (''../classtinyxml2_1_1_x_m_l_comment.html#a5d905bdee77945cf8473987911fbe581'', True, ''tinyxml2::XMLComment::ShallowEqual()''), (''../classtinyxml2_1_1_x_m_l_declaration.html#a125d70baaba44a55c2f10e185f70d478'', True, ''tinyxml2::XMLDeclaration::ShallowEqual()''), (''../classtinyxml2_1_1_x_m_l_unknown.html#a300a119859a7c25a64f400c16535d8b4'', True, ''tinyxml2::XMLUnknown::ShallowEqual()''), (''../classtinyxml2_1_1_x_m_l_element.html#aaba88737610559755425b8a59179817e'', True, ''tinyxml2::XMLElement::ShallowEqual()''), (''../classtinyxml2_1_1_x_m_l_document.html#ac538345c44f521e418ff86b4bdc20ca8'', True, ''tinyxml2::XMLDocument::ShallowEqual()'')]]"

definition search_all_11 :: "sr_entry list" where [site_scripts]:
  "search_all_11 =
     [sr ''text_20information_0'' ''Read attributes and text information.'' [(''../_example_4.html'', True, '''')],
      sr ''tinyxml_202_1'' ''TinyXML-2'' [(''../index.html'', True, '''')],
      sr ''tocomment_2'' ''ToComment'' [(''../classtinyxml2_1_1_x_m_l_node.html#a5dc13f02ae49e3fa609e426f47c8466d'', True, ''tinyxml2::XMLNode::ToComment()''), (''../classtinyxml2_1_1_x_m_l_comment.html#a7bd0df98fc2bb55d1d4445bfd2ec0053'', True, ''tinyxml2::XMLComment::ToComment()'')],
      sr ''todeclaration_3'' ''ToDeclaration'' [(''../classtinyxml2_1_1_x_m_l_node.html#a12aa783a3a4445ad5557c7d56cd8dc4a'', True, ''tinyxml2::XMLNode::ToDeclaration()''), (''../classtinyxml2_1_1_x_m_l_declaration.html#ac485f175252b0d838d86de5fa22455cd'', True, ''tinyxml2::XMLDeclaration::ToDeclaration()''), (''../classtinyxml2_1_1_x_m_l_handle.html#a85d0c76920a013ea2a29456dbf7d160d'', True, ''tinyxml2::XMLHandle::ToDeclaration()'')],
      sr ''todocument_4'' ''ToDocument'' [(''../classtinyxml2_1_1_x_m_l_node.html#a6107c3f57ab6e0755959947762953652'', True, ''tinyxml2::XMLNode::ToDocument()''), (''../classtinyxml2_1_1_x_m_l_document.html#a290ad241e05e6aeeccbc78a4f3454f55'', True, ''tinyxml2::XMLDocument::ToDocument()'')],
      sr ''toelement_5'' ''ToElement'' [(''../classtinyxml2_1_1_x_m_l_node.html#a9417e1f8a9787ae27741605493514b18'', True, ''tinyxml2::XMLNode::ToElement()''), (''../classtinyxml2_1_1_x_m_l_element.html#a88621376780280c0695458e30212eebe'', True, ''tinyxml2::XMLElement::ToElement()''), (''../classtinyxml2_1_1_x_m_l_handle.html#ab2371c4adb8b04afe04ed216bf9b0676'', True, ''tinyxml2::XMLHandle::ToElement()'')],
      sr ''tonode_6'' ''ToNode'' [(''../classtinyxml2_1_1_x_m_l_handle.html#a689453c96dd3d4016437d2298d1de691'', True, ''tinyxml2::XMLHandle'')],
      sr ''totext_7'' ''ToText'' [(''../classtinyxml2_1_1_x_m_l_node.html#a0aea8c9c5853c35a06da1988486abc60'', True, ''tinyxml2::XMLNode::ToText()''), (''../classtinyxml2_1_1_x_m_l_text.html#a221e45ee1026407049d89786cbbfe145'', True, ''tinyxml2::XMLText::ToText()''), (''../classtinyxml2_1_1_x_m_l_handle.html#accc80bcbd81e816f13a23c172587c288'', True, ''tinyxml2::XMLHandle::ToText()'')],
      sr ''tounknown_8'' ''ToUnknown'' [(''../classtinyxml2_1_1_x_m_l_node.html#aa8a2dd38b786c3b8d406c2047753cbfd'', True, ''tinyxml2::XMLNode::ToUnknown()''), (''../classtinyxml2_1_1_x_m_l_unknown.html#a7d2238fe165736605de3ba2e2e5a99d1'', True, ''tinyxml2::XMLUnknown::ToUnknown()''), (''../classtinyxml2_1_1_x_m_l_handle.html#add97784cbe14ef42bb36e158ad6e6082'', True, ''tinyxml2::XMLHandle::ToUnknown()'')]]"

definition search_all_12 :: "sr_entry list" where [site_scripts]:
  "search_all_12 =
     [sr ''unsigned64attribute_0'' ''Unsigned64Attribute'' [(''../classtinyxml2_1_1_x_m_l_element.html#a226502bab8f1be7ede1fdd255398eb85'', True, ''tinyxml2::XMLElement'')],
      sr ''unsigned64text_1'' ''Unsigned64Text'' [(''../classtinyxml2_1_1_x_m_l_element.html#af48c1023abbac1acdf4927c51c3a5f0c'', True, ''tinyxml2::XMLElement'')],
      sr ''unsignedattribute_2'' ''UnsignedAttribute'' [(''../classtinyxml2_1_1_x_m_l_element.html#afea43a1d4aa33e3703ddee5fc9adc26c'', True, ''tinyxml2::XMLElement'')],
      sr ''unsignedtext_3'' ''UnsignedText'' [(''../classtinyxml2_1_1_x_m_l_element.html#a49bad014ffcc17b0b6119d5b2c97dfb5'', True, ''tinyxml2::XMLElement'')],
      sr ''unsignedvalue_4'' ''UnsignedValue'' [(''../classtinyxml2_1_1_x_m_l_attribute.html#a0be5343b08a957c42c02c5d32c35d338'', True, ''tinyxml2::XMLAttribute'')]]"

definition search_all_13 :: "sr_entry list" where [site_scripts]:
  "search_all_13 =
     [sr ''value_0'' ''Value'' [(''../classtinyxml2_1_1_x_m_l_node.html#a0485e51c670e741884cfd8362274d680'', True, ''tinyxml2::XMLNode::Value()''), (''../classtinyxml2_1_1_x_m_l_attribute.html#ab1c5cd993f836a771818ca408994b14e'', True, ''tinyxml2::XMLAttribute::Value()'')],
      sr ''visit_1'' ''Visit'' [(''../classtinyxml2_1_1_x_m_l_visitor.html#adc75bd459fc7ba8223b50f0616767f9a'', True, ''tinyxml2::XMLVisitor::Visit(const XMLDeclaration &amp;)''), (''../classtinyxml2_1_1_x_m_l_visitor.html#af30233565856480ea48b6fa0d6dec65b'', True, ''tinyxml2::XMLVisitor::Visit(const XMLText &amp;)''), (''../classtinyxml2_1_1_x_m_l_visitor.html#acc8147fb5a85f6c65721654e427752d7'', True, ''tinyxml2::XMLVisitor::Visit(const XMLComment &amp;)''), (''../classtinyxml2_1_1_x_m_l_visitor.html#a14e4748387c34bf53d24e8119bb1f292'', True, ''tinyxml2::XMLVisitor::Visit(const XMLUnknown &amp;)''), (''../classtinyxml2_1_1_x_m_l_printer.html#ad903ea1672831f797130b4cddddfa532'', True, ''tinyxml2::XMLPrinter::Visit(const XMLText &amp;text) override''), (''../classtinyxml2_1_1_x_m_l_printer.html#a76fe434cdd4c39cb9963e3025e53609a'', True, ''tinyxml2::XMLPrinter::Visit(const XMLComment &amp;comment) override''), (''../classtinyxml2_1_1_x_m_l_printer.html#a63df55647c0e170e5b8702842b82008e'', True, ''tinyxml2::XMLPrinter::Visit(const XMLDeclaration &amp;declaration) override''), (''../classtinyxml2_1_1_x_m_l_printer.html#a31002765840bc4ea7b22332f71d83c74'', True, ''tinyxml2::XMLPrinter::Visit(const XMLUnknown &amp;unknown) override'')],
      sr ''visitenter_2'' ''VisitEnter'' [(''../classtinyxml2_1_1_x_m_l_visitor.html#acb3c22fc5f60eb9db98f533f2761f67d'', True, ''tinyxml2::XMLVisitor::VisitEnter(const XMLDocument &amp;)''), (''../classtinyxml2_1_1_x_m_l_visitor.html#af97980a17dd4e37448b181f5ddfa92b5'', True, ''tinyxml2::XMLVisitor::VisitEnter(const XMLElement &amp;, const XMLAttribute *)''), (''../classtinyxml2_1_1_x_m_l_printer.html#a73eba3d1aab34c4c3ac38d7d2d186671'', True, ''tinyxml2::XMLPrinter::VisitEnter(const XMLDocument &amp;) override''), (''../classtinyxml2_1_1_x_m_l_printer.html#a5cab997d51b0387c21e2274bd1147755'', True, ''tinyxml2::XMLPrinter::VisitEnter(const XMLElement &amp;element, const XMLAttribute *attribute) override'')],
      sr ''visitexit_3'' ''VisitExit'' [(''../classtinyxml2_1_1_x_m_l_visitor.html#a170e9989cd046ba904f302d087e07086'', True, ''tinyxml2::XMLVisitor::VisitExit(const XMLDocument &amp;)''), (''../classtinyxml2_1_1_x_m_l_visitor.html#a772f10ddc83f881956d32628faa16eb6'', True, ''tinyxml2::XMLVisitor::VisitExit(const XMLElement &amp;)''), (''../classtinyxml2_1_1_x_m_l_printer.html#a261a24986e3507258a74405a7dc08cbf'', True, ''tinyxml2::XMLPrinter::VisitExit(const XMLDocument &amp;) override''), (''../classtinyxml2_1_1_x_m_l_printer.html#a9a397f4c809a4de7ba27902b3ae1bbf7'', True, ''tinyxml2::XMLPrinter::VisitExit(const XMLElement &amp;element) override'')]]"

definition search_all_14 :: "sr_entry list" where [site_scripts]:
  "search_all_14 =
     [sr ''xml_0'' ''Get information out of XML'' [(''../_example_3.html'', True, '''')],
      sr ''xml_20file_1'' ''Load an XML File'' [(''../_example_1.html'', True, '''')],
      sr ''xml_20from_20char_20buffer_2'' ''Parse an XML from char buffer'' [(''../_example_2.html'', True, '''')],
      sr ''xmlattribute_3'' ''XMLAttribute'' [(''../classtinyxml2_1_1_x_m_l_attribute.html'', True, ''tinyxml2'')],
      sr ''xmlcomment_4'' ''XMLComment'' [(''../classtinyxml2_1_1_x_m_l_comment.html'', True, ''tinyxml2'')],
      sr ''xmlconsthandle_5'' ''XMLConstHandle'' [(''../classtinyxml2_1_1_x_m_l_const_handle.html'', True, ''tinyxml2'')],
      sr ''xmldeclaration_6'' ''XMLDeclaration'' [(''../classtinyxml2_1_1_x_m_l_declaration.html'', True, ''tinyxml2'')],
      sr ''xmldocument_7'' ''XMLDocument'' [(''../classtinyxml2_1_1_x_m_l_document.html'', True, ''tinyxml2::XMLDocument''), (''../classtinyxml2_1_1_x_m_l_document.html#a57ddf17b6e054dda10af98991b1b8f70'', True, ''tinyxml2::XMLDocument::XMLDocument()'')],
      sr ''xmlelement_8'' ''XMLElement'' [(''../classtinyxml2_1_1_x_m_l_element.html'', True, ''tinyxml2'')],
      sr ''xmlhandle_9'' ''XMLHandle'' [(''../classtinyxml2_1_1_x_m_l_handle.html'', True, ''tinyxml2::XMLHandle''), (''../classtinyxml2_1_1_x_m_l_handle.html#a9c240a35c18f053509b4b97ddccd9793'', True, ''tinyxml2::XMLHandle::XMLHandle(XMLNode *node)''), (''../classtinyxml2_1_1_x_m_l_handle.html#aa2edbc1c0d3e3e8259bd98de7f1cf500'', True, ''tinyxml2::XMLHandle::XMLHandle(XMLNode &amp;node)''), (''../classtinyxml2_1_1_x_m_l_handle.html#afd8e01e6018c07347b8e6d80272466aa'', True, ''tinyxml2::XMLHandle::XMLHandle(const XMLHandle &amp;ref)'')],
      sr ''xmlnode_10'' ''XMLNode'' [(''../classtinyxml2_1_1_x_m_l_node.html'', True, ''tinyxml2'')],
      sr ''xmlprinter_11'' ''XMLPrinter'' [(''../classtinyxml2_1_1_x_m_l_printer.html'', True, ''tinyxml2::XMLPrinter''), (''../classtinyxml2_1_1_x_m_l_printer.html#aa6d3841c069085f5b8a27bc7103c04f7'', True, ''tinyxml2::XMLPrinter::XMLPrinter()'')],
      sr ''xmltext_12'' ''XMLText'' [(''../classtinyxml2_1_1_x_m_l_text.html'', True, ''tinyxml2'')],
      sr ''xmlunknown_13'' ''XMLUnknown'' [(''../classtinyxml2_1_1_x_m_l_unknown.html'', True, ''tinyxml2'')],
      sr ''xmlvisitor_14'' ''XMLVisitor'' [(''../classtinyxml2_1_1_x_m_l_visitor.html'', True, ''tinyxml2'')]]"

definition search_classes_0 :: "sr_entry list" where [site_scripts]:
  "search_classes_0 =
     [sr ''xmlattribute_0'' ''XMLAttribute'' [(''../classtinyxml2_1_1_x_m_l_attribute.html'', True, ''tinyxml2'')],
      sr ''xmlcomment_1'' ''XMLComment'' [(''../classtinyxml2_1_1_x_m_l_comment.html'', True, ''tinyxml2'')],
      sr ''xmlconsthandle_2'' ''XMLConstHandle'' [(''../classtinyxml2_1_1_x_m_l_const_handle.html'', True, ''tinyxml2'')],
      sr ''xmldeclaration_3'' ''XMLDeclaration'' [(''../classtinyxml2_1_1_x_m_l_declaration.html'', True, ''tinyxml2'')],
      sr ''xmldocument_4'' ''XMLDocument'' [(''../classtinyxml2_1_1_x_m_l_document.html'', True, ''tinyxml2'')],
      sr ''xmlelement_5'' ''XMLElement'' [(''../classtinyxml2_1_1_x_m_l_element.html'', True, ''tinyxml2'')],
      sr ''xmlhandle_6'' ''XMLHandle'' [(''../classtinyxml2_1_1_x_m_l_handle.html'', True, ''tinyxml2'')],
      sr ''xmlnode_7'' ''XMLNode'' [(''../classtinyxml2_1_1_x_m_l_node.html'', True, ''tinyxml2'')],
      sr ''xmlprinter_8'' ''XMLPrinter'' [(''../classtinyxml2_1_1_x_m_l_printer.html'', True, ''tinyxml2'')],
      sr ''xmltext_9'' ''XMLText'' [(''../classtinyxml2_1_1_x_m_l_text.html'', True, ''tinyxml2'')],
      sr ''xmlunknown_10'' ''XMLUnknown'' [(''../classtinyxml2_1_1_x_m_l_unknown.html'', True, ''tinyxml2'')],
      sr ''xmlvisitor_11'' ''XMLVisitor'' [(''../classtinyxml2_1_1_x_m_l_visitor.html'', True, ''tinyxml2'')]]"

definition search_functions_0 :: "sr_entry list" where [site_scripts]:
  "search_functions_0 =
     [sr ''accept_0'' ''Accept'' [(''../classtinyxml2_1_1_x_m_l_node.html#a81e66df0a44c67a7af17f3b77a152785'', True, ''tinyxml2::XMLNode::Accept()''), (''../classtinyxml2_1_1_x_m_l_text.html#a4022fa0089f2964203c7a69cd0f3726f'', True, ''tinyxml2::XMLText::Accept()''), (''../classtinyxml2_1_1_x_m_l_comment.html#a171ccb71232b90cd0d6945b92cfc4aec'', True, ''tinyxml2::XMLComment::Accept()''), (''../classtinyxml2_1_1_x_m_l_declaration.html#afd861abee3ed6c88e9a6965dac32f8b7'', True, ''tinyxml2::XMLDeclaration::Accept()''), (''../classtinyxml2_1_1_x_m_l_unknown.html#ab510bfaa18873a3968964655353d2946'', True, ''tinyxml2::XMLUnknown::Accept()''), (''../classtinyxml2_1_1_x_m_l_element.html#acae4a763d74c13ce4a31eb70b4db9f82'', True, ''tinyxml2::XMLElement::Accept()''), (''../classtinyxml2_1_1_x_m_l_document.html#a853f05e2f7f51eb598e32ec61d8bc53c'', True, ''tinyxml2::XMLDocument::Accept()'')],
      sr ''attribute_1'' ''Attribute'' [(''../classtinyxml2_1_1_x_m_l_element.html#a48cf4a315cfbac7d74cd0d5ff2c5df51'', True, ''tinyxml2::XMLElement'')]]"

definition search_functions_1 :: "sr_entry list" where [site_scripts]:
  "search_functions_1 =
     [sr ''boolattribute_0'' ''BoolAttribute'' [(''../classtinyxml2_1_1_x_m_l_element.html#a53eda26131e1ad1031ef8ec8adb51bd8'', True, ''tinyxml2::XMLElement'')],
      sr ''booltext_1'' ''BoolText'' [(''../classtinyxml2_1_1_x_m_l_element.html#a68569f59f6382bcea7f5013ec59736d2'', True, ''tinyxml2::XMLElement'')],
      sr ''boolvalue_2'' ''BoolValue'' [(''../classtinyxml2_1_1_x_m_l_attribute.html#a98ce5207344ad33a265b0422addae1ff'', True, ''tinyxml2::XMLAttribute'')]]"

definition search_functions_2 :: "sr_entry list" where [site_scripts]:
  "search_functions_2 =
     [sr ''cdata_0'' ''CData'' [(''../classtinyxml2_1_1_x_m_l_text.html#ac1bb5ea4166c320882d9e0ad16fd385b'', True, ''tinyxml2::XMLText'')],
      sr ''clear_1'' ''Clear'' [(''../classtinyxml2_1_1_x_m_l_document.html#a65656b0b2cbc822708eb351504178aaf'', True, ''tinyxml2::XMLDocument'')],
      sr ''clearbuffer_2'' ''ClearBuffer'' [(''../classtinyxml2_1_1_x_m_l_printer.html#a690cb140ba98b7339734ff865f56b0b3'', True, ''tinyxml2::XMLPrinter'')],
      sr ''clearerror_3'' ''ClearError'' [(''../classtinyxml2_1_1_x_m_l_document.html#a4085d9c52f1d93214311459d6d1fcf17'', True, ''tinyxml2::XMLDocument'')],
      sr ''closeelement_4'' ''CloseElement'' [(''../classtinyxml2_1_1_x_m_l_printer.html#ad04d29562b46fcdb23ab320f8b664240'', True, ''tinyxml2::XMLPrinter'')],
      sr ''cstr_5'' ''CStr'' [(''../classtinyxml2_1_1_x_m_l_printer.html#abfa772366c44a17cdeb8aea294d57f78'', True, ''tinyxml2::XMLPrinter'')],
      sr ''cstrsize_6'' ''CStrSize'' [(''../classtinyxml2_1_1_x_m_l_printer.html#a3256cf3523d4898b91abb18b924be04c'', True, ''tinyxml2::XMLPrinter'')]]"

definition search_functions_3 :: "sr_entry list" where [site_scripts]:
  "search_functions_3 =
     [sr ''deepclone_0'' ''DeepClone'' [(''../classtinyxml2_1_1_x_m_l_node.html#a3bb369fd733f1989b751d99a9417adab'', True, ''tinyxml2::XMLNode'')],
      sr ''deepcopy_1'' ''DeepCopy'' [(''../classtinyxml2_1_1_x_m_l_document.html#af592ffc91514e25a39664521ac83db45'', True, ''tinyxml2::XMLDocument'')],
      sr ''deleteattribute_2'' ''DeleteAttribute'' [(''../classtinyxml2_1_1_x_m_l_element.html#aebd45aa7118964c30b32fe12e944628a'', True, ''tinyxml2::XMLElement'')],
      sr ''deletechild_3'' ''DeleteChild'' [(''../classtinyxml2_1_1_x_m_l_node.html#a363b6edbd6ebd55f8387d2b89f2b0921'', True, ''tinyxml2::XMLNode'')],
      sr ''deletechildren_4'' ''DeleteChildren'' [(''../classtinyxml2_1_1_x_m_l_node.html#a0360085cc54df5bff85d5c5da13afdce'', True, ''tinyxml2::XMLNode'')],
      sr ''deletenode_5'' ''DeleteNode'' [(''../classtinyxml2_1_1_x_m_l_document.html#ac1d6e2c7fcc1a660624ac4f68e96380d'', True, ''tinyxml2::XMLDocument'')],
      sr ''doubleattribute_6'' ''DoubleAttribute'' [(''../classtinyxml2_1_1_x_m_l_element.html#a10a90c505aea716bf073eea1c97f33b5'', True, ''tinyxml2::XMLElement'')],
      sr ''doubletext_7'' ''DoubleText'' [(''../classtinyxml2_1_1_x_m_l_element.html#a81b1ff0cf2f2cd09be8badc08b39a2b7'', True, ''tinyxml2::XMLElement'')],
      sr ''doublevalue_8'' ''DoubleValue'' [(''../classtinyxml2_1_1_x_m_l_attribute.html#a4aa73513f54ff0087d3e804f0f54e30f'', True, ''tinyxml2::XMLAttribute'')]]"

definition search_functions_4 :: "sr_entry list" where [site_scripts]:
  "search_functions_4 =
     [sr ''error_0'' ''Error'' [(''../classtinyxml2_1_1_x_m_l_document.html#a34e6318e182e40e3cc4f4ba5d59ed9ed'', True, ''tinyxml2::XMLDocument'')],
      sr ''errorid_1'' ''ErrorID'' [(''../classtinyxml2_1_1_x_m_l_document.html#afa3ed33b3107f920ec2b301f805ac17d'', True, ''tinyxml2::XMLDocument'')],
      sr ''errorlinenum_2'' ''ErrorLineNum'' [(''../classtinyxml2_1_1_x_m_l_document.html#a57400f816dbe7799ece33615ead9ab76'', True, ''tinyxml2::XMLDocument'')],
      sr ''errorstr_3'' ''ErrorStr'' [(''../classtinyxml2_1_1_x_m_l_document.html#ae97fff2402a0d01e0509c430b37996b3'', True, ''tinyxml2::XMLDocument'')]]"

definition search_functions_5 :: "sr_entry list" where [site_scripts]:
  "search_functions_5 =
     [sr ''findattribute_0'' ''FindAttribute'' [(''../classtinyxml2_1_1_x_m_l_element.html#a157750dac8037a316fd1af1a973dfa2c'', True, ''tinyxml2::XMLElement'')],
      sr ''firstattribute_1'' ''FirstAttribute'' [(''../classtinyxml2_1_1_x_m_l_element.html#a4a7c4392658833bb8138c474d15a805a'', True, ''tinyxml2::XMLElement'')],
      sr ''firstchild_2'' ''FirstChild'' [(''../classtinyxml2_1_1_x_m_l_node.html#abcc2e572dce329539689b426a0840661'', True, ''tinyxml2::XMLNode::FirstChild()''), (''../classtinyxml2_1_1_x_m_l_handle.html#a536447dc7f54c0cd11e031dad94795ae'', True, ''tinyxml2::XMLHandle::FirstChild()'')],
      sr ''firstchildelement_3'' ''FirstChildElement'' [(''../classtinyxml2_1_1_x_m_l_node.html#a1bec132dcf085284e0a10755f2cf0d57'', True, ''tinyxml2::XMLNode::FirstChildElement()''), (''../classtinyxml2_1_1_x_m_l_handle.html#a74b04dd0f15e0bf01860e282b840b6a3'', True, ''tinyxml2::XMLHandle::FirstChildElement()'')],
      sr ''floatattribute_4'' ''FloatAttribute'' [(''../classtinyxml2_1_1_x_m_l_element.html#ab1f4be2332e27dc640e9b6abd01d64dd'', True, ''tinyxml2::XMLElement'')],
      sr ''floattext_5'' ''FloatText'' [(''../classtinyxml2_1_1_x_m_l_element.html#a45444eb21f99ca46101545992dc2e927'', True, ''tinyxml2::XMLElement'')],
      sr ''floatvalue_6'' ''FloatValue'' [(''../classtinyxml2_1_1_x_m_l_attribute.html#a27797b45d21c981257720db94f5f8801'', True, ''tinyxml2::XMLAttribute'')]]"

definition search_functions_6 :: "sr_entry list" where [site_scripts]:
  "search_functions_6 =
     [sr ''getdocument_0'' ''GetDocument'' [(''../classtinyxml2_1_1_x_m_l_node.html#a6ce3bbe80357f5a4dc5db31a66f2bb18'', True, ''tinyxml2::XMLNode::GetDocument() const''), (''../classtinyxml2_1_1_x_m_l_node.html#a48d1695f7c834129e072548957a50501'', True, ''tinyxml2::XMLNode::GetDocument()'')],
      sr ''getlinenum_1'' ''GetLineNum'' [(''../classtinyxml2_1_1_x_m_l_node.html#a9b5fc636646fda761d342c72e91cb286'', True, ''tinyxml2::XMLNode::GetLineNum()''), (''../classtinyxml2_1_1_x_m_l_attribute.html#a02d5ea924586e35f9c13857d1671b765'', True, ''tinyxml2::XMLAttribute::GetLineNum()'')],
      sr ''gettext_2'' ''GetText'' [(''../classtinyxml2_1_1_x_m_l_element.html#a0fa5bea0a4daf3ddd503dcabb823eba6'', True, ''tinyxml2::XMLElement'')],
      sr ''getuserdata_3'' ''GetUserData'' [(''../classtinyxml2_1_1_x_m_l_node.html#a18cc02ebd0b06f6bf5db7ef87653e00e'', True, ''tinyxml2::XMLNode'')]]"

definition search_functions_7 :: "sr_entry list" where [site_scripts]:
  "search_functions_7 =
     [sr ''hasbom_0'' ''HasBOM'' [(''../classtinyxml2_1_1_x_m_l_document.html#a33fc5d159db873a179fa26338adb05bd'', True, ''tinyxml2::XMLDocument'')]]"

definition search_functions_8 :: "sr_entry list" where [site_scripts]:
  "search_functions_8 =
     [sr ''insertafterchild_0'' ''InsertAfterChild'' [(''../classtinyxml2_1_1_x_m_l_node.html#a9275138a1b8dd5d8e2c26789bdc23ac8'', True, ''tinyxml2::XMLNode'')],
      sr ''insertendchild_1'' ''InsertEndChild'' [(''../classtinyxml2_1_1_x_m_l_node.html#ae3b422e98914d6002ca99bb1d2837103'', True, ''tinyxml2::XMLNode'')],
      sr ''insertfirstchild_2'' ''InsertFirstChild'' [(''../classtinyxml2_1_1_x_m_l_node.html#ac609a8f3ea949027f439280c640bbaf2'', True, ''tinyxml2::XMLNode'')],
      sr ''insertnewchildelement_3'' ''InsertNewChildElement'' [(''../classtinyxml2_1_1_x_m_l_element.html#abf01fdeb702165fddbc97bcc8af8a1ad'', True, ''tinyxml2::XMLElement'')],
      sr ''insertnewcomment_4'' ''InsertNewComment'' [(''../classtinyxml2_1_1_x_m_l_element.html#aaed36d3a8082b083ec4f1de55ee68cc2'', True, ''tinyxml2::XMLElement'')],
      sr ''insertnewdeclaration_5'' ''InsertNewDeclaration'' [(''../classtinyxml2_1_1_x_m_l_element.html#a7f11671a928649add7e3e18de7adf84a'', True, ''tinyxml2::XMLElement'')],
      sr ''insertnewtext_6'' ''InsertNewText'' [(''../classtinyxml2_1_1_x_m_l_element.html#ac30367a5e25ff30e178b56e0e1456d23'', True, ''tinyxml2::XMLElement'')],
      sr ''insertnewunknown_7'' ''InsertNewUnknown'' [(''../classtinyxml2_1_1_x_m_l_element.html#afe6cfefb48f8fbcb29a790f2042b55a4'', True, ''tinyxml2::XMLElement'')],
      sr ''int64attribute_8'' ''Int64Attribute'' [(''../classtinyxml2_1_1_x_m_l_element.html#a66d96972adecd816194191f13cc4a0a0'', True, ''tinyxml2::XMLElement'')],
      sr ''int64text_9'' ''Int64Text'' [(''../classtinyxml2_1_1_x_m_l_element.html#aab6151f7e3b4c2c0a8234e262d7b6b8a'', True, ''tinyxml2::XMLElement'')],
      sr ''intattribute_10'' ''IntAttribute'' [(''../classtinyxml2_1_1_x_m_l_element.html#a95a89b13bb14a2d4655e2b5b406c00d4'', True, ''tinyxml2::XMLElement'')],
      sr ''intvalue_11'' ''IntValue'' [(''../classtinyxml2_1_1_x_m_l_attribute.html#adfa2433f0fdafd5c3880936de9affa80'', True, ''tinyxml2::XMLAttribute'')]]"

definition search_functions_9 :: "sr_entry list" where [site_scripts]:
  "search_functions_9 =
     [sr ''lastchild_0'' ''LastChild'' [(''../classtinyxml2_1_1_x_m_l_node.html#a69a29bb8263ff5e9815be180bf27e7af'', True, ''tinyxml2::XMLNode::LastChild()''), (''../classtinyxml2_1_1_x_m_l_handle.html#a9d09f04435f0f2f7d0816b0198d0517b'', True, ''tinyxml2::XMLHandle::LastChild()'')],
      sr ''lastchildelement_1'' ''LastChildElement'' [(''../classtinyxml2_1_1_x_m_l_node.html#a609e02f02044f39b928d1a3e0de9f532'', True, ''tinyxml2::XMLNode::LastChildElement()''), (''../classtinyxml2_1_1_x_m_l_handle.html#a42cccd0ce8b1ce704f431025e9f19e0c'', True, ''tinyxml2::XMLHandle::LastChildElement()'')],
      sr ''loadfile_2'' ''LoadFile'' [(''../classtinyxml2_1_1_x_m_l_document.html#a2ebd4647a8af5fc6831b294ac26a150a'', True, ''tinyxml2::XMLDocument::LoadFile(const char *filename)''), (''../classtinyxml2_1_1_x_m_l_document.html#a5f1d330fad44c52f3d265338dd2a6dc2'', True, ''tinyxml2::XMLDocument::LoadFile(FILE *)'')]]"

definition search_functions_a :: "sr_entry list" where [site_scripts]:
  "search_functions_a =
     [sr ''name_0'' ''Name'' [(''../classtinyxml2_1_1_x_m_l_attribute.html#a5a5c135d24cce7abda6f17301c6274d8'', True, ''tinyxml2::XMLAttribute::Name()''), (''../classtinyxml2_1_1_x_m_l_element.html#abd36e34e4428a8eeeffbe87eab0b124d'', True, ''tinyxml2::XMLElement::Name()'')],
      sr ''newcomment_1'' ''NewComment'' [(''../classtinyxml2_1_1_x_m_l_document.html#a386df0befd06aadb5e0cd21381aa955a'', True, ''tinyxml2::XMLDocument'')],
      sr ''newdeclaration_2'' ''NewDeclaration'' [(''../classtinyxml2_1_1_x_m_l_document.html#ae519030c0262fa2daff8993681990e16'', True, ''tinyxml2::XMLDocument'')],
      sr ''newelement_3'' ''NewElement'' [(''../classtinyxml2_1_1_x_m_l_document.html#a3c335a700a43d7c363a393142a23f234'', True, ''tinyxml2::XMLDocument'')],
      sr ''newtext_4'' ''NewText'' [(''../classtinyxml2_1_1_x_m_l_document.html#acece5de77a0819f2341b08c1e1ed9987'', True, ''tinyxml2::XMLDocument'')],
      sr ''newunknown_5'' ''NewUnknown'' [(''../classtinyxml2_1_1_x_m_l_document.html#a4954f502c5fd7f49de54c3c0c99bb73d'', True, ''tinyxml2::XMLDocument'')],
      sr ''next_6'' ''Next'' [(''../classtinyxml2_1_1_x_m_l_attribute.html#aa8c7cf4c94a636ae75046658e551614e'', True, ''tinyxml2::XMLAttribute'')],
      sr ''nextsibling_7'' ''NextSibling'' [(''../classtinyxml2_1_1_x_m_l_node.html#af986c568061b020cf6232bec091388c0'', True, ''tinyxml2::XMLNode::NextSibling()''), (''../classtinyxml2_1_1_x_m_l_handle.html#aad2eccc7c7c7b18145877c978c3850b5'', True, ''tinyxml2::XMLHandle::NextSibling()'')],
      sr ''nextsiblingelement_8'' ''NextSiblingElement'' [(''../classtinyxml2_1_1_x_m_l_node.html#a14ea560df31110ff07a9f566171bf797'', True, ''tinyxml2::XMLNode::NextSiblingElement()''), (''../classtinyxml2_1_1_x_m_l_handle.html#ae41d88ee061f3c49a081630ff753b2c5'', True, ''tinyxml2::XMLHandle::NextSiblingElement()'')],
      sr ''nochildren_9'' ''NoChildren'' [(''../classtinyxml2_1_1_x_m_l_node.html#ac3ab489e6e202a3cd1762d3b332e89d4'', True, ''tinyxml2::XMLNode'')]]"

definition search_functions_b :: "sr_entry list" where [site_scripts]:
  "search_functions_b =
     [sr ''openelement_0'' ''OpenElement'' [(''../classtinyxml2_1_1_x_m_l_printer.html#a20fb06c83bd13e5140d7dd13af06c010'', True, ''tinyxml2::XMLPrinter'')],
      sr ''operator_3d_1'' ''operator='' [(''../classtinyxml2_1_1_x_m_l_handle.html#aa07c9a53f78d7b2dc1018668641521d8'', True, ''tinyxml2::XMLHandle'')]]"

definition search_functions_c :: "sr_entry list" where [site_scripts]:
  "search_functions_c =
     [sr ''parent_0'' ''Parent'' [(''../classtinyxml2_1_1_x_m_l_node.html#a4d76b30d1bf4b166d3e4fa3419d51595'', True, ''tinyxml2::XMLNode'')],
      sr ''parse_1'' ''Parse'' [(''../classtinyxml2_1_1_x_m_l_document.html#af2b616169e6517182f6725f2498e9a01'', True, ''tinyxml2::XMLDocument'')],
      sr ''previoussibling_2'' ''PreviousSibling'' [(''../classtinyxml2_1_1_x_m_l_node.html#a92ee96b0d8628bc609f1d34e56d69dfa'', True, ''tinyxml2::XMLNode::PreviousSibling()''), (''../classtinyxml2_1_1_x_m_l_handle.html#a428374e756f4db4cbc287fec64eae02c'', True, ''tinyxml2::XMLHandle::PreviousSibling()'')],
      sr ''previoussiblingelement_3'' ''PreviousSiblingElement'' [(''../classtinyxml2_1_1_x_m_l_node.html#a9453cda5e970375a7b1b2099f8a7c40a'', True, ''tinyxml2::XMLNode::PreviousSiblingElement()''), (''../classtinyxml2_1_1_x_m_l_handle.html#a786957e498039554ed334cdc36612a7e'', True, ''tinyxml2::XMLHandle::PreviousSiblingElement()'')],
      sr ''print_4'' ''Print'' [(''../classtinyxml2_1_1_x_m_l_document.html#a867cf5fa3e3ff6ae4847a8b7ee8ec083'', True, ''tinyxml2::XMLDocument'')],
      sr ''printerror_5'' ''PrintError'' [(''../classtinyxml2_1_1_x_m_l_document.html#a1d033945b42e125d933d6231e4571552'', True, ''tinyxml2::XMLDocument'')],
      sr ''printspace_6'' ''PrintSpace'' [(''../classtinyxml2_1_1_x_m_l_printer.html#a01148e2ebe6776e38c5a3e41bc5feb74'', True, ''tinyxml2::XMLPrinter'')],
      sr ''pushattribute_7'' ''PushAttribute'' [(''../classtinyxml2_1_1_x_m_l_printer.html#a9a4e2c9348b42e147629d5a99f4af3f0'', True, ''tinyxml2::XMLPrinter'')],
      sr ''pushcomment_8'' ''PushComment'' [(''../classtinyxml2_1_1_x_m_l_printer.html#afc8416814219591c2fd5656e0c233140'', True, ''tinyxml2::XMLPrinter'')],
      sr ''pushheader_9'' ''PushHeader'' [(''../classtinyxml2_1_1_x_m_l_printer.html#a178c608ce8476043d5d6513819cde903'', True, ''tinyxml2::XMLPrinter'')],
      sr ''pushtext_10'' ''PushText'' [(''../classtinyxml2_1_1_x_m_l_printer.html#a1cc16a9362df4332012cb13cff6441b3'', True, ''tinyxml2::XMLPrinter::PushText(const char *text, bool cdata=false)''), (''../classtinyxml2_1_1_x_m_l_printer.html#a3e0d4d78de25d4cf081009e1431cea7e'', True, ''tinyxml2::XMLPrinter::PushText(int value)''), (''../classtinyxml2_1_1_x_m_l_printer.html#a661fb50e7e0a4918d2d259cb0fae647e'', True, ''tinyxml2::XMLPrinter::PushText(unsigned value)''), (''../classtinyxml2_1_1_x_m_l_printer.html#a96b0a0bfe105154a0a6c37d725258f0a'', True, ''tinyxml2::XMLPrinter::PushText(int64_t value)''), (''../classtinyxml2_1_1_x_m_l_printer.html#a60b0a4cf57371ff8679c2c7556ccb708'', True, ''tinyxml2::XMLPrinter::PushText(uint64_t value)''), (''../classtinyxml2_1_1_x_m_l_printer.html#a4390e5fa1ed05189a8686647345ab29f'', True, ''tinyxml2::XMLPrinter::PushText(bool value)''), (''../classtinyxml2_1_1_x_m_l_printer.html#a1dbb1390e829d0673af66b9cd1928bd7'', True, ''tinyxml2::XMLPrinter::PushText(float value)''), (''../classtinyxml2_1_1_x_m_l_printer.html#aa715302dfc09473c77c853cbd5431965'', True, ''tinyxml2::XMLPrinter::PushText(double value)'')]]"

definition search_functions_d :: "sr_entry list" where [site_scripts]:
  "search_functions_d =
     [sr ''queryattribute_0'' ''QueryAttribute'' [(''../classtinyxml2_1_1_x_m_l_element.html#a5b7df3bed2b8954eabf227fa204522eb'', True, ''tinyxml2::XMLElement'')],
      sr ''queryboolattribute_1'' ''QueryBoolAttribute'' [(''../classtinyxml2_1_1_x_m_l_element.html#a14c1bb77c39689838be01838d86ca872'', True, ''tinyxml2::XMLElement'')],
      sr ''querybooltext_2'' ''QueryBoolText'' [(''../classtinyxml2_1_1_x_m_l_element.html#a3fe5417d59eb8f5c4afe924b7d332736'', True, ''tinyxml2::XMLElement'')],
      sr ''queryboolvalue_3'' ''QueryBoolValue'' [(''../classtinyxml2_1_1_x_m_l_attribute.html#a5f32e038954256f61c21ff20fd13a09c'', True, ''tinyxml2::XMLAttribute'')],
      sr ''querydoubleattribute_4'' ''QueryDoubleAttribute'' [(''../classtinyxml2_1_1_x_m_l_element.html#a5f0964e2dbd8e2ee7fce9beab689443c'', True, ''tinyxml2::XMLElement'')],
      sr ''querydoubletext_5'' ''QueryDoubleText'' [(''../classtinyxml2_1_1_x_m_l_element.html#a684679c99bb036a25652744cec6c4d96'', True, ''tinyxml2::XMLElement'')],
      sr ''querydoublevalue_6'' ''QueryDoubleValue'' [(''../classtinyxml2_1_1_x_m_l_attribute.html#a2aa6e55e8ea03af0609cf6690bff79b9'', True, ''tinyxml2::XMLAttribute'')],
      sr ''queryfloatattribute_7'' ''QueryFloatAttribute'' [(''../classtinyxml2_1_1_x_m_l_element.html#acd5eeddf6002ef90806af794b9d9a5a5'', True, ''tinyxml2::XMLElement'')],
      sr ''queryfloattext_8'' ''QueryFloatText'' [(''../classtinyxml2_1_1_x_m_l_element.html#afa332afedd93210daa6d44b88eb11e29'', True, ''tinyxml2::XMLElement'')],
      sr ''queryfloatvalue_9'' ''QueryFloatValue'' [(''../classtinyxml2_1_1_x_m_l_attribute.html#a049dea6449a6259b6cfed44a9427b607'', True, ''tinyxml2::XMLAttribute'')],
      sr ''queryint64attribute_10'' ''QueryInt64Attribute'' [(''../classtinyxml2_1_1_x_m_l_element.html#a7c0955d80b6f8d196744eacb0f6e90a8'', True, ''tinyxml2::XMLElement'')],
      sr ''queryint64text_11'' ''QueryInt64Text'' [(''../classtinyxml2_1_1_x_m_l_element.html#a120c538c8eead169e635dbc70fb226d8'', True, ''tinyxml2::XMLElement'')],
      sr ''queryint64value_12'' ''QueryInt64Value'' [(''../classtinyxml2_1_1_x_m_l_attribute.html#a4e25344d6e4159026be34dbddf1dcac2'', True, ''tinyxml2::XMLAttribute'')],
      sr ''queryintattribute_13'' ''QueryIntAttribute'' [(''../classtinyxml2_1_1_x_m_l_element.html#a8a78bc1187c1c45ad89f2690eab567b1'', True, ''tinyxml2::XMLElement'')],
      sr ''queryinttext_14'' ''QueryIntText'' [(''../classtinyxml2_1_1_x_m_l_element.html#a926357996bef633cb736e1a558419632'', True, ''tinyxml2::XMLElement'')],
      sr ''queryintvalue_15'' ''QueryIntValue'' [(''../classtinyxml2_1_1_x_m_l_attribute.html#a6d5176260db00ea301c01af8457cd993'', True, ''tinyxml2::XMLAttribute'')],
      sr ''querystringattribute_16'' ''QueryStringAttribute'' [(''../classtinyxml2_1_1_x_m_l_element.html#adb8ae765f98d0c5037faec48deea78bc'', True, ''tinyxml2::XMLElement'')],
      sr ''queryunsigned64attribute_17'' ''QueryUnsigned64Attribute'' [(''../classtinyxml2_1_1_x_m_l_element.html#a13dd590b5d3958ce2ed79844aacd9405'', True, ''tinyxml2::XMLElement'')],
      sr ''queryunsigned64text_18'' ''QueryUnsigned64Text'' [(''../classtinyxml2_1_1_x_m_l_element.html#ac2239b3bd172ad8f5b78d04d4236144b'', True, ''tinyxml2::XMLElement'')],
      sr ''queryunsigned64value_19'' ''QueryUnsigned64Value'' [(''../classtinyxml2_1_1_x_m_l_attribute.html#af793c695e7ee65cf20b8010d38b1d157'', True, ''tinyxml2::XMLAttribute'')],
      sr ''queryunsignedattribute_20'' ''QueryUnsignedAttribute'' [(''../classtinyxml2_1_1_x_m_l_element.html#a26fc84cbfba6769dafcfbf256c05e22f'', True, ''tinyxml2::XMLElement'')],
      sr ''queryunsignedtext_21'' ''QueryUnsignedText'' [(''../classtinyxml2_1_1_x_m_l_element.html#a14d38aa4b5e18a46274a27425188a6a1'', True, ''tinyxml2::XMLElement'')],
      sr ''queryunsignedvalue_22'' ''QueryUnsignedValue'' [(''../classtinyxml2_1_1_x_m_l_attribute.html#a48a7f3496f1415832e451bd8d09c9cb9'', True, ''tinyxml2::XMLAttribute'')]]"

definition search_functions_e :: "sr_entry list" where [site_scripts]:
  "search_functions_e =
     [sr ''rootelement_0'' ''RootElement'' [(''../classtinyxml2_1_1_x_m_l_document.html#a0e6855771cbe87d839fb301d3646f5b8'', True, ''tinyxml2::XMLDocument'')]]"

definition search_functions_f :: "sr_entry list" where [site_scripts]:
  "search_functions_f =
     [sr ''savefile_0'' ''SaveFile'' [(''../classtinyxml2_1_1_x_m_l_document.html#a73ac416b4a2aa0952e841220eb3da18f'', True, ''tinyxml2::XMLDocument::SaveFile(const char *filename, bool compact=false)''), (''../classtinyxml2_1_1_x_m_l_document.html#a8b95779479a0035acc67b3a61dfe1b74'', True, ''tinyxml2::XMLDocument::SaveFile(FILE *fp, bool compact=false)'')],
      sr ''setattribute_1'' ''SetAttribute'' [(''../classtinyxml2_1_1_x_m_l_attribute.html#a406d2c4a13c7af99a65edb59dd9f7581'', True, ''tinyxml2::XMLAttribute::SetAttribute(const char *value)''), (''../classtinyxml2_1_1_x_m_l_attribute.html#ad86d7d7058d76761c3a80662566a57e5'', True, ''tinyxml2::XMLAttribute::SetAttribute(int value)''), (''../classtinyxml2_1_1_x_m_l_attribute.html#ae70468c0f6df2748ba3529c716999fae'', True, ''tinyxml2::XMLAttribute::SetAttribute(unsigned value)''), (''../classtinyxml2_1_1_x_m_l_attribute.html#a7c1240f479722b9aa29b6c030aa116c2'', True, ''tinyxml2::XMLAttribute::SetAttribute(int64_t value)''), (''../classtinyxml2_1_1_x_m_l_attribute.html#a10964060a5c0d92486ecf8705bdf37da'', True, ''tinyxml2::XMLAttribute::SetAttribute(uint64_t value)''), (''../classtinyxml2_1_1_x_m_l_attribute.html#ab3516def4fe058fe328f2b89fc2d77da'', True, ''tinyxml2::XMLAttribute::SetAttribute(bool value)''), (''../classtinyxml2_1_1_x_m_l_attribute.html#a9a65ab3147abe8ccbbd373ce8791e818'', True, ''tinyxml2::XMLAttribute::SetAttribute(double value)''), (''../classtinyxml2_1_1_x_m_l_attribute.html#ae95e843313aaf5d56c32530b6456df02'', True, ''tinyxml2::XMLAttribute::SetAttribute(float value)''), (''../classtinyxml2_1_1_x_m_l_element.html#a11943abf2d0831548c3790dd5d9f119c'', True, ''tinyxml2::XMLElement::SetAttribute(const char *name, const char *value)''), (''../classtinyxml2_1_1_x_m_l_element.html#aae6568c64c7f1cc88be8461ba41a79cf'', True, ''tinyxml2::XMLElement::SetAttribute(const char *name, int value)''), (''../classtinyxml2_1_1_x_m_l_element.html#ae143997e90064ba82326b29a9930ea8f'', True, ''tinyxml2::XMLElement::SetAttribute(const char *name, unsigned value)''), (''../classtinyxml2_1_1_x_m_l_element.html#aaeefdf9171fec91b13a776b42299b0dd'', True, ''tinyxml2::XMLElement::SetAttribute(const char *name, int64_t value)''), (''../classtinyxml2_1_1_x_m_l_element.html#ad598868c0599ddc4695dab18552c308d'', True, ''tinyxml2::XMLElement::SetAttribute(const char *name, uint64_t value)''), (''../classtinyxml2_1_1_x_m_l_element.html#aa848b696e6a75e4e545c6da9893b11e1'', True, ''tinyxml2::XMLElement::SetAttribute(const char *name, bool value)''), (''../classtinyxml2_1_1_x_m_l_element.html#a233397ee81e70eb5d4b814c5f8698533'', True, ''tinyxml2::XMLElement::SetAttribute(const char *name, double value)''), (''../classtinyxml2_1_1_x_m_l_element.html#a554b70d882e65b28fc084b23df9b9759'', True, ''tinyxml2::XMLElement::SetAttribute(const char *name, float value)'')],
      sr ''setbom_2'' ''SetBOM'' [(''../classtinyxml2_1_1_x_m_l_document.html#a14419b698f7c4b140df4e80f3f0c93b0'', True, ''tinyxml2::XMLDocument'')],
      sr ''setcdata_3'' ''SetCData'' [(''../classtinyxml2_1_1_x_m_l_text.html#ad080357d76ab7cc59d7651249949329d'', True, ''tinyxml2::XMLText'')],
      sr ''setname_4'' ''SetName'' [(''../classtinyxml2_1_1_x_m_l_element.html#a97712009a530d8cb8a63bf705f02b4f1'', True, ''tinyxml2::XMLElement'')],
      sr ''settext_5'' ''SetText'' [(''../classtinyxml2_1_1_x_m_l_element.html#a1f9c2cd61b72af5ae708d37b7ad283ce'', True, ''tinyxml2::XMLElement::SetText(const char *inText)''), (''../classtinyxml2_1_1_x_m_l_element.html#aeae8917b5ea6060b3c08d4e3d8d632d7'', True, ''tinyxml2::XMLElement::SetText(int value)''), (''../classtinyxml2_1_1_x_m_l_element.html#a7bbfcc11d516598bc924a8fba4d08597'', True, ''tinyxml2::XMLElement::SetText(unsigned value)''), (''../classtinyxml2_1_1_x_m_l_element.html#a7b62cd33acdfeff7ea2b1b330d4368e4'', True, ''tinyxml2::XMLElement::SetText(int64_t value)''), (''../classtinyxml2_1_1_x_m_l_element.html#a6e615bc745afd1ca8ded56d7aac02657'', True, ''tinyxml2::XMLElement::SetText(uint64_t value)''), (''../classtinyxml2_1_1_x_m_l_element.html#ae4b543d6770de76fb6ab68e541c192a4'', True, ''tinyxml2::XMLElement::SetText(bool value)''), (''../classtinyxml2_1_1_x_m_l_element.html#a67bd77ac9aaeff58ff20b4275a65ba4e'', True, ''tinyxml2::XMLElement::SetText(double value)''), (''../classtinyxml2_1_1_x_m_l_element.html#a51d560da5ae3ad6b75e0ab9ffb2ae42a'', True, ''tinyxml2::XMLElement::SetText(float value)'')],
      sr ''setuserdata_6'' ''SetUserData'' [(''../classtinyxml2_1_1_x_m_l_node.html#a002978fc889cc011d143185f2377eca2'', True, ''tinyxml2::XMLNode'')],
      sr ''setvalue_7'' ''SetValue'' [(''../classtinyxml2_1_1_x_m_l_node.html#a09dd68cf9eae137579f6e50f36487513'', True, ''tinyxml2::XMLNode'')],
      sr ''shallowclone_8'' ''ShallowClone'' [(''../classtinyxml2_1_1_x_m_l_node.html#a9046880c05b81ad99ee645f4b2a53ecd'', True, ''tinyxml2::XMLNode::ShallowClone()''), (''../classtinyxml2_1_1_x_m_l_text.html#a277bbcf2e0e1326ca7f6f7c4d0820bb0'', True, ''tinyxml2::XMLText::ShallowClone()''), (''../classtinyxml2_1_1_x_m_l_comment.html#a5396d702a6ca251ee1493707a3ac6086'', True, ''tinyxml2::XMLComment::ShallowClone()''), (''../classtinyxml2_1_1_x_m_l_declaration.html#a0e1151bfb4c2a42ed8a1991169cbc59e'', True, ''tinyxml2::XMLDeclaration::ShallowClone()''), (''../classtinyxml2_1_1_x_m_l_unknown.html#a5ffeb6cd9e55008ebc160c1ceb4115ec'', True, ''tinyxml2::XMLUnknown::ShallowClone()''), (''../classtinyxml2_1_1_x_m_l_element.html#a6dc4d8774d1e77a8c37a7b3d039d3049'', True, ''tinyxml2::XMLElement::ShallowClone()''), (''../classtinyxml2_1_1_x_m_l_document.html#a01ab2fc16fbce5f4456d67d24090e70b'', True, ''tinyxml2::XMLDocument::ShallowClone()'')],
      sr ''shallowequal_9'' ''ShallowEqual'' [(''../classtinyxml2_1_1_x_m_l_node.html#a7ce18b751c3ea09eac292dca264f9226'', True, ''tinyxml2::XMLNode::ShallowEqual()''), (''../classtinyxml2_1_1_x_m_l_text.html#a032269f8d4d0357912fcb9bdc796f50c'', True, ''tinyxml2::XMLText::ShallowEqual()''), (''../classtinyxml2_1_1_x_m_l_comment.html#a5d905bdee77945cf8473987911fbe581'', True, ''tinyxml2::XMLComment::ShallowEqual()''), (''../classtinyxml2_1_1_x_m_l_declaration.html#a125d70baaba44a55c2f10e185f70d478'', True, ''tinyxml2::XMLDeclaration::ShallowEqual()''), (''../classtinyxml2_1_1_x_m_l_unknown.html#a300a119859a7c25a64f400c16535d8b4'', True, ''tinyxml2::XMLUnknown::ShallowEqual()''), (''../classtinyxml2_1_1_x_m_l_element.html#aaba88737610559755425b8a59179817e'', True, ''tinyxml2::XMLElement::ShallowEqual()''), (''../classtinyxml2_1_1_x_m_l_document.html#ac538345c44f521e418ff86b4bdc20ca8'', True, ''tinyxml2::XMLDocument::ShallowEqual()'')]]"

definition search_functions_10 :: "sr_entry list" where [site_scripts]:
  "search_functions_10 =
     [sr ''tocomment_0'' ''ToComment'' [(''../classtinyxml2_1_1_x_m_l_node.html#a5dc13f02ae49e3fa609e426f47c8466d'', True, ''tinyxml2::XMLNode::ToComment()''), (''../classtinyxml2_1_1_x_m_l_comment.html#a7bd0df98fc2bb55d1d4445bfd2ec0053'', True, ''tinyxml2::XMLComment::ToComment()'')],
      sr ''todeclaration_1'' ''ToDeclaration'' [(''../classtinyxml2_1_1_x_m_l_node.html#a12aa783a3a4445ad5557c7d56cd8dc4a'', True, ''tinyxml2::XMLNode::ToDeclaration()''), (''../classtinyxml2_1_1_x_m_l_declaration.html#ac485f175252b0d838d86de5fa22455cd'', True, ''tinyxml2::XMLDeclaration::ToDeclaration()''), (''../classtinyxml2_1_1_x_m_l_handle.html#a85d0c76920a013ea2a29456dbf7d160d'', True, ''tinyxml2::XMLHandle::ToDeclaration()'')],
      sr ''todocument_2'' ''ToDocument'' [(''../classtinyxml2_1_1_x_m_l_node.html#a6107c3f57ab6e0755959947762953652'', True, ''tinyxml2::XMLNode::ToDocument()''), (''../classtinyxml2_1_1_x_m_l_document.html#a290ad241e05e6aeeccbc78a4f3454f55'', True, ''tinyxml2::XMLDocument::ToDocument()'')],
      sr ''toelement_3'' ''ToElement'' [(''../classtinyxml2_1_1_x_m_l_node.html#a9417e1f8a9787ae27741605493514b18'', True, ''tinyxml2::XMLNode::ToElement()''), (''../classtinyxml2_1_1_x_m_l_element.html#a88621376780280c0695458e30212eebe'', True, ''tinyxml2::XMLElement::ToElement()''), (''../classtinyxml2_1_1_x_m_l_handle.html#ab2371c4adb8b04afe04ed216bf9b0676'', True, ''tinyxml2::XMLHandle::ToElement()'')],
      sr ''tonode_4'' ''ToNode'' [(''../classtinyxml2_1_1_x_m_l_handle.html#a689453c96dd3d4016437d2298d1de691'', True, ''tinyxml2::XMLHandle'')],
      sr ''totext_5'' ''ToText'' [(''../classtinyxml2_1_1_x_m_l_node.html#a0aea8c9c5853c35a06da1988486abc60'', True, ''tinyxml2::XMLNode::ToText()''), (''../classtinyxml2_1_1_x_m_l_text.html#a221e45ee1026407049d89786cbbfe145'', True, ''tinyxml2::XMLText::ToText()''), (''../classtinyxml2_1_1_x_m_l_handle.html#accc80bcbd81e816f13a23c172587c288'', True, ''tinyxml2::XMLHandle::ToText()'')],
      sr ''tounknown_6'' ''ToUnknown'' [(''../classtinyxml2_1_1_x_m_l_node.html#aa8a2dd38b786c3b8d406c2047753cbfd'', True, ''tinyxml2::XMLNode::ToUnknown()''), (''../classtinyxml2_1_1_x_m_l_unknown.html#a7d2238fe165736605de3ba2e2e5a99d1'', True, ''tinyxml2::XMLUnknown::ToUnknown()''), (''../classtinyxml2_1_1_x_m_l_handle.html#add97784cbe14ef42bb36e158ad6e6082'', True, ''tinyxml2::XMLHandle::ToUnknown()'')]]"

definition search_functions_11 :: "sr_entry list" where [site_scripts]:
  "search_functions_11 =
     [sr ''unsigned64attribute_0'' ''Unsigned64Attribute'' [(''../classtinyxml2_1_1_x_m_l_element.html#a226502bab8f1be7ede1fdd255398eb85'', True, ''tinyxml2::XMLElement'')],
      sr ''unsigned64text_1'' ''Unsigned64Text'' [(''../classtinyxml2_1_1_x_m_l_element.html#af48c1023abbac1acdf4927c51c3a5f0c'', True, ''tinyxml2::XMLElement'')],
      sr ''unsignedattribute_2'' ''UnsignedAttribute'' [(''../classtinyxml2_1_1_x_m_l_element.html#afea43a1d4aa33e3703ddee5fc9adc26c'', True, ''tinyxml2::XMLElement'')],
      sr ''unsignedtext_3'' ''UnsignedText'' [(''../classtinyxml2_1_1_x_m_l_element.html#a49bad014ffcc17b0b6119d5b2c97dfb5'', True, ''tinyxml2::XMLElement'')],
      sr ''unsignedvalue_4'' ''UnsignedValue'' [(''../classtinyxml2_1_1_x_m_l_attribute.html#a0be5343b08a957c42c02c5d32c35d338'', True, ''tinyxml2::XMLAttribute'')]]"

definition search_functions_12 :: "sr_entry list" where [site_scripts]:
  "search_functions_12 =
     [sr ''value_0'' ''Value'' [(''../classtinyxml2_1_1_x_m_l_node.html#a0485e51c670e741884cfd8362274d680'', True, ''tinyxml2::XMLNode::Value()''), (''../classtinyxml2_1_1_x_m_l_attribute.html#ab1c5cd993f836a771818ca408994b14e'', True, ''tinyxml2::XMLAttribute::Value()'')],
      sr ''visit_1'' ''Visit'' [(''../classtinyxml2_1_1_x_m_l_visitor.html#adc75bd459fc7ba8223b50f0616767f9a'', True, ''tinyxml2::XMLVisitor::Visit(const XMLDeclaration &amp;)''), (''../classtinyxml2_1_1_x_m_l_visitor.html#af30233565856480ea48b6fa0d6dec65b'', True, ''tinyxml2::XMLVisitor::Visit(const XMLText &amp;)''), (''../classtinyxml2_1_1_x_m_l_visitor.html#acc8147fb5a85f6c65721654e427752d7'', True, ''tinyxml2::XMLVisitor::Visit(const XMLComment &amp;)''), (''../classtinyxml2_1_1_x_m_l_visitor.html#a14e4748387c34bf53d24e8119bb1f292'', True, ''tinyxml2::XMLVisitor::Visit(const XMLUnknown &amp;)''), (''../classtinyxml2_1_1_x_m_l_printer.html#ad903ea1672831f797130b4cddddfa532'', True, ''tinyxml2::XMLPrinter::Visit(const XMLText &amp;text) override''), (''../classtinyxml2_1_1_x_m_l_printer.html#a76fe434cdd4c39cb9963e3025e53609a'', True, ''tinyxml2::XMLPrinter::Visit(const XMLComment &amp;comment) override''), (''../classtinyxml2_1_1_x_m_l_printer.html#a63df55647c0e170e5b8702842b82008e'', True, ''tinyxml2::XMLPrinter::Visit(const XMLDeclaration &amp;declaration) override''), (''../classtinyxml2_1_1_x_m_l_printer.html#a31002765840bc4ea7b22332f71d83c74'', True, ''tinyxml2::XMLPrinter::Visit(const XMLUnknown &amp;unknown) override'')],
      sr ''visitenter_2'' ''VisitEnter'' [(''../classtinyxml2_1_1_x_m_l_visitor.html#acb3c22fc5f60eb9db98f533f2761f67d'', True, ''tinyxml2::XMLVisitor::VisitEnter(const XMLDocument &amp;)''), (''../classtinyxml2_1_1_x_m_l_visitor.html#af97980a17dd4e37448b181f5ddfa92b5'', True, ''tinyxml2::XMLVisitor::VisitEnter(const XMLElement &amp;, const XMLAttribute *)''), (''../classtinyxml2_1_1_x_m_l_printer.html#a73eba3d1aab34c4c3ac38d7d2d186671'', True, ''tinyxml2::XMLPrinter::VisitEnter(const XMLDocument &amp;) override''), (''../classtinyxml2_1_1_x_m_l_printer.html#a5cab997d51b0387c21e2274bd1147755'', True, ''tinyxml2::XMLPrinter::VisitEnter(const XMLElement &amp;element, const XMLAttribute *attribute) override'')],
      sr ''visitexit_3'' ''VisitExit'' [(''../classtinyxml2_1_1_x_m_l_visitor.html#a170e9989cd046ba904f302d087e07086'', True, ''tinyxml2::XMLVisitor::VisitExit(const XMLDocument &amp;)''), (''../classtinyxml2_1_1_x_m_l_visitor.html#a772f10ddc83f881956d32628faa16eb6'', True, ''tinyxml2::XMLVisitor::VisitExit(const XMLElement &amp;)''), (''../classtinyxml2_1_1_x_m_l_printer.html#a261a24986e3507258a74405a7dc08cbf'', True, ''tinyxml2::XMLPrinter::VisitExit(const XMLDocument &amp;) override''), (''../classtinyxml2_1_1_x_m_l_printer.html#a9a397f4c809a4de7ba27902b3ae1bbf7'', True, ''tinyxml2::XMLPrinter::VisitExit(const XMLElement &amp;element) override'')]]"

definition search_functions_13 :: "sr_entry list" where [site_scripts]:
  "search_functions_13 =
     [sr ''xmldocument_0'' ''XMLDocument'' [(''../classtinyxml2_1_1_x_m_l_document.html#a57ddf17b6e054dda10af98991b1b8f70'', True, ''tinyxml2::XMLDocument'')],
      sr ''xmlhandle_1'' ''XMLHandle'' [(''../classtinyxml2_1_1_x_m_l_handle.html#a9c240a35c18f053509b4b97ddccd9793'', True, ''tinyxml2::XMLHandle::XMLHandle(XMLNode *node)''), (''../classtinyxml2_1_1_x_m_l_handle.html#aa2edbc1c0d3e3e8259bd98de7f1cf500'', True, ''tinyxml2::XMLHandle::XMLHandle(XMLNode &amp;node)''), (''../classtinyxml2_1_1_x_m_l_handle.html#afd8e01e6018c07347b8e6d80272466aa'', True, ''tinyxml2::XMLHandle::XMLHandle(const XMLHandle &amp;ref)'')],
      sr ''xmlprinter_2'' ''XMLPrinter'' [(''../classtinyxml2_1_1_x_m_l_printer.html#aa6d3841c069085f5b8a27bc7103c04f7'', True, ''tinyxml2::XMLPrinter'')]]"

definition search_pages_0 :: "sr_entry list" where [site_scripts]:
  "search_pages_0 =
     [sr ''2_0'' ''TinyXML-2'' [(''../index.html'', True, '''')]]"

definition search_pages_1 :: "sr_entry list" where [site_scripts]:
  "search_pages_1 =
     [sr ''an_20xml_20file_0'' ''Load an XML File'' [(''../_example_1.html'', True, '''')],
      sr ''an_20xml_20from_20char_20buffer_1'' ''Parse an XML from char buffer'' [(''../_example_2.html'', True, '''')],
      sr ''and_20text_20information_2'' ''Read attributes and text information.'' [(''../_example_4.html'', True, '''')],
      sr ''attributes_20and_20text_20information_3'' ''Read attributes and text information.'' [(''../_example_4.html'', True, '''')]]"

definition search_pages_2 :: "sr_entry list" where [site_scripts]:
  "search_pages_2 =
     [sr ''buffer_0'' ''Parse an XML from char buffer'' [(''../_example_2.html'', True, '''')]]"

definition search_pages_3 :: "sr_entry list" where [site_scripts]:
  "search_pages_3 =
     [sr ''char_20buffer_0'' ''Parse an XML from char buffer'' [(''../_example_2.html'', True, '''')]]"

definition search_pages_4 :: "sr_entry list" where [site_scripts]:
  "search_pages_4 =
     [sr ''file_0'' ''Load an XML File'' [(''../_example_1.html'', True, '''')],
      sr ''from_20char_20buffer_1'' ''Parse an XML from char buffer'' [(''../_example_2.html'', True, '''')]]"

definition search_pages_5 :: "sr_entry list" where [site_scripts]:
  "search_pages_5 =
     [sr ''get_20information_20out_20of_20xml_0'' ''Get information out of XML'' [(''../_example_3.html'', True, '''')]]"

definition search_pages_6 :: "sr_entry list" where [site_scripts]:
  "search_pages_6 =
     [sr ''information_0'' ''Read attributes and text information.'' [(''../_example_4.html'', True, '''')],
      sr ''information_20out_20of_20xml_1'' ''Get information out of XML'' [(''../_example_3.html'', True, '''')]]"

definition search_pages_7 :: "sr_entry list" where [site_scripts]:
  "search_pages_7 =
     [sr ''load_20an_20xml_20file_0'' ''Load an XML File'' [(''../_example_1.html'', True, '''')]]"

definition search_pages_8 :: "sr_entry list" where [site_scripts]:
  "search_pages_8 =
     [sr ''of_20xml_0'' ''Get information out of XML'' [(''../_example_3.html'', True, '''')],
      sr ''out_20of_20xml_1'' ''Get information out of XML'' [(''../_example_3.html'', True, '''')]]"

definition search_pages_9 :: "sr_entry list" where [site_scripts]:
  "search_pages_9 =
     [sr ''parse_20an_20xml_20from_20char_20buffer_0'' ''Parse an XML from char buffer'' [(''../_example_2.html'', True, '''')]]"

definition search_pages_a :: "sr_entry list" where [site_scripts]:
  "search_pages_a =
     [sr ''read_20attributes_20and_20text_20information_0'' ''Read attributes and text information.'' [(''../_example_4.html'', True, '''')]]"

definition search_pages_b :: "sr_entry list" where [site_scripts]:
  "search_pages_b =
     [sr ''text_20information_0'' ''Read attributes and text information.'' [(''../_example_4.html'', True, '''')],
      sr ''tinyxml_202_1'' ''TinyXML-2'' [(''../index.html'', True, '''')]]"

definition search_pages_c :: "sr_entry list" where [site_scripts]:
  "search_pages_c =
     [sr ''xml_0'' ''Get information out of XML'' [(''../_example_3.html'', True, '''')],
      sr ''xml_20file_1'' ''Load an XML File'' [(''../_example_1.html'', True, '''')],
      sr ''xml_20from_20char_20buffer_2'' ''Parse an XML from char buffer'' [(''../_example_2.html'', True, '''')]]"

definition all_files :: "sr_entry list list" where [site_scripts]:
  "all_files = [search_all_0, search_all_1, search_all_2, search_all_3, search_all_4, search_all_5, search_all_6, search_all_7, search_all_8, search_all_9, search_all_a, search_all_b, search_all_c, search_all_d, search_all_e, search_all_f, search_all_10, search_all_11, search_all_12, search_all_13, search_all_14]"

definition classes_files :: "sr_entry list list" where [site_scripts]:
  "classes_files = [search_classes_0]"

definition functions_files :: "sr_entry list list" where [site_scripts]:
  "functions_files = [search_functions_0, search_functions_1, search_functions_2, search_functions_3, search_functions_4, search_functions_5, search_functions_6, search_functions_7, search_functions_8, search_functions_9, search_functions_a, search_functions_b, search_functions_c, search_functions_d, search_functions_e, search_functions_f, search_functions_10, search_functions_11, search_functions_12, search_functions_13]"

definition pages_files :: "sr_entry list list" where [site_scripts]:
  "pages_files = [search_pages_0, search_pages_1, search_pages_2, search_pages_3, search_pages_4, search_pages_5, search_pages_6, search_pages_7, search_pages_8, search_pages_9, search_pages_a, search_pages_b, search_pages_c]"

definition tinyxml2_scripts :: "(jsstr \<times> sr_entry list) list" where
  "tinyxml2_scripts =
     [(js ''all_0.js'', search_all_0),
      (js ''all_1.js'', search_all_1),
      (js ''all_2.js'', search_all_2),
      (js ''all_3.js'', search_all_3),
      (js ''all_4.js'', search_all_4),
      (js ''all_5.js'', search_all_5),
      (js ''all_6.js'', search_all_6),
      (js ''all_7.js'', search_all_7),
      (js ''all_8.js'', search_all_8),
      (js ''all_9.js'', search_all_9),
      (js ''all_a.js'', search_all_a),
      (js ''all_b.js'', search_all_b),
      (js ''all_c.js'', search_all_c),
      (js ''all_d.js'', search_all_d),
      (js ''all_e.js'', search_all_e),
      (js ''all_f.js'', search_all_f),
      (js ''all_10.js'', search_all_10),
      (js ''all_11.js'', search_all_11),
      (js ''all_12.js'', search_all_12),
      (js ''all_13.js'', search_all_13),
      (js ''all_14.js'', search_all_14),
      (js ''classes_0.js'', search_classes_0),
      (js ''functions_0.js'', search_functions_0),
      (js ''functions_1.js'', search_functions_1),
      (js ''functions_2.js'', search_functions_2),
      (js ''functions_3.js'', search_functions_3),
      (js ''functions_4.js'', search_functions_4),
      (js ''functions_5.js'', search_functions_5),
      (js ''functions_6.js'', search_functions_6),
      (js ''functions_7.js'', search_functions_7),
      (js ''functions_8.js'', search_functions_8),
      (js ''functions_9.js'', search_functions_9),
      (js ''functions_a.js'', search_functions_a),
      (js ''functions_b.js'', search_functions_b),
      (js ''functions_c.js'', search_functions_c),
      (js ''functions_d.js'', search_functions_d),
      (js ''functions_e.js'', search_functions_e),
      (js ''functions_f.js'', search_functions_f),
      (js ''functions_10.js'', search_functions_10),
      (js ''functions_11.js'', search_functions_11),
      (js ''functions_12.js'', search_functions_12),
      (js ''functions_13.js'', search_functions_13),
      (js ''pages_0.js'', search_pages_0),
      (js ''pages_1.js'', search_pages_1),
      (js ''pages_2.js'', search_pages_2),
      (js ''pages_3.js'', search_pages_3),
      (js ''pages_4.js'', search_pages_4),
      (js ''pages_5.js'', search_pages_5),
      (js ''pages_6.js'', search_pages_6),
      (js ''pages_7.js'', search_pages_7),
      (js ''pages_8.js'', search_pages_8),
      (js ''pages_9.js'', search_pages_9),
      (js ''pages_a.js'', search_pages_a),
      (js ''pages_b.js'', search_pages_b),
      (js ''pages_c.js'', search_pages_c)]"

section \<open>The menu\<close>

definition tinyxml2_menudata :: menu where
  "tinyxml2_menudata =
     Menu (js '''') (js '''') (Some
      [Menu (js ''Main Page'') (js ''index.html'') None,
       Menu (js ''Related Pages'') (js ''pages.html'') None,
       Menu (js ''Classes'') (js ''annotated.html'') (Some
        [Menu (js ''Class List'') (js ''annotated.html'') None,
         Menu (js ''Class Index'') (js ''classes.html'') None,
         Menu (js ''Class Hierarchy'') (js ''hierarchy.html'') None,
         Menu (js ''Class Members'') (js ''functions.html'') (Some
          [Menu (js ''All'') (js ''functions.html'') (Some
            [Menu (js ''a'') (js ''functions.html#index_a'') None,
             Menu (js ''b'') (js ''functions_b.html#index_b'') None,
             Menu (js ''c'') (js ''functions_c.html#index_c'') None,
             Menu (js ''d'') (js ''functions_d.html#index_d'') None,
             Menu (js ''e'') (js ''functions_e.html#index_e'') None,
             Menu (js ''f'') (js ''functions_f.html#index_f'') None,
             Menu (js ''g'') (js ''functions_g.html#index_g'') None,
             Menu (js ''h'') (js ''functions_h.html#index_h'') None,
             Menu (js ''i'') (js ''functions_i.html#index_i'') None,
             Menu (js ''l'') (js ''functions_l.html#index_l'') None,
             Menu (js ''n'') (js ''functions_n.html#index_n'') None,
             Menu (js ''o'') (js ''functions_o.html#index_o'') None,
             Menu (js ''p'') (js ''functions_p.html#index_p'') None,
             Menu (js ''q'') (js ''functions_q.html#index_q'') None,
             Menu (js ''r'') (js ''functions_r.html#index_r'') None,
             Menu (js ''s'') (js ''functions_s.html#index_s'') None,
             Menu (js ''t'') (js ''functions_t.html#index_t'') None,
             Menu (js ''u'') (js ''functions_u.html#index_u'') None,
             Menu (js ''v'') (js ''functions_v.html#index_v'') None,
             Menu (js ''x'') (js ''functions_x.html#index_x'') None]),
           Menu (js ''Functions'') (js ''functions_func.html'') (Some
            [Menu (js ''a'') (js ''functions_func.html#index_a'') None,
             Menu (js ''b'') (js ''functions_func_b.html#index_b'') None,
             Menu (js ''c'') (js ''functions_func_c.html#index_c'') None,
             Menu (js ''d'') (js ''functions_func_d.html#index_d'') None,
             Menu (js ''e'') (js ''functions_func_e.html#index_e'') None,
             Menu (js ''f'') (js ''functions_func_f.html#index_f'') None,
             Menu (js ''g'') (js ''functions_func_g.html#index_g'') None,
             Menu (js ''h'') (js ''functions_func_h.html#index_h'') None,
             Menu (js ''i'') (js ''functions_func_i.html#index_i'') None,
             Menu (js ''l'') (js ''functions_func_l.html#index_l'') None,
             Menu (js ''n'') (js ''functions_func_n.html#index_n'') None,
             Menu (js ''o'') (js ''functions_func_o.html#index_o'') None,
             Menu (js ''p'') (js ''functions_func_p.html#index_p'') None,
             Menu (js ''q'') (js ''functions_func_q.html#index_q'') None,
             Menu (js ''r'') (js ''functions_func_r.html#index_r'') None,
             Menu (js ''s'') (js ''functions_func_s.html#index_s'') None,
             Menu (js ''t'') (js ''functions_func_t.html#index_t'') None,
             Menu (js ''u'') (js ''functions_func_u.html#index_u'') None,
             Menu (js ''v'') (js ''functions_func_v.html#index_v'') None,
             Menu (js ''x'') (js ''functions_func_x.html#index_x'') None])])]),
       Menu (js ''Files'') (js ''files.html'') (Some
        [Menu (js ''File List'') (js ''files.html'') None])])"

end
