(* ===== verification/JS_Tinyxml2Site.thy ===== *)
theory JS_Tinyxml2Site
  imports JS_SiteIndex
begin

text \<open>
  The search on the documentation of tinyxml2 as it is shipped: the tables of \<^verbatim>\<open>search/searchdata.js\<close>, the scripts of
  \<open>JS_SiteIndex\<close>, and what a search finds in them.
\<close>

section \<open>The sections\<close>

definition tinyxml2_sections :: "int \<Rightarrow> jsstr option" where
  "tinyxml2_sections i =
     (if i = 0 then Some (js ''2abcdefghilnopqrstuvx'') else if i = 1 then Some (js ''x'')
      else if i = 2 then Some (js ''abcdefghilnopqrstuvx'') else if i = 3 then Some (js ''2abcfgiloprtx'') else None)"

definition tinyxml2_names :: "int \<Rightarrow> jsstr option" where
  "tinyxml2_names i =
     (if i = 0 then Some (js ''all'') else if i = 1 then Some (js ''classes'')
      else if i = 2 then Some (js ''functions'') else if i = 3 then Some (js ''pages'') else None)"

definition tinyxml2_labels :: "int \<Rightarrow> jsstr option" where
  "tinyxml2_labels i =
     (if i = 0 then Some (js ''All'') else if i = 1 then Some (js ''Classes'')
      else if i = 2 then Some (js ''Functions'') else if i = 3 then Some (js ''Pages'') else None)"

definition section_files :: "int \<Rightarrow> sr_entry list list" where
  "section_files i =
     (if i = 0 then all_files else if i = 1 then classes_files
      else if i = 2 then functions_files else if i = 3 then pages_files else [])"

definition section_entries :: "int \<Rightarrow> sr_entry list" where
  "section_entries i = concat (section_files i)"

lemma tinyxml2_menu: "strip_tags False (makeTree [] tinyxml2_menudata) = concat (menu_texts tinyxml2_menudata)"
  by (rule menu_text_of_tree) (simp_all add: tinyxml2_menudata_def plain_text_def js_def)

section \<open>The index is consistent\<close>

text \<open>An entry in the script of the character \<open>c\<close>: its identifier starts with it and is in lower case.\<close>

definition filed :: "nat \<Rightarrow> sr_entry \<Rightarrow> bool" where
  "filed c e \<longleftrightarrow> (case entry_key e of [] \<Rightarrow> False | x # _ \<Rightarrow> x = c) \<and> list_all (\<lambda>x. x < 128 \<and> ascii_lower x = x) (entry_key e)"

lemma filed_sr:
  "filed c (sr k n ls) \<longleftrightarrow> (case js k of [] \<Rightarrow> False | x # _ \<Rightarrow> x = c) \<and> list_all (\<lambda>x. x < 128 \<and> ascii_lower x = x) (js k)"
  by (simp add: filed_def sr_def)

lemma files_filed:
  "list_all2 (\<lambda>c. list_all (filed c)) (js ''2abcdefghilnopqrstuvx'') all_files"
  "list_all2 (\<lambda>c. list_all (filed c)) (js ''x'') classes_files"
  "list_all2 (\<lambda>c. list_all (filed c)) (js ''abcdefghilnopqrstuvx'') functions_files"
  "list_all2 (\<lambda>c. list_all (filed c)) (js ''2abcfgiloprtx'') pages_files"
  by (simp_all add: js_def site_scripts filed_sr ascii_lower_def)

lemma section_filed:
  "tinyxml2_sections i = Some cs \<Longrightarrow> list_all2 (\<lambda>c. list_all (filed c)) cs (section_files i)"
  using files_filed by (auto simp: tinyxml2_sections_def section_files_def split: if_splits)

text \<open>The script that is asked for is there.\<close>

lemma script_names: "distinct (map fst tinyxml2_scripts)"
  by (simp add: tinyxml2_scripts_def js_inj)

definition script_name :: "jsstr \<Rightarrow> nat \<Rightarrow> jsstr" where
  "script_name name k = name @ js ''_'' @ toString 16 k @ js ''.js''"

lemma scripts_by_name:
  "tinyxml2_scripts = zip (map (script_name (js ''all'')) [0..<21]) all_files @ zip (map (script_name (js ''classes'')) [0..<1]) classes_files @
     zip (map (script_name (js ''functions'')) [0..<20]) functions_files @ zip (map (script_name (js ''pages'')) [0..<13]) pages_files"
  by (simp add: tinyxml2_scripts_def all_files_def classes_files_def functions_files_def pages_files_def upt_rec script_name_def
      toString_def radix_digits_small radix_digits_two digit_char_def js_def)

lemma zip_script: "k < length fs \<Longrightarrow> length fs = n \<Longrightarrow> (script_name nm k, fs ! k) \<in> set (zip (map (script_name nm) [0..<n]) fs)"
  by (force simp: in_set_zip)

lemma script_shipped:
  assumes "tinyxml2_names i = Some nm" "k < length (section_files i)"
  shows "map_of tinyxml2_scripts (script_name nm k) = Some (section_files i ! k)"
proof -
  have len: "length all_files = 21" "length classes_files = 1" "length functions_files = 20" "length pages_files = 13"
    by (simp_all add: all_files_def classes_files_def functions_files_def pages_files_def)
  note zs = zip_script [of k all_files 21 "js ''all''"] zip_script [of k classes_files 1 "js ''classes''"]
    zip_script [of k functions_files 20 "js ''functions''"] zip_script [of k pages_files 13 "js ''pages''"]
  have "(script_name nm k, section_files i ! k) \<in> set tinyxml2_scripts"
    using assms zs len unfolding scripts_by_name by (auto simp del: upt_rec simp: tinyxml2_names_def section_files_def split: if_splits)
  then show ?thesis by (rule map_of_is_SomeI [OF script_names])
qed

section \<open>Searching\<close>

lemma entry_shown_prefix:
  assumes "filed c e"
  shows "entry_shown U w e \<longleftrightarrow> prefix w (entry_key e)"
proof -
  have low: "list_all (\<lambda>x. x < 128 \<and> ascii_lower x = x) (entry_key e)" using assms by (simp add: filed_def)
  then have "ascii (js ''SR_'' @ entry_key e)" by (auto simp: ascii_def js_def list_all_iff)
  moreover have "map ascii_lower (entry_key e) = entry_key e" using low by (simp add: list_all_iff map_idI)
  ultimately have "toLowerCase U (js ''SR_'' @ entry_key e) = js ''sr_'' @ entry_key e"
    by (simp add: toLowerCase_def js_def ascii_lower_def)
  moreover have "elt_id (row_elt e) = js ''SR_'' @ entry_key e" by (simp add: row_elt_def elt_id_def reflected_def)
  moreover have "strip_sr (js ''sr_'' @ entry_key e) = entry_key e" by (simp add: strip_sr_def starts_with_def js_def is_digit_def)
  ultimately have "strip_sr (toLowerCase U (elt_id (row_elt e))) = entry_key e" by simp
  then show ?thesis by (auto simp: entry_shown_def row_matches_def prefix_take_iff)
qed

lemma filter_one_file:
  assumes "k < length fs" "\<And>j. j < length fs \<Longrightarrow> j \<noteq> k \<Longrightarrow> filter P (fs ! j) = []"
  shows "filter P (concat fs) = filter P (fs ! k)"
  using assms
proof (induction fs arbitrary: k)
  case (Cons f fs)
  show ?case
  proof (cases k)
    case 0
    have "filter P (fs ! j) = []" if "j < length fs" for j using Cons.prems(2) [of "Suc j"] 0 that by simp
    then have "filter P (concat fs) = []" unfolding filter_empty_conv by (metis (no_types) UN_E in_set_conv_nth set_concat)
    then show ?thesis using 0 by simp
  next
    case (Suc m)
    have "filter P f = []" using Cons.prems(2) [of 0] Suc by simp
    moreover have "filter P (fs ! j) = []" if "j < length fs" "j \<noteq> m" for j using Cons.prems(2) [of "Suc j"] Suc that by simp
    then have "filter P (concat fs) = filter P (fs ! m)" using Cons.prems(1) Suc by (intro Cons.IH) auto
    ultimately show ?thesis using Suc by simp
  qed
qed simp

lemma map_filter_nth:
  assumes "length xs = length ys" "\<And>j. j < length ys \<Longrightarrow> f (xs ! j) = g (ys ! j) \<and> P (xs ! j) = Q (ys ! j)"
  shows "map f (filter P xs) = map g (filter Q ys)"
proof -
  have "list_all2 (\<lambda>x y. f x = g y \<and> P x = Q y) xs ys" using assms by (simp add: list_all2_conv_all_nth)
  then show ?thesis by (induction rule: list_all2_induct) auto
qed

lemma section_chars:
  assumes "tinyxml2_sections i = Some cs"
  shows "distinct cs" "list_all (\<lambda>c. convert_char c = [c]) cs"
  using assms by (auto simp: tinyxml2_sections_def js_def convert_char_def id_char_def split: if_splits)

text \<open>The word searched for starts with the character of the script.\<close>

lemma strip_trailing_Cons: "c \<noteq> 32 \<Longrightarrow> \<exists>u. strip_trailing_spaces (c # s) = c # u"
  by (simp add: strip_trailing_spaces_def dropWhile_append) (metis rev_rev_ident)

lemma word_start:
  assumes "v = strip_leading_spaces t" "ascii v" "v \<noteq> []" "convert_char (ascii_lower (hd v)) = [ascii_lower (hd v)]"
  shows "\<exists>u. search_word U loc v = ascii_lower (hd v) # u"
proof -
  have hd: "hd v \<noteq> 32" using assms(1,3) hd_dropWhile [of "\<lambda>c. c = 32" t] by (simp add: strip_leading_spaces_def)
  obtain u where u: "strip_trailing_spaces v = hd v # u" using strip_trailing_Cons [OF hd, of "tl v"] assms(3) by auto
  have "set (strip_trailing_spaces v) \<subseteq> set v" by (auto simp: strip_trailing_spaces_def dest: set_dropWhileD)
  then have "ascii (strip_trailing_spaces v)" using assms(2) by (auto simp: ascii_def list_all_iff)
  moreover have "strip_leading_spaces v = v" using assms(1) by simp
  ultimately show ?thesis using assms(3,4) by (simp add: search_word_def u toLowerCase_def)
qed

lemma indexOf_member: "c \<in> set cs \<Longrightarrow> \<exists>k < length cs. indexOf cs [c] = Some k \<and> cs ! k = c"
proof (induction cs)
  case (Cons d cs)
  show ?case
  proof (cases "d = c")
    case True
    then show ?thesis by (intro exI [of _ 0]) (simp add: starts_with_def)
  next
    case False
    then obtain k where "k < length cs" "indexOf cs [c] = Some k" "cs ! k = c" using Cons by auto
    then show ?thesis using False by (intro exI [of _ "Suc k"]) (simp add: starts_with_def)
  qed
qed simp

text \<open>The entries that match are all in the script of the first character.\<close>

lemma matches_in_one_file:
  assumes "tinyxml2_sections i = Some cs" "k < length cs" "w = cs ! k # u"
  shows "filter (\<lambda>e. prefix w (entry_key e)) (section_entries i) = filter (\<lambda>e. prefix w (entry_key e)) (section_files i ! k)"
proof -
  note filed = section_filed [OF assms(1)]
  have len: "length (section_files i) = length cs" using filed by (simp add: list_all2_lengthD)
  have "filter (\<lambda>e. prefix w (entry_key e)) (section_files i ! j) = []" if "j < length cs" "j \<noteq> k" for j
  proof -
    have "list_all (filed (cs ! j)) (section_files i ! j)" using list_all2_nthD [OF filed that(1)] .
    moreover have "cs ! j \<noteq> cs ! k" using section_chars(1) [OF assms(1)] that assms(2) by (simp add: nth_eq_iff_index_eq)
    ultimately show ?thesis
      by (fastforce simp: filter_empty_conv list_all_iff filed_def assms(3) prefix_def split: list.splits)
  qed
  then show ?thesis unfolding section_entries_def using assms(2) len by (intro filter_one_file) auto
qed

text \<open>
  C20. The search index shipped with the documentation of tinyxml2 is complete: on a page with the shipped tables and
  scripts, a search in any section for a word whose first character the section has loads one script, and the rows that
  are displayed when it has arrived are, in their order, exactly the entries of all the scripts of the section whose
  identifier starts with the converted word; the results window is displayed, and the line \<open>No Matches\<close> exactly when there
  are none.
\<close>

theorem shipped_search_finds_all:
  assumes "site_page s" and "indexSectionsWithContent env = tinyxml2_sections" and "indexSectionNames env = tinyxml2_names"
    and "\<And>f. site_files env (pg_resultsPath s @ f) = map_of tinyxml2_scripts f"
    and "tinyxml2_sections (pg_searchIndex s) = Some cs" and "v = strip_leading_spaces (pg_value s)"
    and "ascii v" and "v \<noteq> []" and "ascii_lower (hd v) \<in> set cs"
    and "w = search_word (lower_case env) (location_search env) v"
  shows "\<exists>s1 s2 rows nm. page_Search env s = Inr s1 \<and> script_arrives env (length (pg_loads s)) s1 = Inr s2 \<and>
    pg_doc s2 = site_doc rows (js ''none'') (js ''none'') nm \<and> ui_display (pg_ui s2 MSearchResultsWindow) = js ''block'' \<and>
    map (\<lambda>r. elt_id (node r)) (filter (\<lambda>r. display (node r) = js ''block'') rows) =
      map (\<lambda>e. js ''SR_'' @ entry_key e) (filter (\<lambda>e. prefix w (entry_key e)) (section_entries (pg_searchIndex s))) \<and>
    (nm = js ''block'' \<longleftrightarrow> filter (\<lambda>e. prefix w (entry_key e)) (section_entries (pg_searchIndex s)) = [])"
proof -
  let ?i = "pg_searchIndex s" and ?c = "ascii_lower (hd v)"
  obtain k where k: "k < length cs" "indexOf cs [?c] = Some k" "cs ! k = ?c" using indexOf_member [OF assms(9)] by blast
  obtain nm where nm: "tinyxml2_names ?i = Some nm"
    using assms(5) by (auto simp: tinyxml2_sections_def tinyxml2_names_def split: if_splits)
  let ?data = "section_files ?i ! k"
  note filed = section_filed [OF assms(5)]
  have k': "k < length (section_files ?i)" using list_all2_lengthD [OF filed] k(1) by simp
  have load: "site_files env (pg_resultsPath s @ or_undefined (indexSectionNames env ?i) @ js ''_'' @ toString 16 k @ js ''.js'') = Some ?data"
    using script_shipped [OF nm k'] by (simp add: assms(3,4) nm or_undefined_def script_name_def)
  have idx: "indexOf cs (idx_char (lower_case env) v) = Some k" using k(2) assms(7,8) by (cases v) simp_all
  have sec: "indexSectionsWithContent env ?i = Some cs" using assms(2,5) by simp
  obtain s1 s2 rows m where r: "page_Search env s = Inr s1" "script_arrives env (length (pg_loads s)) s1 = Inr s2"
    "pg_doc s2 = site_doc rows (js ''none'') (js ''none'') m" "length rows = length ?data"
    "ui_display (pg_ui s2 MSearchResultsWindow) = js ''block''" "m = js ''block'' \<longleftrightarrow> (\<forall>x \<in> set ?data. \<not> entry_shown (lower_case env) w x)"
    "\<forall>j < length ?data. elt_id (node (rows ! j)) = js ''SR_'' @ entry_key (?data ! j) \<and>
       display (node (rows ! j)) = (if entry_shown (lower_case env) w (?data ! j) then js ''block'' else js ''none'')"
    using search_displays [OF assms(1) sec assms(6) idx load assms(10)] by blast
  have "convert_char ?c = [?c]" using section_chars(2) [OF assms(5)] assms(9) by (auto simp: list_all_iff)
  then obtain u where "w = cs ! k # u" using word_start [OF assms(6-8)] k(3) assms(10) by auto
  note one = matches_in_one_file [OF assms(5) k(1) this]
  have "list_all (filed (cs ! k)) ?data" using list_all2_nthD [OF filed k(1)] .
  then have shown: "entry_shown (lower_case env) w (?data ! j) \<longleftrightarrow> prefix w (entry_key (?data ! j))" if "j < length ?data" for j
    using that entry_shown_prefix [of "cs ! k" "?data ! j"] by (simp add: list_all_length)
  have "map (\<lambda>r. elt_id (node r)) (filter (\<lambda>r. display (node r) = js ''block'') rows) =
      map (\<lambda>e. js ''SR_'' @ entry_key e) (filter (\<lambda>e. prefix w (entry_key e)) ?data)"
    using r(4,7) shown by (intro map_filter_nth) (auto simp: js_inj)
  moreover have "m = js ''block'' \<longleftrightarrow> filter (\<lambda>e. prefix w (entry_key e)) ?data = []"
    unfolding r(6) filter_empty_conv using shown by (metis in_set_conv_nth)
  ultimately show ?thesis using r(1-3,5) one by auto
qed

definition tinyxml2_site :: site_env where
  "tinyxml2_site = example_site\<lparr>indexSectionsWithContent := tinyxml2_sections, indexSectionNames := tinyxml2_names,
     site_files := (\<lambda>u. if take 7 u = js ''search/'' then map_of tinyxml2_scripts (drop 7 u) else None)\<rparr>"

theorem shipped_search_finds_all_witness:
  "\<exists>s1 s2 rows nm. page_Search tinyxml2_site (example_box (js '' XMLD'')\<lparr>pg_searchIndex := 1\<rparr>) = Inr s1 \<and>
     script_arrives tinyxml2_site 0 s1 = Inr s2 \<and> pg_doc s2 = site_doc rows (js ''none'') (js ''none'') nm \<and>
     map (\<lambda>r. elt_id (node r)) (filter (\<lambda>r. display (node r) = js ''block'') rows) =
       [js ''SR_xmldeclaration_3'', js ''SR_xmldocument_4'']"
proof -
  let ?s = "example_box (js '' XMLD'')\<lparr>pg_searchIndex := 1\<rparr>" and ?w = "search_word id [] (js ''XMLD'')"
  have s: "site_page ?s" using example_box_site [of "js '' XMLD''"] by (simp add: site_page_def)
  have env: "indexSectionsWithContent tinyxml2_site = tinyxml2_sections" "indexSectionNames tinyxml2_site = tinyxml2_names"
      "lower_case tinyxml2_site = id" "location_search tinyxml2_site = []"
    by (simp_all add: tinyxml2_site_def example_site_def)
  have fl: "site_files tinyxml2_site (pg_resultsPath ?s @ f) = map_of tinyxml2_scripts f" for f
    by (simp add: tinyxml2_site_def example_simps js_def)
  have sec: "tinyxml2_sections (pg_searchIndex ?s) = Some (js ''x'')" by (simp add: tinyxml2_sections_def)
  have v: "js ''XMLD'' = strip_leading_spaces (pg_value ?s)"
    by (simp add: strip_leading_spaces_def js_def example_box_def new_page_box_def pg_value_def example_ui_def)
  have word: "ascii (js ''XMLD'')" "js ''XMLD'' \<noteq> []" "ascii_lower (hd (js ''XMLD'')) \<in> set (js ''x'')" "?w = js ''xmld''"
    by (simp_all add: ascii_def js_def ascii_lower_def search_word_def strip_leading_spaces_def strip_trailing_spaces_def
        toLowerCase_def convert_char_def id_char_def)
  have "map (\<lambda>e. js ''SR_'' @ entry_key e) (filter (\<lambda>e. prefix (js ''xmld'') (entry_key e)) (section_entries 1)) =
      [js ''SR_xmldeclaration_3'', js ''SR_xmldocument_4'']"
    by (simp add: section_entries_def section_files_def classes_files_def search_classes_0_def sr_def js_def)
  then show ?thesis
    using shipped_search_finds_all [OF s env(1,2) fl sec v word(1-3) refl]
    by (simp add: env word(4) example_simps cong: conj_cong) metis
qed

end
