(* ===== verification/JS_LetsTalkSite.thy ===== *)
theory JS_LetsTalkSite
  imports JS_Tinyxml2Site JS_NavTree
begin

text \<open>
  The data of the LetsTalk documentation as it is shipped in \<^verbatim>\<open>doc/html\<close>: the navigation tree and its index
  (\<^verbatim>\<open>navtreedata.js\<close>, \<^verbatim>\<open>navtreeindex0.js\<close>), the menu and the search tables, and what the scripts of \<open>JS_NavTree\<close> and
  \<open>JS_SearchResults\<close> make of them.
\<close>

section \<open>The navigation tree\<close>

definition letstalk_tree :: "nav_data list" where
  "letstalk_tree =
    [Nav_Data (js ''Let's Talk'') (Some (js ''index.html'')) (Children
      [Nav_Data (js ''Let's Talk: A C++ Interprocess Communication System Based on FastDDS'') (Some (js ''index.html'')) (Children
        [Nav_Data (js ''Introduction'') (Some (js ''index.html#autotoc_md0'')) No_children,
         Nav_Data (js ''Links'') (Some (js ''index.html#autotoc_md1'')) No_children,
         Nav_Data (js ''Example'') (Some (js ''index.html#autotoc_md2'')) No_children,
         Nav_Data (js ''Installation'') (Some (js ''index.html#autotoc_md3'')) (Children
          [Nav_Data (js ''As a submodule'') (Some (js ''index.html#autotoc_md4'')) No_children,
           Nav_Data (js ''Via an installation'') (Some (js ''index.html#autotoc_md5'')) No_children,
           Nav_Data (js ''IDL Support in CMake'') (Some (js ''index.html#autotoc_md6'')) No_children]),
         Nav_Data (js ''Communication Patterns'') (Some (js ''index.html#autotoc_md7'')) (Children
          [Nav_Data (js ''Publish/Subscribe'') (Some (js ''index.html#autotoc_md8'')) No_children,
           Nav_Data (js ''Request/Reply'') (Some (js ''index.html#autotoc_md9'')) No_children,
           Nav_Data (js ''Reactor'') (Some (js ''index.html#autotoc_md10'')) No_children,
           Nav_Data (js ''Examples'') (Some (js ''index.html#autotoc_md11'')) No_children]),
         Nav_Data (js ''Environment variables'') (Some (js ''index.html#autotoc_md12'')) No_children,
         Nav_Data (js ''Quality of Service (QoS)'') (Some (js ''index.html#autotoc_md13'')) (Children
          [Nav_Data (js ''Using Custom QoS'') (Some (js ''index.html#autotoc_md14'')) No_children]),
         Nav_Data (js ''DDS Concepts in Let's Talk'') (Some (js ''index.html#autotoc_md15'')) (Children
          [Nav_Data (js ''Participant'') (Some (js ''index.html#autotoc_md16'')) No_children,
           Nav_Data (js ''Topics'') (Some (js ''index.html#autotoc_md17'')) No_children,
           Nav_Data (js ''Types and IDL'') (Some (js ''index.html#autotoc_md18'')) No_children,
           Nav_Data (js ''Quality of Service (QoS)'') (Some (js ''index.html#autotoc_md19'')) No_children]),
         Nav_Data (js ''About DDS'') (Some (js ''index.html#autotoc_md20'')) No_children,
         Nav_Data (js ''History'') (Some (js ''index.html#autotoc_md21'')) (Children
          [Nav_Data (js ''0.3'') (Some (js ''index.html#autotoc_md22'')) No_children,
           Nav_Data (js ''0.2'') (Some (js ''index.html#autotoc_md23'')) No_children,
           Nav_Data (js ''0.1'') (Some (js ''index.html#autotoc_md24'')) No_children]),
         Nav_Data (js ''Roadmap'') (Some (js ''index.html#autotoc_md25'')) (Children
          [Nav_Data (js ''Future Features'') (Some (js ''index.html#autotoc_md26'')) No_children])])])]"

definition letstalk_tree_index :: "jsstr list" where
  "letstalk_tree_index = [js ''index.html'']"

definition letstalk_sync_on :: jsstr where
  "letstalk_sync_on = js ''click to disable panel synchronisation''"

definition letstalk_sync_off :: jsstr where
  "letstalk_sync_off = js ''click to enable panel synchronisation''"

text \<open>The properties of the index object as they are written; of two with one name the later one counts.\<close>

definition letstalk_index0 :: "(jsstr \<times> nat list) list" where
  "letstalk_index0 =
     [(js ''index.html'', []),
      (js ''index.html'', [0]),
      (js ''index.html#autotoc_md0'', [0, 0]),
      (js ''index.html#autotoc_md1'', [0, 1]),
      (js ''index.html#autotoc_md10'', [0, 4, 2]),
      (js ''index.html#autotoc_md11'', [0, 4, 3]),
      (js ''index.html#autotoc_md12'', [0, 5]),
      (js ''index.html#autotoc_md13'', [0, 6]),
      (js ''index.html#autotoc_md14'', [0, 6, 0]),
      (js ''index.html#autotoc_md15'', [0, 7]),
      (js ''index.html#autotoc_md16'', [0, 7, 0]),
      (js ''index.html#autotoc_md17'', [0, 7, 1]),
      (js ''index.html#autotoc_md18'', [0, 7, 2]),
      (js ''index.html#autotoc_md19'', [0, 7, 3]),
      (js ''index.html#autotoc_md2'', [0, 2]),
      (js ''index.html#autotoc_md20'', [0, 8]),
      (js ''index.html#autotoc_md21'', [0, 9]),
      (js ''index.html#autotoc_md22'', [0, 9, 0]),
      (js ''index.html#autotoc_md23'', [0, 9, 1]),
      (js ''index.html#autotoc_md24'', [0, 9, 2]),
      (js ''index.html#autotoc_md25'', [0, 10]),
      (js ''index.html#autotoc_md26'', [0, 10, 0]),
      (js ''index.html#autotoc_md3'', [0, 3]),
      (js ''index.html#autotoc_md4'', [0, 3, 0]),
      (js ''index.html#autotoc_md5'', [0, 3, 1]),
      (js ''index.html#autotoc_md6'', [0, 3, 2]),
      (js ''index.html#autotoc_md7'', [0, 4]),
      (js ''index.html#autotoc_md8'', [0, 4, 0]),
      (js ''index.html#autotoc_md9'', [0, 4, 1]),
      (js ''pages.html'', [])]"

definition object_literal :: "(jsstr \<times> 'a) list \<Rightarrow> jsstr \<Rightarrow> 'a option" where
  "object_literal kvs = map_of (rev kvs)"

definition letstalk_env :: nav_env where
  "letstalk_env = \<lparr>NAVTREE = letstalk_tree, NAVTREEINDEX = letstalk_tree_index,
     index_script = (\<lambda>i. if i = 0 then Some (object_literal letstalk_index0) else None),
     data_script = (\<lambda>_. None), SYNCONMSG = letstalk_sync_on, SYNCOFFMSG = letstalk_sync_off\<rparr>"

section \<open>Search and menu\<close>

definition letstalk_sections :: "int \<Rightarrow> jsstr option" where
  "letstalk_sections i = (if i = 0 then Some (js ''l'') else if i = 1 then Some (js ''l'') else None)"

definition letstalk_names :: "int \<Rightarrow> jsstr option" where
  "letstalk_names i = (if i = 0 then Some (js ''all'') else if i = 1 then Some (js ''pages'') else None)"

definition letstalk_labels :: "int \<Rightarrow> jsstr option" where
  "letstalk_labels i = (if i = 0 then Some (js ''All'') else if i = 1 then Some (js ''Pages'') else None)"

definition letstalk_all_0 :: "sr_entry list" where
  "letstalk_all_0 =
     [sr ''let_27s_20talk_3a_20a_20c_2b_2b_20interprocess_20communication_20system_20based_20on_20fastdds_0''
        ''Let&apos;s Talk: A C++ Interprocess Communication System Based on FastDDS'' [(''../index.html'', True, '''')]]"

definition letstalk_pages_0 :: "sr_entry list" where
  "letstalk_pages_0 =
     [sr ''let_27s_20talk_3a_20a_20c_2b_2b_20interprocess_20communication_20system_20based_20on_20fastdds_1''
        ''Let&apos;s Talk: A C++ Interprocess Communication System Based on FastDDS'' [(''../index.html'', True, '''')]]"

definition letstalk_menudata :: menu where
  "letstalk_menudata = Menu (js '''') (js '''') (Some [Menu (js ''Main Page'') (js ''index.html'') None])"

lemma letstalk_files_filed:
  "list_all2 (\<lambda>c. list_all (filed c)) (js ''l'') [letstalk_all_0]" "list_all2 (\<lambda>c. list_all (filed c)) (js ''l'') [letstalk_pages_0]"
  by (simp_all add: js_def letstalk_all_0_def letstalk_pages_0_def filed_sr ascii_lower_def)

lemma letstalk_menu: "strip_tags False (makeTree [] letstalk_menudata) = js ''Main Page''"
  by (subst menu_text_of_tree) (simp_all add: letstalk_menudata_def plain_text_def js_def)

section \<open>The index leads to the entries\<close>

lemma letstalk_index_ok:
  "list_all (\<lambda>(a, p). js_le (js ''index.html'') a \<and> (p = [] \<longrightarrow> a \<in> {js ''index.html'', js ''pages.html''}) \<and>
     (case data_at (data_script letstalk_env) (Children letstalk_tree) (0 # p) of
        None \<Rightarrow> False
      | Some e \<Rightarrow> nd_link e = Some (if p = [] then js ''index.html'' else a) \<and> (\<forall>v. nd_children e \<noteq> In_script v))) letstalk_index0"
  by (simp add: letstalk_index0_def letstalk_tree_def letstalk_env_def js_def)

lemma letstalk_roots:
  "object_literal letstalk_index0 (js ''index.html'') = Some [0]" "object_literal letstalk_index0 (js ''pages.html'') = Some []"
  by (simp_all add: object_literal_def letstalk_index0_def js_def)

text \<open>Highlighting changes nothing of a node but whether it is selected.\<close>

definition same_node :: "nav_node \<Rightarrow> nav_node \<Rightarrow> bool" where
  "same_node m n \<longleftrightarrow> (info m)\<lparr>selected := False\<rparr> = (info n)\<lparr>selected := False\<rparr>"

lemma same_nodeD: "same_node m n \<Longrightarrow> label (info m) = label (info n) \<and> expanded (info m) = expanded (info n) \<and> ul_display (info m) = ul_display (info n)"
  unfolding same_node_def by (drule arg_cong [of _ _ "\<lambda>i. (label i, expanded i, ul_display i)"]) simp

lemma node_at_map_nodes: "node_at (map_nodes f t) p = map_option (map_nodes f) (node_at t p)"
proof (induction t p rule: node_at.induct)
  case (2 n b bs)
  then show ?case by (cases n) simp
qed simp

lemma node_at_map_items:
  assumes "node_at t p = Some n" "\<And>i. (f i)\<lparr>selected := False\<rparr> = i\<lparr>selected := False\<rparr>"
  shows "\<exists>m. node_at (map_items f t) p = Some m \<and> same_node m n"
proof (cases p)
  case Nil
  then show ?thesis using assms(1) by (simp add: map_items_def same_node_def)
next
  case (Cons b bs)
  then show ?thesis using assms by (cases n) (auto simp: map_items_def node_at_map_nodes same_node_def split: if_splits)
qed

lemma node_at_select:
  "node_at t p = Some n \<Longrightarrow> \<exists>m. node_at (upd_at q select_node t) p = Some m \<and> same_node m n"
proof (induction q arbitrary: t p)
  case Nil
  then show ?case by (cases p) (auto simp: select_node_def same_node_def split: if_splits)
next
  case (Cons b bs)
  then show ?case by (cases p) (auto simp: same_node_def nth_list_update split: if_splits)
qed

lemma node_at_highlight:
  assumes "node_at (tree s) p = Some n"
  shows "\<exists>m. node_at (tree (selectAndHighlight h q s)) p = Some m \<and> same_node m n"
  using assms node_at_map_items [OF assms] node_at_select [OF assms]
  by (auto simp: selectAndHighlight_def Let_def same_node_def split: option.splits)

lemma highlight_keeps:
  "breadcrumbs (selectAndHighlight h q s) = breadcrumbs s" "outcomes (selectAndHighlight h q s) = outcomes s"
  by (simp_all add: selectAndHighlight_def Let_def)

lemma js_le_append: "js_le s t \<Longrightarrow> js_le s (t @ u)"
  by (induction s t rule: js_le.induct) auto

lemma letstalk_entry:
  assumes "object_literal letstalk_index0 addr = Some path"
  obtains e where "data_at (data_script letstalk_env) (Children letstalk_tree) (0 # path) = Some e"
    "nd_link e = Some (if path = [] then js ''index.html'' else addr)" "path = [] \<longleftrightarrow> addr = js ''pages.html''"
    "\<And>v. nd_children e \<noteq> In_script v" "js_le (js ''index.html'') addr"
proof -
  have "(addr, path) \<in> set letstalk_index0" using assms map_of_SomeD by (fastforce simp: object_literal_def)
  from bspec [OF letstalk_index_ok [unfolded list_all_iff] this, unfolded prod.case]
  have in_list: "js_le (js ''index.html'') addr" "path = [] \<longrightarrow> addr \<in> {js ''index.html'', js ''pages.html''}"
    "case data_at (data_script letstalk_env) (Children letstalk_tree) (0 # path) of
        None \<Rightarrow> False
      | Some e \<Rightarrow> nd_link e = Some (if path = [] then js ''index.html'' else addr) \<and> (\<forall>v. nd_children e \<noteq> In_script v)"
    by blast+
  have "path = [] \<longleftrightarrow> addr = js ''pages.html''"
    using in_list(2) assms letstalk_roots by (cases "addr = js ''pages.html''") auto
  moreover obtain e where "data_at (data_script letstalk_env) (Children letstalk_tree) (0 # path) = Some e"
    using in_list(3) by (cases "data_at (data_script letstalk_env) (Children letstalk_tree) (0 # path)") simp_all
  ultimately show thesis using in_list(1,3) by (intro that [of e]) simp_all
qed

lemma letstalk_goto:
  assumes "nav_target s root0 hash0 = (root, hash)" "js_le (js ''index.html'') (root @ hash)"
  shows "navTo letstalk_env root0 hash0 s = Inr (gotoNode letstalk_env (object_literal letstalk_index0) root hash s)"
  using assms by (simp add: navTo_def letstalk_env_def letstalk_tree_index_def)

text \<open>
  C29. The navigation shipped with the LetsTalk documentation is consistent. \<open>navTo\<close> goes to the stored link if there is one and to its arguments otherwise,
  without an anchor that names a line. From any state of the tree, where that address is in
  the shipped index, or is a page of it with an anchor the index does not have, the tree is opened along the
  breadcrumbs of the index down to a node with the text of the entry whose link is the address of the index, every list on the way
  displayed, and \<open>selectAndHighlight\<close> is called with that node. \<^verbatim>\<open>pages.html\<close>, the one page of the index that has no entry, leads to the root entry, whose link is
  \<^verbatim>\<open>index.html\<close>.
\<close>

theorem shipped_index_reaches_entries:
  assumes "tree_ok (data_script letstalk_env) (Children letstalk_tree) (tree s)" and "nav_target s root0 hash0 = (root, hash)"
    and "object_literal letstalk_index0 addr = Some path"
    and "addr = root @ hash \<or> addr = root \<and> object_literal letstalk_index0 (root @ hash) = None"
  shows "\<exists>s' n e. navTo letstalk_env root0 hash0 s = Inr s' \<and> breadcrumbs s' = 0 # path \<and>
    outcomes s' = outcomes s @ [Highlight (Some (0 # path))] \<and>
    data_at (data_script letstalk_env) (Children letstalk_tree) (0 # path) = Some e \<and>
    nd_link e = Some (if addr = js ''pages.html'' then js ''index.html'' else addr) \<and>
    node_at (tree s') (0 # path) = Some n \<and> label (info n) = nd_text e \<and>
    (\<forall>k \<le> length path. \<exists>m. node_at (tree s') (take k (0 # path)) = Some m \<and> expanded (info m) \<and>
       ul_display (info m) = Some (js ''block''))"
proof -
  let ?sc = "data_script letstalk_env" and ?bs = "0 # path" and ?look = "object_literal letstalk_index0"
  obtain e where e: "data_at ?sc (Children letstalk_tree) ?bs = Some e" "nd_link e = Some (if path = [] then js ''index.html'' else addr)"
      "path = [] \<longleftrightarrow> addr = js ''pages.html''" "\<And>v. nd_children e \<noteq> In_script v" "js_le (js ''index.html'') addr"
    using letstalk_entry [OF assms(3)] by blast
  have "js_le (js ''index.html'') (root @ hash)" using e(5) assms(4) js_le_append by blast
  note go = letstalk_goto [OF assms(2) this]
  have crumbs: "(case ?look (root @ hash) of Some nti \<Rightarrow> nti | None \<Rightarrow> (case ?look root of Some bs \<Rightarrow> bs | None \<Rightarrow> [])) = path"
    using assms(3,4) by auto
  let ?pp = "pathName (location_path s)" and ?ex = "rootBase_expands (toroot s)"
  have "nd_children e = In_script v \<Longrightarrow> v \<noteq> [] \<and> ?sc v \<noteq> None" for v using e(4) by simp
  from showNode_opens [OF assms(1) e(1) this, of ?pp ?ex "[]"] obtain t n where
    t: "showNode ?sc ?pp ?ex [] ?bs (tree s) = (t, Highlight (Some ?bs))" "node_at t ?bs = Some n" "label (info n) = nd_text e"
      "\<forall>k < length ?bs. \<exists>m. node_at t (take k ?bs) = Some m \<and> expanded (info m) \<and> ul_display (info m) = Some (js ''block'')"
    by auto
  let ?s1 = "s\<lparr>breadcrumbs := ?bs, tree := t, outcomes := outcomes s @ [Highlight (Some ?bs)]\<rparr>"
  let ?s2 = "selectAndHighlight hash (Some ?bs) ?s1"
  have s2: "navTo letstalk_env root0 hash0 s = Inr ?s2"
    unfolding go gotoNode_def Let_def crumbs t(1) by simp
  obtain n' where n': "node_at (tree ?s2) ?bs = Some n'" "label (info n') = nd_text e"
    using node_at_highlight [of ?s1 ?bs n hash "Some ?bs"] t(2,3) same_nodeD by fastforce
  have "\<exists>m. node_at (tree ?s2) (take k ?bs) = Some m \<and> expanded (info m) \<and> ul_display (info m) = Some (js ''block'')"
    if k: "k \<le> length path" for k
  proof -
    obtain m where m: "node_at t (take k ?bs) = Some m" "expanded (info m)" "ul_display (info m) = Some (js ''block'')"
      using t(4) k by (metis le_imp_less_Suc length_Cons)
    then show ?thesis
      using node_at_highlight [of ?s1 "take k ?bs" m hash "Some ?bs"] same_nodeD by fastforce
  qed
  with s2 n' e(1,2,3) show ?thesis by (intro exI [of _ ?s2] exI [of _ n'] exI [of _ e]) (simp add: highlight_keeps)
qed

definition letstalk_page :: nav_page where
  "letstalk_page = example_nav_page\<lparr>tree := root_node letstalk_env [], toroot := js ''index.html'',
     location_hash := js ''#autotoc_md10'', location_path := js ''/index.html''\<rparr>"

theorem shipped_index_reaches_entries_witness:
  "\<exists>s' n. navTo letstalk_env (js ''pages.html'') [] (letstalk_page\<lparr>navpath := Some (js ''index.html#autotoc_md10'')\<rparr>) = Inr s' \<and>
     node_at (tree s') [0, 0, 4, 2] = Some n \<and> label (info n) = js ''Reactor''"
proof -
  let ?s = "letstalk_page\<lparr>navpath := Some (js ''index.html#autotoc_md10'')\<rparr>" and ?addr = "js ''index.html'' @ js ''#autotoc_md10''"
  have ok: "tree_ok (data_script letstalk_env) (Children letstalk_tree) (tree ?s)"
    by (simp add: letstalk_page_def letstalk_env_def root_node_def tree_ok.simps)
  have target: "nav_target ?s (js ''pages.html'') [] = (js ''index.html'', js ''#autotoc_md10'')" by code_simp
  have look: "object_literal letstalk_index0 ?addr = Some [0, 4, 2]"
    by (simp add: object_literal_def letstalk_index0_def js_def)
  have "data_at (data_script letstalk_env) (Children letstalk_tree) [0, 0, 4, 2] =
      Some (Nav_Data (js ''Reactor'') (Some (js ''index.html#autotoc_md10'')) No_children)"
    by (simp add: letstalk_tree_def letstalk_env_def)
  then show ?thesis
    using shipped_index_reaches_entries [OF ok target look disjI1 [OF refl]] by (auto simp del: data_at.simps node_at.simps)
qed

end
