(* ===== verification/LT_Guid.thy ===== *)
theory LT_Guid
  imports LT_Prelude
begin

text \<open>
  Message identifiers, \<^verbatim>\<open>src/LetsTalk/Guid.hpp\<close> and \<^verbatim>\<open>Guid.cpp\<close>: 16 bytes that name the writer and a
  64-bit sequence number. Fast DDS's \<open>SequenceNumber_t\<close> is a parameter of the conversions.
\<close>

unbundle bit_operations_syntax

section \<open>Definitions\<close>

type_synonym byte = "8 word"

datatype guid = Guid (gdata: "byte list") (seqno: "64 word")

definition guid_wf :: "guid \<Rightarrow> bool" where
  "guid_wf g \<longleftrightarrow> length (gdata g) = 16"

definition UNKNOWN :: guid where
  "UNKNOWN = Guid (replicate 16 0) 0"

text \<open>The new value of the object, which is also what is returned.\<close>

definition increment :: "guid \<Rightarrow> guid" where
  "increment g =
     (let s = seqno g + 1 in Guid (gdata g) (if s = 0 then 1 else s))"

definition makeBadVersion :: "guid \<Rightarrow> guid" where
  "makeBadVersion g = Guid (gdata g) (push_bit 32 (seqno g) OR drop_bit 32 (seqno g))"

text \<open>\<open>memcmp\<close> on two buffers: the sign of the difference of the first bytes that differ. Buffers of
  different lengths, which the code does not compare, are ordered as lists.\<close>

fun memcmp :: "byte list \<Rightarrow> byte list \<Rightarrow> int" where
  "memcmp [] [] = 0"
| "memcmp [] (y # ys) = -1"
| "memcmp (x # xs) [] = 1"
| "memcmp (x # xs) (y # ys) = (if x < y then -1 else if y < x then 1 else memcmp xs ys)"

definition guid_lt :: "guid \<Rightarrow> guid \<Rightarrow> bool" where
  "guid_lt g1 g2 =
     (let compare = memcmp (gdata g1) (gdata g2)
      in compare < 0 \<or> compare = 0 \<and> seqno g1 < seqno g2)"

definition guid_eq :: "guid \<Rightarrow> guid \<Rightarrow> bool" where
  "guid_eq g1 g2 \<longleftrightarrow> memcmp (gdata g1) (gdata g2) = 0 \<and> seqno g1 = seqno g2"

definition isBadVersionOf :: "guid \<Rightarrow> guid \<Rightarrow> bool" where
  "isBadVersionOf g i_other = guid_eq (makeBadVersion i_other) g"

record fast_guid =
  guidPrefix :: "byte list"
  entityId :: "byte list"

record 'sn sample_id =
  writer_guid :: fast_guid
  sequence_number :: 'sn

definition toFastDdsGuid :: "guid \<Rightarrow> fast_guid" where
  "toFastDdsGuid g = \<lparr>guidPrefix = take 12 (gdata g), entityId = take 4 (drop 12 (gdata g))\<rparr>"

definition toLetsTalkGuid :: "fast_guid \<Rightarrow> guid" where
  "toLetsTalkGuid f = Guid (guidPrefix f @ entityId f) 0"

definition toSampleId :: "(64 word \<Rightarrow> 'sn) \<Rightarrow> guid \<Rightarrow> 'sn sample_id" where
  "toSampleId mk g = \<lparr>writer_guid = toFastDdsGuid g, sequence_number = mk (seqno g)\<rparr>"

definition sampleToGuid :: "('sn \<Rightarrow> 64 word) \<Rightarrow> 'sn sample_id \<Rightarrow> guid" where
  "sampleToGuid to64 i = Guid (gdata (toLetsTalkGuid (writer_guid i))) (to64 (sequence_number i))"

section \<open>Order\<close>

lemma memcmp_eq_iff: "memcmp xs ys = 0 \<longleftrightarrow> xs = ys"
  by (induction xs ys rule: memcmp.induct) auto

lemma memcmp_swap: "memcmp ys xs = - memcmp xs ys"
  by (induction xs ys rule: memcmp.induct) auto

lemma memcmp_trans: "memcmp xs ys < 0 \<Longrightarrow> memcmp ys zs < 0 \<Longrightarrow> memcmp xs zs < 0"
proof (induction xs ys arbitrary: zs rule: memcmp.induct)
  case (2 y ys)
  then show ?case by (cases zs) auto
next
  case (4 x xs y ys)
  then show ?case by (cases zs) (auto split: if_splits)
qed auto

lemma guid_eq_iff [guid_simps]: "guid_eq g1 g2 \<longleftrightarrow> g1 = g2"
  by (auto simp: guid_eq_def memcmp_eq_iff guid.expand)

instantiation guid :: linorder
begin

definition less_guid :: "guid \<Rightarrow> guid \<Rightarrow> bool" where
  "less_guid = guid_lt"

definition less_eq_guid :: "guid \<Rightarrow> guid \<Rightarrow> bool" where
  "less_eq_guid g1 g2 \<longleftrightarrow> guid_lt g1 g2 \<or> g1 = g2"

instance
proof
  fix x y z :: guid
  have neq: "\<not> (guid_lt x y \<and> guid_lt y x)" for x y
    using memcmp_swap [of "gdata x" "gdata y"] by (auto simp: guid_lt_def Let_def)
  have irr: "\<not> guid_lt x x" for x using neq [of x x] by blast
  show "(x < y) = (x \<le> y \<and> \<not> y \<le> x)"
    using neq irr by (auto simp: less_guid_def less_eq_guid_def)
  show "x \<le> x" by (simp add: less_eq_guid_def)
  show "x \<le> y \<Longrightarrow> y \<le> x \<Longrightarrow> x = y" using neq by (auto simp: less_eq_guid_def)
  have tr: "guid_lt x z" if "guid_lt x y" "guid_lt y z"
    using that memcmp_trans [of "gdata x" "gdata y" "gdata z"]
    by (auto simp: guid_lt_def Let_def memcmp_eq_iff)
  show "x \<le> y \<Longrightarrow> y \<le> z \<Longrightarrow> x \<le> z"
    using tr by (auto simp: less_eq_guid_def)
  show "x \<le> y \<or> y \<le> x"
    using memcmp_swap [of "gdata x" "gdata y"]
    by (cases x; cases y)
      (auto simp: less_eq_guid_def guid_lt_def Let_def memcmp_eq_iff not_less_iff_gr_or_eq)
qed

end

section \<open>Sequence numbers\<close>

text \<open>The sequence numbers 1, ..., 2^64 - 1 are visited in turn.\<close>

lemma seqno_increment [guid_simps]: "seqno (increment g) \<noteq> 0"
  by (simp add: increment_def Let_def)

lemma gdata_increment [guid_simps]: "gdata (increment g) = gdata g"
  by (simp add: increment_def Let_def)

lemma unat_max: "unat (- 1 :: 64 word) = 2 ^ 64 - 1"
  by (simp add: unsigned_minus_1_eq_mask mask_eq_exp_minus_1)

lemma unat_64: "unat (w :: 64 word) < 2 ^ 64"
  using unsigned_less [of w] by simp

lemma unat_increment:
  "unat (seqno (increment g)) = (if unat (seqno g) = 2 ^ 64 - 1 then 1 else unat (seqno g) + 1)"
proof (cases "seqno g + 1 = 0")
  case True
  then have "seqno g = -1" by (simp add: eq_neg_iff_add_eq_0)
  then show ?thesis using True by (simp add: increment_def unat_max)
next
  case False
  then have "unat (seqno g + 1) = unat (seqno g) + 1"
    by (simp add: unatSuc add.commute)
  moreover have "unat (seqno g) \<noteq> 2 ^ 64 - 1"
  proof
    assume "unat (seqno g) = 2 ^ 64 - 1"
    then have "unat (seqno g) = unat (- 1 :: 64 word)" by (simp add: unat_max)
    then have "seqno g = -1" by (simp only: word_unat_eq_iff [symmetric])
    with False show False by simp
  qed
  ultimately show ?thesis using False by (simp add: increment_def Let_def)
qed

lemma unat_increments:
  assumes "seqno g \<noteq> 0"
  shows "unat (seqno ((increment ^^ k) g)) = (unat (seqno g) - 1 + k) mod (2 ^ 64 - 1) + 1"
proof (induction k)
  case 0
  have "0 < unat (seqno g)" using assms by (simp add: unat_gt_0)
  moreover have "unat (seqno g) < 2 ^ 64" using unat_64 [of "seqno g"] by simp
  ultimately show ?case by simp
next
  case (Suc k)
  let ?r = "(unat (seqno g) - 1 + k) mod (2 ^ 64 - 1)"
  have "?r < 2 ^ 64 - 1" by simp
  then have "(if ?r + 1 = 2 ^ 64 - 1 then 1 else ?r + 1 + 1) = (?r + 1) mod (2 ^ 64 - 1) + 1" by auto
  also have "\<dots> = (unat (seqno g) - 1 + Suc k) mod (2 ^ 64 - 1) + 1"
    by (metis add_Suc_right mod_Suc_eq Suc_eq_plus1)
  finally show ?case by (simp only: funpow.simps comp_apply unat_increment Suc.IH)
qed

section \<open>Bad versions\<close>

lemma bit_bad:
  "n < 64 \<Longrightarrow> bit (seqno (makeBadVersion g)) n = bit (seqno g) (if n < 32 then n + 32 else n - 32)"
  by (auto simp: makeBadVersion_def bit_or_iff bit_push_bit_iff bit_drop_bit_eq
      add.commute dest: bit_imp_le_length)

lemma gdata_bad [guid_simps]: "gdata (makeBadVersion g) = gdata g"
  by (simp add: makeBadVersion_def)

lemma makeBadVersion_invol [guid_simps]: "makeBadVersion (makeBadVersion g) = g"
proof -
  have "seqno (makeBadVersion (makeBadVersion g)) = seqno g"
  proof (rule bit_word_eqI)
    fix n assume "n < LENGTH(64)"
    then show "bit (seqno (makeBadVersion (makeBadVersion g))) n = bit (seqno g) n"
      by (cases "n < 32") (simp_all add: bit_bad less_diff_conv2)
  qed
  then show ?thesis by (auto simp: guid.expand guid_simps)
qed

lemma isBadVersionOf_iff [guid_simps]: "isBadVersionOf g h \<longleftrightarrow> g = makeBadVersion h"
  by (auto simp: isBadVersionOf_def guid_simps)

lemma unat_bad:
  "unat (seqno (makeBadVersion g)) = unat (seqno g) mod 2 ^ 32 * 2 ^ 32 + unat (seqno g) div 2 ^ 32"
proof -
  let ?u = "unat (seqno g)"
  have "?u div 2 ^ 32 < 2 ^ 32" using unat_64 [of "seqno g"] by (simp add: less_mult_imp_div_less)
  then have "take_bit 32 (?u div 2 ^ 32) = ?u div 2 ^ 32" by (rule take_bit_nat_eq_self)
  then have low: "\<not> bit (?u div 2 ^ 32) n" if "32 \<le> n" for n
    using that bit_take_bit_iff [of 32 "?u div 2 ^ 32" n] by simp
  have "unat (seqno (makeBadVersion g)) = take_bit 64 (push_bit 32 ?u) OR drop_bit 32 ?u"
    using unat_64 [of "seqno g"]
    by (simp add: makeBadVersion_def unsigned_or_eq unsigned_push_bit_eq unsigned_drop_bit_eq
        take_bit_nat_eq_self)
  also have "\<dots> = push_bit 32 (take_bit 32 ?u) + drop_bit 32 ?u"
    using low by (subst disjunctive_add) (auto simp: take_bit_push_bit drop_bit_eq_div bit_push_bit_iff)
  finally show ?thesis by (simp add: push_bit_eq_mult take_bit_eq_mod drop_bit_eq_div)
qed

lemma bad_self_iff: "makeBadVersion g = g \<longleftrightarrow> unat (seqno g) mod 2 ^ 32 = unat (seqno g) div 2 ^ 32"
proof -
  let ?u = "unat (seqno g)"
  have hi: "?u div 2 ^ 32 < 2 ^ 32" using unat_64 [of "seqno g"] by (simp add: less_mult_imp_div_less)
  have "makeBadVersion g = g \<longleftrightarrow> unat (seqno (makeBadVersion g)) = ?u"
    by (metis gdata_bad guid.expand word_unat_eq_iff)
  also have "\<dots> \<longleftrightarrow> ?u mod 2 ^ 32 * 2 ^ 32 + ?u div 2 ^ 32 = ?u div 2 ^ 32 * 2 ^ 32 + ?u mod 2 ^ 32"
    by (simp only: unat_bad div_mult_mod_eq)
  also have "\<dots> \<longleftrightarrow> ?u mod 2 ^ 32 = ?u div 2 ^ 32"
  proof
    assume eq: "?u mod 2 ^ 32 * 2 ^ 32 + ?u div 2 ^ 32 = ?u div 2 ^ 32 * 2 ^ 32 + ?u mod 2 ^ 32"
    have "(a * m + b) div m = a" if "b < m" for a b m :: nat using that by simp
    from this [OF hi, of "?u mod 2 ^ 32"] this [of "?u mod 2 ^ 32" "2 ^ 32" "?u div 2 ^ 32"] eq
    show "?u mod 2 ^ 32 = ?u div 2 ^ 32" by simp
  qed simp
  finally show ?thesis .
qed

section \<open>Properties\<close>

text \<open>
  C16. \<open>operator<\<close> is a strict linear order and \<open>operator==\<close> is the equality it leaves: of two
  identifiers exactly one of smaller, equal, greater holds, and smaller is transitive. So identifiers
  can be the keys of the maps that route replies.
\<close>

theorem guid_order_linear:
  "(guid_lt g h \<and> \<not> guid_eq g h \<and> \<not> guid_lt h g \<or> \<not> guid_lt g h \<and> guid_eq g h \<and> \<not> guid_lt h g \<or>
    \<not> guid_lt g h \<and> \<not> guid_eq g h \<and> guid_lt h g) \<and>
   (guid_lt g h \<and> guid_lt h k \<longrightarrow> guid_lt g k)"
  using less_linear [of g h] less_trans [of g h k]
  by (auto simp: less_guid_def [symmetric] guid_simps)

theorem guid_order_linear_witness:
  "guid_lt UNKNOWN (Guid (replicate 16 0) 1) \<and> guid_lt (Guid (replicate 16 0) 1) (Guid (replicate 16 1) 0) \<and>
   guid_lt UNKNOWN (Guid (replicate 16 1) 0)"
proof -
  have "guid_lt UNKNOWN (Guid (replicate 16 0) 1)" "guid_lt (Guid (replicate 16 0) 1) (Guid (replicate 16 1) 0)"
    by (simp_all add: guid_lt_def UNKNOWN_def numeral_eq_Suc)
  with guid_order_linear [of UNKNOWN "Guid (replicate 16 0) 1" "Guid (replicate 16 1) 0"] show ?thesis
    by blast
qed

text \<open>
  C15. The identifiers a counter hands out never have the sequence number 0 of an unknown identifier,
  keep the writer's bytes, and are all different for 2^64 - 1 messages; then they repeat from the first.
\<close>

theorem increment_distinct:
  assumes "seqno g \<noteq> 0" and "i < j" and "j < i + (2 ^ 64 - 1)"
  shows "(increment ^^ i) g \<noteq> (increment ^^ j) g \<and> seqno ((increment ^^ i) g) \<noteq> 0 \<and>
    (increment ^^ (2 ^ 64 - 1)) g = g"
proof (intro conjI)
  let ?m = "2 ^ 64 - 1 :: nat" and ?u = "unat (seqno g) - 1"
  have data: "gdata ((increment ^^ k) g) = gdata g" for k
    by (induction k) (simp_all add: guid_simps)
  have "(?u + i) mod ?m \<noteq> (?u + j) mod ?m"
  proof
    assume "(?u + i) mod ?m = (?u + j) mod ?m"
    then have "?m dvd (?u + j) - (?u + i)" using assms(2) by (metis add_le_cancel_left less_imp_le mod_eq_dvd_iff_nat)
    then have "?m dvd j - i" by simp
    with assms(2,3) show False using dvd_imp_le [of ?m "j - i"] by simp
  qed
  then have "unat (seqno ((increment ^^ i) g)) \<noteq> unat (seqno ((increment ^^ j) g))"
    by (simp only: unat_increments [OF assms(1)] add_right_cancel not_False_eq_True)
  then show "(increment ^^ i) g \<noteq> (increment ^^ j) g" by metis
  have "unat (seqno ((increment ^^ i) g)) \<noteq> 0"
    by (simp only: unat_increments [OF assms(1)])
  then show "seqno ((increment ^^ i) g) \<noteq> 0" by auto
  have "unat (seqno ((increment ^^ ?m) g)) = (?u + ?m) mod ?m + 1"
    by (rule unat_increments [OF assms(1)])
  also have "\<dots> = (?u + 0) mod ?m + 1" by (simp only: mod_add_self2 add_0_right)
  also have "\<dots> = unat (seqno g)" using unat_increments [OF assms(1), of 0] by (simp only: funpow.simps id_apply)
  finally show "(increment ^^ (2 ^ 64 - 1)) g = g"
    using data by (metis guid.expand word_unat_eq_iff)
qed

theorem increment_distinct_witness:
  "(increment ^^ 0) (Guid (replicate 16 7) 5) \<noteq> (increment ^^ 1) (Guid (replicate 16 7) 5)"
  using increment_distinct [of "Guid (replicate 16 7) 5" 0 1] by simp

text \<open>
  Marking an identifier as bad loses nothing: the mark is its own inverse, keeps the writer's
  bytes, and one identifier is the bad version of the other exactly when the other is of the first.
  An identifier with a sequence number from 1 to 2^32 - 1 is never its own bad version, nor is its
  bad version a sequence number of that range.
\<close>

theorem bad_version_inverse:
  "makeBadVersion (makeBadVersion g) = g \<and> gdata (makeBadVersion g) = gdata g \<and>
   isBadVersionOf (makeBadVersion g) g \<and> isBadVersionOf g h = isBadVersionOf h g \<and>
   (0 < unat (seqno g) \<and> unat (seqno g) < 2 ^ 32 \<longrightarrow>
      2 ^ 32 \<le> unat (seqno (makeBadVersion g)) \<and> \<not> isBadVersionOf g g)"
proof -
  have sym: "isBadVersionOf g h = isBadVersionOf h g" for g h
    by (auto simp: guid_simps)
  have "2 ^ 32 \<le> unat (seqno (makeBadVersion g))" if "0 < unat (seqno g)" "unat (seqno g) < 2 ^ 32"
    using that by (simp only: unat_bad mod_less div_less) simp
  moreover from this have "\<not> isBadVersionOf g g" if "0 < unat (seqno g)" "unat (seqno g) < 2 ^ 32"
    using that by (auto simp: guid_simps)
  ultimately show ?thesis using sym by (simp add: guid_simps)
qed

theorem bad_version_inverse_witness:
  "\<not> isBadVersionOf (Guid (replicate 16 1) 3) (Guid (replicate 16 1) 3)"
proof -
  have "0 < unat (seqno (Guid (replicate 16 1) 3))" "unat (seqno (Guid (replicate 16 1) 3)) < 2 ^ 32"
    by simp_all
  then show ?thesis using bad_version_inverse [of "Guid (replicate 16 1) 3"] by blast
qed

text \<open>
  An identifier is its own bad version exactly when the halves of its sequence number are equal,
  as for message number 2^32 + 1 of a requester; a failure reported for it reads as a success.
\<close>

theorem own_bad_version:
  "isBadVersionOf g g \<longleftrightarrow> unat (seqno g) mod 2 ^ 32 = unat (seqno g) div 2 ^ 32"
  using bad_self_iff [of g] by (auto simp: guid_simps)

text \<open>
  The conversion to a \<open>SampleIdentity\<close> and back is the identity, given that the library's sequence
  number keeps the 64 bits it was made from; the conversion to a \<open>GUID_t\<close> and back only drops the
  sequence number.
\<close>

theorem sample_id_roundtrip:
  assumes "\<And>x. to64 (mk x) = x" and "guid_wf g"
  shows "sampleToGuid to64 (toSampleId mk g) = g \<and> toLetsTalkGuid (toFastDdsGuid g) = Guid (gdata g) 0"
proof -
  have "take 12 (gdata g) @ take 4 (drop 12 (gdata g)) = gdata g"
    using assms(2) append_take_drop_id [of 12 "gdata g"] by (simp add: guid_wf_def)
  then show ?thesis
    using assms(1) by (simp add: sampleToGuid_def toSampleId_def toLetsTalkGuid_def toFastDdsGuid_def)
qed

text \<open>A sequence number of two halves, the upper one signed, as the library keeps it.\<close>

definition example_seq :: "64 word \<Rightarrow> 32 word \<times> 32 word" where
  "example_seq x = (ucast (drop_bit 32 x), ucast x)"

definition example_to64 :: "32 word \<times> 32 word \<Rightarrow> 64 word" where
  "example_to64 p = push_bit 32 (scast (fst p)) OR ucast (snd p)"

lemma example_seq_roundtrip: "example_to64 (example_seq x) = x"
proof (rule bit_word_eqI)
  fix n assume n: "n < LENGTH(64)"
  have "n = 63 \<or> n - 32 < 31" using n by auto
  then show "bit (example_to64 (example_seq x)) n = bit x n"
    using n by (auto simp: example_seq_def example_to64_def bit_or_iff bit_push_bit_iff bit_unsigned_iff
      bit_signed_iff bit_drop_bit_eq min_def dest: bit_imp_le_length)
qed

theorem sample_id_roundtrip_witness:
  "sampleToGuid example_to64 (toSampleId example_seq (Guid (replicate 16 9) 12345678901)) =
   Guid (replicate 16 9) 12345678901"
  using sample_id_roundtrip [of example_to64 example_seq "Guid (replicate 16 9) 12345678901",
      OF example_seq_roundtrip]
  by (simp add: guid_wf_def)

end
