(* ===== verification/LT_Queue.thy ===== *)
theory LT_Queue
  imports LT_Prelude
begin

text \<open>
  The bounded producer/consumer queue, \<^verbatim>\<open>src/LetsTalk/ThreadSafeQueue.hpp\<close>. Every operation holds the
  queue's mutex from its first access to its last, so an operation is one step on the contents; a
  run of threads is a list of such steps. A pop waits for data or until its time is up and then is
  the step modelled here. Which waiting consumer is woken is the subject of the last section.
\<close>

section \<open>Operations\<close>

record 'a tsq =
  q_capacity :: nat
  q_items :: "'a list"
  q_external :: "nat option"

datatype signal = Notify_nonempty | Notify_external nat

definition new_queue :: "nat \<Rightarrow> 'a tsq" where
  "new_queue i_capacity = \<lparr>q_capacity = i_capacity, q_items = [], q_external = None\<rparr>"

definition q_size :: "'a tsq \<Rightarrow> nat" where
  "q_size q = length (q_items q)"

definition q_empty :: "'a tsq \<Rightarrow> bool" where
  "q_empty q \<longleftrightarrow> q_items q = []"

definition q_clear :: "'a tsq \<Rightarrow> 'a tsq" where
  "q_clear q = q\<lparr>q_items := []\<rparr>"

definition q_pop :: "'a tsq \<Rightarrow> 'a option \<times> 'a tsq" where
  "q_pop q =
     (case q_items q of
        [] \<Rightarrow> (None, q)
      | x # xs \<Rightarrow> (Some x, q\<lparr>q_items := xs\<rparr>))"

definition q_popAll :: "'a tsq \<Rightarrow> 'a list \<times> 'a tsq" where
  "q_popAll q = (if q_items q \<noteq> [] then (q_items q, q\<lparr>q_items := []\<rparr>) else ([], q))"

definition signals :: "'a tsq \<Rightarrow> signal list" where
  "signals q = Notify_nonempty # (case q_external q of None \<Rightarrow> [] | Some c \<Rightarrow> [Notify_external c])"

definition q_push :: "'a \<Rightarrow> 'a tsq \<Rightarrow> signal list \<times> 'a tsq" where
  "q_push i_data q =
     (let xs = q_items q @ [i_data];
          q' = q\<lparr>q_items := (if q_capacity q > 0 \<and> length xs > q_capacity q then tl xs else xs)\<rparr>
      in (signals q', q'))"

text \<open>The loop \<open>while (m_capacity > 0 && m_queue.size() > m_capacity) m_queue.pop_front()\<close>.\<close>

function shrink :: "nat \<Rightarrow> 'a list \<Rightarrow> 'a list" where
  "shrink cap xs = (if cap > 0 \<and> length xs > cap then shrink cap (tl xs) else xs)"
  by pat_completeness auto
termination
  by (relation "measure (\<lambda>(cap, xs). length xs)") auto

declare shrink.simps [simp del]

definition q_pushAll :: "'a list \<Rightarrow> 'a tsq \<Rightarrow> signal list \<times> 'a tsq" where
  "q_pushAll i_data q =
     (let q' = q\<lparr>q_items := shrink (q_capacity q) (q_items q @ i_data)\<rparr> in (signals q', q'))"

definition q_emplace :: "'a \<Rightarrow> 'a tsq \<Rightarrow> signal list \<times> 'a tsq" where
  "q_emplace x q =
     (let q' = q\<lparr>q_items := shrink (q_capacity q) (q_items q @ [x])\<rparr> in (signals q', q'))"

definition q_swap :: "'a tsq \<Rightarrow> 'a tsq \<Rightarrow> 'a tsq \<times> 'a tsq" where
  "q_swap q io_other = (q\<lparr>q_items := q_items io_other\<rparr>, io_other\<lparr>q_items := q_items q\<rparr>)"

definition q_attachToCondition :: "nat \<Rightarrow> 'a tsq \<Rightarrow> 'a tsq" where
  "q_attachToCondition c q = q\<lparr>q_external := Some c\<rparr>"

definition q_detachFromCondition :: "'a tsq \<Rightarrow> 'a tsq" where
  "q_detachFromCondition q = q\<lparr>q_external := None\<rparr>"

definition q_ready :: "'a tsq \<Rightarrow> bool" where
  "q_ready q \<longleftrightarrow> \<not> q_empty q"

section \<open>The interface its clients use\<close>

definition limit :: "nat \<Rightarrow> 'a list \<Rightarrow> 'a list" where
  "limit cap xs = (if cap = 0 then xs else keep_last cap xs)"

lemma limit_suffix: "suffix (limit cap xs) xs"
  by (simp add: limit_def suffix_keep_last)

datatype 'a q_op = Push 'a | Emplace 'a | Push_all "'a list" | Pop | Pop_all | Clear

fun pushed :: "'a q_op list \<Rightarrow> 'a list" where
  "pushed [] = []"
| "pushed (Push x # ops) = x # pushed ops"
| "pushed (Emplace x # ops) = x # pushed ops"
| "pushed (Push_all xs # ops) = xs @ pushed ops"
| "pushed (_ # ops) = pushed ops"

definition within :: "nat \<Rightarrow> 'a list \<Rightarrow> bool" where
  "within cap xs \<longleftrightarrow> cap = 0 \<or> length xs \<le> cap"

lemma within_limit [simp]: "within cap (limit cap xs)"
  by (simp add: within_def limit_def)

lemma limit_within [simp]: "within cap xs \<Longrightarrow> limit cap xs = xs"
  by (auto simp: within_def limit_def)

lemma limit_append [simp]: "limit cap (limit cap xs @ ys) = limit cap (xs @ ys)"
  by (simp add: limit_def keep_last_append)

text \<open>An operation adds to what is queued, then drops old elements, or hands out the front.\<close>

locale bounded_fifo =
  fixes contents :: "'q \<Rightarrow> 'a list"
    and bound :: "'q \<Rightarrow> nat"
    and perform :: "'a q_op \<Rightarrow> 'q \<Rightarrow> 'a list \<times> 'q"
  assumes push_law: "within (bound q) (contents q) \<Longrightarrow> perform (Push x) q = (r, q') \<Longrightarrow>
      r = [] \<and> contents q' = limit (bound q) (contents q @ [x])"
    and emplace_law: "perform (Emplace x) q = (r, q') \<Longrightarrow> r = [] \<and> contents q' = limit (bound q) (contents q @ [x])"
    and push_all_law: "perform (Push_all xs) q = (r, q') \<Longrightarrow> r = [] \<and> contents q' = limit (bound q) (contents q @ xs)"
    and pop_law: "perform Pop q = (r, q') \<Longrightarrow> r = take 1 (contents q) \<and> contents q' = tl (contents q)"
    and pop_all_law: "perform Pop_all q = (r, q') \<Longrightarrow> r = contents q \<and> contents q' = []"
    and clear_law: "perform Clear q = (r, q') \<Longrightarrow> r = [] \<and> contents q' = []"
    and bound_law: "perform op q = (r, q') \<Longrightarrow> bound q' = bound q"
begin

abbreviation fits :: "'q \<Rightarrow> bool" where
  "fits q \<equiv> within (bound q) (contents q)"

lemma perform_effect:
  assumes "fits q" "perform op q = (r, q')"
  shows "case op of Pop \<Rightarrow> r = take 1 (contents q) \<and> contents q' = tl (contents q)
    | Pop_all \<Rightarrow> r = contents q \<and> contents q' = [] | Clear \<Rightarrow> r = [] \<and> contents q' = []
    | _ \<Rightarrow> r = [] \<and> contents q' = limit (bound q) (contents q @ pushed [op])"
  using assms push_law [OF assms(1)] emplace_law push_all_law pop_law pop_all_law clear_law
  by (cases op) simp_all

lemma perform_fits: "fits q \<Longrightarrow> perform op q = (r, q') \<Longrightarrow> fits q'"
proof -
  assume f: "fits q" and p: "perform op q = (r, q')"
  have tl: "within b (tl xs)" if "within b xs" for b and xs :: "'a list"
    using that by (auto simp: within_def)
  have nil: "within b []" for b by (simp add: within_def)
  show ?thesis
    using f perform_effect [OF f p] bound_law [OF p] tl nil by (cases op) auto
qed

text \<open>One operation hands out and keeps a part, in order, of what was queued and what it adds.\<close>

lemma perform_subseq:
  assumes "fits q" "perform op q = (r, q')"
  shows "subseq (r @ contents q') (contents q @ pushed [op])" "suffix (contents q') (contents q @ pushed [op])"
proof -
  have 1: "suffix (contents q') (contents q @ pushed [op])"
    using perform_effect [OF assms] limit_suffix [of "bound q" "contents q @ pushed [op]"]
    by (cases op) (simp_all add: suffix_tl)
  show "suffix (contents q') (contents q @ pushed [op])" by (rule 1)
  show "subseq (r @ contents q') (contents q @ pushed [op])"
    using perform_effect [OF assms] suffix_imp_subseq [OF 1]
    by (cases op; cases "contents q") simp_all
qed

lemma pushed_Cons: "pushed (op # ops) = pushed [op] @ pushed ops"
  by (cases op) auto

lemma drive_subseq:
  "fits q \<Longrightarrow> drive perform ops q = (out, q') \<Longrightarrow>
   subseq (out @ contents q') (contents q @ pushed ops) \<and> suffix (contents q') (contents q @ pushed ops) \<and>
   fits q' \<and> bound q' = bound q"
proof (induction ops arbitrary: q out)
  case (Cons op ops)
  obtain r q1 where p: "perform op q = (r, q1)" by fastforce
  obtain o2 where d: "drive perform ops q1 = (o2, q')" "out = r @ o2"
    using Cons.prems(2) p by (auto split: prod.splits)
  have q1: "fits q1" "bound q1 = bound q"
    using perform_fits [OF Cons.prems(1) p] bound_law [OF p] by auto
  from Cons.IH [OF q1(1) d(1)]
  have ih: "subseq (o2 @ contents q') (contents q1 @ pushed ops)" "suffix (contents q') (contents q1 @ pushed ops)"
    "fits q'" "bound q' = bound q1"
    by auto
  have "subseq (r @ o2 @ contents q') (r @ contents q1 @ pushed ops)"
    using ih(1) by (simp add: subseq_append')
  also have "subseq (r @ contents q1 @ pushed ops) (contents q @ pushed [op] @ pushed ops)"
    using list_emb_append_mono [OF perform_subseq(1) [OF Cons.prems(1) p], of "pushed ops" "pushed ops"]
    by simp
  finally have 1: "subseq (out @ contents q') (contents q @ pushed (op # ops))"
    using d(2) by (simp add: pushed_Cons [of op ops])
  have "suffix (contents q1 @ pushed ops) (contents q @ pushed [op] @ pushed ops)"
    using perform_subseq(2) [OF Cons.prems(1) p] by (auto simp: suffix_def)
  from suffix_order.trans [OF ih(2) this] have "suffix (contents q') (contents q @ pushed (op # ops))"
    by (simp add: pushed_Cons [of op ops])
  with 1 ih(3,4) q1(2) show ?case by simp
qed simp

lemma drive_unbounded:
  "bound q = 0 \<Longrightarrow> Clear \<notin> set ops \<Longrightarrow> drive perform ops q = (out, q') \<Longrightarrow>
   out @ contents q' = contents q @ pushed ops"
proof (induction ops arbitrary: q out)
  case (Cons op ops)
  obtain r q1 where p: "perform op q = (r, q1)" by fastforce
  obtain o2 where d: "drive perform ops q1 = (o2, q')" "out = r @ o2"
    using Cons.prems(3) p by (auto split: prod.splits)
  have "o2 @ contents q' = contents q1 @ pushed ops"
    using Cons.IH [OF _ _ d(1)] Cons.prems bound_law [OF p] by simp
  moreover have "r @ contents q1 = contents q @ pushed [op]"
    using perform_effect [OF _ p] Cons.prems(1,2)
    by (cases op; cases "contents q") (simp_all add: limit_def within_def)
  ultimately show ?case using d(2) by (simp add: pushed_Cons [of op ops])
qed simp

text \<open>While nothing is taken the queue holds the newest of all that was put in.\<close>

lemma drive_newest:
  "fits q \<Longrightarrow> set ops \<inter> {Pop, Pop_all, Clear} = {} \<Longrightarrow> drive perform ops q = (out, q') \<Longrightarrow>
   contents q' = limit (bound q) (contents q @ pushed ops) \<and> out = []"
proof (induction ops arbitrary: q out)
  case (Cons op ops)
  obtain r q1 where p: "perform op q = (r, q1)" by fastforce
  obtain o2 where d: "drive perform ops q1 = (o2, q')" "out = r @ o2"
    using Cons.prems(3) p by (auto split: prod.splits)
  have ih: "contents q' = limit (bound q) (contents q1 @ pushed ops)" "o2 = []"
    using Cons.IH [OF perform_fits [OF Cons.prems(1) p] _ d(1)] Cons.prems(2) bound_law [OF p] by auto
  have "contents q1 = limit (bound q) (contents q @ pushed [op]) \<and> r = []"
    using perform_effect [OF Cons.prems(1) p] Cons.prems(2) by (cases op) auto
  with ih d(2) show ?case by (simp add: pushed_Cons [of op ops])
qed simp

end

section \<open>The queue provides the interface\<close>

fun queue_op :: "'a q_op \<Rightarrow> 'a tsq \<Rightarrow> 'a list \<times> 'a tsq" where
  "queue_op (Push x) q = ([], snd (q_push x q))"
| "queue_op (Emplace x) q = ([], snd (q_emplace x q))"
| "queue_op (Push_all xs) q = ([], snd (q_pushAll xs q))"
| "queue_op Pop q = (let (r, q') = q_pop q in (case r of None \<Rightarrow> [] | Some x \<Rightarrow> [x], q'))"
| "queue_op Pop_all q = q_popAll q"
| "queue_op Clear q = ([], q_clear q)"

lemma shrink_limit [queue_simps]: "shrink cap xs = limit cap xs"
proof (induction cap xs rule: shrink.induct)
  case (1 cap xs)
  show ?case
  proof (cases "cap > 0 \<and> length xs > cap")
    case True
    then have "shrink cap xs = shrink cap (tl xs)" by (subst shrink.simps) simp
    with 1 True show ?thesis by (simp add: limit_def keep_last_tl)
  next
    case False
    then have "shrink cap xs = xs" by (subst shrink.simps) auto
    with False show ?thesis by (auto simp: limit_def)
  qed
qed

lemma snd_push [queue_simps]:
  "snd (q_push x q) = q\<lparr>q_items := (if q_capacity q > 0 \<and> length (q_items q) \<ge> q_capacity q
     then tl (q_items q @ [x]) else q_items q @ [x])\<rparr>"
  "snd (q_emplace x q) = q\<lparr>q_items := limit (q_capacity q) (q_items q @ [x])\<rparr>"
  "snd (q_pushAll xs q) = q\<lparr>q_items := limit (q_capacity q) (q_items q @ xs)\<rparr>"
  by (simp_all add: q_push_def q_emplace_def q_pushAll_def Let_def shrink_limit less_Suc_eq_le)

lemma push_limit:
  assumes "within cap xs"
  shows "(if cap > 0 \<and> length (xs @ [x]) > cap then tl (xs @ [x]) else xs @ [x]) = limit cap (xs @ [x])"
proof (cases "cap > 0 \<and> length (xs @ [x]) > cap")
  case True
  with assms have "length (tl (xs @ [x])) = cap" by (auto simp: within_def)
  then have "limit cap (xs @ [x]) = tl (xs @ [x])"
    using True keep_last_tl [of cap "xs @ [x]"] by (simp add: limit_def)
  with True show ?thesis by simp
next
  case False
  then show ?thesis by (auto simp: limit_def)
qed

interpretation tsq: bounded_fifo q_items q_capacity queue_op
proof unfold_locales
  fix q q' :: "'a tsq" and x r
  assume "within (q_capacity q) (q_items q)" and p: "queue_op (Push x) q = (r, q')"
  from push_limit [OF this(1), of x] p show "r = [] \<and> q_items q' = limit (q_capacity q) (q_items q @ [x])"
    by (auto simp: q_push_def Let_def)
next
  fix q q' :: "'a tsq" and r and op :: "'a q_op"
  assume "queue_op op q = (r, q')"
  then show "q_capacity q' = q_capacity q"
    by (cases op) (auto simp: q_push_def q_emplace_def q_pushAll_def q_pop_def q_popAll_def q_clear_def Let_def
        split: list.splits if_splits)
qed (auto simp: q_emplace_def q_pushAll_def q_pop_def q_popAll_def q_clear_def Let_def queue_simps
      split: list.splits if_splits)

section \<open>Two queues and swap\<close>

text \<open>
  A queue with what was put into its contents and what was handed out of them. \<open>swap\<close> exchanges the contents of two queues, and
  with the contents go their two histories; the capacities stay.
\<close>

record 'a traced =
  t_queue :: "'a tsq"
  t_in :: "'a list"
  t_out :: "'a list"

definition trace_start :: "nat \<Rightarrow> 'a traced" where
  "trace_start cap = \<lparr>t_queue = new_queue cap, t_in = [], t_out = []\<rparr>"

definition trace_op :: "'a q_op \<Rightarrow> 'a traced \<Rightarrow> 'a traced" where
  "trace_op op t =
     (let (r, q) = queue_op op (t_queue t) in \<lparr>t_queue = q, t_in = t_in t @ pushed [op], t_out = t_out t @ r\<rparr>)"

definition trace_swap :: "'a traced \<Rightarrow> 'a traced \<Rightarrow> 'a traced \<times> 'a traced" where
  "trace_swap t1 t2 =
     (let (q1, q2) = q_swap (t_queue t1) (t_queue t2)
      in (\<lparr>t_queue = q1, t_in = t_in t2, t_out = t_out t2\<rparr>, \<lparr>t_queue = q2, t_in = t_in t1, t_out = t_out t1\<rparr>))"

datatype 'a pair_op = First "'a q_op" | Second "'a q_op" | Swap | Swap_back

fun pair_step :: "'a pair_op \<Rightarrow> 'a traced \<times> 'a traced \<Rightarrow> 'a traced \<times> 'a traced" where
  "pair_step (First op) (t1, t2) = (trace_op op t1, t2)"
| "pair_step (Second op) (t1, t2) = (t1, trace_op op t2)"
| "pair_step Swap (t1, t2) = trace_swap t1 t2"
| "pair_step Swap_back (t1, t2) = prod.swap (trace_swap t2 t1)"

definition in_order :: "'a traced \<Rightarrow> bool" where
  "in_order t \<longleftrightarrow> subseq (t_out t @ q_items (t_queue t)) (t_in t) \<and> suffix (q_items (t_queue t)) (t_in t)"

definition capped :: "nat \<Rightarrow> 'a traced \<Rightarrow> bool" where
  "capped cap t \<longleftrightarrow> q_capacity (t_queue t) = cap \<and> within cap (q_items (t_queue t))"

text \<open>What an operation hands out and keeps is a part, in order, of what was queued and what it adds, also above the capacity.\<close>

lemma queue_op_part:
  assumes "queue_op op q = (r, q')"
  shows "subseq (r @ q_items q') (q_items q @ pushed [op]) \<and> suffix (q_items q') (q_items q @ pushed [op])"
proof -
  have tl: "suffix (tl (xs @ [x])) (xs @ [x])" for xs and x :: 'a by (rule suffix_tl)
  have lim: "subseq (limit c xs) xs" "suffix (limit c xs) xs" for c and xs :: "'a list"
    using limit_suffix [of c xs] by (auto intro: suffix_imp_subseq)
  show ?thesis
    using assms tl lim suffix_imp_subseq [OF tl]
    by (cases op) (auto simp: queue_simps q_pop_def q_popAll_def q_clear_def suffix_def split: list.splits if_splits)
qed

lemma in_order_op:
  assumes "in_order t"
  shows "in_order (trace_op op t)"
proof -
  obtain r q where p: "queue_op op (t_queue t) = (r, q)" by fastforce
  note part = queue_op_part [OF p]
  have "subseq ((t_out t @ q_items (t_queue t)) @ pushed [op]) (t_in t @ pushed [op])"
    using assms list_emb_append_mono by (fastforce simp: in_order_def)
  moreover have "subseq (t_out t @ r @ q_items q) (t_out t @ q_items (t_queue t) @ pushed [op])"
    using part by (simp add: subseq_append')
  ultimately have "subseq (t_out t @ r @ q_items q) (t_in t @ pushed [op])" by (metis append.assoc subseq_order.trans)
  moreover have "suffix (q_items (t_queue t) @ pushed [op]) (t_in t @ pushed [op])"
    using assms by (auto simp: in_order_def suffix_def)
  then have "suffix (q_items q) (t_in t @ pushed [op])" using part suffix_order.trans by blast
  ultimately show ?thesis by (simp add: in_order_def trace_op_def p)
qed

lemma capped_op:
  assumes "capped cap t"
  shows "capped cap (trace_op op t)"
proof -
  obtain r q where p: "queue_op op (t_queue t) = (r, q)" by fastforce
  then show ?thesis
    using assms tsq.perform_fits [of "t_queue t" op r q] tsq.bound_law [OF p] by (simp add: capped_def trace_op_def)
qed

lemma pair_step_keeps:
  assumes "pair_step e (t1, t2) = (u1, u2)" "in_order t1" "in_order t2"
  shows "in_order u1 \<and> in_order u2"
  using assms in_order_op [OF assms(2)] in_order_op [OF assms(3)]
  by (cases e) (auto simp: trace_swap_def q_swap_def in_order_def)

lemma pair_step_capped:
  assumes "pair_step e (t1, t2) = (u1, u2)" "capped c1 t1" "capped c2 t2" "e \<in> {Swap, Swap_back} \<Longrightarrow> c1 = c2"
  shows "capped c1 u1 \<and> capped c2 u2"
  using assms capped_op [OF assms(2)] capped_op [OF assms(3)]
  by (cases e) (auto simp: trace_swap_def q_swap_def capped_def)

section \<open>Waiting consumers\<close>

text \<open>
  Consumers that wait inside \<open>pop\<close> or \<open>popAll\<close> sit in the condition variable's wait set (\<open>waiting\<close>). A producer changes the
  queue under the mutex, unlocks it, and notifies later (\<open>notifying\<close>). A notification
  moves one of the waiting consumers, of either kind, to \<open>woken\<close>, as does a spurious wake-up; a consumer whose time is up leaves the wait
  set for \<open>expired\<close>. A woken consumer takes the front element or all of them, or waits again when there is none; an
  expired one takes them or returns without. All counts are of threads.
\<close>

datatype consumer = Pops | Pops_all

fun take_from :: "consumer \<Rightarrow> 'a tsq \<Rightarrow> 'a tsq" where
  "take_from Pops q = snd (q_pop q)"
| "take_from Pops_all q = snd (q_popAll q)"

record 'a wait_state =
  w_queue :: "'a tsq"
  notifying :: nat
  waiting :: "consumer \<Rightarrow> nat"
  woken :: "consumer \<Rightarrow> nat"
  expired :: "consumer \<Rightarrow> nat"

definition one_more :: "consumer \<Rightarrow> (consumer \<Rightarrow> nat) \<Rightarrow> consumer \<Rightarrow> nat" where
  "one_more c f = f(c := f c + 1)"

definition one_less :: "consumer \<Rightarrow> (consumer \<Rightarrow> nat) \<Rightarrow> consumer \<Rightarrow> nat" where
  "one_less c f = f(c := f c - 1)"

definition threads :: "(consumer \<Rightarrow> nat) \<Rightarrow> nat" where
  "threads f = f Pops + f Pops_all"

definition wake :: "consumer \<Rightarrow> 'a wait_state \<Rightarrow> 'a wait_state" where
  "wake c s = s\<lparr>waiting := one_less c (waiting s), woken := one_more c (woken s)\<rparr>"

inductive q_step :: "'a wait_state \<Rightarrow> 'a wait_state \<Rightarrow> bool" where
  push: "q_step s (s\<lparr>w_queue := snd (q_push x (w_queue s)), notifying := notifying s + 1\<rparr>)"
| emplace: "q_step s (s\<lparr>w_queue := snd (q_emplace x (w_queue s)), notifying := notifying s + 1\<rparr>)"
| notify: "notifying s > 0 \<Longrightarrow> waiting s c > 0 \<Longrightarrow> q_step s (wake c (s\<lparr>notifying := notifying s - 1\<rparr>))"
| notify_nobody: "notifying s > 0 \<Longrightarrow> threads (waiting s) = 0 \<Longrightarrow> q_step s (s\<lparr>notifying := notifying s - 1\<rparr>)"
| enter_take: "\<not> q_empty (w_queue s) \<Longrightarrow> q_step s (s\<lparr>w_queue := take_from c (w_queue s)\<rparr>)"
| enter_wait: "q_empty (w_queue s) \<Longrightarrow> q_step s (s\<lparr>waiting := one_more c (waiting s)\<rparr>)"
| clear: "q_step s (s\<lparr>w_queue := q_clear (w_queue s)\<rparr>)"
| spurious: "waiting s c > 0 \<Longrightarrow> q_step s (wake c s)"
| woken_take: "woken s c > 0 \<Longrightarrow> \<not> q_empty (w_queue s) \<Longrightarrow>
    q_step s (s\<lparr>woken := one_less c (woken s), w_queue := take_from c (w_queue s)\<rparr>)"
| woken_wait: "woken s c > 0 \<Longrightarrow> q_empty (w_queue s) \<Longrightarrow>
    q_step s (s\<lparr>woken := one_less c (woken s), waiting := one_more c (waiting s)\<rparr>)"
| time_up: "waiting s c > 0 \<Longrightarrow> q_step s (s\<lparr>waiting := one_less c (waiting s), expired := one_more c (expired s)\<rparr>)"
| expired_end: "expired s c > 0 \<Longrightarrow>
    q_step s (s\<lparr>expired := one_less c (expired s), w_queue := take_from c (w_queue s)\<rparr>)"

text \<open>The same with \<open>pushAll\<close>, which also notifies once, and with \<open>swap\<close>, which does not.\<close>

inductive q_step_all :: "'a wait_state \<Rightarrow> 'a wait_state \<Rightarrow> bool" where
  single: "q_step s s' \<Longrightarrow> q_step_all s s'"
| push_all: "q_step_all s (s\<lparr>w_queue := snd (q_pushAll xs (w_queue s)), notifying := notifying s + 1\<rparr>)"
| swapped: "q_step_all s (s\<lparr>w_queue := fst (q_swap (w_queue s) other)\<rparr>)"

definition start_state :: "nat \<Rightarrow> 'a wait_state" where
  "start_state cap = \<lparr>w_queue = new_queue cap, notifying = 0, waiting = (\<lambda>_. 0), woken = (\<lambda>_. 0), expired = (\<lambda>_. 0)\<rparr>"

definition no_lost_wakeup :: "'a wait_state \<Rightarrow> bool" where
  "no_lost_wakeup s \<longleftrightarrow> threads (waiting s) = 0 \<or> q_size (w_queue s) \<le> threads (woken s) + notifying s"

lemma push_size:
  "q_size (snd (q_push x q)) \<le> q_size q + 1" "q_size (snd (q_emplace x q)) \<le> q_size q + 1"
  by (auto simp: q_push_def q_emplace_def q_size_def Let_def queue_simps limit_def)

lemma take_size: "q_size (take_from c q) \<le> q_size q - 1"
  by (cases c) (auto simp: q_pop_def q_popAll_def q_size_def split: list.splits)

lemma empty_size: "q_empty q \<Longrightarrow> q_size q = 0"
  by (simp add: q_empty_def q_size_def)

lemma threads_simps:
  "threads (one_more c f) = threads f + 1" "f c > 0 \<Longrightarrow> threads (one_less c f) = threads f - 1" "f c > 0 \<Longrightarrow> threads f > 0"
  by (cases c; simp add: threads_def one_more_def one_less_def)+

lemma no_lost_step:
  assumes "q_step s s'" "no_lost_wakeup s"
  shows "no_lost_wakeup s'"
  using assms(1)
proof cases
  case (push x)
  then show ?thesis using assms(2) push_size(1) [of x "w_queue s"] by (auto simp: no_lost_wakeup_def)
next
  case (emplace x)
  then show ?thesis using assms(2) push_size(2) [of x "w_queue s"] by (auto simp: no_lost_wakeup_def)
next
  case (notify c)
  then show ?thesis
    using assms(2) threads_simps(2,3) [of "waiting s" c] by (auto simp: no_lost_wakeup_def wake_def threads_simps)
next
  case (enter_take c)
  then show ?thesis using assms(2) take_size [of c "w_queue s"] by (auto simp: no_lost_wakeup_def)
next
  case (clear)
  then show ?thesis by (simp add: no_lost_wakeup_def q_clear_def q_size_def)
next
  case (spurious c)
  then show ?thesis
    using assms(2) threads_simps(2,3) [of "waiting s" c] by (auto simp: no_lost_wakeup_def wake_def threads_simps)
next
  case (woken_take c)
  then show ?thesis
    using assms(2) take_size [of c "w_queue s"] threads_simps(2,3) [of "woken s" c] by (auto simp: no_lost_wakeup_def)
next
  case (time_up c)
  then show ?thesis using assms(2) threads_simps(2,3) [of "waiting s" c] by (auto simp: no_lost_wakeup_def)
next
  case (expired_end c)
  then show ?thesis using assms(2) take_size [of c "w_queue s"] by (auto simp: no_lost_wakeup_def)
qed (use assms(2) in \<open>auto simp: no_lost_wakeup_def threads_simps empty_size\<close>)

section \<open>Properties\<close>

fun first_ops :: "'a pair_op list \<Rightarrow> 'a q_op list" where
  "first_ops [] = []"
| "first_ops (First op # es) = op # first_ops es"
| "first_ops (e # es) = first_ops es"

lemma pair_run:
  assumes "fold pair_step es (t1, t2) = (u1, u2)" "in_order t1" "in_order t2" "capped c1 t1" "capped c2 t2"
  shows "in_order u1 \<and> in_order u2 \<and> (c1 = c2 \<or> set es \<inter> {Swap, Swap_back} = {} \<longrightarrow> capped c1 u1 \<and> capped c2 u2)"
  using assms
proof (induction es arbitrary: t1 t2)
  case (Cons e es)
  obtain v1 v2 where v: "pair_step e (t1, t2) = (v1, v2)" by fastforce
  then have run: "fold pair_step es (v1, v2) = (u1, u2)" using Cons.prems(1) by simp
  have ord: "in_order v1" "in_order v2" using pair_step_keeps [OF v Cons.prems(2,3)] by simp_all
  show ?case
  proof (cases "e \<in> {Swap, Swap_back} \<longrightarrow> c1 = c2")
    case True
    then have "capped c1 v1" "capped c2 v2" using pair_step_capped [OF v Cons.prems(4,5)] by auto
    from Cons.IH [OF run ord this] show ?thesis by auto
  next
    case False
    have "in_order w1 \<and> in_order w2" if "fold pair_step fs (x1, x2) = (w1, w2)" "in_order x1" "in_order x2" for fs x1 x2 w1 w2
      using that
    proof (induction fs arbitrary: x1 x2)
      case (Cons f fs)
      obtain y1 y2 where "pair_step f (x1, x2) = (y1, y2)" by fastforce
      moreover from this have "in_order y1 \<and> in_order y2" by (rule pair_step_keeps) (fact Cons.prems)+
      ultimately show ?case using Cons by simp
    qed simp
    from this [OF run ord] show ?thesis using False by auto
  qed
qed simp

definition loss_free :: "'a traced \<Rightarrow> bool" where
  "loss_free t \<longleftrightarrow> q_capacity (t_queue t) = 0 \<and> t_out t @ q_items (t_queue t) = t_in t"

lemma loss_free_op:
  assumes "loss_free t" "op \<noteq> Clear"
  shows "loss_free (trace_op op t)"
proof -
  obtain r q where p: "queue_op op (t_queue t) = (r, q)" by fastforce
  have cap: "q_capacity (t_queue t) = 0" using assms(1) by (simp add: loss_free_def)
  then have "within (q_capacity (t_queue t)) (q_items (t_queue t))" by (simp add: within_def)
  from tsq.perform_effect [OF this p] assms(2) cap have "r @ q_items q = q_items (t_queue t) @ pushed [op]"
    by (cases op; cases "q_items (t_queue t)") (simp_all add: limit_def)
  then have "t_out t @ r @ q_items q = t_in t @ pushed [op]" using assms(1) unfolding loss_free_def by (metis append.assoc)
  then show ?thesis using cap tsq.bound_law [OF p] by (simp add: trace_op_def p loss_free_def)
qed

lemma loss_free_swap: "loss_free t1 \<Longrightarrow> loss_free t2 \<Longrightarrow> trace_swap t1 t2 = (u1, u2) \<Longrightarrow> loss_free u1 \<and> loss_free u2"
  by (auto simp: trace_swap_def q_swap_def loss_free_def)

lemma loss_free_run:
  assumes "fold pair_step es (t1, t2) = (u1, u2)" "loss_free t1" "loss_free t2" "First Clear \<notin> set es" "Second Clear \<notin> set es"
  shows "loss_free u1 \<and> loss_free u2"
  using assms
proof (induction es arbitrary: t1 t2)
  case (Cons e es)
  obtain v1 v2 where v: "pair_step e (t1, t2) = (v1, v2)" by fastforce
  have "loss_free v1 \<and> loss_free v2"
  proof (cases e)
    case (First op)
    then have "v1 = trace_op op t1" "v2 = t2" "op \<noteq> Clear" using v Cons.prems(4) by auto
    then show ?thesis using loss_free_op Cons.prems(2,3) by blast
  next
    case (Second op)
    then have "v1 = t1" "v2 = trace_op op t2" "op \<noteq> Clear" using v Cons.prems(5) by auto
    then show ?thesis using loss_free_op Cons.prems(2,3) by blast
  next
    case Swap
    then show ?thesis using v loss_free_swap [OF Cons.prems(2,3)] by simp
  next
    case Swap_back
    then have "trace_swap t2 t1 = (v2, v1)" using v by (cases "trace_swap t2 t1") simp
    then show ?thesis using loss_free_swap [OF Cons.prems(3,2)] by simp
  qed
  with v Cons show ?case by simp
qed simp

lemma first_run:
  assumes "fold pair_step es (t1, t2) = (u1, u2)" "set es \<inter> {Swap, Swap_back} = {}"
  shows "t_in u1 = t_in t1 @ pushed (first_ops es) \<and>
    (\<exists>out. drive queue_op (first_ops es) (t_queue t1) = (out, t_queue u1) \<and> t_out u1 = t_out t1 @ out)"
  using assms
proof (induction es arbitrary: t1 t2)
  case (Cons e es)
  show ?case
  proof (cases e)
    case (First op)
    obtain r q where "queue_op op (t_queue t1) = (r, q)" by fastforce
    with First Cons.IH [of "trace_op op t1" t2] Cons.prems show ?thesis
      by (auto simp: trace_op_def tsq.pushed_Cons [of op "first_ops es"] split: prod.splits)
  qed (use Cons in auto)
qed simp

text \<open>
  C4. Whatever the threads do with two queues, in any interleaving of \<open>push\<close>, \<open>emplace\<close>,
  \<open>pushAll\<close>, \<open>pop\<close>, \<open>popAll\<close> and \<open>clear\<close> on either and of \<open>swap\<close> between them: what has been handed out of the contents of a queue
  followed by what is queued is a subsequence of what was put into these contents, in order and without repetition, and what is queued is an end segment
  of it, so only the oldest are discarded. The capacities, where there are any, are never exceeded, provided they are equal or \<open>swap\<close> is
  not used; without capacities and without \<open>clear\<close> nothing is lost, \<open>swap\<close> or not. Without \<open>swap\<close> this is what happens to the first queue alone.
\<close>

theorem queue_fifo:
  assumes "fold pair_step es (trace_start cap1, trace_start cap2) = (t1, t2)"
  shows "(\<forall>t \<in> {t1, t2}. subseq (t_out t @ q_items (t_queue t)) (t_in t) \<and> suffix (q_items (t_queue t)) (t_in t)) \<and>
    (cap1 = cap2 \<or> set es \<inter> {Swap, Swap_back} = {} \<longrightarrow>
      (0 < cap1 \<longrightarrow> q_size (t_queue t1) \<le> cap1) \<and> (0 < cap2 \<longrightarrow> q_size (t_queue t2) \<le> cap2)) \<and>
    (cap1 = 0 \<and> cap2 = 0 \<and> First Clear \<notin> set es \<and> Second Clear \<notin> set es \<longrightarrow>
      (\<forall>t \<in> {t1, t2}. t_out t @ q_items (t_queue t) = t_in t)) \<and>
    (set es \<inter> {Swap, Swap_back} = {} \<longrightarrow>
      t_in t1 = pushed (first_ops es) \<and> drive queue_op (first_ops es) (new_queue cap1) = (t_out t1, t_queue t1))"
proof -
  have start: "in_order (trace_start c)" "capped c (trace_start c)" for c
    by (simp_all add: in_order_def capped_def trace_start_def new_queue_def within_def)
  show ?thesis
    using pair_run [OF assms start(1) start(1) start(2) start(2)] first_run [OF assms] loss_free_run [OF assms]
    by (auto simp: loss_free_def in_order_def capped_def within_def q_size_def trace_start_def new_queue_def)
qed

definition example_ops :: "nat q_op list" where
  "example_ops = [Push 1, Push 2, Push 3, Pop, Push_all [4, 5, 6], Emplace 7, Pop]"

theorem queue_fifo_witness:
  "\<exists>t1 t2. fold pair_step (map First example_ops @ [Second (Push 8), Swap, First Pop]) (trace_start 2, trace_start 2) = (t1, t2) \<and>
     t_out t1 = [8] \<and> t_out t2 = [2, 6] \<and> q_items (t_queue t2) = [7] \<and> suffix (q_items (t_queue t2)) (t_in t2) \<and> q_size (t_queue t2) \<le> 2"
proof -
  let ?es = "map First example_ops @ [Second (Push 8), Swap, First Pop]"
  obtain t1 t2 where d: "fold pair_step ?es (trace_start 2, trace_start 2) = (t1, t2)" by fastforce
  then have "t_out t1 = [8] \<and> t_out t2 = [2, 6] \<and> q_items (t_queue t2) = [7]"
    by (auto simp: example_ops_def trace_start_def trace_op_def trace_swap_def q_swap_def new_queue_def q_pop_def queue_simps limit_def keep_last_def)
  with d queue_fifo [OF d] show ?thesis by auto
qed

text \<open>
  Without a capacity and without \<open>clear\<close> nothing is lost: what has been handed out followed by
  what is still queued is exactly what was put in, in order.
\<close>

theorem queue_lossless:
  assumes "Clear \<notin> set ops" and "drive queue_op ops (new_queue 0) = (out, q)"
  shows "out @ q_items q = pushed ops"
  using tsq.drive_unbounded [OF _ assms] by (simp add: new_queue_def)

theorem queue_lossless_witness:
  "\<exists>out q. drive queue_op example_ops (new_queue 0) = (out, q) \<and> out @ q_items q = [1, 2, 3, 4, 5, 6, 7]"
proof -
  obtain out q where d: "drive queue_op example_ops (new_queue 0) = (out, q)" by fastforce
  have "Clear \<notin> set example_ops" by (simp add: example_ops_def)
  from queue_lossless [OF this d] d show ?thesis by (simp add: example_ops_def)
qed

text \<open>
  C12. While nothing is taken, a queue of capacity \<open>cap\<close> holds the last \<open>cap\<close> elements that were put
  in, whichever of the three operations put them in.
\<close>

theorem queue_keeps_newest:
  assumes "set ops \<inter> {Pop, Pop_all, Clear} = {}" and "0 < cap"
  shows "drive queue_op ops (new_queue cap) = (out, q) \<Longrightarrow> out = [] \<and> q_items q = keep_last cap (pushed ops)"
  using tsq.drive_newest [of "new_queue cap" ops out q] assms
  by (simp add: new_queue_def within_def limit_def)

theorem queue_keeps_newest_witness:
  "\<exists>out q. drive queue_op [Push 1, Push_all [2, 3], Emplace (4::nat)] (new_queue 2) = (out, q) \<and> q_items q = [3, 4]"
proof -
  obtain out q where d: "drive queue_op [Push 1, Push_all [2, 3], Emplace (4::nat)] (new_queue 2) = (out, q)"
    by fastforce
  from queue_keeps_newest [OF _ _ d] d show ?thesis by (simp add: keep_last_def)
qed

text \<open>
  Exchanging the contents of two queues does not look at their capacities: a queue of capacity 1
  can hold three elements after \<open>swap\<close>, and a further \<open>push\<close>, which drops one element only, keeps it
  above its capacity.
\<close>

theorem swap_exceeds_capacity:
  "\<exists>q1 q2 :: nat tsq. q_size q1 \<le> 1 \<and> q_capacity q1 = 1 \<and> q_capacity q2 = 0 \<and>
     q_size (fst (q_swap q1 q2)) = 3 \<and> q_size (snd (q_push 9 (fst (q_swap q1 q2)))) = 3"
  by (rule exI [of _ "new_queue 1"], rule exI [of _ "(new_queue 0)\<lparr>q_items := [1, 2, 3]\<rparr>"])
    (simp add: new_queue_def q_swap_def q_size_def queue_simps)

text \<open>
  C18. With producers that push or emplace elements one at a time no consumer is forgotten: in every reachable
  state, if a consumer is waiting in \<open>pop\<close> or \<open>popAll\<close>, then for every queued element there is a consumer that has been
  woken and has not yet looked, or a producer that has unlocked the queue and is about to notify. \<open>pushAll\<close> and \<open>swap\<close> are not part of this.
\<close>

theorem push_wakes_consumers:
  assumes "q_step\<^sup>*\<^sup>* (start_state cap) s"
  shows "threads (waiting s) = 0 \<or> q_size (w_queue s) \<le> threads (woken s) + notifying s"
proof -
  have "no_lost_wakeup (start_state cap)" by (simp add: no_lost_wakeup_def start_state_def threads_def)
  with assms have "no_lost_wakeup s"
    by (induction rule: rtranclp_induct) (auto intro: no_lost_step)
  then show ?thesis by (simp add: no_lost_wakeup_def)
qed

lemma two_waiting:
  "q_step\<^sup>*\<^sup>* (start_state cap) ((start_state cap)\<lparr>waiting := one_more c (one_more d (\<lambda>_. 0))\<rparr>)"
proof -
  let ?a = "start_state cap :: 'a wait_state"
  have "q_empty (w_queue ?a)" by (simp add: start_state_def new_queue_def q_empty_def)
  then have "q_step ?a (?a\<lparr>waiting := one_more d (\<lambda>_. 0)\<rparr>)"
    "q_step (?a\<lparr>waiting := one_more d (\<lambda>_. 0)\<rparr>) (?a\<lparr>waiting := one_more c (one_more d (\<lambda>_. 0))\<rparr>)"
    using q_step.enter_wait [of ?a d] q_step.enter_wait [of "?a\<lparr>waiting := one_more d (\<lambda>_. 0)\<rparr>" c]
    by (simp_all add: start_state_def)
  then show ?thesis by (meson converse_rtranclp_into_rtranclp r_into_rtranclp)
qed

theorem push_wakes_consumers_witness:
  "\<exists>s :: nat wait_state. q_step\<^sup>*\<^sup>* (start_state 0) s \<and> threads (waiting s) = 2 \<and> q_size (w_queue s) = 1 \<and> threads (woken s) = 0 \<and>
     q_size (w_queue s) \<le> threads (woken s) + notifying s"
proof -
  let ?a = "(start_state 0 :: nat wait_state)\<lparr>waiting := one_more Pops (one_more Pops_all (\<lambda>_. 0))\<rparr>"
  let ?s = "?a\<lparr>w_queue := snd (q_push 5 (w_queue ?a)), notifying := notifying ?a + 1\<rparr>"
  have r: "q_step\<^sup>*\<^sup>* (start_state 0) ?s" by (rule rtranclp.rtrancl_into_rtrancl [OF two_waiting q_step.push])
  moreover have "threads (waiting ?s) = 2" "q_size (w_queue ?s) = 1" "threads (woken ?s) = 0"
    by (simp_all add: start_state_def new_queue_def queue_simps q_size_def threads_def one_more_def)
  ultimately show ?thesis using push_wakes_consumers [OF r] by (intro exI [of _ ?s]) simp
qed

lemma steps_single: "q_step\<^sup>*\<^sup>* s s' \<Longrightarrow> q_step_all\<^sup>*\<^sup>* s s'"
  by (induction rule: rtranclp_induct) (auto intro: q_step_all.single rtranclp.rtrancl_into_rtrancl)

lemma two_more_steps: "q_step_all\<^sup>*\<^sup>* a b \<Longrightarrow> q_step b c \<Longrightarrow> q_step c d \<Longrightarrow> q_step_all\<^sup>*\<^sup>* a d"
  by (meson q_step_all.single rtranclp.rtrancl_into_rtrancl)

text \<open>
  \<open>pushAll\<close> adds several elements but notifies once: with two waiting consumers and two added
  elements the second consumer stays asleep, with an element queued and nobody woken to take it. \<open>swap\<close> does not notify at all.
\<close>

theorem pushAll_strands_consumer:
  "\<exists>s :: nat wait_state. q_step_all\<^sup>*\<^sup>* (start_state 0) s \<and> threads (waiting s) = 1 \<and> threads (woken s) = 0 \<and> notifying s = 0 \<and>
     q_size (w_queue s) = 1"
proof -
  let ?a = "(start_state 0 :: nat wait_state)\<lparr>waiting := one_more Pops (one_more Pops (\<lambda>_. 0))\<rparr>"
  let ?b = "?a\<lparr>w_queue := snd (q_pushAll [5, 6] (w_queue ?a)), notifying := notifying ?a + 1\<rparr>"
  let ?c = "wake Pops (?b\<lparr>notifying := notifying ?b - 1\<rparr>)"
  let ?d = "?c\<lparr>woken := one_less Pops (woken ?c), w_queue := take_from Pops (w_queue ?c)\<rparr>"
  have 1: "q_step_all\<^sup>*\<^sup>* (start_state 0) ?b"
    by (rule rtranclp.rtrancl_into_rtrancl [OF steps_single [OF two_waiting] q_step_all.push_all])
  have 2: "q_step ?b ?c" by (rule q_step.notify) (simp_all add: start_state_def one_more_def)
  have 3: "q_step ?c ?d"
    by (rule q_step.woken_take) (simp_all add: wake_def start_state_def new_queue_def one_more_def queue_simps limit_def q_empty_def)
  from two_more_steps [OF 1 2 3] have "q_step_all\<^sup>*\<^sup>* (start_state 0) ?d" .
  then show ?thesis
    by (intro exI [of _ ?d])
      (simp add: wake_def start_state_def new_queue_def threads_def one_more_def one_less_def queue_simps limit_def q_pop_def q_size_def)
qed

theorem swap_strands_consumer:
  "\<exists>s :: nat wait_state. q_step_all\<^sup>*\<^sup>* (start_state 0) s \<and> threads (waiting s) = 2 \<and> threads (woken s) = 0 \<and> notifying s = 0 \<and>
     q_size (w_queue s) = 1"
proof -
  let ?a = "(start_state 0 :: nat wait_state)\<lparr>waiting := one_more Pops (one_more Pops (\<lambda>_. 0))\<rparr>"
  let ?b = "?a\<lparr>w_queue := fst (q_swap (w_queue ?a) ((new_queue 0)\<lparr>q_items := [7]\<rparr>))\<rparr>"
  have "q_step_all\<^sup>*\<^sup>* (start_state 0) ?b"
    by (rule rtranclp.rtrancl_into_rtrancl [OF steps_single [OF two_waiting] q_step_all.swapped])
  then show ?thesis
    by (intro exI [of _ ?b]) (simp add: start_state_def new_queue_def threads_def one_more_def q_swap_def q_size_def)
qed

end
