(* ===== verification/LT_Waitset.thy ===== *)
theory LT_Waitset
  imports LT_Queue
begin

text \<open>
  Waiting for one of several objects, \<^verbatim>\<open>src/LetsTalk/Awaitable.hpp\<close> and \<^verbatim>\<open>src/LetsTalk/Waitset.hpp\<close>. The
  watched objects are shared with other threads: they live in a store, and a wait set holds their
  addresses. What the class \<open>Awaitable\<close> asks of its subclasses is the locale \<open>awaitable\<close>.
\<close>

section \<open>Awaitable\<close>

locale awaitable =
  fixes attachToCondition :: "nat \<Rightarrow> 'w \<Rightarrow> 'w"
    and detachFromCondition :: "'w \<Rightarrow> 'w"
    and ready :: "'w \<Rightarrow> bool"
    and condition :: "'w \<Rightarrow> nat option"
  assumes attach_condition: "condition (attachToCondition c w) = Some c"
    and detach_condition: "condition (detachFromCondition w) = None"
    and attach_ready: "ready (attachToCondition c w) = ready w"
    and detach_ready: "ready (detachFromCondition w) = ready w"

section \<open>Operations\<close>

record waitset =
  ws_condition :: nat
  ws_watched :: "nat list"

type_synonym 'w store = "nat \<Rightarrow> 'w"

fun attach_all :: "(nat \<Rightarrow> 'w \<Rightarrow> 'w) \<Rightarrow> nat \<Rightarrow> nat list \<Rightarrow> 'w store \<Rightarrow> 'w store" where
  "attach_all att c [] st = st"
| "attach_all att c (a # as) st = attach_all att c as (st(a := att c (st a)))"

fun detach_all :: "('w \<Rightarrow> 'w) \<Rightarrow> nat list \<Rightarrow> 'w store \<Rightarrow> 'w store" where
  "detach_all det [] st = st"
| "detach_all det (a # as) st = detach_all det as (st(a := det (st a)))"

definition new_Waitset :: "(nat \<Rightarrow> 'w \<Rightarrow> 'w) \<Rightarrow> nat \<Rightarrow> nat list \<Rightarrow> 'w store \<Rightarrow> waitset \<times> 'w store" where
  "new_Waitset att c i_watched st = (\<lparr>ws_condition = c, ws_watched = i_watched\<rparr>, attach_all att c i_watched st)"

definition delete_Waitset :: "('w \<Rightarrow> 'w) \<Rightarrow> waitset \<Rightarrow> 'w store \<Rightarrow> 'w store" where
  "delete_Waitset det w st = detach_all det (ws_watched w) st"

definition ws_attach ::
    "(nat \<Rightarrow> 'w \<Rightarrow> 'w) \<Rightarrow> nat \<Rightarrow> waitset \<Rightarrow> 'w store \<Rightarrow> int \<times> waitset \<times> 'w store" where
  "ws_attach att i_watch w st =
     (let st' = st(i_watch := att (ws_condition w) (st i_watch));
          w' = w\<lparr>ws_watched := ws_watched w @ [i_watch]\<rparr>
      in (int (length (ws_watched w') - 1), w', st'))"

definition ws_get :: "int \<Rightarrow> waitset \<Rightarrow> nat option" where
  "ws_get i w = (if i \<ge> 0 \<and> i < int (length (ws_watched w)) then Some (ws_watched w ! nat i) else None)"

text \<open>The loop over the watched objects, from index \<open>k\<close> on. Other threads may change the objects between two calls of \<open>ready()\<close>; \<open>st\<close> is what
  the calls of one pass observed, each object at the moment it was asked.\<close>

fun first_ready :: "('w \<Rightarrow> bool) \<Rightarrow> 'w store \<Rightarrow> nat \<Rightarrow> nat list \<Rightarrow> nat option" where
  "first_ready rdy st k [] = None"
| "first_ready rdy st k (a # as) = (if rdy (st a) then Some k else first_ready rdy st (Suc k) as)"

text \<open>How \<open>wait_for\<close> or \<open>wait_until\<close> returned, with the store as the thread then finds it. The result is
  the returned index, or \<open>None\<close> when the thread is still blocked after the events.\<close>

datatype cv_status = No_timeout | Timed_out

fun wait_loop :: "('w \<Rightarrow> bool) \<Rightarrow> nat list \<Rightarrow> (cv_status \<times> 'w store) list \<Rightarrow> int option" where
  "wait_loop rdy as [] = None"
| "wait_loop rdy as ((status, st) # es) =
     (if status = Timed_out then Some (-1)
      else case first_ready rdy st 0 as of Some i \<Rightarrow> Some (int i) | None \<Rightarrow> wait_loop rdy as es)"

definition ws_wait ::
    "('w \<Rightarrow> bool) \<Rightarrow> waitset \<Rightarrow> 'w store \<Rightarrow> (cv_status \<times> 'w store) list \<Rightarrow> int option" where
  "ws_wait rdy w st es =
     (case first_ready rdy st 0 (ws_watched w) of
        Some i \<Rightarrow> Some (int i)
      | None \<Rightarrow> wait_loop rdy (ws_watched w) es)"

section \<open>Attaching and detaching\<close>

lemma attach_all_other: "a \<notin> set as \<Longrightarrow> attach_all att c as st a = st a"
  by (induction as arbitrary: st) auto

lemma detach_all_other: "a \<notin> set as \<Longrightarrow> detach_all det as st a = st a"
  by (induction as arbitrary: st) auto

context awaitable
begin

lemma attach_all_condition: "a \<in> set as \<Longrightarrow> condition (attach_all attachToCondition c as st a) = Some c"
proof (induction as arbitrary: st)
  case (Cons b as)
  then show ?case
    by (cases "a \<in> set as") (auto simp: attach_all_other attach_condition)
qed simp

lemma attach_all_ready: "ready (attach_all attachToCondition c as st a) = ready (st a)"
  by (induction as arbitrary: st) (auto simp: attach_ready)

lemma detach_all_condition: "a \<in> set as \<Longrightarrow> condition (detach_all detachFromCondition as st a) = None"
proof (induction as arbitrary: st)
  case (Cons b as)
  then show ?case
    by (cases "a \<in> set as") (auto simp: detach_all_other detach_condition)
qed simp

lemma detach_all_ready: "ready (detach_all detachFromCondition as st a) = ready (st a)"
  by (induction as arbitrary: st) (auto simp: detach_ready)

text \<open>A wait set's life leaves every object as ready as it was and attached to nothing.\<close>

lemma lifetime:
  assumes "new_Waitset attachToCondition c as st = (w, st1)"
  shows "(a \<in> set as \<longrightarrow> condition (st1 a) = Some c) \<and> ready (st1 a) = ready (st a) \<and>
    (a \<in> set as \<longrightarrow> condition (delete_Waitset detachFromCondition w st1 a) = None) \<and>
    (a \<notin> set as \<longrightarrow> delete_Waitset detachFromCondition w st1 a = st a)"
  using assms
  by (auto simp: new_Waitset_def delete_Waitset_def attach_all_condition attach_all_ready
      detach_all_condition attach_all_other detach_all_other)

end

interpretation queue_await: awaitable q_attachToCondition q_detachFromCondition q_ready q_external
  by unfold_locales
    (simp_all add: q_attachToCondition_def q_detachFromCondition_def q_ready_def q_empty_def)

section \<open>Waiting\<close>

lemma first_ready_Some:
  "first_ready rdy st k as = Some i \<Longrightarrow>
   k \<le> i \<and> i - k < length as \<and> rdy (st (as ! (i - k))) \<and> (\<forall>j < i - k. \<not> rdy (st (as ! j)))"
proof (induction as arbitrary: k)
  case (Cons a as)
  show ?case
  proof (cases "rdy (st a)")
    case False
    with Cons.prems have "first_ready rdy st (Suc k) as = Some i" by simp
    from Cons.IH [OF this] False show ?thesis
      by (auto simp: nth_Cons' Suc_diff_Suc less_diff_conv2)
  qed (use Cons.prems in auto)
qed simp

lemma first_ready_None: "first_ready rdy st k as = None \<longleftrightarrow> (\<forall>a \<in> set as. \<not> rdy (st a))"
  by (induction as arbitrary: k) auto

text \<open>The index the loop finds is the lowest one of a ready object.\<close>

definition lowest_ready :: "('w \<Rightarrow> bool) \<Rightarrow> 'w store \<Rightarrow> nat list \<Rightarrow> nat \<Rightarrow> bool" where
  "lowest_ready rdy st as i \<longleftrightarrow> i < length as \<and> rdy (st (as ! i)) \<and> (\<forall>j < i. \<not> rdy (st (as ! j)))"

lemma first_ready_lowest: "first_ready rdy st 0 as = Some i \<longleftrightarrow> lowest_ready rdy st as i"
proof
  assume "first_ready rdy st 0 as = Some i"
  from first_ready_Some [OF this] show "lowest_ready rdy st as i" by (simp add: lowest_ready_def)
next
  assume low: "lowest_ready rdy st as i"
  then have "first_ready rdy st 0 as \<noteq> None"
    by (auto simp: lowest_ready_def first_ready_None)
  then obtain j where j: "first_ready rdy st 0 as = Some j" by auto
  from first_ready_Some [OF j] low have "i = j"
    by (auto simp: lowest_ready_def) (metis linorder_neqE_nat)
  with j show "first_ready rdy st 0 as = Some i" by simp
qed

abbreviation some_ready :: "('w \<Rightarrow> bool) \<Rightarrow> nat list \<Rightarrow> 'w store \<Rightarrow> bool" where
  "some_ready rdy as st \<equiv> \<exists>a \<in> set as. rdy (st a)"

abbreviation looks :: "(cv_status \<times> 'w store) list \<Rightarrow> 'w store list" where
  "looks es \<equiv> map snd (takeWhile (\<lambda>e. fst e = No_timeout) es)"

lemma wait_loop_spec:
  "wait_loop rdy as es =
     (case find (some_ready rdy as) (looks es) of
        Some st \<Rightarrow> map_option int (first_ready rdy st 0 as)
      | None \<Rightarrow> if list_all (\<lambda>e. fst e = No_timeout) es then None else Some (-1))"
proof (induction es)
  case (Cons e es)
  obtain c st where e: "e = (c, st)" by fastforce
  show ?case
  proof (cases c)
    case No_timeout
    then show ?thesis
      using Cons e first_ready_None [of rdy st 0 as] by (auto split: option.splits)
  qed (simp add: e)
qed simp

section \<open>Interleaving with producers\<close>

text \<open>
  One thread waits; producers make a watched object ready under that object's own mutex and then, with
  no lock held, notify the wait set's condition variable. A notification reaches the waiting thread
  only while it is blocked. \<open>Looking k\<close> is the loop over the objects, at index \<open>k\<close>.
\<close>

datatype ws_thread = Looking nat | Blocked | Returned int

record ws_run =
  ws_thread :: ws_thread
  ws_ready :: "bool list"
  to_notify :: nat

inductive ws_step :: "ws_run \<Rightarrow> ws_run \<Rightarrow> bool" where
  found: "ws_thread s = Looking k \<Longrightarrow> k < length (ws_ready s) \<Longrightarrow> ws_ready s ! k \<Longrightarrow>
    ws_step s (s\<lparr>ws_thread := Returned (int k)\<rparr>)"
| look_on: "ws_thread s = Looking k \<Longrightarrow> k < length (ws_ready s) \<Longrightarrow> \<not> ws_ready s ! k \<Longrightarrow>
    ws_step s (s\<lparr>ws_thread := Looking (Suc k)\<rparr>)"
| block: "ws_thread s = Looking k \<Longrightarrow> k \<ge> length (ws_ready s) \<Longrightarrow> ws_step s (s\<lparr>ws_thread := Blocked\<rparr>)"
| timeout: "ws_thread s = Blocked \<Longrightarrow> ws_step s (s\<lparr>ws_thread := Returned (-1)\<rparr>)"
| produce: "i < length (ws_ready s) \<Longrightarrow>
    ws_step s (s\<lparr>ws_ready := (ws_ready s)[i := True], to_notify := to_notify s + 1\<rparr>)"
| notify: "to_notify s > 0 \<Longrightarrow>
    ws_step s (s\<lparr>to_notify := to_notify s - 1,
      ws_thread := (if ws_thread s = Blocked then Looking 0 else ws_thread s)\<rparr>)"

definition ws_start :: "nat \<Rightarrow> ws_run" where
  "ws_start n = \<lparr>ws_thread = Looking 0, ws_ready = replicate n False, to_notify = 0\<rparr>"

section \<open>Properties\<close>

text \<open>
  C13. \<open>wait\<close> looks at the watched objects when it is called and after every wake-up before its time is
  up. It returns the lowest index of a ready object at the first look that finds one; it returns -1
  only when its time is up and no look found one; otherwise it keeps waiting.
\<close>

theorem wait_lowest_ready:
  "case find (some_ready rdy (ws_watched w)) (st # looks es) of
     Some st' \<Rightarrow> \<exists>i. ws_wait rdy w st es = Some (int i) \<and> lowest_ready rdy st' (ws_watched w) i
   | None \<Rightarrow> ws_wait rdy w st es = (if list_all (\<lambda>e. fst e = No_timeout) es then None else Some (-1))"
proof -
  have look: "\<exists>i. first_ready rdy st' 0 (ws_watched w) = Some i \<and> lowest_ready rdy st' (ws_watched w) i"
    if "some_ready rdy (ws_watched w) st'" for st'
    using that first_ready_None [of rdy st' 0 "ws_watched w"] first_ready_lowest [of rdy st' "ws_watched w"]
    by (cases "first_ready rdy st' 0 (ws_watched w)") auto
  show ?thesis
  proof (cases "some_ready rdy (ws_watched w) st")
    case True
    then show ?thesis using look [OF True] by (auto simp: ws_wait_def)
  next
    case False
    then have none: "first_ready rdy st 0 (ws_watched w) = None" by (simp add: first_ready_None)
    show ?thesis
    proof (cases "find (some_ready rdy (ws_watched w)) (looks es)")
      case None
      with False none show ?thesis by (simp add: ws_wait_def wait_loop_spec)
    next
      case (Some st')
      then have "some_ready rdy (ws_watched w) st'" by (auto simp: find_Some_iff)
      from look [OF this] Some False none show ?thesis
        by (auto simp: ws_wait_def wait_loop_spec)
    qed
  qed
qed

text \<open>
  A wait set attaches every watched queue to its condition variable and detaches it again when it
  is destroyed, without changing which queues have data; queues it does not watch are left alone.
\<close>

theorem waitset_lifetime:
  assumes "new_Waitset q_attachToCondition c as st = (w, st1)"
  shows "(a \<in> set as \<longrightarrow> q_external (st1 a) = Some c) \<and> q_ready (st1 a) = q_ready (st a) \<and>
    (a \<in> set as \<longrightarrow> q_external (delete_Waitset q_detachFromCondition w st1 a) = None) \<and>
    (a \<notin> set as \<longrightarrow> delete_Waitset q_detachFromCondition w st1 a = st a)"
  using queue_await.lifetime [OF assms] .

theorem waitset_lifetime_witness:
  "\<exists>w st1. new_Waitset q_attachToCondition 7 [0, 2] (\<lambda>_. new_queue 3 :: nat tsq) = (w, st1) \<and>
     q_external (st1 2) = Some 7 \<and> q_external (delete_Waitset q_detachFromCondition w st1 2) = None"
proof -
  obtain w st1 where n: "new_Waitset q_attachToCondition 7 [0, 2] (\<lambda>_. new_queue 3 :: nat tsq) = (w, st1)"
    by fastforce
  from waitset_lifetime [OF n, of 2] n show ?thesis by auto
qed

text \<open>
  C39. A wake-up can be lost: an object that becomes ready after the thread has looked at it and before
  the thread blocks is notified too early. The thread then blocks with a ready object and no
  notification to come, and returns -1 when its time is up although data was there all along.
\<close>

theorem waitset_lost_wakeup:
  "\<exists>s s'. ws_step\<^sup>*\<^sup>* (ws_start 1) s \<and> ws_thread s = Blocked \<and> ws_ready s = [True] \<and> to_notify s = 0 \<and>
     ws_step s s' \<and> ws_thread s' = Returned (-1)"
proof -
  let ?a = "ws_start 1"
  let ?b = "\<lparr>ws_thread = Looking 1, ws_ready = [False], to_notify = 0\<rparr>"
  let ?c = "\<lparr>ws_thread = Looking 1, ws_ready = [True], to_notify = 1\<rparr>"
  let ?d = "\<lparr>ws_thread = Looking 1, ws_ready = [True], to_notify = 0\<rparr>"
  let ?e = "\<lparr>ws_thread = Blocked, ws_ready = [True], to_notify = 0\<rparr>"
  have 1: "ws_step ?a ?b" using ws_step.look_on [of ?a 0] by (simp add: ws_start_def)
  have 2: "ws_step ?b ?c" using ws_step.produce [of 0 ?b] by simp
  have 3: "ws_step ?c ?d" using ws_step.notify [of ?c] by simp
  have 4: "ws_step ?d ?e" using ws_step.block [of ?d 1] by simp
  have 5: "ws_step ?e (?e\<lparr>ws_thread := Returned (-1)\<rparr>)" using ws_step.timeout [of ?e] by simp
  have "ws_step\<^sup>*\<^sup>* ?a ?e"
    by (rule converse_rtranclp_into_rtranclp [of ws_step, OF 1 converse_rtranclp_into_rtranclp [of ws_step,
      OF 2 converse_rtranclp_into_rtranclp [of ws_step, OF 3 r_into_rtranclp [of ws_step, OF 4]]]])
  with 5 show ?thesis
    by (intro exI [of _ ?e] exI [of _ "?e\<lparr>ws_thread := Returned (-1)\<rparr>"]) simp
qed

end
