(* ===== verification/LT_RequestReply.thy ===== *)
theory LT_RequestReply
  imports LT_Guid LT_Waitset
begin

text \<open>
  Requests and replies, \<^verbatim>\<open>src/LetsTalk/RequestReplyImpl.hpp\<close>, with \<open>Publisher::doPublish\<close> of
  \<^verbatim>\<open>Participant.cpp\<close> and the sample loop of \<^verbatim>\<open>ReaderListenerImpl.hpp\<close>. Fast DDS carries a sample with its
  identity and the identity of the sample it relates to; its sequence numbers are the parameters
  \<open>mk\<close> and \<open>to64\<close>. The participant, the topics and the log are not part of this theory.
\<close>

section \<open>Samples\<close>

record ('d, 'sn) sample =
  valid_data :: bool
  sample_data :: 'd
  sample_identity :: "'sn sample_id"
  related_sample_identity :: "'sn sample_id"

text \<open>\<open>Publisher::doPublish\<close> with correlation data: what is written, if anything. \<open>ok\<close> is \<open>isOkay()\<close>, and a
  null pointer is \<open>None\<close>. The library's \<open>write\<close> is taken to deliver the sample.\<close>

definition doPublish ::
    "(64 word \<Rightarrow> 'sn) \<Rightarrow> bool \<Rightarrow> 'd option \<Rightarrow> guid \<Rightarrow> guid \<Rightarrow> bool \<Rightarrow> ('d, 'sn) sample option" where
  "doPublish mk ok i_data i_myId i_relatedId i_bad =
     (case i_data of
        None \<Rightarrow> None
      | Some x \<Rightarrow>
          if \<not> ok then None
          else Some \<lparr>valid_data = True, sample_data = x, sample_identity = toSampleId mk i_myId,
            related_sample_identity =
              (if i_bad then toSampleId mk (makeBadVersion i_relatedId) else toSampleId mk i_relatedId)\<rparr>)"

text \<open>\<open>handle_sample\<close>: the callback is called with each valid sample that can be taken, in order; the
  result tells whether there was one.\<close>

fun handle_samples ::
    "('sn \<Rightarrow> 64 word) \<Rightarrow> ('d \<Rightarrow> guid \<Rightarrow> guid \<Rightarrow> 's \<Rightarrow> 's) \<Rightarrow> ('d, 'sn) sample list \<Rightarrow> 's \<Rightarrow> bool \<times> 's" where
  "handle_samples to64 m_callback [] s = (False, s)"
| "handle_samples to64 m_callback (x # xs) s =
     (if valid_data x
      then (True, snd (handle_samples to64 m_callback xs
             (m_callback (sample_data x) (sampleToGuid to64 (sample_identity x))
               (sampleToGuid to64 (related_sample_identity x)) s)))
      else handle_samples to64 m_callback xs s)"

section \<open>RequesterImpl\<close>

datatype 'rep future = Pending | Value 'rep | RPC_failed

datatype rr_error = Future_already_retrieved | Null_backend

text \<open>The promises are kept with their futures, numbered in the order of the requests.\<close>

record 'rep requester =
  m_sessionId :: guid
  m_requests :: "guid \<Rightarrow> nat option"
  futures :: "'rep future list"

definition new_RequesterImpl :: "guid \<Rightarrow> 'rep requester" where
  "new_RequesterImpl pub_guid = \<lparr>m_sessionId = pub_guid, m_requests = Map.empty, futures = []\<rparr>"

text \<open>\<open>m_requests[requestId].get_future()\<close> makes a promise for a new key; for a key that is still there
  the future has been retrieved already. The result holds the future's number and the identifier and
  data to publish.\<close>

definition request ::
    "'req \<Rightarrow> 'rep requester \<Rightarrow> rr_error + (nat \<times> 'req \<times> guid \<times> guid \<times> 'rep requester)" where
  "request i_request s =
     (let requestId = increment (m_sessionId s); s1 = s\<lparr>m_sessionId := requestId\<rparr> in
      if m_requests s requestId \<noteq> None then Inl Future_already_retrieved
      else
        let n = length (futures s) in
        Inr (n, i_request, requestId, UNKNOWN,
             s1\<lparr>m_requests := (m_requests s)(requestId \<mapsto> n), futures := futures s @ [Pending]\<rparr>))"

definition onReply :: "'rep \<Rightarrow> guid \<Rightarrow> guid \<Rightarrow> 'rep requester \<Rightarrow> 'rep requester" where
  "onReply reply_data gid relatedId s =
     (let badId = makeBadVersion relatedId in
      case m_requests s relatedId of
        Some n \<Rightarrow> s\<lparr>futures := (futures s)[n := Value reply_data], m_requests := (m_requests s)(relatedId := None)\<rparr>
      | None \<Rightarrow>
          case m_requests s badId of
            Some n \<Rightarrow> s\<lparr>futures := (futures s)[n := RPC_failed], m_requests := (m_requests s)(badId := None)\<rparr>
          | None \<Rightarrow> s)"

section \<open>ServiceProvider\<close>

text \<open>The job for one request: the reply sent, with the provider's next identifier. A callback that
  throws is \<open>None\<close>; the reply is then the default value, marked as bad. Nothing stops or destroys a provider: the participant makes
  it with \<open>new\<close> and leaves it to Fast DDS, which does not own listeners.\<close>

definition provide_job ::
    "(64 word \<Rightarrow> 'sn) \<Rightarrow> bool \<Rightarrow> ('req \<Rightarrow> 'rep option) \<Rightarrow> 'rep \<Rightarrow> 'req \<Rightarrow> guid \<Rightarrow> guid \<Rightarrow>
     guid \<times> ('rep, 'sn) sample option" where
  "provide_job mk ok m_providerCallback def_rep req relatedId m_Id =
     (let m_Id' = increment m_Id in
      case m_providerCallback req of
        Some reply \<Rightarrow> (m_Id', doPublish mk ok (Some reply) m_Id' relatedId False)
      | None \<Rightarrow> (m_Id', doPublish mk ok (Some def_rep) m_Id' relatedId True))"

text \<open>The requests for which \<open>on_data_available\<close> submits jobs.\<close>

definition provider_on_data ::
    "('sn \<Rightarrow> 64 word) \<Rightarrow> ('req, 'sn) sample list \<Rightarrow> ('req \<times> guid) list" where
  "provider_on_data to64 xs =
     map (\<lambda>x. (sample_data x, sampleToGuid to64 (sample_identity x))) (filter valid_data xs)"

fun run_jobs ::
    "(64 word \<Rightarrow> 'sn) \<Rightarrow> bool \<Rightarrow> ('req \<Rightarrow> 'rep option) \<Rightarrow> 'rep \<Rightarrow> ('req \<times> guid) list \<Rightarrow> guid \<Rightarrow>
     ('rep, 'sn) sample list" where
  "run_jobs mk ok cb def_rep [] m_Id = []"
| "run_jobs mk ok cb def_rep ((req, g) # js) m_Id =
     (case provide_job mk ok cb def_rep req g m_Id of
        (m_Id', None) \<Rightarrow> run_jobs mk ok cb def_rep js m_Id'
      | (m_Id', Some x) \<Rightarrow> x # run_jobs mk ok cb def_rep js m_Id')"

section \<open>ReplierImpl\<close>

record 'req session_request =
  sr_request :: 'req
  sr_id :: guid

record 'req replier =
  m_queue :: "'req session_request tsq"
  m_myId :: guid

definition new_ReplierImpl :: "guid \<Rightarrow> 'req replier" where
  "new_ReplierImpl pub_guid = \<lparr>m_queue = new_queue 0, m_myId = pub_guid\<rparr>"

definition onRequest :: "'req \<Rightarrow> guid \<Rightarrow> guid \<Rightarrow> 'req replier \<Rightarrow> 'req replier" where
  "onRequest req_data gid related r =
     r\<lparr>m_queue := snd (q_push \<lparr>sr_request = req_data, sr_id = gid\<rparr> (m_queue r))\<rparr>"

text \<open>A session; without a backend it is not alive.\<close>

record 'req rr_session =
  session_request :: "'req option"
  m_relatedGuid :: guid
  has_backend :: bool

definition getPendingSession :: "'req replier \<Rightarrow> 'req rr_session \<times> 'req replier" where
  "getPendingSession r =
     (case q_pop (m_queue r) of
        (Some x, q) \<Rightarrow>
          (\<lparr>session_request = Some (sr_request x), m_relatedGuid = sr_id x, has_backend = True\<rparr>, r\<lparr>m_queue := q\<rparr>)
      | (None, q) \<Rightarrow>
          (\<lparr>session_request = None, m_relatedGuid = UNKNOWN, has_backend = False\<rparr>, r\<lparr>m_queue := q\<rparr>))"

definition session_isAlive :: "'req rr_session \<Rightarrow> bool" where
  "session_isAlive x = has_backend x"

definition session_reply ::
    "(64 word \<Rightarrow> 'sn) \<Rightarrow> bool \<Rightarrow> 'rep \<Rightarrow> 'req replier \<Rightarrow> 'req rr_session \<Rightarrow>
     rr_error + (('rep, 'sn) sample option \<times> 'req rr_session)" where
  "session_reply mk ok i_reply r x =
     (if \<not> has_backend x then Inl Null_backend
      else Inr (doPublish mk ok (Some i_reply) (m_myId r) (m_relatedGuid x) False, x\<lparr>has_backend := False\<rparr>))"

definition session_fail ::
    "(64 word \<Rightarrow> 'sn) \<Rightarrow> bool \<Rightarrow> 'rep \<Rightarrow> 'req replier \<Rightarrow> 'req rr_session \<Rightarrow>
     rr_error + (('rep, 'sn) sample option \<times> 'req rr_session)" where
  "session_fail mk ok null_rep r x =
     (if \<not> has_backend x then Inl Null_backend
      else Inr (doPublish mk ok (Some null_rep) (m_myId r) (m_relatedGuid x) True, x\<lparr>has_backend := False\<rparr>))"

definition replier_attach :: "nat \<Rightarrow> 'req replier \<Rightarrow> 'req replier" where
  "replier_attach c r = r\<lparr>m_queue := q_attachToCondition c (m_queue r)\<rparr>"

definition replier_detach :: "'req replier \<Rightarrow> 'req replier" where
  "replier_detach r = r\<lparr>m_queue := q_detachFromCondition (m_queue r)\<rparr>"

definition replier_ready :: "'req replier \<Rightarrow> bool" where
  "replier_ready r = q_ready (m_queue r)"

interpretation replier_await: awaitable replier_attach replier_detach replier_ready "\<lambda>r. q_external (m_queue r)"
  by unfold_locales
    (simp_all add: replier_attach_def replier_detach_def replier_ready_def queue_await.attach_condition
      queue_await.detach_condition queue_await.attach_ready queue_await.detach_ready)

section \<open>Names of the topics\<close>

definition requestName :: "string \<Rightarrow> string" where
  "requestName i_name = i_name @ ''/request''"

definition replyName :: "string \<Rightarrow> string" where
  "replyName i_name = i_name @ ''/reply''"

section \<open>Pending requests\<close>

text \<open>The identifier of request number \<open>k\<close> of a requester whose publisher has the identifier \<open>g\<close>.\<close>

definition request_id :: "guid \<Rightarrow> nat \<Rightarrow> guid" where
  "request_id g k = Guid (gdata g) (of_nat (Suc k))"

text \<open>While fewer than 2^32 requests have been made, the pending map holds exactly the pending futures
  under their identifiers.\<close>

definition req_inv :: "guid \<Rightarrow> 'rep requester \<Rightarrow> bool" where
  "req_inv g s \<longleftrightarrow> seqno g = 0 \<and> length (futures s) < 2 ^ 32 \<and>
     m_sessionId s = Guid (gdata g) (of_nat (length (futures s))) \<and>
     (\<forall>i n. m_requests s i = Some n \<longleftrightarrow> n < length (futures s) \<and> futures s ! n = Pending \<and> i = request_id g n)"

lemma unat_request_id: "k < 2 ^ 32 \<Longrightarrow> unat (seqno (request_id g k)) = Suc k"
  by (simp add: request_id_def unat_of_nat del: of_nat_Suc)

lemma request_id_inj: "k < 2 ^ 32 \<Longrightarrow> l < 2 ^ 32 \<Longrightarrow> request_id g k = request_id g l \<longleftrightarrow> k = l"
  using unat_request_id [of k g] unat_request_id [of l g] by (metis Suc_inject)

lemma bad_not_request:
  assumes "Suc k < 2 ^ 32" "Suc l < 2 ^ 32"
  shows "makeBadVersion (request_id g k) \<noteq> request_id g l"
proof
  assume "makeBadVersion (request_id g k) = request_id g l"
  then have "unat (seqno (makeBadVersion (request_id g k))) = Suc l"
    using unat_request_id [of l g] assms by simp
  then have "Suc k * 2 ^ 32 = Suc l"
    using unat_request_id [of k g] assms(1) unat_bad [of "request_id g k"] by simp
  with assms(2) show False by simp
qed

lemma req_inv_new: "seqno g = 0 \<Longrightarrow> req_inv g (new_RequesterImpl g)"
  by (cases g) (simp add: req_inv_def new_RequesterImpl_def)

lemma req_inv_request:
  assumes "req_inv g s" "Suc (length (futures s)) < 2 ^ 32"
  obtains s' where "request x s = Inr (length (futures s), x, request_id g (length (futures s)), UNKNOWN, s')"
    "req_inv g s'" "futures s' = futures s @ [Pending]"
proof -
  let ?n = "length (futures s)"
  have id: "increment (m_sessionId s) = request_id g ?n"
  proof -
    have "unat (seqno (increment (m_sessionId s))) = Suc ?n"
      using assms by (simp add: unat_increment req_inv_def unat_of_nat)
    then have "seqno (increment (m_sessionId s)) = of_nat (Suc ?n)" by (metis of_nat_unat ucast_id)
    moreover have "gdata (increment (m_sessionId s)) = gdata g"
      using assms(1) by (simp add: guid_simps req_inv_def)
    ultimately show ?thesis by (metis request_id_def guid.collapse)
  qed
  have new: "m_requests s (request_id g ?n) = None"
  proof (rule ccontr)
    assume "m_requests s (request_id g ?n) \<noteq> None"
    then obtain n where "n < ?n" "request_id g ?n = request_id g n"
      using assms(1) unfolding req_inv_def by blast
    then show False using request_id_inj [of ?n n g] assms(2) by simp
  qed
  let ?s = "s\<lparr>m_sessionId := request_id g ?n, m_requests := (m_requests s)(request_id g ?n \<mapsto> ?n),
     futures := futures s @ [Pending]\<rparr>"
  have "req_inv g ?s"
    unfolding req_inv_def
  proof (intro conjI allI)
    fix i n
    have "n < ?n \<Longrightarrow> request_id g n \<noteq> request_id g ?n" using request_id_inj [of n ?n g] assms(2) by simp
    then show "m_requests ?s i = Some n \<longleftrightarrow>
        n < length (futures ?s) \<and> futures ?s ! n = Pending \<and> i = request_id g n"
      using assms(1) by (cases "n = ?n") (auto simp: req_inv_def nth_append less_Suc_eq)
  qed (use assms in \<open>simp_all add: req_inv_def request_id_def\<close>)
  moreover have "request x s = Inr (?n, x, request_id g ?n, UNKNOWN, ?s)"
    using new by (simp add: request_def id Let_def)
  ultimately show thesis using that by simp
qed

lemma req_inv_settle:
  assumes "req_inv g s" "n < length (futures s)" "v \<noteq> Pending"
  shows "req_inv g (s\<lparr>futures := (futures s)[n := v], m_requests := (m_requests s)(request_id g n := None)\<rparr>)"
proof -
  have "request_id g n \<noteq> request_id g k" if "k < length (futures s)" "n \<noteq> k" for k
    using request_id_inj [of n k g] assms(1,2) that by (simp add: req_inv_def)
  then show ?thesis
    using assms by (auto simp: req_inv_def nth_list_update)
qed

lemma pending_lookup:
  assumes "req_inv g s" "n < length (futures s)" "futures s ! n = Pending"
  shows "m_requests s (request_id g n) = Some n" "m_requests s (makeBadVersion (request_id g n)) = None"
proof -
  show "m_requests s (request_id g n) = Some n" using assms by (simp add: req_inv_def)
  have "makeBadVersion (request_id g n) \<noteq> request_id g l" if "l < length (futures s)" for l
    using bad_not_request [of n l g] assms(1,2) that by (simp add: req_inv_def)
  then show "m_requests s (makeBadVersion (request_id g n)) = None"
    using assms(1) unfolding req_inv_def by (metis option.exhaust)
qed

text \<open>The effect of a reply to request \<open>n\<close>, good or bad.\<close>

lemma onReply_pending:
  assumes "req_inv g s" "n < length (futures s)" "futures s ! n = Pending"
  shows "futures (onReply d i (if bad then makeBadVersion (request_id g n) else request_id g n) s) =
      (futures s)[n := (if bad then RPC_failed else Value d)]"
    and "req_inv g (onReply d i (if bad then makeBadVersion (request_id g n) else request_id g n) s)"
  using pending_lookup [OF assms] req_inv_settle [OF assms(1,2)]
  by (simp_all add: onReply_def guid_simps)

lemma onReply_foreign:
  assumes "req_inv g s" "gdata related \<noteq> gdata g"
  shows "onReply d i related s = s"
proof -
  have "m_requests s x = None" if "gdata x \<noteq> gdata g" for x
    using assms(1) that unfolding req_inv_def by (metis guid.sel(1) option.exhaust request_id_def)
  then show ?thesis using assms(2) by (simp add: onReply_def guid_simps)
qed

section \<open>A service from end to end\<close>

text \<open>Making requests one after another: what is published and the requester's state.\<close>

fun request_all :: "(64 word \<Rightarrow> 'sn) \<Rightarrow> 'req list \<Rightarrow> 'rep requester \<Rightarrow>
    rr_error + (('req, 'sn) sample list \<times> 'rep requester)" where
  "request_all mk [] s = Inr ([], s)"
| "request_all mk (r # rs) s =
     (case request r s of
        Inl e \<Rightarrow> Inl e
      | Inr (n, d, i, related, s1) \<Rightarrow>
          (case request_all mk rs s1 of
             Inl e \<Rightarrow> Inl e
           | Inr (xs, s2) \<Rightarrow>
               Inr ((case doPublish mk True (Some d) i related False of None \<Rightarrow> xs | Some x \<Rightarrow> x # xs), s2)))"

definition outcome :: "('req \<Rightarrow> 'rep option) \<Rightarrow> 'req \<Rightarrow> 'rep future" where
  "outcome cb r = (case cb r of Some v \<Rightarrow> Value v | None \<Rightarrow> RPC_failed)"

lemma sample_guid:
  "(\<And>x. to64 (mk x) = x) \<Longrightarrow> guid_wf g \<Longrightarrow> sampleToGuid to64 (toSampleId mk g) = g"
  by (simp add: sampleToGuid_def toSampleId_def toLetsTalkGuid_def toFastDdsGuid_def guid_wf_def)

lemma request_all_spec:
  assumes "req_inv g s" "length (futures s) + length rs < 2 ^ 32"
  shows "\<exists>xs s'. request_all mk rs s = Inr (xs, s') \<and> req_inv g s' \<and>
    futures s' = futures s @ replicate (length rs) Pending \<and>
    xs = map (\<lambda>k. \<lparr>valid_data = True, sample_data = rs ! k,
        sample_identity = toSampleId mk (request_id g (length (futures s) + k)),
        related_sample_identity = toSampleId mk UNKNOWN\<rparr>) [0..<length rs]"
  using assms
proof (induction rs arbitrary: s)
  case (Cons r rs)
  have "Suc (length (futures s)) < 2 ^ 32" using Cons.prems(2) by simp
  then obtain s1 where s1: "request r s = Inr (length (futures s), r, request_id g (length (futures s)), UNKNOWN, s1)"
    "req_inv g s1" "futures s1 = futures s @ [Pending]"
    by (rule req_inv_request [OF Cons.prems(1)])
  obtain xs s2 where s2: "request_all mk rs s1 = Inr (xs, s2)" "req_inv g s2"
    "futures s2 = futures s1 @ replicate (length rs) Pending"
    "xs = map (\<lambda>k. \<lparr>valid_data = True, sample_data = rs ! k,
        sample_identity = toSampleId mk (request_id g (length (futures s1) + k)),
        related_sample_identity = toSampleId mk UNKNOWN\<rparr>) [0..<length rs]"
    using Cons.IH [OF s1(2)] s1(3) Cons.prems(2) by auto
  show ?case
    using s1 s2 by (simp add: doPublish_def map_upt_Suc replicate_app_Cons_same del: upt_Suc)
qed simp

lemma run_jobs_spec:
  "run_jobs mk True cb def_rep (map (\<lambda>k. (f k, h k)) ks) i =
   map (\<lambda>(j, k). \<lparr>valid_data = True, sample_data = (case cb (f k) of Some v \<Rightarrow> v | None \<Rightarrow> def_rep),
      sample_identity = toSampleId mk ((increment ^^ Suc j) i),
      related_sample_identity = toSampleId mk (if cb (f k) = None then makeBadVersion (h k) else h k)\<rparr>)
     (enumerate 0 ks)"
proof (induction ks arbitrary: i)
  case (Cons k ks)
  have shift: "enumerate (Suc 0) ks = map (\<lambda>(j, k). (Suc j, k)) (enumerate 0 ks)"
    by (auto simp: enumerate_Suc_eq)
  show ?case
    by (auto simp: Cons.IH provide_job_def doPublish_def Let_def shift funpow_swap1 comp_def
        split: option.splits)
qed simp

text \<open>Replies that arrive in any order settle exactly their own requests.\<close>

definition answers ::
    "('sn \<Rightarrow> 64 word) \<Rightarrow> guid \<Rightarrow> ('req \<Rightarrow> 'rep option) \<Rightarrow> 'req list \<Rightarrow> nat \<Rightarrow> ('rep, 'sn) sample \<Rightarrow> bool" where
  "answers to64 g cb rs k y \<longleftrightarrow> valid_data y \<and>
     sampleToGuid to64 (related_sample_identity y) =
       (if cb (rs ! k) = None then makeBadVersion (request_id g k) else request_id g k) \<and>
     (\<forall>v. cb (rs ! k) = Some v \<longrightarrow> sample_data y = v)"

lemma deliver_answers:
  assumes "req_inv g s" "length (futures s) = length rs" "distinct ks"
    "\<And>k. k \<in> set ks \<Longrightarrow> k < length rs \<and> futures s ! k = Pending \<and> answers to64 g cb rs k (R k)"
    "j < length rs"
  shows "futures (snd (handle_samples to64 onReply (map R ks) s)) ! j =
      (if j \<in> set ks then outcome cb (rs ! j) else futures s ! j) \<and>
    length (futures (snd (handle_samples to64 onReply (map R ks) s))) = length rs"
  using assms
proof (induction ks arbitrary: s)
  case (Cons k ks)
  let ?y = "R k" and ?bad = "cb (rs ! k) = None"
  let ?s = "onReply (sample_data ?y) (sampleToGuid to64 (sample_identity ?y))
      (if ?bad then makeBadVersion (request_id g k) else request_id g k) s"
  have k: "k < length (futures s)" "futures s ! k = Pending" "answers to64 g cb rs k ?y"
    using Cons.prems(2) Cons.prems(4) [of k] by auto
  have fut: "futures ?s = (futures s)[k := outcome cb (rs ! k)]"
  proof -
    have "(if ?bad then RPC_failed else Value (sample_data ?y)) = outcome cb (rs ! k)"
      using k(3) by (auto simp: outcome_def answers_def)
    then show ?thesis using onReply_pending(1) [OF Cons.prems(1) k(1,2)] by simp
  qed
  have rest: "m < length rs \<and> futures ?s ! m = Pending \<and> answers to64 g cb rs m (R m)" if "m \<in> set ks" for m
    using Cons.prems(3) Cons.prems(4) [of m] that fut by (cases "m = k") auto
  have "futures (snd (handle_samples to64 onReply (map R ks) ?s)) ! j =
      (if j \<in> set ks then outcome cb (rs ! j) else futures ?s ! j) \<and>
    length (futures (snd (handle_samples to64 onReply (map R ks) ?s))) = length rs"
    using Cons.prems(2,3,5) fut rest
    by (intro Cons.IH onReply_pending(2) [OF Cons.prems(1) k(1,2)]) simp_all
  then show ?case
    using k fut Cons.prems by (auto simp: answers_def)
qed simp

text \<open>A service answers every request with its own reply: a client makes requests, a provider runs its callback on each and
  publishes the replies, and these reach the client in any order.\<close>

lemma requests_answered:
  fixes cb :: "'a \<Rightarrow> 'b option"
  assumes "\<And>x. to64 (mk x) = x" and "guid_wf g" and "seqno g = 0" and "length rs < 2 ^ 32"
    and "distinct ks" and "set ks = {..<length rs}"
  shows "\<exists>xs s. request_all mk rs (new_RequesterImpl g) = Inr (xs, s) \<and>
    futures (snd (handle_samples to64 onReply
      (map (nth (run_jobs mk True cb def_rep (provider_on_data to64 xs) i)) ks) s)) =
    map (outcome cb) rs"
proof -
  let ?n = "length rs"
  obtain xs and s :: "'b requester" where r: "request_all mk rs (new_RequesterImpl g) = Inr (xs, s)" "req_inv g s"
    "futures s = replicate ?n Pending"
    "xs = map (\<lambda>k. \<lparr>valid_data = True, sample_data = rs ! k,
        sample_identity = toSampleId mk (request_id g k),
        related_sample_identity = toSampleId mk UNKNOWN\<rparr>) [0..<?n]"
    using request_all_spec [OF req_inv_new [OF assms(3)], where rs = rs and mk = mk] assms(4)
    by (auto simp: new_RequesterImpl_def)
  have wf: "guid_wf (request_id g k)" "guid_wf (makeBadVersion (request_id g k))" for k
    using assms(2) by (simp_all add: guid_wf_def request_id_def guid_simps)
  have sg: "guid_wf h \<Longrightarrow> sampleToGuid to64 (toSampleId mk h) = h" for h
    using sample_guid [of to64 mk h] assms(1) by blast
  have jobs: "provider_on_data to64 xs = map (\<lambda>k. (rs ! k, request_id g k)) [0..<?n]"
    unfolding provider_on_data_def r(4) by (simp add: sg [OF wf(1)] filter_map comp_def)
  let ?ys = "run_jobs mk True cb def_rep (provider_on_data to64 xs) i"
  have ans: "answers to64 g cb rs k (?ys ! k)" if "k < ?n" for k
  proof -
    have "enumerate 0 [0..<?n] ! k = (k, k)" using that by (simp add: nth_enumerate_eq)
    then show ?thesis
      using that wf
      by (simp add: jobs run_jobs_spec answers_def sg split: option.splits)
  qed
  have "futures (snd (handle_samples to64 onReply (map (nth ?ys) ks) s)) = map (outcome cb) rs"
    (is "?l = ?r")
  proof (rule nth_equalityI)
    have len: "length (futures s) = ?n" using r(3) by simp
    have hyp: "\<And>k. k \<in> set ks \<Longrightarrow> k < ?n \<and> futures s ! k = Pending \<and> answers to64 g cb rs k (?ys ! k)"
      using assms(6) ans r(3) by auto
    note del = deliver_answers [OF r(2) len assms(5) hyp]
    show "length ?l = length ?r"
      using del by (cases rs) (use assms(6) r(3) in auto)
    fix j assume "j < length ?l"
    with \<open>length ?l = length ?r\<close> have j: "j < ?n" by simp
    show "?l ! j = ?r ! j" using del [OF _ j] j assms(6) by auto
  qed
  with r(1) show ?thesis by blast
qed

section \<open>Properties\<close>

text \<open>
  A requester is not disturbed by traffic that is not for it: a reply that relates to a sample of
  another writer changes nothing, and a settled future never changes again, whatever arrives.
\<close>

theorem foreign_replies_ignored:
  assumes "req_inv g s"
  shows "(gdata related \<noteq> gdata g \<longrightarrow> onReply d i related s = s) \<and>
    (\<forall>k < length (futures s). futures s ! k \<noteq> Pending \<longrightarrow> futures (onReply d i related s) ! k = futures s ! k)"
proof (intro conjI impI allI)
  show "onReply d i related s = s" if "gdata related \<noteq> gdata g"
    using onReply_foreign [OF assms that] .
  fix k assume k: "k < length (futures s)" "futures s ! k \<noteq> Pending"
  then have "(futures s)[n := v] ! k = futures s ! k" if "m_requests s x = Some n" for x n v
    using assms that by (cases "n = k") (auto simp: req_inv_def)
  then show "futures (onReply d i related s) ! k = futures s ! k"
    by (simp add: onReply_def Let_def split: option.splits)
qed

theorem foreign_replies_ignored_witness:
  "onReply (5::nat) UNKNOWN (Guid (replicate 16 2) 1) (new_RequesterImpl (Guid (replicate 16 1) 0)) =
   new_RequesterImpl (Guid (replicate 16 1) 0)"
proof -
  have "req_inv (Guid (replicate 16 1) 0) (new_RequesterImpl (Guid (replicate 16 1) 0) :: nat requester)"
    by (rule req_inv_new) simp
  from foreign_replies_ignored [OF this, of "Guid (replicate 16 2) 1" 5 UNKNOWN] show ?thesis
    by simp
qed

end
