(* ===== verification/LT_Reactor.thy ===== *)
theory LT_Reactor
  imports LT_RequestReply "HOL-Library.AList"
begin

text \<open>
  Reactor sessions, \<^verbatim>\<open>src/LetsTalk/ReactorServerImpl.hpp\<close> and \<^verbatim>\<open>ReactorClientImpl.hpp\<close>: a request that is
  answered by progress messages and a final reply, and that the client may cancel. The messages a
  backend publishes are outputs of its operations; the callbacks it subscribes are operations. The
  serializer of progress data and the participant's subscriber count are parameters.
\<close>

section \<open>Messages\<close>

definition PROG_UNKNOWN :: int where "PROG_UNKNOWN = -200"
definition PROG_FAILED :: int where "PROG_FAILED = -100"
definition PROG_SENT :: int where "PROG_SENT = 0"
definition PROG_START :: int where "PROG_START = 1"
definition PROG_SUCCESS :: int where "PROG_SUCCESS = 100"

lemmas prog_marks = PROG_UNKNOWN_def PROG_FAILED_def PROG_SENT_def PROG_START_def PROG_SUCCESS_def

text \<open>What a server publishes, with the session's identifier as related sample.\<close>

datatype 'rep server_msg = Progress_msg int "byte list" guid | Reply_msg 'rep guid

datatype reactor_error = Use_after_erase

section \<open>ReactorServerBackend\<close>

datatype sess_state = STARTING | RUNNING | CANCELLING | CANCELLED | FAILING | FAILED | SUCCEEDING | SUCCEED

record 'req server =
  s_session :: "(guid \<times> sess_state) list"
  s_pending :: "(guid \<times> 'req) list"
  s_waitvar :: "nat option"

definition new_server :: "'req server" where
  "new_server = \<lparr>s_session = [], s_pending = [], s_waitvar = None\<rparr>"

definition server_on_command :: "guid \<Rightarrow> 'req server \<Rightarrow> 'req server" where
  "server_on_command relatedId s = s\<lparr>s_session := AList.delete relatedId (s_session s)\<rparr>"

definition server_on_request :: "'req \<Rightarrow> guid \<Rightarrow> 'req server \<Rightarrow> signal list \<times> 'req server" where
  "server_on_request i_req gid s =
     (let s' = s\<lparr>s_pending := s_pending s @ [(gid, i_req)]\<rparr>
      in (Notify_nonempty # (case s_waitvar s' of None \<Rightarrow> [] | Some c \<Rightarrow> [Notify_external c]), s'))"

definition havePendingSession :: "'req server \<Rightarrow> bool" where
  "havePendingSession s \<longleftrightarrow> length (s_pending s) > 0"

definition recordReply :: "guid \<Rightarrow> 'req server \<Rightarrow> 'rep server_msg list \<times> 'req server" where
  "recordReply i_id s =
     ([Progress_msg PROG_SUCCESS [] i_id],
      if map_of (s_session s) i_id \<noteq> None then s\<lparr>s_session := AList.update i_id SUCCEED (s_session s)\<rparr> else s)"

definition server_reply :: "guid \<Rightarrow> 'rep \<Rightarrow> 'req server \<Rightarrow> 'rep server_msg list \<times> 'req server" where
  "server_reply i_id i_reply s =
     (let (out, s') = recordReply i_id s in (out @ [Reply_msg i_reply i_id], s'))"

definition getPendingSessionData :: "'req \<Rightarrow> 'req server \<Rightarrow> (guid \<times> 'req) \<times> 'req server" where
  "getPendingSessionData def_req s =
     (case s_pending s of
        x # xs \<Rightarrow> (x, s\<lparr>s_pending := xs\<rparr>)
      | [] \<Rightarrow> ((UNKNOWN, def_req), s))"

text \<open>Erasing the element the iterator stands on and then advancing it is undefined: the loop ends well
  only when there is nothing to erase.\<close>

definition dead_state :: "sess_state \<Rightarrow> bool" where
  "dead_state st \<longleftrightarrow> st = CANCELLED \<or> st = FAILED \<or> st = SUCCEED"

definition pruneDeadSessions :: "'req server \<Rightarrow> reactor_error + 'req server" where
  "pruneDeadSessions s =
     (if list_ex (\<lambda>x. dead_state (snd x)) (s_session s) then Inl Use_after_erase else Inr s)"

definition server_progress :: "guid \<Rightarrow> int \<Rightarrow> byte list \<Rightarrow> 'req server \<Rightarrow> 'rep server_msg list \<times> 'req server" where
  "server_progress i_id i_progress i_payload s =
     (let m = (if map_of (s_session s) i_id \<noteq> None then
                 if i_progress \<ge> PROG_SUCCESS then AList.update i_id SUCCEEDING (s_session s)
                 else if i_progress > PROG_START then AList.update i_id RUNNING (s_session s)
                 else if i_progress = PROG_START then AList.update i_id STARTING (s_session s)
                 else AList.delete i_id (s_session s)
               else if i_progress = PROG_START then AList.update i_id STARTING (s_session s)
               else s_session s)
      in ([Progress_msg i_progress i_payload i_id], s\<lparr>s_session := m\<rparr>))"

definition server_isAlive :: "guid \<Rightarrow> 'req server \<Rightarrow> bool" where
  "server_isAlive i_id s =
     (case map_of (s_session s) i_id of
        None \<Rightarrow> False
      | Some st \<Rightarrow> (case st of STARTING \<Rightarrow> True | RUNNING \<Rightarrow> True | _ \<Rightarrow> False))"

definition server_dispose :: "guid \<Rightarrow> 'req server \<Rightarrow> 'rep server_msg list \<times> 'req server" where
  "server_dispose i_id s =
     ((case map_of (s_session s) i_id of
         Some st \<Rightarrow> if st = STARTING \<or> st = RUNNING then [Progress_msg PROG_FAILED [] i_id] else []
       | None \<Rightarrow> []),
      s\<lparr>s_session := AList.delete i_id (s_session s)\<rparr>)"

definition server_attach :: "nat \<Rightarrow> 'req server \<Rightarrow> 'req server" where
  "server_attach c s = s\<lparr>s_waitvar := Some c\<rparr>"

definition server_detach :: "'req server \<Rightarrow> 'req server" where
  "server_detach s = s\<lparr>s_waitvar := None\<rparr>"

interpretation server_await: awaitable server_attach server_detach havePendingSession s_waitvar
  by unfold_locales (simp_all add: server_attach_def server_detach_def havePendingSession_def)

text \<open>\<open>ReactorServer::Session\<close>: without a reactor it is empty. Making one starts the session.\<close>

record 'req sv_session =
  sv_reactor :: bool
  sv_request :: 'req
  sv_id :: guid

definition new_sv_session ::
    "bool \<Rightarrow> 'req \<Rightarrow> guid \<Rightarrow> 'req server \<Rightarrow> 'rep server_msg list \<times> 'req sv_session \<times> 'req server" where
  "new_sv_session reactor i_request i_id s =
     (let (out, s') = (if reactor then server_progress i_id PROG_START [] s else ([], s))
      in (out, \<lparr>sv_reactor = reactor, sv_request = i_request, sv_id = i_id\<rparr>, s'))"

definition server_getPendingSession ::
    "'req \<Rightarrow> 'req server \<Rightarrow> 'rep server_msg list \<times> 'req sv_session \<times> 'req server" where
  "server_getPendingSession def_req s =
     (let (x, s1) = getPendingSessionData def_req s in
      if fst x \<noteq> UNKNOWN then new_sv_session True (snd x) (fst x) s1
      else new_sv_session False def_req UNKNOWN s1)"

definition sv_reply :: "'req sv_session \<Rightarrow> 'rep \<Rightarrow> 'req server \<Rightarrow> 'rep server_msg list \<times> 'req server" where
  "sv_reply x i_reply s = (if sv_reactor x then server_reply (sv_id x) i_reply s else ([], s))"

definition sv_progress ::
    "('p \<Rightarrow> byte list) \<Rightarrow> 'req sv_session \<Rightarrow> int \<Rightarrow> 'p \<Rightarrow> 'req server \<Rightarrow> 'rep server_msg list \<times> 'req server" where
  "sv_progress ser x i_progress i_data s =
     (if sv_reactor x then server_progress (sv_id x) i_progress (ser i_data) s else ([], s))"

definition sv_fail ::
    "'req sv_session \<Rightarrow> 'req server \<Rightarrow> 'rep server_msg list \<times> 'req sv_session \<times> 'req server" where
  "sv_fail x s =
     (if \<not> sv_reactor x then ([], x, s)
      else let (out, s') = server_progress (sv_id x) PROG_FAILED [] s in (out, x\<lparr>sv_reactor := False\<rparr>, s'))"

definition delete_sv_session :: "'req sv_session \<Rightarrow> 'req server \<Rightarrow> 'rep server_msg list \<times> 'req server" where
  "delete_sv_session x s = (if sv_reactor x then server_dispose (sv_id x) s else ([], s))"

definition sv_isAlive :: "'req sv_session \<Rightarrow> 'req server \<Rightarrow> bool" where
  "sv_isAlive x s = (if sv_reactor x then server_isAlive (sv_id x) s else False)"

section \<open>ReactorClientBackend\<close>

text \<open>Progress data is handed out lowest progress first. Samples of equal progress have no order that
  the library promises; here the older one comes first.\<close>

record ('rep, 'p) session_data =
  progress :: int
  progressData :: "(int \<times> 'p) list"
  reply :: "'rep option"
  replyReady :: bool

definition new_session_data :: "('rep, 'p) session_data" where
  "new_session_data = \<lparr>progress = PROG_SENT, progressData = [], reply = None, replyReady = False\<rparr>"

fun pq_push :: "int \<times> 'p \<Rightarrow> (int \<times> 'p) list \<Rightarrow> (int \<times> 'p) list" where
  "pq_push x [] = [x]"
| "pq_push x (y # ys) = (if fst y > fst x then x # y # ys else y # pq_push x ys)"

record ('rep, 'p) client =
  c_lastId :: guid
  c_session :: "(guid \<times> ('rep, 'p) session_data) list"

datatype 'req client_msg = Request_msg 'req guid | Cancel_msg guid

definition new_client :: "guid \<Rightarrow> ('rep, 'p) client" where
  "new_client pub_guid = \<lparr>c_lastId = pub_guid, c_session = []\<rparr>"

definition finished_mark :: "int \<Rightarrow> bool" where
  "finished_mark p \<longleftrightarrow> p < PROG_SENT \<or> p \<ge> PROG_SUCCESS"

text \<open>\<open>m_session[m_lastId]\<close> makes new session data unless there is some.\<close>

definition startNewSession ::
    "'req \<Rightarrow> ('rep, 'p) client \<Rightarrow> guid \<times> 'req client_msg list \<times> ('rep, 'p) client" where
  "startNewSession i_request c =
     (let thisId = increment (c_lastId c) in
      (thisId, [Request_msg i_request thisId],
       c\<lparr>c_lastId := thisId,
         c_session := (if map_of (c_session c) thisId = None
                       then AList.update thisId new_session_data (c_session c) else c_session c)\<rparr>))"

text \<open>Without a server the sessions are dropped. Otherwise finished sessions are erased while the range
  loop stands on them, which is undefined.\<close>

definition groomSessionList :: "bool \<Rightarrow> ('rep, 'p) client \<Rightarrow> reactor_error + ('rep, 'p) client" where
  "groomSessionList discoveredServer c =
     (if \<not> discoveredServer then Inr (c\<lparr>c_session := []\<rparr>)
      else if list_ex (\<lambda>x. finished_mark (progress (snd x))) (c_session c) then Inl Use_after_erase
      else Inr c)"

definition client_request ::
    "bool \<Rightarrow> 'req \<Rightarrow> ('rep, 'p) client \<Rightarrow> reactor_error + (guid \<times> 'req client_msg list \<times> ('rep, 'p) client)" where
  "client_request discoveredServer i_request c =
     (case groomSessionList discoveredServer c of
        Inl e \<Rightarrow> Inl e
      | Inr c1 \<Rightarrow> Inr (startNewSession i_request c1))"

definition client_on_progress ::
    "(byte list \<Rightarrow> 'p option) \<Rightarrow> int \<Rightarrow> byte list \<Rightarrow> guid \<Rightarrow> ('rep, 'p) client \<Rightarrow> ('rep, 'p) client" where
  "client_on_progress deser i_progress payload i_relatedId c =
     (case map_of (c_session c) i_relatedId of
        None \<Rightarrow> c
      | Some d \<Rightarrow>
          let d1 = d\<lparr>progress := i_progress\<rparr>;
              d2 = (if length payload > 0 then
                      (case deser payload of
                         Some sample \<Rightarrow> d1\<lparr>progressData := pq_push (i_progress, sample) (progressData d1)\<rparr>
                       | None \<Rightarrow> d1)
                    else d1)
          in c\<lparr>c_session := AList.update i_relatedId d2 (c_session c)\<rparr>)"

definition client_on_reply :: "'rep \<Rightarrow> guid \<Rightarrow> ('rep, 'p) client \<Rightarrow> ('rep, 'p) client" where
  "client_on_reply i_reply i_relatedId c =
     (case map_of (c_session c) i_relatedId of
        None \<Rightarrow> c
      | Some d \<Rightarrow>
          c\<lparr>c_session := AList.update i_relatedId
             (d\<lparr>progress := PROG_SUCCESS, reply := Some i_reply, replyReady := True\<rparr>) (c_session c)\<rparr>)"

text \<open>\<open>get\<close> moves the reply out: a second call still returns true, with what is left of the moved value,
  written \<open>Some None\<close>.\<close>

definition client_get :: "guid \<Rightarrow> ('rep, 'p) client \<Rightarrow> 'rep option option \<times> ('rep, 'p) client" where
  "client_get i_id c =
     (case map_of (c_session c) i_id of
        None \<Rightarrow> (None, c)
      | Some d \<Rightarrow>
          if replyReady d
          then (Some (reply d), c\<lparr>c_session := AList.update i_id (d\<lparr>reply := None\<rparr>) (c_session c)\<rparr>)
          else (None, c))"

definition client_cancel :: "guid \<Rightarrow> ('rep, 'p) client \<Rightarrow> 'req client_msg list \<times> ('rep, 'p) client" where
  "client_cancel i_id c = ([Cancel_msg i_id], c\<lparr>c_session := AList.delete i_id (c_session c)\<rparr>)"

definition client_isAlive :: "bool \<Rightarrow> guid \<Rightarrow> ('rep, 'p) client \<Rightarrow> bool" where
  "client_isAlive discoveredServer i_id c =
     (if \<not> discoveredServer then False
      else case map_of (c_session c) i_id of
             Some d \<Rightarrow> progress d \<ge> PROG_SENT \<and> progress d < PROG_SUCCESS
           | None \<Rightarrow> False)"

definition client_progress :: "guid \<Rightarrow> ('rep, 'p) client \<Rightarrow> int" where
  "client_progress i_id c =
     (case map_of (c_session c) i_id of Some d \<Rightarrow> progress d | None \<Rightarrow> PROG_UNKNOWN)"

definition client_progressData :: "guid \<Rightarrow> ('rep, 'p) client \<Rightarrow> 'p option \<times> ('rep, 'p) client" where
  "client_progressData i_id c =
     (case map_of (c_session c) i_id of
        None \<Rightarrow> (None, c)
      | Some d \<Rightarrow>
          (case progressData d of
             [] \<Rightarrow> (None, c)
           | x # xs \<Rightarrow> (Some (snd x), c\<lparr>c_session := AList.update i_id (d\<lparr>progressData := xs\<rparr>) (c_session c)\<rparr>)))"

definition client_dispose ::
    "bool \<Rightarrow> guid \<Rightarrow> ('rep, 'p) client \<Rightarrow> reactor_error + ('req client_msg list \<times> ('rep, 'p) client)" where
  "client_dispose discoveredServer i_id c =
     (let out = (case map_of (c_session c) i_id of
                   Some d \<Rightarrow> if progress d \<ge> PROG_SENT \<and> progress d \<le> PROG_SUCCESS then [Cancel_msg i_id] else []
                 | None \<Rightarrow> []);
          c1 = c\<lparr>c_session := AList.delete i_id (c_session c)\<rparr>
      in case groomSessionList discoveredServer c1 of Inl e \<Rightarrow> Inl e | Inr c2 \<Rightarrow> Inr (out, c2))"

section \<open>Lookup after an operation\<close>

named_theorems reactor_simps \<open>the session map after an operation\<close>

lemma map_of_update [reactor_simps]: "map_of (AList.update k v al) i = (if i = k then Some v else map_of al i)"
  by (simp add: update_conv')

lemma map_of_delete [reactor_simps]: "map_of (AList.delete k al) i = (if i = k then None else map_of al i)"
  by (simp add: delete_conv')

section \<open>Runs of a server\<close>

datatype ('req, 'rep) sv_op =
  On_request 'req guid | On_command guid | Take_session | Do_progress guid int "byte list"
| Do_reply guid 'rep | Do_dispose guid

fun server_op :: "'req \<Rightarrow> ('req, 'rep) sv_op \<Rightarrow> 'req server \<Rightarrow> 'rep server_msg list \<times> 'req server" where
  "server_op def_req (On_request r i) s = ([], snd (server_on_request r i s))"
| "server_op def_req (On_command i) s = ([], server_on_command i s)"
| "server_op def_req Take_session s = (let (out, x, s') = server_getPendingSession def_req s in (out, s'))"
| "server_op def_req (Do_progress i p b) s = server_progress i p b s"
| "server_op def_req (Do_reply i r) s = server_reply i r s"
| "server_op def_req (Do_dispose i) s = server_dispose i s"

definition gone :: "guid \<Rightarrow> 'req server \<Rightarrow> bool" where
  "gone i s \<longleftrightarrow> map_of (s_session s) i = None \<and> i \<notin> fst ` set (s_pending s)"

lemma gone_step: "gone i s \<Longrightarrow> (\<And>r. op \<noteq> On_request r i) \<Longrightarrow> (\<And>b. op \<noteq> Do_progress i PROG_START b) \<Longrightarrow> gone i (snd (server_op def_req op s))"
proof (induction def_req op s rule: server_op.induct)
  case (3 def_req s)
  then show ?case
    by (auto simp: gone_def server_getPendingSession_def getPendingSessionData_def new_sv_session_def
        server_progress_def Let_def reactor_simps split: list.splits)
qed (auto simp: gone_def server_on_request_def server_on_command_def server_progress_def server_reply_def
    recordReply_def server_dispose_def Let_def reactor_simps)

lemma gone_run:
  "gone i s \<Longrightarrow> (\<And>r. On_request r i \<notin> set ops) \<Longrightarrow> (\<And>b. Do_progress i PROG_START b \<notin> set ops) \<Longrightarrow>
   gone i (snd (drive (server_op def_req) ops s))"
proof (induction ops arbitrary: s)
  case (Cons op ops)
  have "gone i (snd (server_op def_req op s))"
    using Cons.prems(2,3) by (intro gone_step [OF Cons.prems(1)]) auto
  from Cons.IH [OF this] Cons.prems(2,3) show ?case by (auto split: prod.splits)
qed simp

lemma gone_dead: "gone i s \<Longrightarrow> \<not> server_isAlive i s"
  by (simp add: gone_def server_isAlive_def)

section \<open>The queue of progress data\<close>

lemma mset_pq_push [simp]: "mset (pq_push x ys) = add_mset x (mset ys)"
  by (induction x ys rule: pq_push.induct) auto

lemma set_pq_push [simp]: "set (pq_push x ys) = insert x (set ys)"
  by (induction x ys rule: pq_push.induct) auto

lemma sorted_pq_push: "sorted (map fst ys) \<Longrightarrow> sorted (map fst (pq_push x ys))"
  by (induction x ys rule: pq_push.induct) auto

lemma on_progress_session:
  assumes "map_of (c_session c) i = Some d" "deser b = Some x" "b \<noteq> []"
  shows "map_of (c_session (client_on_progress deser p b i c)) i =
    Some (d\<lparr>progress := p, progressData := pq_push (p, x) (progressData d)\<rparr>)"
  using assms by (simp add: client_on_progress_def reactor_simps)

fun progress_all :: "(byte list \<Rightarrow> 'p option) \<Rightarrow> ('p \<Rightarrow> byte list) \<Rightarrow> guid \<Rightarrow> (int \<times> 'p) list \<Rightarrow>
    ('rep, 'p) client \<Rightarrow> ('rep, 'p) client" where
  "progress_all deser ser i [] c = c"
| "progress_all deser ser i ((p, x) # ms) c =
     progress_all deser ser i ms (client_on_progress deser p (ser x) i c)"

fun retrieve :: "nat \<Rightarrow> guid \<Rightarrow> ('rep, 'p) client \<Rightarrow> 'p option list" where
  "retrieve 0 i c = []"
| "retrieve (Suc n) i c = (let (x, c') = client_progressData i c in x # retrieve n i c')"

lemma progress_all_session:
  assumes "\<And>x. deser (ser x) = Some x" "\<And>x. ser x \<noteq> []" "map_of (c_session c) i = Some d"
    "sorted (map fst (progressData d))"
  shows "\<exists>d'. map_of (c_session (progress_all deser ser i ms c)) i = Some d' \<and>
    mset (progressData d') = mset (progressData d) + mset ms \<and> sorted (map fst (progressData d')) \<and>
    progress d' = (if ms = [] then progress d else fst (last ms)) \<and>
    reply d' = reply d \<and> replyReady d' = replyReady d"
  using assms(3,4)
proof (induction ms arbitrary: c d)
  case (Cons m ms)
  obtain p x where m: "m = (p, x)" by fastforce
  let ?d = "d\<lparr>progress := p, progressData := pq_push (p, x) (progressData d)\<rparr>"
  have "map_of (c_session (client_on_progress deser p (ser x) i c)) i = Some ?d"
    using on_progress_session [OF Cons.prems(1), of deser "ser x" x p] assms(1,2) by simp
  from Cons.IH [OF this] Cons.prems(2) show ?case by (auto simp: m sorted_pq_push)
qed auto

lemma retrieve_all:
  "map_of (c_session c) i = Some d \<Longrightarrow> n \<le> length (progressData d) \<Longrightarrow>
   retrieve n i c = map (Some \<circ> snd) (take n (progressData d))"
proof (induction n arbitrary: c d)
  case (Suc n)
  then obtain x xs where x: "progressData d = x # xs" by (cases "progressData d") auto
  let ?c = "c\<lparr>c_session := AList.update i (d\<lparr>progressData := xs\<rparr>) (c_session c)\<rparr>"
  have "retrieve n i ?c = map (Some \<circ> snd) (take n xs)"
    using Suc.prems(2) x Suc.IH [of ?c "d\<lparr>progressData := xs\<rparr>"] by (simp add: reactor_simps)
  then show ?case using Suc.prems(1) x by (simp add: client_progressData_def)
qed simp

section \<open>A session from end to end\<close>

fun client_deliver :: "(byte list \<Rightarrow> 'p option) \<Rightarrow> 'rep server_msg \<Rightarrow> ('rep, 'p) client \<Rightarrow> ('rep, 'p) client" where
  "client_deliver deser (Progress_msg p b i) c = client_on_progress deser p b i c"
| "client_deliver deser (Reply_msg r i) c = client_on_reply r i c"

fun sv_progress_all :: "('p \<Rightarrow> byte list) \<Rightarrow> 'req sv_session \<Rightarrow> (int \<times> 'p) list \<Rightarrow> 'req server \<Rightarrow>
    'rep server_msg list \<times> 'req server" where
  "sv_progress_all ser x [] s = ([], s)"
| "sv_progress_all ser x ((p, y) # ms) s =
     (let (out, s1) = sv_progress ser x p y s; (outs, s2) = sv_progress_all ser x ms s1 in (out @ outs, s2))"

lemma sv_progress_all_out:
  "sv_progress_all ser x ms s = (out, s') \<Longrightarrow> sv_reactor x \<Longrightarrow>
   out = map (\<lambda>(p, y). Progress_msg p (ser y) (sv_id x)) ms"
proof (induction ms arbitrary: s out)
  case (Cons m ms)
  obtain p y where m: "m = (p, y)" by fastforce
  obtain out1 :: "'a server_msg list" and s1 where s1: "sv_progress ser x p y s = (out1, s1)" by fastforce
  then have out1: "out1 = [Progress_msg p (ser y) (sv_id x)]"
    using Cons.prems(2) by (auto simp: sv_progress_def server_progress_def Let_def)
  obtain out2 where "sv_progress_all ser x ms s1 = (out2, s')" "out = out1 @ out2"
    using Cons.prems(1) m s1 by (auto split: prod.splits)
  then show ?case using Cons.IH [OF _ Cons.prems(2)] out1 m by simp
qed simp

lemma deliver_progress_all:
  "fold (client_deliver deser) (map (\<lambda>(p, y). Progress_msg p (ser y) i) ms) c = progress_all deser ser i ms c"
  by (induction deser ser i ms c rule: progress_all.induct) auto

lemma start_session:
  assumes "startNewSession req c = (i, out, c1)"
  shows "i = increment (c_lastId c)" "i \<noteq> UNKNOWN" "map_of (c_session c1) i \<noteq> None"
    "map_of (c_session c) i = None \<Longrightarrow> map_of (c_session c1) i = Some new_session_data"
  using assms seqno_increment [of "c_lastId c"]
  by (auto simp: startNewSession_def Let_def reactor_simps UNKNOWN_def)

section \<open>Properties\<close>

text \<open>
  A session runs from the client's request to the reply. The server's next session is the client's
  request with its identifier; after the server sends progress samples and a reply, and the client has
  received what was sent, the client reads the reply, the progress is \<open>PROG_SUCCESS\<close>, and the progress
  samples are handed out completely, lowest progress first. The serializer is only asked to be read
  back by the deserializer and to write at least one byte.
\<close>

lemma session_end_to_end:
  assumes "\<And>x. deser (ser x) = Some x" and "\<And>x. ser x \<noteq> []" and "s_pending s = []"
    and "map_of (c_session c) (increment (c_lastId c)) = None"
    and "startNewSession req c = (i, out0, c1)"
    and "server_getPendingSession def_req (snd (server_on_request req i s)) = (out1, x, s1)"
    and "sv_progress_all ser x ms s1 = (out2, s2)" and "sv_reply x r s2 = (out3, s3)"
    and "c2 = fold (client_deliver deser) (out1 @ out2 @ out3) c1"
  shows "sv_request x = req \<and> fst (client_get i c2) = Some (Some r) \<and> client_progress i c2 = PROG_SUCCESS \<and>
    (\<exists>ys. mset ys = mset ms \<and> sorted (map fst ys) \<and> retrieve (length ms) i c2 = map (Some \<circ> snd) ys)"
proof -
  note st = start_session [OF assms(5)]
  have c1: "map_of (c_session c1) i = Some new_session_data" using st(1,4) assms(4) by simp
  have x: "out1 = [Progress_msg PROG_START [] i]" "sv_reactor x" "sv_id x = i" "sv_request x = req"
    using assms(6,3) st(2)
    by (auto simp: server_getPendingSession_def getPendingSessionData_def server_on_request_def
        new_sv_session_def server_progress_def Let_def)
  have out2: "out2 = map (\<lambda>(p, y). Progress_msg p (ser y) i) ms"
    using sv_progress_all_out [OF assms(7) x(2)] x(3) by simp
  have out3: "out3 = [Progress_msg PROG_SUCCESS [] i, Reply_msg r i]"
    using assms(8) x(2,3) by (auto simp: sv_reply_def server_reply_def recordReply_def)
  let ?c = "client_on_progress deser PROG_START [] i c1"
  have "map_of (c_session ?c) i = Some (new_session_data\<lparr>progress := PROG_START\<rparr>)"
    using c1 by (simp add: client_on_progress_def reactor_simps)
  from progress_all_session [OF assms(1,2) this, of ms] obtain d where d:
    "map_of (c_session (progress_all deser ser i ms ?c)) i = Some d"
    "mset (progressData d) = mset ms" "sorted (map fst (progressData d))"
    by (auto simp: new_session_data_def)
  have c2: "c2 = client_on_reply r i (client_on_progress deser PROG_SUCCESS [] i (progress_all deser ser i ms ?c))"
    unfolding assms(9) x(1) out2 out3 by (simp add: deliver_progress_all)
  have d2: "map_of (c_session c2) i = Some (d\<lparr>progress := PROG_SUCCESS, reply := Some r, replyReady := True\<rparr>)"
    unfolding c2 using d(1) by (simp add: client_on_reply_def client_on_progress_def reactor_simps)
  have "length ms = length (progressData d)" using d(2) by (metis size_mset)
  then have "retrieve (length ms) i c2 = map (Some \<circ> snd) (progressData d)"
    using retrieve_all [OF d2, of "length ms"] by simp
  then show ?thesis using x(4) d(2,3) d2 by (auto simp: client_get_def client_progress_def)
qed

text \<open>
  C19. A cancelled session is dead until it is started anew. Once the command to cancel a session that is not waiting has arrived, the session is alive
  after any progress, replies, requests, commands and new sessions only if among them its own request was repeated or its
  start was reported again. Either does bring it back: reporting \<open>PROG_START\<close> for the cancelled session puts it back into the map as alive,
  although nobody asked for it again, and so does taking the repeated request.
\<close>

theorem cancelled_until_restarted:
  assumes "i \<notin> fst ` set (s_pending s)" and "s1 = server_on_command i s"
  shows "(server_isAlive i (snd (drive (server_op def_req) ops s1)) \<longrightarrow>
      (\<exists>r. On_request r i \<in> set ops) \<or> (\<exists>b. Do_progress i PROG_START b \<in> set ops)) \<and>
    server_isAlive i (snd (drive (server_op def_req) [Do_progress i PROG_START b] s1)) \<and>
    (i \<noteq> UNKNOWN \<and> s_pending s = [] \<longrightarrow> server_isAlive i (snd (drive (server_op def_req) [On_request r i, Take_session] s1)))"
proof (intro conjI impI)
  have gone: "gone i s1"
    using assms by (simp add: gone_def server_on_command_def reactor_simps)
  show "(\<exists>r. On_request r i \<in> set ops) \<or> (\<exists>b. Do_progress i PROG_START b \<in> set ops)"
    if "server_isAlive i (snd (drive (server_op def_req) ops s1))"
    using that gone_dead [OF gone_run [OF gone]] by blast
  show "server_isAlive i (snd (drive (server_op def_req) [Do_progress i PROG_START b] s1))"
    by (simp add: server_progress_def server_isAlive_def Let_def reactor_simps PROG_START_def PROG_SUCCESS_def)
  show "server_isAlive i (snd (drive (server_op def_req) [On_request r i, Take_session] s1))"
    if "i \<noteq> UNKNOWN \<and> s_pending s = []"
    using that assms(2)
    by (simp add: server_getPendingSession_def getPendingSessionData_def server_on_request_def server_on_command_def
        new_sv_session_def server_progress_def Let_def server_isAlive_def reactor_simps PROG_START_def PROG_SUCCESS_def)
qed

theorem cancelled_until_restarted_witness:
  "\<not> server_isAlive UNKNOWN (snd (drive (server_op (0::nat)) [Do_progress UNKNOWN 50 [], Do_reply UNKNOWN (1::nat)]
     (server_on_command UNKNOWN (snd (server_progress UNKNOWN PROG_START [] new_server :: nat server_msg list \<times> nat server)))))"
proof -
  let ?s = "snd (server_progress UNKNOWN PROG_START [] new_server :: nat server_msg list \<times> nat server)"
  let ?ops = "[Do_progress UNKNOWN 50 [], Do_reply UNKNOWN (1::nat)] :: (nat, nat) sv_op list"
  have "UNKNOWN \<notin> fst ` set (s_pending ?s)" by (simp add: server_progress_def new_server_def Let_def)
  from cancelled_until_restarted [OF this refl, of 0 ?ops] show ?thesis by (auto simp: PROG_START_def)
qed

text \<open>
  A cancellation that arrives while the request still waits is lost: the command only looks at the
  started sessions, so the server starts the cancelled session later and reports it as alive.
\<close>

theorem cancel_of_pending_lost:
  assumes "i \<noteq> UNKNOWN" and "s_pending s = []"
  shows "\<exists>out x s'. server_getPendingSession def_req (server_on_command i (snd (server_on_request req i s))) =
      (out, x, s') \<and> sv_request x = req \<and> sv_id x = i \<and> sv_isAlive x s'"
  using assms
  by (auto simp: server_getPendingSession_def getPendingSessionData_def server_on_request_def
      server_on_command_def new_sv_session_def server_progress_def Let_def sv_isAlive_def server_isAlive_def
      reactor_simps PROG_START_def PROG_SUCCESS_def)

theorem cancel_of_pending_lost_witness:
  "\<exists>out x s'. server_getPendingSession 0 (server_on_command (Guid (replicate 16 1) 1)
      (snd (server_on_request 3 (Guid (replicate 16 1) 1) new_server))) = (out :: nat server_msg list, x, s') \<and>
     sv_request x = (3::nat) \<and> sv_isAlive x s'"
  using cancel_of_pending_lost [of "Guid (replicate 16 1) 1" "new_server :: nat server" 0 3]
  by (auto simp: UNKNOWN_def new_server_def)

text \<open>
  C38. Grooming the session list erases finished sessions from the map while iterating over it. So once
  a session has its reply (or has failed), the client's next request, and the end of any other session,
  run into undefined behaviour as long as the server is still there.
\<close>

theorem finished_session_breaks_client:
  assumes "map_of (c_session c) i \<noteq> None" and "j \<noteq> i"
  shows "client_request True req (client_on_reply r i c) = Inl Use_after_erase \<and>
    client_dispose True j (client_on_reply r i c) = Inl Use_after_erase"
proof -
  obtain d where d: "map_of (c_session c) i = Some d" using assms(1) by auto
  let ?d = "d\<lparr>progress := PROG_SUCCESS, reply := Some r, replyReady := True\<rparr>"
  let ?al = "AList.update i ?d (c_session c)"
  have fin: "finished_mark (progress ?d)" by (simp add: finished_mark_def)
  have ex: "list_ex (\<lambda>x. finished_mark (progress (snd x))) al" if "map_of al i = Some ?d" for al
    using map_of_SomeD [OF that] fin by (force simp: list_ex_iff)
  have "map_of ?al i = Some ?d" "map_of (AList.delete j ?al) i = Some ?d"
    using assms(2) by (simp_all add: reactor_simps)
  then show ?thesis
    using d by (simp add: client_on_reply_def client_request_def client_dispose_def groomSessionList_def ex)
qed

theorem finished_session_breaks_client_witness:
  "\<exists>i out (c :: (nat, nat) client). startNewSession (3::nat) (new_client UNKNOWN) = (i, out, c) \<and>
     client_request True (4::nat) (client_on_reply 5 i c) = Inl Use_after_erase"
proof -
  obtain i out and c :: "(nat, nat) client" where a: "startNewSession (3::nat) (new_client UNKNOWN) = (i, out, c)"
    by (metis prod_cases3)
  have "UNKNOWN \<noteq> i" using start_session(2) [OF a] by auto
  from finished_session_breaks_client [OF start_session(3) [OF a] this, of 4 5] a show ?thesis by blast
qed

end
