(* ===== verification/LT_PubSubType.thy ===== *)
theory LT_PubSubType
  imports LT_Guid "HOL-Library.Sublist"
begin

text \<open>
  The type support \<^verbatim>\<open>PubSubType.hpp\<close> that hands messages to Fast DDS: serialization into a payload, its size, and the
  key of an instance. What the generated code and Fast CDR do for a message type is the parameter \<open>'a cdr\<close>: which bytes are
  put into a buffer of a given size, and the exception that stopped it, if any. A byte that is skipped for alignment
  keeps what the buffer held, so it is \<open>None\<close>.
\<close>

section \<open>Fast CDR and the generated code\<close>

datatype cdr_exception = NotEnoughMemory | BadParam

datatype endianness = BIG_ENDIANNESS | LITTLE_ENDIANNESS

datatype cdr_version = XCDRv1 | XCDRv2

datatype data_representation = XCDR_DATA_REPRESENTATION | XCDR2_DATA_REPRESENTATION

record 'a cdr =
  typeName :: string
  kMaxCdrTypeSize :: "32 word"
  kMaxKeyCdrTypeSize :: "32 word"
  cdr_put :: "cdr_version \<Rightarrow> nat \<Rightarrow> 'a \<Rightarrow> byte option list \<times> cdr_exception option"
  cdr_size :: "cdr_version \<Rightarrow> 'a \<Rightarrow> cdr_exception + nat"
  cdr_encapsulation :: "byte list \<Rightarrow> cdr_exception + endianness"
  cdr_get :: "byte list \<Rightarrow> 'a \<Rightarrow> 'a \<times> cdr_exception option"
  cdr_put_key :: "nat \<Rightarrow> 'a \<Rightarrow> byte option list \<times> cdr_exception option"
  cdr_new :: 'a

text \<open>The bytes in the buffer after a write from its start.\<close>

fun put_bytes :: "byte option list \<Rightarrow> byte list \<Rightarrow> byte list" where
  "put_bytes [] buf = buf"
| "put_bytes ws [] = []"
| "put_bytes (w # ws) (b # buf) = (case w of None \<Rightarrow> b | Some x \<Rightarrow> x) # put_bytes ws buf"

text \<open>The padding after \<open>current\<close> bytes up to a multiple of \<open>unit\<close>, a power of two.\<close>

definition cdr_alignment :: "32 word \<Rightarrow> 32 word \<Rightarrow> 32 word" where
  "cdr_alignment current unit = and (unit - current mod unit) (unit - 1)"

section \<open>Payloads\<close>

record payload =
  p_encapsulation :: endianness
  p_length :: "32 word"
  p_data :: "byte list"
  p_max_size :: "32 word"

definition version_of :: "data_representation \<Rightarrow> cdr_version" where
  "version_of rep = (if rep = XCDR_DATA_REPRESENTATION then XCDRv1 else XCDRv2)"

text \<open>\<open>serialize\<close>: no memory is the result false, every other exception is passed on. The writer uses the byte order of
  the host.\<close>

definition serialize ::
  "'a cdr \<Rightarrow> endianness \<Rightarrow> 'a \<Rightarrow> payload \<Rightarrow> data_representation \<Rightarrow> cdr_exception + (bool \<times> payload)" where
  "serialize T host i_data p rep =
     (let (ws, stop) = cdr_put T (version_of rep) (unat (p_max_size p)) i_data;
          p1 = p\<lparr>p_encapsulation := host, p_data := put_bytes ws (p_data p)\<rparr>
      in case stop of
           None \<Rightarrow> Inr (True, p1\<lparr>p_length := of_nat (length ws)\<rparr>)
         | Some NotEnoughMemory \<Rightarrow> Inr (False, p1)
         | Some e \<Rightarrow> Inl e)"

definition deserialize :: "'a cdr \<Rightarrow> payload \<Rightarrow> 'a \<Rightarrow> cdr_exception + (bool \<times> payload \<times> 'a)" where
  "deserialize T p i_data =
     (let buf = take (unat (p_length p)) (p_data p) in
      case cdr_encapsulation T buf of
        Inl NotEnoughMemory \<Rightarrow> Inr (False, p, i_data)
      | Inl e \<Rightarrow> Inl e
      | Inr e \<Rightarrow>
          (case cdr_get T buf i_data of
             (x, None) \<Rightarrow> Inr (True, p\<lparr>p_encapsulation := e\<rparr>, x)
           | (x, Some NotEnoughMemory) \<Rightarrow> Inr (False, p\<lparr>p_encapsulation := e\<rparr>, x)
           | (x, Some ex) \<Rightarrow> Inl ex))"

definition calculate_serialized_size :: "'a cdr \<Rightarrow> 'a \<Rightarrow> data_representation \<Rightarrow> 32 word" where
  "calculate_serialized_size T i_data rep =
     (case cdr_size T (version_of rep) i_data of Inl e \<Rightarrow> 0 | Inr n \<Rightarrow> of_nat n + 4)"

section \<open>The type support and its keys\<close>

record pubsub =
  ps_name :: string
  max_serialized_type_size :: "32 word"
  is_compute_key_provided :: bool
  m_keyBuffer :: "byte list"

definition new_PubSubType :: "'a cdr \<Rightarrow> pubsub" where
  "new_PubSubType T =
     (let type_size = kMaxCdrTypeSize T + cdr_alignment (kMaxCdrTypeSize T) 4;
          keyLength = (if kMaxKeyCdrTypeSize T > 16 then unat (kMaxKeyCdrTypeSize T) else 16)
      in \<lparr>ps_name = typeName T, max_serialized_type_size = type_size + 4,
          is_compute_key_provided = (kMaxKeyCdrTypeSize T > 0), m_keyBuffer = replicate keyLength 0\<rparr>)"

text \<open>\<open>ComputeKey<T, true>\<close>. The key goes into the buffer of the type support; the handle is the digest of its bytes if
  the key can be longer than a handle, and the first 16 bytes of the buffer otherwise.\<close>

definition ComputeKey ::
  "'a cdr \<Rightarrow> (byte list \<Rightarrow> byte list) \<Rightarrow> 'a \<Rightarrow> bool \<Rightarrow> pubsub \<Rightarrow> cdr_exception + (byte list \<times> pubsub)" where
  "ComputeKey T md5 x force_md5 ps =
     (let maxKeySize = kMaxKeyCdrTypeSize T;
          (ws, stop) = cdr_put_key T (unat maxKeySize) x;
          keyBuffer = put_bytes ws (m_keyBuffer ps)
      in case stop of
           Some e \<Rightarrow> Inl e
         | None \<Rightarrow>
             Inr (if force_md5 \<or> maxKeySize > 16 then take 16 (md5 (take (length ws) keyBuffer)) else take 16 keyBuffer,
                  ps\<lparr>m_keyBuffer := keyBuffer\<rparr>))"

text \<open>\<open>compute_key\<close> of a message: the handle, or none if the type has no key.\<close>

definition compute_key ::
  "'a cdr \<Rightarrow> (byte list \<Rightarrow> byte list) \<Rightarrow> 'a \<Rightarrow> bool \<Rightarrow> pubsub \<Rightarrow> cdr_exception + (byte list option \<times> pubsub)" where
  "compute_key T md5 x force_md5 ps =
     (if kMaxKeyCdrTypeSize T > 0 then
        (case ComputeKey T md5 x force_md5 ps of Inl e \<Rightarrow> Inl e | Inr (h, ps1) \<Rightarrow> Inr (Some h, ps1))
      else Inr (None, ps))"

definition compute_key_payload ::
  "'a cdr \<Rightarrow> (byte list \<Rightarrow> byte list) \<Rightarrow> payload \<Rightarrow> bool \<Rightarrow> pubsub \<Rightarrow> cdr_exception + (byte list option \<times> payload \<times> pubsub)" where
  "compute_key_payload T md5 p force_md5 ps =
     (if \<not> is_compute_key_provided ps then Inr (None, p, ps)
      else case deserialize T p (cdr_new T) of
             Inl e \<Rightarrow> Inl e
           | Inr (False, p1, x) \<Rightarrow> Inr (None, p1, ps)
           | Inr (True, p1, x) \<Rightarrow>
               (case compute_key T md5 x force_md5 ps of Inl e \<Rightarrow> Inl e | Inr (h, ps1) \<Rightarrow> Inr (h, p1, ps1)))"

text \<open>A sequence of keys asked of one type support.\<close>

fun compute_keys ::
  "'a cdr \<Rightarrow> (byte list \<Rightarrow> byte list) \<Rightarrow> 'a list \<Rightarrow> pubsub \<Rightarrow> cdr_exception + (byte list option list \<times> pubsub)" where
  "compute_keys T md5 [] ps = Inr ([], ps)"
| "compute_keys T md5 (x # xs) ps =
     (case compute_key T md5 x False ps of
        Inl e \<Rightarrow> Inl e
      | Inr (h, ps1) \<Rightarrow>
          (case compute_keys T md5 xs ps1 of Inl e \<Rightarrow> Inl e | Inr (hs, ps2) \<Rightarrow> Inr (h # hs, ps2)))"

section \<open>Writing into a buffer\<close>

lemma unat_length: "n < 2 ^ 32 \<Longrightarrow> unat (of_nat n :: 32 word) = n"
  by (simp add: unsigned_of_nat take_bit_nat_eq_self)

lemma length_put_bytes [simp]: "length (put_bytes ws buf) = length buf"
  by (induction ws buf rule: put_bytes.induct) simp_all

lemma put_bytes_append: "length ws = length buf \<Longrightarrow> put_bytes ws (buf @ rest) = put_bytes ws buf @ rest"
  by (induction ws buf rule: list_induct2) simp_all

lemma put_bytes_split: "length ws \<le> length buf \<Longrightarrow> put_bytes ws buf = put_bytes ws (take (length ws) buf) @ drop (length ws) buf"
  using put_bytes_append [of ws "take (length ws) buf" "drop (length ws) buf"] by simp

lemma put_all_bytes: "length bs \<le> length buf \<Longrightarrow> put_bytes (map Some bs) buf = bs @ drop (length bs) buf"
  by (induction bs arbitrary: buf) (auto simp: Suc_le_length_iff)

text \<open>Two writes of the same shape, that is with the same bytes skipped: the second one covers the first.\<close>

definition same_shape :: "byte option list \<Rightarrow> byte option list \<Rightarrow> bool" where
  "same_shape ws vs \<longleftrightarrow> list_all2 (\<lambda>w v. w = None \<longleftrightarrow> v = None) ws vs"

lemma put_bytes_covers: "same_shape ws vs \<Longrightarrow> put_bytes vs (put_bytes ws buf) = put_bytes vs buf"
  unfolding same_shape_def
proof (induction ws vs arbitrary: buf rule: list_all2_induct)
  case (Cons w ws v vs)
  then show ?case by (cases buf) (auto split: option.split)
qed simp

lemma put_bytes_inj: "same_shape ws vs \<Longrightarrow> length ws \<le> length buf \<Longrightarrow> put_bytes ws buf = put_bytes vs buf \<longleftrightarrow> ws = vs"
  unfolding same_shape_def
proof (induction ws vs arbitrary: buf rule: list_all2_induct)
  case (Cons w ws v vs)
  then show ?case by (cases buf) (auto split: option.split)
qed simp

lemma same_shape_length: "same_shape ws vs \<Longrightarrow> length ws = length vs"
  unfolding same_shape_def by (rule list_all2_lengthD)

section \<open>What is asked of Fast CDR\<close>

text \<open>A message is written as \<open>ws\<close>, encapsulation included: a buffer that is too small stops the writer, the size calculator
  counts the bytes after the encapsulation, and reading a buffer with these bytes gives the message back.\<close>

definition codec_ok :: "'a cdr \<Rightarrow> cdr_version \<Rightarrow> 'a \<Rightarrow> byte option list \<Rightarrow> bool" where
  "codec_ok T v x ws \<longleftrightarrow>
     (\<forall>n. if length ws \<le> n then cdr_put T v n x = (ws, None)
          else \<exists>us. prefix us ws \<and> cdr_put T v n x = (us, Some NotEnoughMemory)) \<and>
     4 \<le> length ws \<and> cdr_size T v x = Inr (length ws - 4) \<and>
     (\<forall>buf. length buf = length ws \<longrightarrow>
        (\<exists>e. cdr_encapsulation T (put_bytes ws buf) = Inr e) \<and> (\<forall>y. cdr_get T (put_bytes ws buf) y = (x, None)))"

text \<open>The keys of a type whose fields are at fixed places.\<close>

definition fixed_keys :: "'a cdr \<Rightarrow> ('a \<Rightarrow> byte option list) \<Rightarrow> bool" where
  "fixed_keys T key \<longleftrightarrow>
     (\<forall>x. cdr_put_key T (unat (kMaxKeyCdrTypeSize T)) x = (key x, None) \<and> length (key x) \<le> unat (kMaxKeyCdrTypeSize T)) \<and>
     (\<forall>x y. same_shape (key x) (key y))"

lemma serialize_fits:
  assumes "codec_ok T (version_of rep) x ws" "length ws \<le> unat (p_max_size p)"
  shows "serialize T host x p rep =
    Inr (True, p\<lparr>p_encapsulation := host, p_data := put_bytes ws (p_data p), p_length := of_nat (length ws)\<rparr>)"
  using assms by (simp add: codec_ok_def serialize_def)

lemma deserialize_written:
  assumes "codec_ok T v x ws" "length ws < 2 ^ 32" "length ws \<le> length buf" "p_length p = of_nat (length ws)"
    "p_data p = put_bytes ws buf"
  shows "\<exists>p1. deserialize T p y = Inr (True, p1, x)"
proof -
  have "unat (p_length p) = length ws" using assms(2,4) by (simp add: unat_length)
  moreover have "take (length ws) (put_bytes ws buf) = put_bytes ws (take (length ws) buf)"
    using put_bytes_split [OF assms(3)] assms(3) by simp
  moreover have "length (take (length ws) buf) = length ws" using assms(3) by simp
  ultimately show ?thesis using assms(1,5) unfolding codec_ok_def deserialize_def by fastforce
qed

lemma size_written:
  assumes "codec_ok T (version_of rep) x ws" "length ws < 2 ^ 32"
  shows "calculate_serialized_size T x rep = of_nat (length ws)" "unat (calculate_serialized_size T x rep) = length ws"
proof -
  show "calculate_serialized_size T x rep = of_nat (length ws)"
    using assms(1) by (simp add: codec_ok_def calculate_serialized_size_def of_nat_diff)
  then show "unat (calculate_serialized_size T x rep) = length ws" using assms(2) by (simp add: unat_length)
qed

section \<open>Keys\<close>

lemma key_buffer_run:
  assumes "fixed_keys T key" "0 < kMaxKeyCdrTypeSize T" "buf = m_keyBuffer (new_PubSubType T)"
    "m_keyBuffer ps = buf \<or> (\<exists>y. m_keyBuffer ps = put_bytes (key y) buf)"
  shows "\<exists>ps1. compute_keys T md5 xs ps =
    Inr (map (\<lambda>x. Some (if kMaxKeyCdrTypeSize T > 16 then take 16 (md5 (take (length (key x)) (put_bytes (key x) buf)))
                         else take 16 (put_bytes (key x) buf))) xs, ps1)"
  using assms(4)
proof (induction xs arbitrary: ps)
  case (Cons x xs)
  let ?ps = "ps\<lparr>m_keyBuffer := put_bytes (key x) buf\<rparr>"
  have "put_bytes (key x) (m_keyBuffer ps) = put_bytes (key x) buf"
    using Cons.prems assms(1) put_bytes_covers by (auto simp: fixed_keys_def)
  moreover have "m_keyBuffer ?ps = buf \<or> (\<exists>y. m_keyBuffer ?ps = put_bytes (key y) buf)" by auto
  from Cons.IH [OF this] obtain ps1 where "compute_keys T md5 xs ?ps =
    Inr (map (\<lambda>x. Some (if kMaxKeyCdrTypeSize T > 16 then take 16 (md5 (take (length (key x)) (put_bytes (key x) buf)))
                         else take 16 (put_bytes (key x) buf))) xs, ps1)" ..
  ultimately show ?case
    using assms(1,2) by (auto simp: compute_key_def ComputeKey_def fixed_keys_def Let_def)
qed simp

lemma short_key_buffer: "\<not> kMaxKeyCdrTypeSize T > 16 \<Longrightarrow> m_keyBuffer (new_PubSubType T) = replicate 16 0"
  by (simp add: new_PubSubType_def)

lemma type_size_mod: "unat (cdr_alignment k 4) = (4 - unat k mod 4) mod 4"
proof -
  have "cdr_alignment k 4 = take_bit 2 (4 - k mod 4)"
    by (simp add: cdr_alignment_def take_bit_eq_mask mask_eq_exp_minus_1)
  then have "unat (cdr_alignment k 4) = unat (4 - k mod 4) mod 4"
    by (simp only: unsigned_take_bit_eq) (simp add: take_bit_eq_mod)
  moreover have "k mod 4 \<le> 4" by (rule order_less_imp_le) (simp add: word_mod_less_divisor)
  then have "unat (4 - k mod 4) = 4 - unat (k mod 4)" by (simp add: unat_sub)
  ultimately show ?thesis by (simp add: unat_mod)
qed

lemma round_to_4: "k + (4 - k mod 4) mod 4 = (k + 3) div 4 * (4 :: nat)"
proof -
  obtain q r where k: "k = q * 4 + r" "r < 4" by (metis div_mult_mod_eq mod_less_divisor zero_less_numeral)
  then have "k mod 4 = r" by simp
  moreover have "r = 0 \<or> r = 1 \<or> r = 2 \<or> r = 3" using k(2) by linarith
  ultimately show ?thesis unfolding k(1) by auto
qed

text \<open>The maximal size is that of the type rounded up to a multiple of four, with the encapsulation, unless the 32-bit sum wraps.\<close>

lemma max_size_rounds:
  assumes "unat (kMaxCdrTypeSize T) + 7 < 2 ^ 32"
  shows "unat (max_serialized_type_size (new_PubSubType T)) = (unat (kMaxCdrTypeSize T) + 3) div 4 * 4 + 4"
proof -
  let ?k = "kMaxCdrTypeSize T"
  have "max_serialized_type_size (new_PubSubType T) = of_nat ((unat ?k + 3) div 4 * 4 + 4)"
    unfolding round_to_4 [symmetric] by (simp add: new_PubSubType_def Let_def type_size_mod [symmetric])
  moreover have "(unat ?k + 3) div 4 * 4 \<le> unat ?k + 3" by (rule div_times_less_eq_dividend)
  then have "(unat ?k + 3) div 4 * 4 + 4 < 2 ^ 32" using assms by linarith
  ultimately show ?thesis by (simp only: unat_length)
qed

section \<open>Properties\<close>

text \<open>
  C8. A payload of the calculated size takes the message and gives it back. For a message that Fast CDR writes as fewer
  than \<open>2^32\<close> bytes, the calculated size is the number of bytes; a payload succeeds exactly when it has this much room, its
  length is then the number of bytes, and it is read back as the message, whatever the receiving object held before; with
  less room \<open>serialize\<close> returns false and leaves the length of the payload as it was.
\<close>

theorem payload_roundtrip:
  assumes "codec_ok T (version_of rep) x ws" and "length ws < 2 ^ 32" and "length (p_data p) = unat (p_max_size p)"
  shows "unat (calculate_serialized_size T x rep) = length ws \<and>
    (if calculate_serialized_size T x rep \<le> p_max_size p
     then \<exists>p1 p2. serialize T host x p rep = Inr (True, p1) \<and> unat (p_length p1) = length ws \<and> deserialize T p1 y = Inr (True, p2, x)
     else \<exists>p1. serialize T host x p rep = Inr (False, p1) \<and> p_length p1 = p_length p)"
proof (cases "calculate_serialized_size T x rep \<le> p_max_size p")
  case True
  let ?p1 = "p\<lparr>p_encapsulation := host, p_data := put_bytes ws (p_data p), p_length := of_nat (length ws)\<rparr>"
  have fit: "length ws \<le> unat (p_max_size p)" using True size_written [OF assms(1,2)] by (simp add: word_le_nat_alt)
  moreover obtain p2 where "deserialize T ?p1 y = Inr (True, p2, x)"
    using deserialize_written [OF assms(1,2), of "p_data p" ?p1 y] fit assms(3) by auto
  ultimately show ?thesis
    using True serialize_fits [OF assms(1) fit, of host] size_written(2) [OF assms(1,2)] assms(2) by (simp add: unat_length)
next
  case False
  then have "\<not> length ws \<le> unat (p_max_size p)" using size_written [OF assms(1,2)] by (simp add: word_le_nat_alt)
  then obtain us where "cdr_put T (version_of rep) (unat (p_max_size p)) x = (us, Some NotEnoughMemory)"
    using assms(1) unfolding codec_ok_def by metis
  then show ?thesis using False size_written(2) [OF assms(1,2)] by (simp add: serialize_def)
qed

text \<open>A message type with one byte as its content and its key, written after four bytes of encapsulation and one that is skipped.\<close>

definition example_bytes :: "byte \<Rightarrow> byte option list" where
  "example_bytes x = [Some 0, Some 1, Some 0, Some 0, None, Some x]"

definition example_cdr :: "byte cdr" where
  "example_cdr = \<lparr>typeName = ''Byte'', kMaxCdrTypeSize = 2, kMaxKeyCdrTypeSize = 2,
     cdr_put = (\<lambda>v n x. if 6 \<le> n then (example_bytes x, None) else (take (min n 4) (example_bytes x), Some NotEnoughMemory)),
     cdr_size = (\<lambda>v x. Inr 2),
     cdr_encapsulation = (\<lambda>b. if length b < 4 then Inl NotEnoughMemory else if b ! 1 = 1 then Inr LITTLE_ENDIANNESS else Inl BadParam),
     cdr_get = (\<lambda>b y. if length b < 6 then (y, Some NotEnoughMemory) else (b ! 5, None)),
     cdr_put_key = (\<lambda>n x. ([None, Some x], None)), cdr_new = 0\<rparr>"

lemma example_codec: "codec_ok example_cdr v x (example_bytes x)"
proof -
  have "prefix (take (min n 4) (example_bytes x)) (example_bytes x)" for n by (rule take_is_prefix)
  moreover have "put_bytes (example_bytes x) buf ! 1 = 1" "put_bytes (example_bytes x) buf ! 5 = x" if "length buf = 6" for buf
    using that by (auto simp: example_bytes_def numeral_eq_Suc length_Suc_conv)
  moreover have "length (example_bytes x) = 6" by (simp add: example_bytes_def)
  ultimately show ?thesis unfolding codec_ok_def example_cdr_def by auto
qed

theorem payload_roundtrip_witness:
  "\<exists>p1 p2. serialize example_cdr LITTLE_ENDIANNESS 7 \<lparr>p_encapsulation = BIG_ENDIANNESS, p_length = 0, p_data = replicate 6 9, p_max_size = 6\<rparr>
       XCDR_DATA_REPRESENTATION = Inr (True, p1) \<and> unat (p_length p1) = 6 \<and> deserialize example_cdr p1 0 = Inr (True, p2, 7)"
proof -
  let ?p = "\<lparr>p_encapsulation = BIG_ENDIANNESS, p_length = 0, p_data = replicate 6 (9 :: byte), p_max_size = 6\<rparr>"
  have h: "length (example_bytes 7) < 2 ^ 32" "length (p_data ?p) = unat (p_max_size ?p)" by (simp_all add: example_bytes_def)
  have "calculate_serialized_size example_cdr 7 XCDR_DATA_REPRESENTATION = 6"
    by (simp add: calculate_serialized_size_def example_cdr_def)
  moreover have "length (example_bytes 7) = 6" by (simp add: example_bytes_def)
  ultimately show ?thesis
    using payload_roundtrip [OF example_codec h, of XCDR_DATA_REPRESENTATION LITTLE_ENDIANNESS 0] by simp
qed

text \<open>
  C17. The handle of an instance depends on its key alone, for a type whose key fields are at fixed places. However many keys
  one type support has computed before, a key of at most 16 bytes is the handle, filled up with zeros, and a longer one is
  represented by the digest of its bytes with zeros for the bytes skipped. Two messages with short keys have the same handle
  exactly when they have the same key.
\<close>

theorem key_handles:
  assumes "fixed_keys T key" and "0 < kMaxKeyCdrTypeSize T"
  shows "\<exists>ps handle. compute_keys T md5 xs (new_PubSubType T) = Inr (map (\<lambda>x. Some (handle x)) xs, ps) \<and>
    (if kMaxKeyCdrTypeSize T > 16
     then \<forall>x. handle x = take 16 (md5 (put_bytes (key x) (replicate (length (key x)) 0)))
     else (\<forall>x. handle x = put_bytes (key x) (replicate 16 0)) \<and> (\<forall>x y. handle x = handle y \<longleftrightarrow> key x = key y))"
proof -
  let ?buf = "m_keyBuffer (new_PubSubType T)"
  define handle where "handle = (\<lambda>x. if kMaxKeyCdrTypeSize T > 16 then take 16 (md5 (take (length (key x)) (put_bytes (key x) ?buf)))
    else take 16 (put_bytes (key x) ?buf))"
  obtain ps where run: "compute_keys T md5 xs (new_PubSubType T) = Inr (map (\<lambda>x. Some (handle x)) xs, ps)"
    using key_buffer_run [OF assms refl, of "new_PubSubType T"] by (auto simp: handle_def)
  have len: "length (key x) \<le> unat (kMaxKeyCdrTypeSize T)" "same_shape (key x) (key y)" for x y
    using assms(1) by (auto simp: fixed_keys_def)
  show ?thesis
  proof (cases "kMaxKeyCdrTypeSize T > 16")
    case True
    then have "?buf = replicate (unat (kMaxKeyCdrTypeSize T)) 0" by (simp add: new_PubSubType_def)
    then have "take (length (key x)) (put_bytes (key x) ?buf) = put_bytes (key x) (replicate (length (key x)) 0)" for x
      using put_bytes_split [of "key x" ?buf] len(1) [of x] by (simp add: min_absorb1)
    then show ?thesis using run True by (intro exI [of _ ps] exI [of _ handle] conjI) (simp_all add: handle_def)
  next
    case False
    then have "length (key x) \<le> 16" for x using len(1) [of x] by (simp add: word_less_nat_alt)
    then have "put_bytes (key x) (replicate 16 0) = put_bytes (key y) (replicate 16 0) \<longleftrightarrow> key x = key y" for x y
      using put_bytes_inj [OF len(2)] by simp
    then show ?thesis
      using run False by (intro exI [of _ ps] exI [of _ handle] conjI) (simp_all add: handle_def short_key_buffer)
  qed
qed

theorem key_handles_witness:
  "\<exists>ps. compute_keys example_cdr (\<lambda>b. b) [7, 3, 7] (new_PubSubType example_cdr) =
     Inr ([Some (0 # 7 # replicate 14 0), Some (0 # 3 # replicate 14 0), Some (0 # 7 # replicate 14 0)], ps)"
proof -
  have "fixed_keys example_cdr (\<lambda>x. [None, Some x])" "0 < kMaxKeyCdrTypeSize example_cdr" "\<not> kMaxKeyCdrTypeSize example_cdr > 16"
    by (simp_all add: fixed_keys_def same_shape_def example_cdr_def)
  from key_handles [OF this(1,2), of "\<lambda>b. b" "[7, 3, 7]"] this(3) obtain ps handle where
    "compute_keys example_cdr (\<lambda>b. b) [7, 3, 7] (new_PubSubType example_cdr) = Inr (map (\<lambda>x. Some (handle x)) [7, 3, 7], ps)"
    "\<forall>x. handle x = put_bytes [None, Some x] (replicate 16 0)" by (auto simp del: compute_keys.simps list.map)
  moreover have "replicate 16 (0 :: byte) = 0 # 0 # replicate 14 0" by (simp add: numeral_eq_Suc)
  ultimately show ?thesis by (simp del: compute_keys.simps)
qed

text \<open>
  C36. Keys of different lengths leave bytes behind. The key buffer is zeroed once, by the constructor. For a type whose keys
  have at most 16 bytes, such as a bounded string, computing the handle of a message, then that of a message with a longer key,
  and then the first one again gives two different handles for the same message, if the longer key has a byte other than zero
  beyond the end of the shorter one.
\<close>

theorem stale_key_bytes:
  assumes "0 < kMaxKeyCdrTypeSize T" and "kMaxKeyCdrTypeSize T \<le> 16"
    and "cdr_put_key T (unat (kMaxKeyCdrTypeSize T)) x = (map Some a, None)"
    and "cdr_put_key T (unat (kMaxKeyCdrTypeSize T)) y = (map Some b, None)"
    and "length b \<le> 16" and "length a \<le> k" and "k < length b" and "b ! k \<noteq> 0"
  shows "\<exists>h1 h2 h3 ps. compute_keys T md5 [x, y, x] (new_PubSubType T) = Inr ([Some h1, Some h2, Some h3], ps) \<and> h1 \<noteq> h3"
proof -
  have short: "\<not> kMaxKeyCdrTypeSize T > 16" using assms(2) by simp
  let ?z = "replicate 16 (0 :: byte)"
  let ?h1 = "put_bytes (map Some a) ?z" and ?h2 = "put_bytes (map Some b) (put_bytes (map Some a) ?z)"
  let ?h3 = "put_bytes (map Some a) ?h2"
  have "compute_keys T md5 [x, y, x] (new_PubSubType T) =
      Inr ([Some ?h1, Some ?h2, Some ?h3], (new_PubSubType T)\<lparr>m_keyBuffer := ?h3\<rparr>)"
    using assms(1,3,4) short by (simp add: compute_key_def ComputeKey_def short_key_buffer Let_def)
  moreover have "?h1 ! k = 0" "?h3 ! k = b ! k"
    using assms(5-7) by (auto simp: put_all_bytes nth_append less_diff_conv2)
  then have "?h1 \<noteq> ?h3" using assms(8) by auto
  ultimately show ?thesis by blast
qed

text \<open>The same type with a bounded string as its key.\<close>

definition string_key_cdr :: "byte list cdr" where
  "string_key_cdr = \<lparr>typeName = ''Name'', kMaxCdrTypeSize = 8, kMaxKeyCdrTypeSize = 8,
     cdr_put = (\<lambda>v n x. (map Some x, None)), cdr_size = (\<lambda>v x. Inr (length x)), cdr_encapsulation = (\<lambda>b. Inl BadParam),
     cdr_get = (\<lambda>b y. (y, Some BadParam)), cdr_put_key = (\<lambda>n x. if length x \<le> n then (map Some x, None) else ([], Some NotEnoughMemory)),
     cdr_new = []\<rparr>"

theorem stale_key_bytes_witness:
  "\<exists>h1 h2 h3 ps. compute_keys string_key_cdr (\<lambda>b. b) [[97], [97, 98], [97]] (new_PubSubType string_key_cdr) =
     Inr ([Some h1, Some h2, Some h3], ps) \<and> h1 \<noteq> h3"
  by (rule stale_key_bytes [where a = "[97]" and b = "[97, 98]" and k = 1]) (simp_all add: string_key_cdr_def)

end
