(* ===== verification/LT_ReactorPayload.thy ===== *)
theory LT_ReactorPayload
  imports LT_Reactor LT_PubSubType
begin

text \<open>
  Progress samples of a reactor with their serialization: \<open>Session::progress\<close> of \<^verbatim>\<open>ReactorServerImpl.hpp\<close> writes the sample with
  the type support into the bytes of a \<open>reactor_progress\<close>, the client's listener of \<^verbatim>\<open>ReactorClientImpl.hpp\<close> reads it back. Here
  the reactor of \<open>LT_Reactor\<close> and the type support of \<open>LT_PubSubType\<close> meet.
\<close>

text \<open>The bytes that are sent: a vector of the calculated size, filled by \<open>serialize\<close>, whose result nobody looks at; none for
  \<open>reactor_void_progress\<close>. \<open>rep\<close> is the constant \<open>DEFAULT_DATA_REPRESENTATION\<close> of Fast DDS, a parameter.\<close>

definition progress_payload :: "data_representation \<Rightarrow> 'p cdr \<Rightarrow> endianness \<Rightarrow> bool \<Rightarrow> 'p \<Rightarrow> cdr_exception + byte list" where
  "progress_payload rep T host void_type i_data =
     (if void_type then Inr []
      else
        let serSize = calculate_serialized_size T i_data rep;
            payloadWrapper = \<lparr>p_encapsulation = BIG_ENDIANNESS, p_length = 0, p_data = replicate (unat serSize) 0, p_max_size = serSize\<rparr>
        in case serialize T host i_data payloadWrapper rep of
             Inl e \<Rightarrow> Inl e
           | Inr (_, p) \<Rightarrow> Inr (p_data p))"

text \<open>The sample that is read: none if there are no bytes or they cannot be read.\<close>

definition progress_sample :: "'p cdr \<Rightarrow> byte list \<Rightarrow> cdr_exception + 'p option" where
  "progress_sample T bytes =
     (if length bytes > 0 then
        let serialized = \<lparr>p_encapsulation = LITTLE_ENDIANNESS, p_length = of_nat (length bytes), p_data = bytes, p_max_size = 0\<rparr>
        in case deserialize T serialized (cdr_new T) of
             Inl e \<Rightarrow> Inl e
           | Inr (haveData, _, sample) \<Rightarrow> Inr (if haveData then Some sample else None)
      else Inr None)"

text \<open>The serializer and the deserializer of the reactor where no exception is thrown.\<close>

definition payload_of :: "data_representation \<Rightarrow> 'p cdr \<Rightarrow> endianness \<Rightarrow> 'p \<Rightarrow> byte list" where
  "payload_of rep T host x = (case progress_payload rep T host False x of Inl e \<Rightarrow> [] | Inr b \<Rightarrow> b)"

definition sample_of :: "'p cdr \<Rightarrow> byte list \<Rightarrow> 'p option" where
  "sample_of T b = (case progress_sample T b of Inl e \<Rightarrow> None | Inr y \<Rightarrow> y)"

text \<open>Every sample has a representation of fewer than \<open>2^32\<close> bytes that Fast CDR reads back.\<close>

definition progress_codec :: "data_representation \<Rightarrow> 'p cdr \<Rightarrow> bool" where
  "progress_codec rep T \<longleftrightarrow> (\<forall>x. \<exists>ws. codec_ok T (version_of rep) x ws \<and> length ws < 2 ^ 32)"

lemma progress_roundtrip:
  assumes "progress_codec rep T"
  shows "\<exists>b. progress_payload rep T host False x = Inr b \<and> b \<noteq> [] \<and> progress_sample T b = Inr (Some x)"
proof -
  obtain ws where ws: "codec_ok T (version_of rep) x ws" "length ws < 2 ^ 32"
    using assms by (auto simp: progress_codec_def)
  have four: "4 \<le> length ws" using ws(1) by (simp add: codec_ok_def)
  let ?b = "put_bytes ws (replicate (length ws) 0)"
  have "progress_payload rep T host False x = Inr ?b"
    by (simp add: progress_payload_def Let_def serialize_fits [OF ws(1)] size_written(2) [OF ws])
  moreover have "length ?b = length ws" by simp
  moreover have "\<exists>p1. deserialize T \<lparr>p_encapsulation = LITTLE_ENDIANNESS, p_length = of_nat (length ?b), p_data = ?b, p_max_size = 0\<rparr> (cdr_new T) =
      Inr (True, p1, x)"
    by (rule deserialize_written [OF ws, of "replicate (length ws) 0"]) simp_all
  then have "progress_sample T ?b = Inr (Some x)" using four by (auto simp: progress_sample_def Let_def)
  moreover have "?b \<noteq> []" using four by (metis length_put_bytes length_replicate list.size(3) not_numeral_le_zero)
  ultimately show ?thesis by blast
qed

lemma payload_laws:
  assumes "progress_codec rep T"
  shows "sample_of T (payload_of rep T host x) = Some x" "payload_of rep T host x \<noteq> []"
  using progress_roundtrip [OF assms, of host x] by (auto simp: payload_of_def sample_of_def)

text \<open>
  C2. A session runs from the client's request to the reply, with its samples on the wire. The server's next session is the
  client's request with its identifier; after the server sends progress samples, serialized by the type support, and a reply,
  and the client has received what was sent, no serialization has thrown, the client reads the reply, the progress is
  \<open>PROG_SUCCESS\<close>, and the progress samples are handed out completely, lowest progress first. Of the sample type it is only asked
  that Fast CDR reads back what it wrote in fewer than \<open>2^32\<close> bytes.
\<close>

theorem reactor_session_end_to_end:
  assumes "progress_codec rep T" and "s_pending s = []" and "map_of (c_session c) (increment (c_lastId c)) = None"
    and "startNewSession req c = (i, out0, c1)"
    and "server_getPendingSession def_req (snd (server_on_request req i s)) = (out1, x, s1)"
    and "sv_progress_all (payload_of rep T host) x ms s1 = (out2, s2)" and "sv_reply x r s2 = (out3, s3)"
    and "c2 = fold (client_deliver (sample_of T)) (out1 @ out2 @ out3) c1"
  shows "sv_request x = req \<and> fst (client_get i c2) = Some (Some r) \<and> client_progress i c2 = PROG_SUCCESS \<and>
    (\<forall>(p, y) \<in> set ms. progress_payload rep T host False y = Inr (payload_of rep T host y) \<and>
       progress_sample T (payload_of rep T host y) = Inr (Some y)) \<and>
    (\<exists>ys. mset ys = mset ms \<and> sorted (map fst ys) \<and> retrieve (length ms) i c2 = map (Some \<circ> snd) ys)"
proof -
  have "progress_payload rep T host False y = Inr (payload_of rep T host y) \<and> progress_sample T (payload_of rep T host y) = Inr (Some y)" for y
    using progress_roundtrip [OF assms(1), of host y] by (auto simp: payload_of_def)
  with session_end_to_end [OF payload_laws [OF assms(1)] assms(2-8)] show ?thesis by auto
qed

theorem reactor_session_end_to_end_witness:
  "\<exists>i out0 c1 out1 x s1 out2 s2 out3 s3.
     startNewSession (3::nat) (new_client (Guid (replicate 16 1) 0)) = (i, out0, c1) \<and>
     server_getPendingSession 0 (snd (server_on_request (3::nat) i new_server)) = (out1, x, s1) \<and>
     sv_progress_all (payload_of XCDR_DATA_REPRESENTATION example_cdr LITTLE_ENDIANNESS) x [(20, 4), (10, 5)] s1 = (out2, s2) \<and>
     sv_reply x (9::nat) s2 = (out3, s3) \<and>
     fst (client_get i (fold (client_deliver (sample_of example_cdr)) (out1 @ out2 @ out3) c1)) = Some (Some 9)"
proof -
  obtain i out0 and c1 :: "(nat, byte) client" where
    a: "startNewSession (3::nat) (new_client (Guid (replicate 16 1) 0)) = (i, out0, c1)"
    by (metis prod_cases3)
  obtain out1 :: "nat server_msg list" and x s1 where b: "server_getPendingSession 0 (snd (server_on_request (3::nat) i new_server)) = (out1, x, s1)"
    by (metis prod_cases3)
  obtain out2 :: "nat server_msg list" and s2 where
    e: "sv_progress_all (payload_of XCDR_DATA_REPRESENTATION example_cdr LITTLE_ENDIANNESS) x [(20, 4), (10, 5)] s1 = (out2, s2)" by fastforce
  obtain out3 s3 where f: "sv_reply x (9::nat) s2 = (out3, s3)" by fastforce
  have codec: "progress_codec XCDR_DATA_REPRESENTATION example_cdr"
    unfolding progress_codec_def by (intro allI exI conjI, rule example_codec) (simp add: example_bytes_def)
  have h: "s_pending (new_server :: nat server) = []"
    "map_of (c_session (new_client (Guid (replicate 16 1) 0) :: (nat, byte) client))
       (increment (c_lastId (new_client (Guid (replicate 16 1) 0) :: (nat, byte) client))) = None"
    by (simp_all add: new_server_def new_client_def)
  from reactor_session_end_to_end [OF codec h a b e f refl] a b e f show ?thesis by blast
qed

end
