(* ===== verification/LT_ActiveObject.thy ===== *)
theory LT_ActiveObject
  imports LT_Prelude
begin

text \<open>
  The work thread of \<^verbatim>\<open>src/LetsTalk/ActiveObject.hpp\<close> and \<^verbatim>\<open>ActiveObject.cpp\<close>. A job is a list of actions;
  the ones that matter here are the jobs it submits itself. The mutex of the work queue is a field of the state: the work
  thread locks it at the start of each round and keeps it while a job runs, \<open>submitJob\<close> locks it for its one access. It is a
  \<open>std::mutex\<close>, which nobody can lock while it is locked, not even the thread that did.
\<close>

section \<open>Threads and jobs\<close>

datatype 'j action = Act 'j | Submit "'j job"
and 'j job = Job 'j "'j action list"

text \<open>The work thread: not started, at the loop test, past the test and about to lock the mutex, looking at the queue,
  running the front job with the given remaining actions, out of the loop and about to lock the mutex, looking at the
  queue in the final drain, running a job of it, or done.\<close>

datatype 'j worker =
    No_thread | Testing | Entered | Looking | Running "'j action list"
  | Leaving | Draining | Drain_job "'j action list" | Ended

record 'j active =
  m_work :: "'j job list"
  m_mutex :: bool
  m_keepAlive :: bool
  m_workThread :: "'j worker"
  submitted :: "'j job list"
  finished :: "'j job list"
  effects :: "'j list"

fun job_actions :: "'j job \<Rightarrow> 'j action list" where
  "job_actions (Job j as) = as"

definition isWorking :: "'j active \<Rightarrow> bool" where
  "isWorking s = m_keepAlive s"

definition startWork :: "'j active \<Rightarrow> 'j active" where
  "startWork s = (if m_keepAlive s then s else s\<lparr>m_keepAlive := True, m_workThread := Testing\<rparr>)"

text \<open>The constructor.\<close>

definition new_ActiveObject :: "'j active" where
  "new_ActiveObject = startWork
     \<lparr>m_work = [], m_mutex = False, m_keepAlive = False, m_workThread = No_thread, submitted = [], finished = [], effects = []\<rparr>"

text \<open>\<open>submitJob\<close> once it has the mutex.\<close>

definition submitJob :: "'j job \<Rightarrow> 'j active \<Rightarrow> 'j active" where
  "submitJob i_job s = s\<lparr>m_work := m_work s @ [i_job], submitted := submitted s @ [i_job]\<rparr>"

definition stopWork_request :: "'j active \<Rightarrow> 'j active" where
  "stopWork_request s = s\<lparr>m_keepAlive := False\<rparr>"

definition stopWork_join :: "'j active \<Rightarrow> 'j active" where
  "stopWork_join s = s\<lparr>m_workThread := No_thread\<rparr>"

definition pop_job :: "'j active \<Rightarrow> 'j active" where
  "pop_job s = s\<lparr>m_work := tl (m_work s), finished := finished s @ [hd (m_work s)]\<rparr>"

text \<open>The steps of the work thread. A job that submits a job asks for the mutex like everyone else.\<close>

inductive work_step :: "'j active \<Rightarrow> 'j active \<Rightarrow> bool" where
  enter: "m_workThread s = Testing \<Longrightarrow> m_keepAlive s \<Longrightarrow> work_step s (s\<lparr>m_workThread := Entered\<rparr>)"
| lock: "m_workThread s = Entered \<Longrightarrow> \<not> m_mutex s \<Longrightarrow> work_step s (s\<lparr>m_workThread := Looking, m_mutex := True\<rparr>)"
| take: "m_workThread s = Looking \<Longrightarrow> m_work s = j # js \<Longrightarrow>
    work_step s (s\<lparr>m_workThread := Running (job_actions j)\<rparr>)"
| sleep: "m_workThread s = Looking \<Longrightarrow> m_work s = [] \<Longrightarrow> work_step s (s\<lparr>m_workThread := Testing, m_mutex := False\<rparr>)"
| run: "m_workThread s = Running (Act a # as) \<Longrightarrow>
    work_step s (s\<lparr>m_workThread := Running as, effects := effects s @ [a]\<rparr>)"
| run_submit: "m_workThread s = Running (Submit j # as) \<Longrightarrow> \<not> m_mutex s \<Longrightarrow>
    work_step s (submitJob j (s\<lparr>m_workThread := Running as\<rparr>))"
| finish: "m_workThread s = Running [] \<Longrightarrow> work_step s (pop_job (s\<lparr>m_workThread := Testing, m_mutex := False\<rparr>))"
| leave: "m_workThread s = Testing \<Longrightarrow> \<not> m_keepAlive s \<Longrightarrow> work_step s (s\<lparr>m_workThread := Leaving\<rparr>)"
| drain_lock: "m_workThread s = Leaving \<Longrightarrow> \<not> m_mutex s \<Longrightarrow> work_step s (s\<lparr>m_workThread := Draining, m_mutex := True\<rparr>)"
| drain: "m_workThread s = Draining \<Longrightarrow> m_work s = j # js \<Longrightarrow>
    work_step s (s\<lparr>m_workThread := Drain_job (job_actions j)\<rparr>)"
| drain_run: "m_workThread s = Drain_job (Act a # as) \<Longrightarrow>
    work_step s (s\<lparr>m_workThread := Drain_job as, effects := effects s @ [a]\<rparr>)"
| drain_submit: "m_workThread s = Drain_job (Submit j # as) \<Longrightarrow> \<not> m_mutex s \<Longrightarrow>
    work_step s (submitJob j (s\<lparr>m_workThread := Drain_job as\<rparr>))"
| drain_done: "m_workThread s = Drain_job [] \<Longrightarrow> work_step s (pop_job (s\<lparr>m_workThread := Draining\<rparr>))"
| ended: "m_workThread s = Draining \<Longrightarrow> m_work s = [] \<Longrightarrow> work_step s (s\<lparr>m_workThread := Ended, m_mutex := False\<rparr>)"

text \<open>Steps of the whole object: the work thread's, and those of the threads that use it. A thread
  starts the work again only after the old thread was joined.\<close>

inductive ao_step :: "'j active \<Rightarrow> 'j active \<Rightarrow> bool" where
  work: "work_step s s' \<Longrightarrow> ao_step s s'"
| submit: "\<not> m_mutex s \<Longrightarrow> ao_step s (submitJob j s)"
| start: "m_keepAlive s \<or> m_workThread s = No_thread \<Longrightarrow> ao_step s (startWork s)"
| stop: "ao_step s (stopWork_request s)"
| join: "\<not> m_keepAlive s \<Longrightarrow> m_workThread s = Ended \<Longrightarrow> ao_step s (stopWork_join s)"

inductive_cases work_stepE: "work_step s s'"
inductive_cases ao_stepE: "ao_step s s'"

lemma work_step_deterministic: "work_step s t \<Longrightarrow> work_step s u \<Longrightarrow> t = u"
  by (induction rule: work_step.induct) (erule work_stepE; simp)+

section \<open>Invariants\<close>

text \<open>The actions that the running job still has to do.\<close>

fun running :: "'j worker \<Rightarrow> 'j action list option" where
  "running (Running as) = Some as"
| "running (Drain_job as) = Some as"
| "running _ = None"

definition holds_mutex :: "'j worker \<Rightarrow> bool" where
  "holds_mutex w \<longleftrightarrow> w = Looking \<or> w = Draining \<or> running w \<noteq> None"

text \<open>What was submitted is what is finished followed by what is queued; the job that runs is the
  front of the queue and its remaining actions are an end segment of its actions; the mutex is locked exactly while the
  work thread is in a critical section.\<close>

definition ao_inv :: "'j active \<Rightarrow> bool" where
  "ao_inv s \<longleftrightarrow> submitted s = finished s @ m_work s \<and> m_mutex s = holds_mutex (m_workThread s) \<and>
     (m_keepAlive s \<longrightarrow> m_workThread s \<notin> {No_thread, Ended, Leaving, Draining} \<union> range Drain_job) \<and>
     (\<forall>as. running (m_workThread s) = Some as \<longrightarrow> m_work s \<noteq> [] \<and> suffix as (job_actions (hd (m_work s))))"

abbreviation act_only :: "'j action list \<Rightarrow> bool" where
  "act_only \<equiv> list_all (\<lambda>a. case a of Act _ \<Rightarrow> True | Submit _ \<Rightarrow> False)"

definition plain :: "'j job \<Rightarrow> bool" where
  "plain j \<longleftrightarrow> act_only (job_actions j)"

fun act_names :: "'j action list \<Rightarrow> 'j list" where
  "act_names [] = []"
| "act_names (Act a # as) = a # act_names as"
| "act_names (Submit j # as) = act_names as"

abbreviation job_names :: "'j job \<Rightarrow> 'j list" where
  "job_names j \<equiv> act_names (job_actions j)"

text \<open>What the actions did so far: those of the finished jobs, and of the running job all but the
  ones that remain.\<close>

definition eff_inv :: "'j active \<Rightarrow> bool" where
  "eff_inv s \<longleftrightarrow>
     (case running (m_workThread s) of
        Some as \<Rightarrow> effects s @ act_names as = concat (map job_names (finished s)) @ job_names (hd (m_work s))
      | None \<Rightarrow> effects s = concat (map job_names (finished s)))"

lemma ao_inv_new: "ao_inv new_ActiveObject" "eff_inv new_ActiveObject"
  by (auto simp: ao_inv_def eff_inv_def new_ActiveObject_def startWork_def holds_mutex_def)

text \<open>A job that submits cannot be at work with the mutex free.\<close>

lemma submit_blocked: "ao_inv s \<Longrightarrow> running (m_workThread s) = Some as \<Longrightarrow> m_mutex s"
  by (simp add: ao_inv_def holds_mutex_def)

lemma ao_inv_work:
  assumes "work_step s s'" "ao_inv s" "eff_inv s"
  shows "ao_inv s' \<and> eff_inv s'"
  using assms(1)
proof cases
  case (run_submit j as)
  then show ?thesis using submit_blocked [OF assms(2)] by simp
next
  case (drain_submit j as)
  then show ?thesis using submit_blocked [OF assms(2)] by simp
qed (use assms(2,3) in \<open>auto simp: ao_inv_def eff_inv_def holds_mutex_def pop_job_def neq_Nil_conv dest: suffix_ConsD\<close>)

lemma ao_inv_step:
  assumes "ao_step s s'" "ao_inv s" "eff_inv s"
  shows "ao_inv s' \<and> eff_inv s'"
  using assms(1)
proof cases
  case work
  then show ?thesis using assms(2,3) by (rule ao_inv_work)
next
  case (submit j)
  then have "running (m_workThread s) = None" using submit_blocked [OF assms(2)] by fastforce
  then show ?thesis using assms(2,3) submit by (simp add: ao_inv_def eff_inv_def submitJob_def)
next
  case start
  then show ?thesis
    using assms(2,3) by (auto simp: ao_inv_def eff_inv_def startWork_def holds_mutex_def)
qed (use assms(2,3) in \<open>auto simp: ao_inv_def eff_inv_def stopWork_request_def stopWork_join_def holds_mutex_def\<close>)

lemma ao_reachable: "ao_step\<^sup>*\<^sup>* new_ActiveObject s \<Longrightarrow> ao_inv s \<and> eff_inv s"
  by (induction rule: rtranclp_induct) (auto simp: ao_inv_new dest: ao_inv_step)

lemmas ao_inv_reachable = ao_reachable [THEN conjunct1]
lemmas eff_inv_reachable = ao_reachable [THEN conjunct2]

lemma work_reachable: "work_step\<^sup>*\<^sup>* s s' \<Longrightarrow> ao_step\<^sup>*\<^sup>* s s'"
  by (induction rule: rtranclp_induct) (auto intro: ao_step.work rtranclp.rtrancl_into_rtrancl)

lemma effects_prefix:
  assumes "ao_step\<^sup>*\<^sup>* new_ActiveObject s"
  shows "prefix (effects s) (concat (map job_names (submitted s)))"
proof -
  have i: "ao_inv s" "eff_inv s" using ao_reachable [OF assms] by simp_all
  have sub: "submitted s = finished s @ m_work s" using i(1) by (simp add: ao_inv_def)
  show ?thesis
  proof (cases "running (m_workThread s)")
    case None
    then show ?thesis using i(2) by (simp add: sub eff_inv_def)
  next
    case (Some as)
    then obtain j js where w: "m_work s = j # js" using i(1) by (auto simp: ao_inv_def neq_Nil_conv)
    have "effects s @ act_names as = concat (map job_names (finished s)) @ job_names j"
      using i(2) Some w by (simp add: eff_inv_def)
    then have "concat (map job_names (submitted s)) = effects s @ act_names as @ concat (map job_names js)"
      by (simp add: sub w)
    then show ?thesis by (rule prefixI)
  qed
qed

section \<open>Progress\<close>

text \<open>The rounds that are left: for each queued job its actions and the steps around them.\<close>

definition left_over :: "'j job list \<Rightarrow> nat" where
  "left_over js = (\<Sum>j \<leftarrow> js. length (job_actions j) + 20)"

lemma left_over_simps [simp]:
  "left_over [] = 0" "left_over (j # js) = length (job_actions j) + 20 + left_over js"
  by (simp_all add: left_over_def)

definition to_do :: "'j active \<Rightarrow> nat" where
  "to_do s =
     (case m_workThread s of
        Entered \<Rightarrow> left_over (m_work s) + 8
      | Looking \<Rightarrow> left_over (m_work s) + 7
      | Testing \<Rightarrow> if \<not> m_keepAlive s then left_over (m_work s) + 4 else if m_work s = [] then 0 else left_over (m_work s) + 9
      | Running as \<Rightarrow> left_over (tl (m_work s)) + length as + 10
      | Leaving \<Rightarrow> left_over (m_work s) + 3
      | Draining \<Rightarrow> left_over (m_work s) + 2
      | Drain_job as \<Rightarrow> left_over (tl (m_work s)) + length as + 5
      | _ \<Rightarrow> 0)"

text \<open>Nothing is left: the thread is at its loop test with an empty queue, or has ended.\<close>

definition idle :: "'j active \<Rightarrow> bool" where
  "idle s \<longleftrightarrow> m_work s = [] \<and> m_workThread s = (if m_keepAlive s then Testing else Ended)"

definition at_work :: "'j active \<Rightarrow> bool" where
  "at_work s \<longleftrightarrow> ao_inv s \<and> eff_inv s \<and> list_all plain (m_work s) \<and> m_workThread s \<noteq> No_thread \<and> m_workThread s \<noteq> Ended"

lemma plain_running:
  assumes "at_work s" "running (m_workThread s) = Some as"
  shows "as = [] \<or> (\<exists>a bs. as = Act a # bs)"
proof -
  obtain j js where "m_work s = j # js" "suffix as (job_actions j)" "plain j"
    using assms by (auto simp: at_work_def ao_inv_def neq_Nil_conv)
  then have "act_only as" by (auto simp: plain_def suffix_def)
  then show ?thesis by (cases as) (auto split: action.splits)
qed

text \<open>A thread that has something to do and whose jobs submit no jobs takes a step.\<close>

lemma work_enabled:
  assumes "at_work s" "\<not> idle s"
  shows "\<exists>t. work_step s t"
proof -
  have mutex: "m_mutex s = holds_mutex (m_workThread s)" using assms(1) by (simp add: at_work_def ao_inv_def)
  show ?thesis
  proof (cases "m_workThread s")
    case Testing
    then show ?thesis using work_step.enter [of s] work_step.leave [of s] by blast
  next
    case Entered
    then show ?thesis using work_step.lock [of s] mutex by (auto simp: holds_mutex_def)
  next
    case Looking
    then show ?thesis using work_step.take [of s] work_step.sleep [of s] by (cases "m_work s") auto
  next
    case (Running as)
    then show ?thesis
      using plain_running [OF assms(1), of as] work_step.run [of s] work_step.finish [of s] by auto
  next
    case Leaving
    then show ?thesis using work_step.drain_lock [of s] mutex by (auto simp: holds_mutex_def)
  next
    case Draining
    then show ?thesis using work_step.drain [of s] work_step.ended [of s] by (cases "m_work s") auto
  next
    case (Drain_job as)
    then show ?thesis
      using plain_running [OF assms(1), of as] work_step.drain_run [of s] work_step.drain_done [of s] by auto
  qed (use assms(1) in \<open>simp_all add: at_work_def\<close>)
qed

lemma work_decreases:
  assumes "work_step s t" "at_work s" "\<not> idle s"
  shows "to_do t < to_do s \<and> submitted t = submitted s \<and> m_keepAlive t = m_keepAlive s \<and> (at_work t \<or> idle t)"
proof -
  have inv: "ao_inv t" "eff_inv t" using ao_inv_work [OF assms(1)] assms(2) by (simp_all add: at_work_def)
  have blocked: "m_mutex s" if "running (m_workThread s) = Some as" for as
    using submit_blocked that assms(2) by (auto simp: at_work_def)
  have next_job: "\<exists>j js. m_work s = j # js" if "running (m_workThread s) = Some as" for as
    using that assms(2) by (auto simp: at_work_def ao_inv_def neq_Nil_conv)
  show ?thesis
    using assms(1)
  proof cases
    case (run_submit j as)
    then show ?thesis using blocked by simp
  next
    case (drain_submit j as)
    then show ?thesis using blocked by simp
  next
    case finish
    then obtain j js where "m_work s = j # js" using next_job [of "[]"] by auto
    then show ?thesis using assms(2) inv finish by (auto simp: at_work_def to_do_def pop_job_def)
  next
    case drain_done
    then obtain j js where "m_work s = j # js" using next_job [of "[]"] by auto
    then show ?thesis using assms(2) inv drain_done by (auto simp: at_work_def to_do_def pop_job_def)
  qed (use assms(2,3) inv in \<open>auto simp: at_work_def to_do_def idle_def ao_inv_def\<close>)
qed

lemma work_to_idle:
  "at_work s \<or> idle s \<Longrightarrow> \<exists>t. work_step\<^sup>*\<^sup>* s t \<and> idle t \<and> submitted t = submitted s \<and> m_keepAlive t = m_keepAlive s"
proof (induction "to_do s" arbitrary: s rule: less_induct)
  case less
  show ?case
  proof (cases "idle s")
    case False
    then obtain t where t: "work_step s t" using less.prems work_enabled by blast
    then obtain u where "work_step\<^sup>*\<^sup>* t u" "idle u" "submitted u = submitted s" "m_keepAlive u = m_keepAlive s"
      using work_decreases [OF t] less False by metis
    then show ?thesis using t by (meson converse_rtranclp_into_rtranclp)
  qed blast
qed

text \<open>The thread has no choice: of two runs from one state one continues the other.\<close>

lemma work_confluent: "work_step\<^sup>*\<^sup>* s t \<Longrightarrow> work_step\<^sup>*\<^sup>* s u \<Longrightarrow> work_step\<^sup>*\<^sup>* t u \<or> work_step\<^sup>*\<^sup>* u t"
proof (induction rule: rtranclp_induct)
  case (step t t')
  from step.IH [OF step.prems] show ?case
  proof
    assume "work_step\<^sup>*\<^sup>* t u"
    then show ?thesis
    proof (cases rule: converse_rtranclpE)
      case base
      then show ?thesis using step.hyps(2) by blast
    next
      case (step t1)
      then show ?thesis using work_step_deterministic \<open>work_step t t'\<close> by metis
    qed
  next
    assume "work_step\<^sup>*\<^sup>* u t"
    then show ?thesis using step.hyps(2) by (meson rtranclp.rtrancl_into_rtrancl)
  qed
qed simp

text \<open>The work thread does all that was submitted, whatever it is doing now and whether or not it has been told to stop.\<close>

lemma runs_all:
  assumes "ao_step\<^sup>*\<^sup>* new_ActiveObject s" "m_workThread s \<noteq> No_thread" "m_workThread s \<noteq> Ended" "list_all plain (m_work s)"
  shows "\<exists>t. work_step\<^sup>*\<^sup>* s t \<and> idle t \<and> finished t = submitted s \<and> effects t = concat (map job_names (submitted s)) \<and>
    m_keepAlive t = m_keepAlive s \<and> (\<forall>u. work_step\<^sup>*\<^sup>* s u \<longrightarrow> work_step\<^sup>*\<^sup>* u t \<or> work_step\<^sup>*\<^sup>* t u)"
proof -
  have "at_work s" using ao_reachable [OF assms(1)] assms(2-4) by (simp add: at_work_def)
  then obtain t where t: "work_step\<^sup>*\<^sup>* s t" "idle t" "submitted t = submitted s" "m_keepAlive t = m_keepAlive s"
    using work_to_idle by blast
  have "ao_step\<^sup>*\<^sup>* new_ActiveObject t" using assms(1) work_reachable [OF t(1)] by simp
  then have "ao_inv t" "eff_inv t" using ao_reachable by blast+
  moreover have "running (m_workThread t) = None" using t(2) by (simp add: idle_def split: if_splits)
  ultimately show ?thesis
    using t work_confluent [OF t(1)] by (intro exI [of _ t]) (auto simp: ao_inv_def eff_inv_def idle_def)
qed

lemma submit_all_reachable:
  "ao_step\<^sup>*\<^sup>* new_ActiveObject (fold submitJob js new_ActiveObject) \<and>
   m_workThread (fold submitJob js (new_ActiveObject :: 'j active)) = Testing \<and> m_keepAlive (fold submitJob js (new_ActiveObject :: 'j active)) \<and>
   submitted (fold submitJob js (new_ActiveObject :: 'j active)) = js"
proof (induction js rule: rev_induct)
  case Nil
  then show ?case by (simp add: new_ActiveObject_def startWork_def)
next
  case (snoc j js)
  let ?s = "fold submitJob js (new_ActiveObject :: 'j active)"
  have "\<not> m_mutex ?s" using ao_inv_reachable [of ?s] snoc by (auto simp: ao_inv_def holds_mutex_def)
  then have "ao_step ?s (submitJob j ?s)" by (intro ao_step.submit)
  then have "ao_step\<^sup>*\<^sup>* new_ActiveObject (submitJob j ?s)" using snoc by (meson rtranclp.rtrancl_into_rtrancl)
  then show ?case using snoc by (simp add: submitJob_def [of j ?s])
qed

section \<open>A job that submits\<close>

lemma blocked_step:
  assumes "ao_step s s'" "m_mutex s" "running (m_workThread s) = Some (Submit j # as)"
  shows "m_mutex s' \<and> m_workThread s' = m_workThread s \<and> m_work s' = m_work s \<and> submitted s' = submitted s \<and>
    finished s' = finished s \<and> effects s' = effects s"
  using assms
  by (cases rule: ao_step.cases) (auto simp: startWork_def stopWork_request_def elim: work_stepE)

section \<open>Properties\<close>

text \<open>
  C5. Jobs run one at a time in the order of submission, each exactly once. In every state the object
  can reach, the finished jobs followed by the queued ones are exactly the submitted ones. What has been done is what the finished jobs
  do, in order and once, and of the oldest job that is not finished, if it is running, what it does up to the actions that remain.
\<close>

theorem jobs_in_order:
  assumes "ao_step\<^sup>*\<^sup>* new_ActiveObject s"
  shows "submitted s = finished s @ m_work s \<and>
    (case running (m_workThread s) of
       None \<Rightarrow> effects s = concat (map (\<lambda>j. act_names (job_actions j)) (finished s))
     | Some as \<Rightarrow> \<exists>j js. m_work s = j # js \<and> suffix as (job_actions j) \<and>
         effects s @ act_names as = concat (map (\<lambda>j. act_names (job_actions j)) (finished s)) @ act_names (job_actions j))"
  using ao_reachable [OF assms] by (auto simp: ao_inv_def eff_inv_def neq_Nil_conv split: option.splits)

definition two_jobs :: "nat active" where
  "two_jobs = fold submitJob [Job 1 [Act 1], Job 2 [Act 2]] new_ActiveObject"

lemma two_jobs_reachable: "ao_step\<^sup>*\<^sup>* new_ActiveObject two_jobs"
  unfolding two_jobs_def using submit_all_reachable by blast

text \<open>The first job is running and has done its action.\<close>

definition first_job :: "nat active" where
  "first_job = two_jobs\<lparr>m_mutex := True, m_workThread := Running [], effects := [1]\<rparr>"

lemma two_jobs_simps:
  "m_work two_jobs = [Job 1 [Act 1], Job 2 [Act 2]]" "submitted two_jobs = [Job 1 [Act 1], Job 2 [Act 2]]"
  "m_workThread two_jobs = Testing" "m_keepAlive two_jobs" "\<not> m_mutex two_jobs" "effects two_jobs = []"
  by (simp_all add: two_jobs_def submitJob_def new_ActiveObject_def startWork_def)

lemma first_job_reachable: "ao_step\<^sup>*\<^sup>* new_ActiveObject first_job"
proof -
  let ?s1 = "two_jobs\<lparr>m_workThread := Entered\<rparr>" and ?s2 = "two_jobs\<lparr>m_workThread := Looking, m_mutex := True\<rparr>"
  let ?s3 = "two_jobs\<lparr>m_mutex := True, m_workThread := Running [Act 1]\<rparr>"
  have "work_step two_jobs ?s1" by (rule work_step.enter) (simp_all add: two_jobs_simps)
  moreover have "work_step ?s1 ?s2" using work_step.lock [of ?s1] by (simp add: two_jobs_simps)
  moreover have "work_step ?s2 ?s3" using work_step.take [of ?s2 "Job 1 [Act 1]" "[Job 2 [Act 2]]"] by (simp add: two_jobs_simps)
  moreover have "work_step ?s3 first_job" using work_step.run [of ?s3 1 "[]"] by (simp add: two_jobs_simps first_job_def)
  ultimately have "work_step\<^sup>*\<^sup>* two_jobs first_job" by (meson converse_rtranclp_into_rtranclp rtranclp.rtrancl_refl)
  then show ?thesis using two_jobs_reachable work_reachable by (meson rtranclp_trans)
qed

theorem jobs_in_order_witness:
  "submitted first_job = finished first_job @ m_work first_job \<and> length (m_work first_job) = 2 \<and>
   effects first_job @ act_names [] = concat (map (\<lambda>j. act_names (job_actions j)) (finished first_job)) @ act_names [Act 1]"
  using jobs_in_order [OF first_job_reachable] by (auto simp: first_job_def two_jobs_simps)

text \<open>
  C6. Stopping loses no job that submits none. Wherever the work thread is when it is told to stop, as long as it has not ended and none of
  the queued jobs submits a job, it ends by itself, with nothing queued and the mutex free for the join, after having run every job submitted so far. What was done is what all
  the submitted jobs do, in the order of submission. The work thread does this, in whatever state it is seen on the way, where the
  comment on \<open>stopWork\<close> speaks of the thread of the caller.
\<close>

theorem stop_drains_jobs:
  assumes "ao_step\<^sup>*\<^sup>* new_ActiveObject s" and "\<not> m_keepAlive s" and "m_workThread s \<noteq> No_thread"
    and "m_workThread s \<noteq> Ended" and "list_all plain (m_work s)"
  shows "\<exists>t. m_workThread t = Ended \<and> m_work t = [] \<and> \<not> m_mutex t \<and> finished t = submitted s \<and>
    effects t = concat (map (\<lambda>j. act_names (job_actions j)) (submitted s)) \<and>
    (\<forall>u. work_step\<^sup>*\<^sup>* s u \<longrightarrow> work_step\<^sup>*\<^sup>* u t)"
proof -
  obtain t where t: "work_step\<^sup>*\<^sup>* s t" "idle t" "finished t = submitted s" "effects t = concat (map job_names (submitted s))"
    "m_keepAlive t = m_keepAlive s" "\<And>u. work_step\<^sup>*\<^sup>* s u \<Longrightarrow> work_step\<^sup>*\<^sup>* u t \<or> work_step\<^sup>*\<^sup>* t u"
    using runs_all [OF assms(1,3-5)] by blast
  have "m_workThread t = Ended" "m_work t = []" using t(2,5) assms(2) by (simp_all add: idle_def)
  moreover have "ao_inv t" using ao_inv_reachable [OF rtranclp_trans [OF assms(1) work_reachable [OF t(1)]]] .
  moreover have "u = t" if "work_step\<^sup>*\<^sup>* t u" for u
    using that \<open>m_workThread t = Ended\<close> by (cases rule: converse_rtranclpE) (auto elim: work_stepE)
  ultimately show ?thesis using t by (intro exI [of _ t]) (auto simp: ao_inv_def holds_mutex_def)
qed

theorem stop_drains_jobs_witness:
  "\<exists>s t :: nat active. ao_step\<^sup>*\<^sup>* new_ActiveObject s \<and> work_step\<^sup>*\<^sup>* s t \<and> m_workThread t = Ended \<and>
     finished t = [Job 1 [Act 1], Job 2 [Act 2]] \<and> effects t = [1, 2]"
proof -
  let ?s = "stopWork_request two_jobs"
  have r: "ao_step\<^sup>*\<^sup>* new_ActiveObject ?s"
    using two_jobs_reachable ao_step.stop [of two_jobs] by (rule rtranclp.rtrancl_into_rtrancl)
  have w: "m_work ?s = [Job 1 [Act 1], Job 2 [Act 2]]" "submitted ?s = [Job 1 [Act 1], Job 2 [Act 2]]"
    "m_workThread ?s = Testing" "\<not> m_keepAlive ?s"
    by (simp_all add: stopWork_request_def two_jobs_simps)
  then have "list_all plain (m_work ?s)" by (simp add: plain_def)
  from stop_drains_jobs [OF r _ _ _ this] r w show ?thesis by auto
qed

text \<open>
  C40. A job that submits a job deadlocks the object. The work thread holds the mutex while it runs a job, so when the job it runs is
  about to submit a job, it waits for the mutex it holds: whatever the other threads do from then on, the mutex stays locked, the thread has no step, no job
  is added, no job finishes and a stop that is asked for never completes.
\<close>

theorem submit_from_job_deadlocks:
  assumes "ao_step\<^sup>*\<^sup>* new_ActiveObject s" and "m_workThread s = Running (Submit j # as) \<or> m_workThread s = Drain_job (Submit j # as)"
    and "ao_step\<^sup>*\<^sup>* s s'"
  shows "m_mutex s' \<and> (\<forall>t. \<not> work_step s' t) \<and> submitted s' = submitted s \<and> finished s' = finished s \<and> m_workThread s' \<noteq> Ended"
proof -
  have r: "running (m_workThread s) = Some (Submit j # as)" using assms(2) by auto
  have m: "m_mutex s" using submit_blocked [OF ao_inv_reachable [OF assms(1)] r] .
  from assms(3) have s': "m_mutex s' \<and> m_workThread s' = m_workThread s \<and> submitted s' = submitted s \<and> finished s' = finished s"
  proof (induction rule: rtranclp_induct)
    case (step y z)
    then show ?case using blocked_step [OF step.hyps(2)] r by auto
  qed (simp add: m)
  then have "\<not> work_step s' t" for t using assms(2) by (auto elim: work_stepE)
  then show ?thesis using s' assms(2) by auto
qed

theorem submit_from_job_deadlocks_witness:
  "\<exists>s s' :: nat active. ao_step\<^sup>*\<^sup>* new_ActiveObject s \<and> m_workThread s = Running [Submit (Job 2 [])] \<and> ao_step\<^sup>*\<^sup>* s s' \<and> \<not> m_keepAlive s' \<and>
     m_mutex s' \<and> (\<forall>t. \<not> work_step s' t)"
proof -
  let ?j = "Job 1 [Submit (Job 2 [])] :: nat job"
  let ?b = "submitJob ?j new_ActiveObject"
  let ?e = "?b\<lparr>m_workThread := Entered\<rparr>" and ?l = "?b\<lparr>m_workThread := Looking, m_mutex := True\<rparr>"
  let ?s = "?b\<lparr>m_mutex := True, m_workThread := Running [Submit (Job 2 [])]\<rparr>"
  have b: "ao_step\<^sup>*\<^sup>* new_ActiveObject ?b" using submit_all_reachable [of "[?j]"] by simp
  have "m_work ?b = [?j]" "m_workThread ?b = Testing" "m_keepAlive ?b" "\<not> m_mutex ?b"
    by (simp_all add: submitJob_def new_ActiveObject_def startWork_def)
  then have "work_step ?b ?e" "work_step ?e ?l" "work_step ?l ?s"
    using work_step.enter [of ?b] work_step.lock [of ?e] work_step.take [of ?l ?j "[]"] by simp_all
  then have "work_step\<^sup>*\<^sup>* ?b ?s" by (meson converse_rtranclp_into_rtranclp rtranclp.rtrancl_refl)
  then have s: "ao_step\<^sup>*\<^sup>* new_ActiveObject ?s" using b work_reachable by (meson rtranclp_trans)
  moreover have run: "m_workThread ?s = Running [Submit (Job 2 [])]" by simp
  moreover have stop: "ao_step\<^sup>*\<^sup>* ?s (stopWork_request ?s)" by (rule r_into_rtranclp [of ao_step, OF ao_step.stop])
  moreover have "\<not> m_keepAlive (stopWork_request ?s)" by (simp add: stopWork_request_def)
  moreover note submit_from_job_deadlocks [OF s disjI1 [OF run] stop]
  ultimately show ?thesis by blast
qed

end
