(* ===== verification/LT_Participant.thy ===== *)
theory LT_Participant
  imports LT_RequestReply
begin

text \<open>
  The participant, \<^verbatim>\<open>Participant.cpp\<close>, \<^verbatim>\<open>ParticipantImpl.hpp\<close> and \<^verbatim>\<open>ParticipantLogger.cpp\<close>: the counts of
  publishers and subscribers per topic, and the choice of a topic for a publisher or a subscriber. What Fast
  DDS answers (the topic and the reader it finds, the topic it creates) is a parameter of the operations; what
  they call on it is a list of calls.
\<close>

section \<open>Counts\<close>

record participant =
  m_publisherCount :: "string \<rightharpoonup> int"
  m_subscriberCount :: "string \<rightharpoonup> int"

definition new_participant :: participant where
  "new_participant = \<lparr>m_publisherCount = Map.empty, m_subscriberCount = Map.empty\<rparr>"

definition updatePublisherCount :: "string \<Rightarrow> int \<Rightarrow> participant \<Rightarrow> participant" where
  "updatePublisherCount i_topic i_update p =
     (case m_publisherCount p i_topic of
        None \<Rightarrow> p\<lparr>m_publisherCount := (m_publisherCount p)(i_topic \<mapsto> i_update)\<rparr>
      | Some n \<Rightarrow> p\<lparr>m_publisherCount := (m_publisherCount p)(i_topic \<mapsto> n + i_update)\<rparr>)"

definition updateSubscriberCount :: "string \<Rightarrow> int \<Rightarrow> participant \<Rightarrow> participant" where
  "updateSubscriberCount i_topic i_update p =
     (case m_subscriberCount p i_topic of
        None \<Rightarrow> p\<lparr>m_subscriberCount := (m_subscriberCount p)(i_topic \<mapsto> i_update)\<rparr>
      | Some n \<Rightarrow> p\<lparr>m_subscriberCount := (m_subscriberCount p)(i_topic \<mapsto> n + i_update)\<rparr>)"

definition publisherCount :: "string \<Rightarrow> participant \<Rightarrow> int" where
  "publisherCount i_topic p = (case m_publisherCount p i_topic of None \<Rightarrow> 0 | Some n \<Rightarrow> n)"

definition subscriberCount :: "string \<Rightarrow> participant \<Rightarrow> int" where
  "subscriberCount i_topic p = (case m_subscriberCount p i_topic of None \<Rightarrow> 0 | Some n \<Rightarrow> n)"

text \<open>The callbacks of the listener: a writer of this participant gained or lost readers, a reader writers.
  They do nothing once the participant is gone.\<close>

datatype match_event =
  Publication_matched string int
  | Subscription_matched string int

fun on_matched :: "match_event \<Rightarrow> participant option \<Rightarrow> participant option" where
  "on_matched (Publication_matched topic change) p = map_option (updateSubscriberCount topic change) p"
| "on_matched (Subscription_matched topic change) p = map_option (updatePublisherCount topic change) p"

text \<open>What the requester and the repliers ask.\<close>

definition isConnected :: "string \<Rightarrow> participant \<Rightarrow> bool" where
  "isConnected serviceName p \<longleftrightarrow> subscriberCount (requestName serviceName) p > 0"

definition impostorsExist :: "string \<Rightarrow> participant \<Rightarrow> bool" where
  "impostorsExist serviceName p \<longleftrightarrow> subscriberCount (requestName serviceName) p > 1"

section \<open>Topics\<close>

datatype history_kind = KEEP_ALL | KEEP_LAST

record topic =
  topic_type :: string
  history_kind :: history_kind
  history_depth :: int

datatype dds_call =
  Register_type string
  | Create_topic string topic
  | Delete_topic string
  | Delete_reader string
  | Create_reader string topic
  | Create_writer string topic

definition requested_topic :: "string \<Rightarrow> int \<Rightarrow> topic" where
  "requested_topic i_type i_historyDepth =
     \<lparr>topic_type = i_type, history_kind = (if i_historyDepth \<le> 0 then KEEP_ALL else KEEP_LAST),
      history_depth = i_historyDepth\<rparr>"

text \<open>\<open>getTopic\<close>: \<open>found\<close> is the answer of \<open>find_topic\<close>, \<open>create\<close> that of \<open>create_topic\<close>.\<close>

definition getTopic ::
  "topic option \<Rightarrow> (topic \<Rightarrow> topic option) \<Rightarrow> string \<Rightarrow> string \<Rightarrow> int \<Rightarrow> topic option \<times> dds_call list" where
  "getTopic found create i_topic i_type i_historyDepth =
     (let req = requested_topic i_type i_historyDepth; foundIt = (found \<noteq> None);
          (topic, calls) = (if \<not> foundIt then (create req, [Register_type i_type, Create_topic i_topic req]) else (found, []))
      in case topic of
           None \<Rightarrow> (None, calls)
         | Some t \<Rightarrow>
             if topic_type t \<noteq> i_type \<or> history_depth t \<noteq> -1 \<and> history_depth t < i_historyDepth
             then (None, calls @ (if foundIt then [Delete_topic i_topic] else []))
             else (Some t, calls))"

text \<open>\<open>doAdvertise\<close>: the topic of the new writer, or no writer at all.\<close>

definition doAdvertise ::
  "topic option \<Rightarrow> (topic \<Rightarrow> topic option) \<Rightarrow> string \<Rightarrow> string \<Rightarrow> int \<Rightarrow> topic option \<times> dds_call list" where
  "doAdvertise found create i_topic i_type i_historyDepth =
     (case getTopic found create i_topic i_type i_historyDepth of
        (None, calls) \<Rightarrow> (None, calls)
      | (Some t, calls) \<Rightarrow> (Some t, calls @ [Create_writer i_topic t]))"

text \<open>\<open>doSubscribe\<close>; \<open>reader\<close> is the type of the reader \<open>lookup_datareader\<close> finds.\<close>

definition doSubscribe ::
  "string option \<Rightarrow> topic option \<Rightarrow> (topic \<Rightarrow> topic option) \<Rightarrow> string \<Rightarrow> string \<Rightarrow> int \<Rightarrow> dds_call list" where
  "doSubscribe reader found create i_topic i_type i_historyDepth =
     (let calls0 = (case reader of
                      Some t \<Rightarrow> if t \<noteq> i_type then [Delete_reader i_topic] else []
                    | None \<Rightarrow> [])
      in case getTopic found create i_topic i_type i_historyDepth of
           (None, calls) \<Rightarrow> calls0 @ calls
         | (Some t, calls) \<Rightarrow> calls0 @ calls @ [Create_reader i_topic t])"

text \<open>The subscription that fills a queue: the capacity is the depth as an unsigned 64-bit number, and the
  topic is asked for with depth 1.\<close>

definition subscribe_queue ::
  "string option \<Rightarrow> topic option \<Rightarrow> (topic \<Rightarrow> topic option) \<Rightarrow> string \<Rightarrow> string \<Rightarrow> int \<Rightarrow> 'a tsq \<times> dds_call list" where
  "subscribe_queue reader found create i_topic i_type i_historyDepth =
     (new_queue (unat (word_of_int i_historyDepth :: 64 word)),
      doSubscribe reader found create i_topic i_type 1)"

section \<open>Sums of changes\<close>

fun sub_changes :: "string \<Rightarrow> match_event list \<Rightarrow> int" where
  "sub_changes t [] = 0"
| "sub_changes t (Publication_matched u n # es) = (if u = t then n else 0) + sub_changes t es"
| "sub_changes t (Subscription_matched u n # es) = sub_changes t es"

fun pub_changes :: "string \<Rightarrow> match_event list \<Rightarrow> int" where
  "pub_changes t [] = 0"
| "pub_changes t (Publication_matched u n # es) = pub_changes t es"
| "pub_changes t (Subscription_matched u n # es) = (if u = t then n else 0) + pub_changes t es"

lemma count_update:
  "publisherCount t (updatePublisherCount u n p) = publisherCount t p + (if u = t then n else 0)"
  "publisherCount t (updateSubscriberCount u n p) = publisherCount t p"
  "subscriberCount t (updateSubscriberCount u n p) = subscriberCount t p + (if u = t then n else 0)"
  "subscriberCount t (updatePublisherCount u n p) = subscriberCount t p"
  by (auto simp: publisherCount_def subscriberCount_def updatePublisherCount_def updateSubscriberCount_def split: option.split)

lemma counts_run:
  "\<exists>q. fold on_matched es (Some p) = Some q \<and> publisherCount t q = publisherCount t p + pub_changes t es \<and>
     subscriberCount t q = subscriberCount t p + sub_changes t es"
proof (induction es arbitrary: p)
  case (Cons e es)
  show ?case
  proof (cases e)
    case (Publication_matched u n)
    then show ?thesis using Cons.IH [of "updateSubscriberCount u n p"] by (auto simp: count_update)
  next
    case (Subscription_matched u n)
    then show ?thesis using Cons.IH [of "updatePublisherCount u n p"] by (auto simp: count_update)
  qed
qed simp

section \<open>Properties\<close>

text \<open>
  The counts of a participant are the sums of the changes Fast DDS reported: for every topic and in every
  order of callbacks, \<open>publisherCount\<close> is the sum of the changes of the readers' matches and \<open>subscriberCount\<close> of
  the writers'; a requester is connected exactly when the changes on its request topic add up to at least one,
  and sees an impostor exactly when they add up to more.
\<close>

theorem counts_add_up:
  "\<exists>p. fold on_matched es (Some new_participant) = Some p \<and> publisherCount t p = pub_changes t es \<and>
     subscriberCount t p = sub_changes t es \<and>
     (isConnected s p \<longleftrightarrow> 1 \<le> sub_changes (s @ ''/request'') es) \<and>
     (impostorsExist s p \<longleftrightarrow> 2 \<le> sub_changes (s @ ''/request'') es)"
proof -
  have new: "publisherCount u new_participant = 0" "subscriberCount u new_participant = 0" for u
    by (simp_all add: publisherCount_def subscriberCount_def new_participant_def)
  obtain p where p: "fold on_matched es (Some new_participant) = Some p"
    using counts_run [of es new_participant t] by blast
  have "publisherCount u p = pub_changes u es \<and> subscriberCount u p = sub_changes u es" for u
    using counts_run [of es new_participant u] p new by simp
  with p show ?thesis by (auto simp: isConnected_def impostorsExist_def requestName_def)
qed

text \<open>
  A topic that is handed out fits the request. Where Fast DDS creates topics as asked, \<open>getTopic\<close> returns a
  topic of the requested type whose bounded history is at least as deep as requested; a topic is created
  exactly when none was found and deleted exactly when the one found does not fit.
\<close>

theorem getTopic_fits:
  assumes "\<And>q t. create q = Some t \<Longrightarrow> t = q" and "getTopic found create n ty d = (r, calls)"
  shows "(\<forall>t. r = Some t \<longrightarrow> topic_type t = ty \<and> (history_depth t = -1 \<or> d \<le> history_depth t)) \<and>
    (Create_topic n (requested_topic ty d) \<in> set calls \<longleftrightarrow> found = None) \<and>
    (Delete_topic n \<in> set calls \<longleftrightarrow> found \<noteq> None \<and> r = None)"
  using assms by (auto simp: getTopic_def Let_def split: if_splits option.splits)

theorem getTopic_fits_witness:
  "getTopic None Some ''t'' ''T'' 5 = (Some (requested_topic ''T'' 5), [Register_type ''T'', Create_topic ''t'' (requested_topic ''T'' 5)]) \<and>
   topic_type (requested_topic ''T'' 5) = ''T'' \<and>
   (history_depth (requested_topic ''T'' 5) = -1 \<or> 5 \<le> history_depth (requested_topic ''T'' 5))"
proof -
  have g: "getTopic None Some ''t'' ''T'' 5 = (Some (requested_topic ''T'' 5), [Register_type ''T'', Create_topic ''t'' (requested_topic ''T'' 5)])"
    by (simp add: getTopic_def requested_topic_def Let_def)
  have "\<And>q t :: topic. Some q = Some t \<Longrightarrow> t = q" by simp
  from getTopic_fits [OF this g] g show ?thesis by blast
qed

text \<open>
  The order of subscribing and advertising matters. A subscription that fills a queue creates its topic with
  a history of one message, whatever depth was asked for; advertising on that topic with a deeper history is
  then refused and the topic deleted, while in the other order both succeed. Asking to keep all messages is
  accepted on the topic and keeps one.
\<close>

theorem subscribe_before_advertise:
  assumes "1 < d" and "create = Some" and "t = requested_topic ty 1" and "u = requested_topic ty d"
  shows "Create_topic n t \<in> set (snd (subscribe_queue None None create n ty d :: 'a tsq \<times> dds_call list)) \<and>
    doAdvertise (Some t) create n ty d = (None, [Delete_topic n]) \<and>
    doAdvertise (Some t) create n ty (-1) = (Some t, [Create_writer n t]) \<and> history_depth t = 1 \<and>
    fst (doAdvertise None create n ty d) = Some u \<and>
    snd (subscribe_queue None (Some u) create n ty d :: 'a tsq \<times> dds_call list) = [Create_reader n u]"
  using assms(1)
  by (simp add: assms(2-4) subscribe_queue_def doSubscribe_def doAdvertise_def getTopic_def requested_topic_def Let_def)

theorem subscribe_before_advertise_witness:
  "doAdvertise (Some (requested_topic ''T'' 1)) Some ''t'' ''T'' 5 = (None, [Delete_topic ''t''])"
proof -
  have "(1 :: int) < 5" by simp
  from subscribe_before_advertise [OF this refl refl refl] show ?thesis by blast
qed

text \<open>The comment on \<open>doSubscribe\<close> asks for one reader per topic; a second subscription of the same type creates
  a second reader and deletes none.\<close>

theorem second_reader_created:
  "doSubscribe (Some ty) (Some t) create n ty d =
     (if topic_type t \<noteq> ty \<or> history_depth t \<noteq> -1 \<and> history_depth t < d then [Delete_topic n] else [Create_reader n t])"
  by (auto simp: doSubscribe_def getTopic_def Let_def)

end
