(* ===== verification/LT_Endpoints.thy ===== *)
theory LT_Endpoints
  imports LT_Participant
begin

text \<open>
  The endpoints of a participant: the topics, readers and writers it made through Fast DDS, the requesters that
  \<open>Participant::request\<close> keeps per service, and the constructors and destructors of the objects that own them
  (\<^verbatim>\<open>Participant.cpp\<close>, \<^verbatim>\<open>ParticipantImpl.hpp\<close>, \<^verbatim>\<open>RequestReplyImpl.hpp\<close>, \<^verbatim>\<open>ReactorServerImpl.hpp\<close>,
  \<^verbatim>\<open>ReactorClientImpl.hpp\<close>). Which of several readers of a topic \<open>lookup_datareader\<close> returns is not specified by DDS: it is
  the parameter \<open>lookup\<close>. The answer of \<open>create_topic\<close> is the parameter \<open>create\<close>, the identifier of a new writer \<open>pub_guid\<close>.
\<close>

section \<open>Topics, readers and writers\<close>

record 'd backend =
  be_types :: "string \<times> string"
  be_impl :: "'d requester"

text \<open>A reader is its topic and its type, a writer its topic. The backends of the map are referred to by the map alone.\<close>

record 'd endpoints =
  topics :: "string \<rightharpoonup> topic"
  data_readers :: "(string \<times> string) list"
  data_writers :: "string multiset"
  m_requesterBackendMap :: "string \<rightharpoonup> 'd backend"

definition new_endpoints :: "'d endpoints" where
  "new_endpoints = \<lparr>topics = Map.empty, data_readers = [], data_writers = {#}, m_requesterBackendMap = Map.empty\<rparr>"

type_synonym reader_lookup = "string \<Rightarrow> (string \<times> string) list \<Rightarrow> string option"

text \<open>What DDS promises of \<open>lookup_datareader\<close>: a reader of the topic if there is one.\<close>

definition finds_readers :: "reader_lookup \<Rightarrow> bool" where
  "finds_readers lookup \<longleftrightarrow>
     (\<forall>t rs. (case lookup t rs of None \<Rightarrow> t \<notin> fst ` set rs | Some ty \<Rightarrow> (t, ty) \<in> set rs))"

definition delete_datareader :: "reader_lookup \<Rightarrow> string \<Rightarrow> 'd endpoints \<Rightarrow> 'd endpoints" where
  "delete_datareader lookup t e =
     (case lookup t (data_readers e) of None \<Rightarrow> e | Some ty \<Rightarrow> e\<lparr>data_readers := remove1 (t, ty) (data_readers e)\<rparr>)"

text \<open>The effect of the calls on Fast DDS. A topic obtained by \<open>find_topic\<close> has to be given back as often as it was
  obtained; giving back the one that was found leaves the topic in place.\<close>

fun apply_call :: "reader_lookup \<Rightarrow> (topic \<Rightarrow> topic option) \<Rightarrow> dds_call \<Rightarrow> 'd endpoints \<Rightarrow> 'd endpoints" where
  "apply_call lookup create (Register_type ty) e = e"
| "apply_call lookup create (Create_topic n q) e =
     (case create q of None \<Rightarrow> e | Some t \<Rightarrow> e\<lparr>topics := (topics e)(n \<mapsto> t)\<rparr>)"
| "apply_call lookup create (Delete_topic n) e = e"
| "apply_call lookup create (Delete_reader n) e = delete_datareader lookup n e"
| "apply_call lookup create (Create_reader n t) e = e\<lparr>data_readers := data_readers e @ [(n, topic_type t)]\<rparr>"
| "apply_call lookup create (Create_writer n t) e = e\<lparr>data_writers := add_mset n (data_writers e)\<rparr>"

text \<open>\<open>Participant::subscribe\<close> with a callback, and \<open>Participant::advertise\<close>, which tells whether the publisher has a writer.\<close>

definition subscribe ::
  "reader_lookup \<Rightarrow> (topic \<Rightarrow> topic option) \<Rightarrow> string \<Rightarrow> string \<Rightarrow> int \<Rightarrow> 'd endpoints \<Rightarrow> 'd endpoints" where
  "subscribe lookup create i_topic ty i_historyDepth e =
     fold (apply_call lookup create)
       (doSubscribe (lookup i_topic (data_readers e)) (topics e i_topic) create i_topic ty i_historyDepth) e"

definition advertise ::
  "reader_lookup \<Rightarrow> (topic \<Rightarrow> topic option) \<Rightarrow> string \<Rightarrow> string \<Rightarrow> int \<Rightarrow> 'd endpoints \<Rightarrow> bool \<times> 'd endpoints" where
  "advertise lookup create i_topic ty i_historyDepth e =
     (case doAdvertise (topics e i_topic) create i_topic ty i_historyDepth of
        (writer, calls) \<Rightarrow> (writer \<noteq> None, fold (apply_call lookup create) calls e))"

text \<open>The last publisher of a writer goes out of scope.\<close>

definition drop_publisher :: "string \<Rightarrow> 'd endpoints \<Rightarrow> 'd endpoints" where
  "drop_publisher t e = e\<lparr>data_writers := data_writers e - {#t#}\<rparr>"

text \<open>The type in use on a topic, empty for a topic nobody made; the topic found is given back.\<close>

definition topicType :: "string \<Rightarrow> 'd endpoints \<Rightarrow> string" where
  "topicType i_topic e = (case topics e i_topic of None \<Rightarrow> [] | Some t \<Rightarrow> topic_type t)"

section \<open>Faults\<close>

text \<open>A thread that locks \<open>m_requesterMutex\<close> while it holds it never goes on; the identifier of a publisher without a
  writer dereferences a null pointer; \<open>request\<close> may raise.\<close>

datatype fault = Deadlock | Null_writer | Raised rr_error

fun and_then :: "fault + 'a \<Rightarrow> ('a \<Rightarrow> fault + 'b) \<Rightarrow> fault + 'b" where
  "and_then (Inl f) g = Inl f"
| "and_then (Inr x) g = g x"

section \<open>Ending subscriptions and services\<close>

text \<open>\<open>unsubscribe\<close> called by a thread that holds \<open>m_requesterMutex\<close>.\<close>

definition unsubscribe_locked :: "reader_lookup \<Rightarrow> string \<Rightarrow> 'd endpoints \<Rightarrow> fault + 'd endpoints" where
  "unsubscribe_locked lookup i_topic e =
     (if lookup i_topic (data_readers e) \<noteq> None then Inr (delete_datareader lookup i_topic e) else Inl Deadlock)"

text \<open>The destructor of a \<open>RequesterImpl\<close> whose last reference was in the map: it runs with the mutex held.\<close>

definition delete_RequesterImpl :: "reader_lookup \<Rightarrow> string \<Rightarrow> 'd endpoints \<Rightarrow> fault + 'd endpoints" where
  "delete_RequesterImpl lookup m_serviceName e =
     and_then (unsubscribe_locked lookup (replyName m_serviceName) e) (\<lambda>e1. Inr (drop_publisher (requestName m_serviceName) e1))"

definition unsubscribe :: "reader_lookup \<Rightarrow> string \<Rightarrow> 'd endpoints \<Rightarrow> fault + 'd endpoints" where
  "unsubscribe lookup i_topic e =
     (if lookup i_topic (data_readers e) \<noteq> None then Inr (delete_datareader lookup i_topic e)
      else
        case m_requesterBackendMap e i_topic of
          None \<Rightarrow> Inr e
        | Some b \<Rightarrow>
            delete_RequesterImpl lookup i_topic
              (e\<lparr>m_requesterBackendMap := (m_requesterBackendMap e)(i_topic := None)\<rparr>))"

definition unadvertise :: "reader_lookup \<Rightarrow> string \<Rightarrow> 'd endpoints \<Rightarrow> 'd endpoints" where
  "unadvertise lookup i_service e =
     (let e1 = (if lookup (requestName i_service) (data_readers e) \<noteq> None
                then delete_datareader lookup (requestName i_service) e else e)
      in if replyName i_service \<in># data_writers e1
         then e1\<lparr>data_writers := data_writers e1 - {#replyName i_service#}\<rparr> else e1)"

section \<open>Requesters of the participant\<close>

definition make_RequesterImpl ::
  "reader_lookup \<Rightarrow> (topic \<Rightarrow> topic option) \<Rightarrow> guid \<Rightarrow> string \<Rightarrow> string \<times> string \<Rightarrow> 'd endpoints \<Rightarrow>
   fault + ('d requester \<times> 'd endpoints)" where
  "make_RequesterImpl lookup create pub_guid i_serviceName ty e =
     (case advertise lookup create (requestName i_serviceName) (fst ty) (-1) e of
        (ok, e1) \<Rightarrow>
          if \<not> ok then Inl Null_writer
          else Inr (new_RequesterImpl pub_guid, subscribe lookup create (replyName i_serviceName) (snd ty) (-1) e1))"

text \<open>The request on the backend in the map: the future's number and what is published.\<close>

definition request_on ::
  "(64 word \<Rightarrow> 'sn) \<Rightarrow> string \<Rightarrow> 'd backend \<Rightarrow> 'q \<Rightarrow> 'd endpoints \<Rightarrow> fault + (nat \<times> ('q, 'sn) sample option \<times> 'd endpoints)" where
  "request_on mk i_serviceName b i_requestData e =
     (case LT_RequestReply.request i_requestData (be_impl b) of
        Inl err \<Rightarrow> Inl (Raised err)
      | Inr (n, d, i, related, s1) \<Rightarrow>
          Inr (n, doPublish mk True (Some d) i related False,
               e\<lparr>m_requesterBackendMap := (m_requesterBackendMap e)(i_serviceName \<mapsto> b\<lparr>be_impl := s1\<rparr>)\<rparr>))"

text \<open>\<open>Participant::request\<close>. The cast to the backend's class succeeds exactly for the types it was made with. Storing the
  new backend destroys the old one, with the mutex held.\<close>

definition participant_request ::
  "reader_lookup \<Rightarrow> (topic \<Rightarrow> topic option) \<Rightarrow> (64 word \<Rightarrow> 'sn) \<Rightarrow> guid \<Rightarrow> string \<Rightarrow> string \<times> string \<Rightarrow> 'q \<Rightarrow> 'd endpoints \<Rightarrow>
   fault + (nat \<times> ('q, 'sn) sample option \<times> 'd endpoints)" where
  "participant_request lookup create mk pub_guid i_serviceName ty i_requestData e =
     (let it = m_requesterBackendMap e i_serviceName;
          fresh = and_then (make_RequesterImpl lookup create pub_guid i_serviceName ty e) (\<lambda>(s, e1).
            let b = \<lparr>be_types = ty, be_impl = s\<rparr>;
                e2 = e1\<lparr>m_requesterBackendMap := (m_requesterBackendMap e1)(i_serviceName \<mapsto> b)\<rparr>
            in and_then (if it \<noteq> None then delete_RequesterImpl lookup i_serviceName e2 else Inr e2)
                 (request_on mk i_serviceName b i_requestData))
      in case it of
           None \<Rightarrow> fresh
         | Some b \<Rightarrow> if be_types b = ty then request_on mk i_serviceName b i_requestData e else fresh)"

text \<open>Requests one after another, with the types \<open>ty\<close> and the writer identifiers \<open>gs\<close> of their services, and what they publish.\<close>

fun participant_requests ::
  "reader_lookup \<Rightarrow> (topic \<Rightarrow> topic option) \<Rightarrow> (64 word \<Rightarrow> 'sn) \<Rightarrow> (string \<Rightarrow> guid) \<Rightarrow> (string \<Rightarrow> string \<times> string) \<Rightarrow>
   (string \<times> 'q) list \<Rightarrow> 'd endpoints \<Rightarrow> fault + ((string \<times> ('q, 'sn) sample option) list \<times> 'd endpoints)" where
  "participant_requests lookup create mk gs ty [] e = Inr ([], e)"
| "participant_requests lookup create mk gs ty ((s, x) # rs) e =
     and_then (participant_request lookup create mk (gs s) s (ty s) x e) (\<lambda>(n, y, e1).
       and_then (participant_requests lookup create mk gs ty rs e1) (\<lambda>(ys, e2). Inr ((s, y) # ys, e2)))"

section \<open>Services and reactors\<close>





definition reactorCommandName :: "string \<Rightarrow> string" where
  "reactorCommandName i_name = i_name @ ''/command''"

definition reactorProgressName :: "string \<Rightarrow> string" where
  "reactorProgressName i_name = i_name @ ''/progress''"

definition reactorReplyName :: "string \<Rightarrow> string" where
  "reactorReplyName i_name = i_name @ ''/reply''"

definition reactorRequestName :: "string \<Rightarrow> string" where
  "reactorRequestName i_name = i_name @ ''/request''"

text \<open>The two ends of a reactor; \<open>ty\<close> holds the request and reply types. The names of the other two types are those of the
  interface file. Only the client asks for the identifier of a publisher.\<close>

definition make_reactor_server ::
  "reader_lookup \<Rightarrow> (topic \<Rightarrow> topic option) \<Rightarrow> string \<Rightarrow> string \<times> string \<Rightarrow> 'd endpoints \<Rightarrow> (bool \<times> bool) \<times> 'd endpoints" where
  "make_reactor_server lookup create i_service ty e =
     (let (m_replySender, e1) = advertise lookup create (reactorReplyName i_service) (snd ty) (-1) e;
          (m_progressSender, e2) = advertise lookup create (reactorProgressName i_service) ''reactor_progress'' (-1) e1
      in ((m_replySender, m_progressSender),
          subscribe lookup create (reactorRequestName i_service) (fst ty) (-1)
            (subscribe lookup create (reactorCommandName i_service) ''reactor_command'' (-1) e2)))"

definition make_reactor_client ::
  "reader_lookup \<Rightarrow> (topic \<Rightarrow> topic option) \<Rightarrow> string \<Rightarrow> string \<times> string \<Rightarrow> 'd endpoints \<Rightarrow> fault + (bool \<times> 'd endpoints)" where
  "make_reactor_client lookup create i_serviceName ty e =
     (let (m_commandSender, e1) = advertise lookup create (reactorCommandName i_serviceName) ''reactor_command'' (-1) e;
          e2 = subscribe lookup create (reactorProgressName i_serviceName) ''reactor_progress'' (-1) e1;
          (m_requestSender, e3) = advertise lookup create (reactorRequestName i_serviceName) (fst ty) (-1) e2
      in if \<not> m_requestSender then Inl Null_writer
         else Inr (m_commandSender, subscribe lookup create (reactorReplyName i_serviceName) (snd ty) (-1) e3))"

text \<open>The destructors: their bodies, then the publishers among the members, if they have a writer.\<close>

definition drop_sender :: "bool \<Rightarrow> string \<Rightarrow> 'd endpoints \<Rightarrow> 'd endpoints" where
  "drop_sender ok t e = (if ok then drop_publisher t e else e)"

definition delete_reactor_server ::
  "reader_lookup \<Rightarrow> string \<Rightarrow> bool \<times> bool \<Rightarrow> 'd endpoints \<Rightarrow> fault + 'd endpoints" where
  "delete_reactor_server lookup m_service senders e =
     and_then (unsubscribe lookup (reactorCommandName m_service) e) (\<lambda>e1.
     and_then (unsubscribe lookup (reactorRequestName m_service) e1) (\<lambda>e2.
       Inr (drop_sender (fst senders) (reactorReplyName m_service) (drop_sender (snd senders) (reactorProgressName m_service)
         (unadvertise lookup (reactorProgressName m_service) (unadvertise lookup (reactorReplyName m_service) e2))))))"

definition delete_reactor_client :: "reader_lookup \<Rightarrow> string \<Rightarrow> bool \<Rightarrow> 'd endpoints \<Rightarrow> fault + 'd endpoints" where
  "delete_reactor_client lookup m_service m_commandSender e =
     (let e1 = unadvertise lookup (reactorRequestName m_service) (unadvertise lookup (reactorCommandName m_service) e)
      in and_then (unsubscribe lookup (reactorReplyName m_service) e1) (\<lambda>e2.
         and_then (unsubscribe lookup (reactorProgressName m_service) e2) (\<lambda>e3.
           Inr (drop_publisher (reactorRequestName m_service)
             (drop_sender m_commandSender (reactorCommandName m_service) e3)))))"

section \<open>One backend per service\<close>

lemma advertise_new:
  "topics e t = None \<Longrightarrow> advertise lookup Some t ty (-1) e =
     (True, e\<lparr>topics := (topics e)(t \<mapsto> requested_topic ty (-1)), data_writers := add_mset t (data_writers e)\<rparr>)"
  by (simp add: advertise_def doAdvertise_def getTopic_def requested_topic_def Let_def)

lemma subscribe_new:
  "topics e t = None \<Longrightarrow> lookup t (data_readers e) = None \<Longrightarrow> subscribe lookup Some t ty (-1) e =
     e\<lparr>topics := (topics e)(t \<mapsto> requested_topic ty (-1)), data_readers := data_readers e @ [(t, ty)]\<rparr>"
  by (simp add: subscribe_def doSubscribe_def getTopic_def requested_topic_def Let_def)

lemma advertise_other_type:
  "topics e t = Some q \<Longrightarrow> topic_type q \<noteq> ty \<Longrightarrow> fst (advertise lookup create t ty d e) = False"
  by (simp add: advertise_def doAdvertise_def getTopic_def Let_def)

lemma advertise_again:
  "topics e t = Some (requested_topic ty (-1)) \<Longrightarrow>
   advertise lookup create t ty (-1) e = (True, e\<lparr>data_writers := add_mset t (data_writers e)\<rparr>)"
  by (simp add: advertise_def doAdvertise_def getTopic_def requested_topic_def Let_def)

lemma subscribe_other_type:
  "topics e t = Some q \<Longrightarrow> topic_type q \<noteq> ty \<Longrightarrow> lookup t (data_readers e) = Some ty' \<Longrightarrow> ty' \<noteq> ty \<Longrightarrow>
   subscribe lookup create t ty d e = delete_datareader lookup t e"
  by (simp add: subscribe_def doSubscribe_def getTopic_def Let_def)

lemma names_differ:
  "requestName s \<noteq> replyName t" "replyName t \<noteq> requestName s"
  "requestName s = requestName t \<longleftrightarrow> s = t" "replyName s = replyName t \<longleftrightarrow> s = t"
proof -
  have "last (requestName s) \<noteq> last (replyName t)" by (simp add: requestName_def replyName_def)
  then show "requestName s \<noteq> replyName t" "replyName t \<noteq> requestName s" by metis+
qed (simp_all add: requestName_def replyName_def)

text \<open>The requests to a service, and the readers of a topic.\<close>

definition requests_to :: "string \<Rightarrow> (string \<times> 'q) list \<Rightarrow> 'q list" where
  "requests_to s rs = map snd (filter (\<lambda>r. fst r = s) rs)"

definition readers_of :: "string \<Rightarrow> (string \<times> string) list \<Rightarrow> (string \<times> string) list" where
  "readers_of t rs = filter (\<lambda>r. fst r = t) rs"

lemma lookup_readers:
  assumes "finds_readers lookup"
  shows "readers_of t rs = [] \<Longrightarrow> lookup t rs = None" "readers_of t rs = [(t, ty)] \<Longrightarrow> lookup t rs = Some ty"
proof -
  have *: "case lookup t rs of None \<Rightarrow> t \<notin> fst ` set rs | Some ty \<Rightarrow> (t, ty) \<in> set rs"
    using assms by (simp add: finds_readers_def)
  show "lookup t rs = None" if "readers_of t rs = []"
    using * that by (auto simp: readers_of_def filter_empty_conv split: option.splits)
  show "lookup t rs = Some ty" if "readers_of t rs = [(t, ty)]"
  proof -
    have r: "x \<in> set rs \<and> fst x = t \<longleftrightarrow> x = (t, ty)" for x
      using arg_cong [OF that, of set] by (auto simp: readers_of_def)
    then have "t \<in> fst ` set rs" by (metis image_eqI)
    then obtain ty' where "lookup t rs = Some ty'" "(t, ty') \<in> set rs" using * by (cases "lookup t rs") auto
    with r [of "(t, ty')"] show ?thesis by simp
  qed
qed

definition sent_to :: "string \<Rightarrow> (string \<times> ('q, 'sn) sample option) list \<Rightarrow> ('q, 'sn) sample list" where
  "sent_to s ys = concat (map (\<lambda>(t, y). if t = s then (case y of None \<Rightarrow> [] | Some z \<Rightarrow> [z]) else []) ys)"

lemma per_service_simps:
  "requests_to s [] = []" "requests_to s (rs @ [(t, x)]) = requests_to s rs @ (if t = s then [x] else [])"
  "requests_to s ((t, x) # rs) = (if t = s then [x] else []) @ requests_to s rs"
  "sent_to s [] = []" "sent_to s (ys @ zs) = sent_to s ys @ sent_to s zs"
  "sent_to s [(t, y)] = (if t = s then (case y of None \<Rightarrow> [] | Some z \<Rightarrow> [z]) else [])"
  by (simp_all add: requests_to_def sent_to_def)

text \<open>The state of one service after the requests \<open>xs\<close> to it, for which \<open>ys\<close> was published.\<close>

definition service_state ::
  "(64 word \<Rightarrow> 'sn) \<Rightarrow> guid \<Rightarrow> string \<times> string \<Rightarrow> 'q list \<Rightarrow> ('q, 'sn) sample list \<Rightarrow> string \<Rightarrow> 'd endpoints \<Rightarrow> bool" where
  "service_state mk g ty xs ys s e \<longleftrightarrow>
     (if xs = [] then ys = [] \<and> m_requesterBackendMap e s = None \<and> topics e (requestName s) = None \<and>
        topics e (replyName s) = None \<and> readers_of (replyName s) (data_readers e) = [] \<and>
        count (data_writers e) (requestName s) = 0
      else (\<exists>r. m_requesterBackendMap e s = Some \<lparr>be_types = ty, be_impl = r\<rparr> \<and>
          request_all mk xs (new_RequesterImpl g) = Inr (ys, r)) \<and>
        topics e (requestName s) = Some (requested_topic (fst ty) (-1)) \<and>
        topics e (replyName s) = Some (requested_topic (snd ty) (-1)) \<and>
        readers_of (replyName s) (data_readers e) = [(replyName s, snd ty)] \<and>
        count (data_writers e) (requestName s) = 1)"

lemma request_all_snoc:
  "request_all mk (xs @ [x]) s =
     (case request_all mk xs s of
        Inl e \<Rightarrow> Inl e
      | Inr (ys, s1) \<Rightarrow>
          (case LT_RequestReply.request x s1 of
             Inl e \<Rightarrow> Inl e
           | Inr (n, d, i, related, s2) \<Rightarrow>
               Inr (ys @ (case doPublish mk True (Some d) i related False of None \<Rightarrow> [] | Some y \<Rightarrow> [y]), s2)))"
  by (induction xs arbitrary: s) (auto split: sum.splits prod.splits option.splits)

lemma request_succeeds:
  fixes r :: "'d requester"
  assumes "seqno g = 0" "Suc (length xs) < 2 ^ 32" "request_all mk xs (new_RequesterImpl g) = Inr (ys, r)"
  obtains n d i related r' where "LT_RequestReply.request x r = Inr (n, d, i, related, r')"
    "request_all mk (xs @ [x]) (new_RequesterImpl g) =
       Inr (ys @ (case doPublish mk True (Some d) i related False of None \<Rightarrow> [] | Some y \<Rightarrow> [y]), r')"
proof -
  have "req_inv g r" "futures r = replicate (length xs) Pending"
    using request_all_spec [of g "new_RequesterImpl g :: 'd requester" xs mk] req_inv_new [OF assms(1)] assms(2,3)
    by (auto simp: new_RequesterImpl_def)
  then obtain r' where r': "LT_RequestReply.request x r = Inr (length xs, x, request_id g (length xs), UNKNOWN, r')"
    using req_inv_request [of g r x] assms(2) by auto
  with that show thesis using assms(3) by (simp add: request_all_snoc)
qed

lemma request_on_state:
  assumes "m_requesterBackendMap e s = Some \<lparr>be_types = ty, be_impl = r\<rparr>"
    and "request_all mk xs (new_RequesterImpl g) = Inr (ys, r)" and "seqno g = 0" "Suc (length xs) < 2 ^ 32"
    and "topics e (requestName s) = Some (requested_topic (fst ty) (-1))"
    and "topics e (replyName s) = Some (requested_topic (snd ty) (-1))"
    and "readers_of (replyName s) (data_readers e) = [(replyName s, snd ty)]"
    and "count (data_writers e) (requestName s) = 1"
  obtains n y r' where "request_on mk s \<lparr>be_types = ty, be_impl = r\<rparr> x e =
      Inr (n, y, e\<lparr>m_requesterBackendMap := (m_requesterBackendMap e)(s \<mapsto> \<lparr>be_types = ty, be_impl = r'\<rparr>)\<rparr>)"
    "service_state mk g ty (xs @ [x]) (ys @ (case y of None \<Rightarrow> [] | Some z \<Rightarrow> [z])) s
       (e\<lparr>m_requesterBackendMap := (m_requesterBackendMap e)(s \<mapsto> \<lparr>be_types = ty, be_impl = r'\<rparr>)\<rparr>)"
proof -
  obtain n d i related r' where "LT_RequestReply.request x r = Inr (n, d, i, related, r')"
    "request_all mk (xs @ [x]) (new_RequesterImpl g) =
       Inr (ys @ (case doPublish mk True (Some d) i related False of None \<Rightarrow> [] | Some y \<Rightarrow> [y]), r')"
    using request_succeeds [OF assms(3,4,2)] by metis
  with that assms show thesis by (simp add: request_on_def service_state_def)
qed

lemma service_state_other:
  assumes "service_state mk g ty xs ys t e"
    and "m_requesterBackendMap e' t = m_requesterBackendMap e t"
    and "topics e' (requestName t) = topics e (requestName t)" "topics e' (replyName t) = topics e (replyName t)"
    and "readers_of (replyName t) (data_readers e') = readers_of (replyName t) (data_readers e)"
    and "count (data_writers e') (requestName t) = count (data_writers e) (requestName t)"
  shows "service_state mk g ty xs ys t e'"
  using assms unfolding service_state_def by simp

lemma participant_request_state:
  fixes x :: 'q
  assumes "finds_readers lookup" "seqno g = 0" "Suc (length xs) < 2 ^ 32"
    and "service_state mk g ty xs ys s e"
  obtains n y e' where "participant_request lookup Some mk g s ty x e = Inr (n, y, e')"
    "service_state mk g ty (xs @ [x]) (ys @ (case y of None \<Rightarrow> [] | Some z \<Rightarrow> [z])) s e'"
    "\<And>t g' ty' (xs' :: 'q list) ys'. t \<noteq> s \<Longrightarrow> service_state mk g' ty' xs' ys' t e \<Longrightarrow> service_state mk g' ty' xs' ys' t e'"
proof (cases "xs = []")
  case True
  let ?e1 = "e\<lparr>data_writers := add_mset (requestName s) (data_writers e),
     topics := (topics e)(requestName s \<mapsto> requested_topic (fst ty) (-1), replyName s \<mapsto> requested_topic (snd ty) (-1)), data_readers := data_readers e @ [(replyName s, snd ty)],
     m_requesterBackendMap := (m_requesterBackendMap e)(s \<mapsto> \<lparr>be_types = ty, be_impl = new_RequesterImpl g\<rparr>)\<rparr>"
  have old: "m_requesterBackendMap e s = None" "topics e (requestName s) = None" "topics e (replyName s) = None"
    "readers_of (replyName s) (data_readers e) = []" "count (data_writers e) (requestName s) = 0" "ys = []"
    using assms(4) True by (simp_all add: service_state_def)
  note look = lookup_readers(1) [OF assms(1) old(4)]
  obtain n y r' where req: "request_on mk s \<lparr>be_types = ty, be_impl = new_RequesterImpl g\<rparr> x ?e1 =
      Inr (n, y, ?e1\<lparr>m_requesterBackendMap := (m_requesterBackendMap ?e1)(s \<mapsto> \<lparr>be_types = ty, be_impl = r'\<rparr>)\<rparr>)"
    "service_state mk g ty ([] @ [x]) ([] @ (case y of None \<Rightarrow> [] | Some z \<Rightarrow> [z])) s
       (?e1\<lparr>m_requesterBackendMap := (m_requesterBackendMap ?e1)(s \<mapsto> \<lparr>be_types = ty, be_impl = r'\<rparr>)\<rparr>)"
    by (rule request_on_state [of ?e1 s ty "new_RequesterImpl g" mk "[]" g "[]" x])
      (use old assms(2) in \<open>simp_all add: names_differ readers_of_def\<close>)
  have "participant_request lookup Some mk g s ty x e = request_on mk s \<lparr>be_types = ty, be_impl = new_RequesterImpl g\<rparr> x ?e1"
    using old look
    by (simp add: participant_request_def make_RequesterImpl_def advertise_new subscribe_new names_differ Let_def)
  with req(1) have run: "participant_request lookup Some mk g s ty x e =
      Inr (n, y, ?e1\<lparr>m_requesterBackendMap := (m_requesterBackendMap ?e1)(s \<mapsto> \<lparr>be_types = ty, be_impl = r'\<rparr>)\<rparr>)"
    by simp
  show thesis
  proof (rule that [OF run])
    show "service_state mk g ty (xs @ [x]) (ys @ (case y of None \<Rightarrow> [] | Some z \<Rightarrow> [z])) s
       (?e1\<lparr>m_requesterBackendMap := (m_requesterBackendMap ?e1)(s \<mapsto> \<lparr>be_types = ty, be_impl = r'\<rparr>)\<rparr>)"
      using req(2) True old(6) by simp
  qed (erule service_state_other; simp add: names_differ readers_of_def)
next
  case False
  then obtain r where r: "m_requesterBackendMap e s = Some \<lparr>be_types = ty, be_impl = r\<rparr>"
    "request_all mk xs (new_RequesterImpl g) = Inr (ys, r)"
    using assms(4) by (auto simp: service_state_def)
  obtain n y r' where req: "request_on mk s \<lparr>be_types = ty, be_impl = r\<rparr> x e =
      Inr (n, y, e\<lparr>m_requesterBackendMap := (m_requesterBackendMap e)(s \<mapsto> \<lparr>be_types = ty, be_impl = r'\<rparr>)\<rparr>)"
    "service_state mk g ty (xs @ [x]) (ys @ (case y of None \<Rightarrow> [] | Some z \<Rightarrow> [z])) s
       (e\<lparr>m_requesterBackendMap := (m_requesterBackendMap e)(s \<mapsto> \<lparr>be_types = ty, be_impl = r'\<rparr>)\<rparr>)"
    by (rule request_on_state [OF r assms(2,3)]) (use assms(4) False in \<open>simp_all add: service_state_def\<close>)
  have run: "participant_request lookup Some mk g s ty x e =
      Inr (n, y, e\<lparr>m_requesterBackendMap := (m_requesterBackendMap e)(s \<mapsto> \<lparr>be_types = ty, be_impl = r'\<rparr>)\<rparr>)"
    using r(1) req(1) by (simp add: participant_request_def Let_def)
  show thesis by (rule that [OF run req(2)]) (erule service_state_other; simp)
qed

lemma participant_requests_state:
  fixes rs rs0 :: "(string \<times> 'q) list"
  assumes "finds_readers lookup" and "\<And>s. seqno (gs s) = 0" and "\<And>s. length (requests_to s (rs0 @ rs)) < 2 ^ 32"
    and "\<And>s. service_state mk (gs s) (ty s) (requests_to s rs0) (sent_to s out0) s e"
  shows "\<exists>out e'. participant_requests lookup Some mk gs ty rs e = Inr (out, e') \<and>
    (\<forall>s. service_state mk (gs s) (ty s) (requests_to s (rs0 @ rs)) (sent_to s (out0 @ out)) s e')"
  using assms(3,4)
proof (induction rs arbitrary: rs0 out0 e)
  case Nil
  then show ?case by (simp add: per_service_simps)
next
  case (Cons c rs)
  obtain s x where c: "c = (s, x)" by (cases c)
  have len: "Suc (length (requests_to s rs0)) < 2 ^ 32"
    using Cons.prems(1) [of s] c by (simp add: requests_to_def)
  obtain n y e1 where e1: "participant_request lookup Some mk (gs s) s (ty s) x e = Inr (n, y, e1)"
    "service_state mk (gs s) (ty s) (requests_to s rs0 @ [x]) (sent_to s out0 @ (case y of None \<Rightarrow> [] | Some z \<Rightarrow> [z])) s e1"
    "\<And>t g' ty' (xs' :: 'q list) ys'. t \<noteq> s \<Longrightarrow> service_state mk g' ty' xs' ys' t e \<Longrightarrow> service_state mk g' ty' xs' ys' t e1"
    using participant_request_state [OF assms(1,2) len Cons.prems(2) [of s]] by metis
  have "service_state mk (gs t) (ty t) (requests_to t (rs0 @ [c])) (sent_to t (out0 @ [(s, y)])) t e1" for t
    using e1(2) e1(3) [OF _ Cons.prems(2) [of t]] c by (cases "t = s") (simp_all add: per_service_simps)
  moreover have "length (requests_to t ((rs0 @ [c]) @ rs)) < 2 ^ 32" for t using Cons.prems(1) [of t] by simp
  ultimately obtain out e' where "participant_requests lookup Some mk gs ty rs e1 = Inr (out, e')"
    "\<forall>t. service_state mk (gs t) (ty t) (requests_to t ((rs0 @ [c]) @ rs)) (sent_to t ((out0 @ [(s, y)]) @ out)) t e'"
    using Cons.IH by metis
  then show ?case using e1(1) c by simp
qed

lemma service_state_new: "service_state mk g ty [] [] s new_endpoints"
  by (simp add: service_state_def new_endpoints_def readers_of_def)

lemma requests_from_new:
  assumes "finds_readers lookup" and "\<And>s. seqno (gs s) = 0" and "\<And>s. length (requests_to s rs) < 2 ^ 32"
  shows "\<exists>out e. participant_requests lookup Some mk gs ty rs new_endpoints = Inr (out, e) \<and>
    (\<forall>s. service_state mk (gs s) (ty s) (requests_to s rs) (sent_to s out) s e)"
  using participant_requests_state [of lookup gs "[]" rs mk ty "[]" new_endpoints] assms
  by (simp add: per_service_simps service_state_new)

text \<open>The types of a service's topics are those it was first asked with.\<close>

lemma topicType_service:
  "service_state mk g ty xs ys s e \<Longrightarrow>
   topicType (requestName s) e = (if xs = [] then [] else fst ty) \<and>
   topicType (replyName s) e = (if xs = [] then [] else snd ty)"
  by (auto simp: service_state_def topicType_def requested_topic_def)

section \<open>A second pair of types\<close>

lemma delete_one_reader:
  assumes "finds_readers lookup" "readers_of t (data_readers e) = [(t, ty)]"
  shows "readers_of t (data_readers (delete_datareader lookup t e)) = []"
    and "u \<noteq> t \<Longrightarrow> readers_of u (data_readers (delete_datareader lookup t e)) = readers_of u (data_readers e)"
  using lookup_readers(2) [OF assms] assms(2)
  by (simp_all add: delete_datareader_def readers_of_def filter_remove1 remove1_idem)

lemma service_state_used:
  assumes "service_state mk g ty xs ys s e" "xs \<noteq> []"
  obtains r where "m_requesterBackendMap e s = Some \<lparr>be_types = ty, be_impl = r\<rparr>"
    "topics e (requestName s) = Some (requested_topic (fst ty) (-1))"
    "topics e (replyName s) = Some (requested_topic (snd ty) (-1))"
    "readers_of (replyName s) (data_readers e) = [(replyName s, snd ty)]" "count (data_writers e) (requestName s) = 1"
  using assms by (auto simp: service_state_def)

lemma no_reader_deadlock:
  "finds_readers lookup \<Longrightarrow> readers_of (replyName s) (data_readers e) = [] \<Longrightarrow> delete_RequesterImpl lookup s e = Inl Deadlock"
  by (simp add: delete_RequesterImpl_def unsubscribe_locked_def lookup_readers(1))

lemma other_types:
  assumes "finds_readers lookup" "service_state mk g ty xs ys s e" "xs \<noteq> []" "ty' \<noteq> ty"
  shows "participant_request lookup create mk' g' s ty' x e = Inl (if fst ty' = fst ty then Deadlock else Null_writer)"
proof -
  obtain r where st: "m_requesterBackendMap e s = Some \<lparr>be_types = ty, be_impl = r\<rparr>"
    "topics e (requestName s) = Some (requested_topic (fst ty) (-1))"
    "topics e (replyName s) = Some (requested_topic (snd ty) (-1))"
    "readers_of (replyName s) (data_readers e) = [(replyName s, snd ty)]"
    using service_state_used [OF assms(2,3)] by metis
  show ?thesis
  proof (cases "fst ty' = fst ty")
    case True
    then have rep: "snd ty' \<noteq> snd ty" using assms(4) by (metis prod_eqI)
    let ?e1 = "e\<lparr>data_writers := add_mset (requestName s) (data_writers e)\<rparr>"
    let ?e2 = "delete_datareader lookup (replyName s) ?e1"
    have "subscribe lookup create (replyName s) (snd ty') (-1) ?e1 = ?e2"
      using st(3) rep [symmetric] lookup_readers(2) [OF assms(1) st(4)]
      by (intro subscribe_other_type [where q = "requested_topic (snd ty) (-1)" and ty' = "snd ty"])
        (simp_all add: requested_topic_def)
    then have "make_RequesterImpl lookup create g' s ty' e = Inr (new_RequesterImpl g', ?e2)"
      using st(2) True by (simp add: make_RequesterImpl_def advertise_again)
    moreover have "readers_of (replyName s) (data_readers ?e2) = []"
      using delete_one_reader(1) [OF assms(1), of "replyName s" ?e1] st(4) by simp
    ultimately show ?thesis
      using st(1) True assms(4) by (auto simp: participant_request_def no_reader_deadlock [OF assms(1)] Let_def)
  next
    case False
    then have "\<not> fst (advertise lookup create (requestName s) (fst ty') (-1) e)"
      using advertise_other_type [OF st(2)] by (simp add: requested_topic_def)
    then have "make_RequesterImpl lookup create g' s ty' e = Inl Null_writer"
      by (auto simp: make_RequesterImpl_def split: prod.splits)
    then show ?thesis using st(1) False by (auto simp: participant_request_def Let_def)
  qed
qed

lemma unsubscribe_topic:
  assumes "finds_readers lookup" "readers_of t (data_readers e) = [(t, ty)]"
  shows "unsubscribe lookup t e = Inr (delete_datareader lookup t e)"
  using lookup_readers(2) [OF assms] by (simp add: unsubscribe_def)

lemma delete_datareader_keeps [simp]:
  "topics (delete_datareader lookup t e) = topics e" "data_writers (delete_datareader lookup t e) = data_writers e"
  "m_requesterBackendMap (delete_datareader lookup t e) = m_requesterBackendMap e"
  by (simp_all add: delete_datareader_def split: option.splits)

lemma unsubscribe_twice:
  assumes "finds_readers lookup" "service_state mk g ty xs ys s e" "xs \<noteq> []" "readers_of s (data_readers e) = []"
  shows "\<exists>e1. unsubscribe lookup (replyName s) e = Inr e1 \<and> unsubscribe lookup s e1 = Inl Deadlock"
proof -
  obtain r where st: "m_requesterBackendMap e s = Some \<lparr>be_types = ty, be_impl = r\<rparr>"
    "readers_of (replyName s) (data_readers e) = [(replyName s, snd ty)]"
    using service_state_used [OF assms(2,3)] by metis
  let ?e1 = "delete_datareader lookup (replyName s) e"
  have "s \<noteq> replyName s" by (simp add: replyName_def)
  then have "lookup s (data_readers ?e1) = None"
    using delete_one_reader(2) [OF assms(1) st(2), of s] assms(4) lookup_readers(1) [OF assms(1)] by simp
  then have "unsubscribe lookup s ?e1 = Inl Deadlock"
    using st(1) delete_one_reader(1) [OF assms(1) st(2)]
    by (simp add: unsubscribe_def no_reader_deadlock [OF assms(1)])
  then show ?thesis using unsubscribe_topic [OF assms(1) st(2)] by blast
qed

lemma unsubscribe_service:
  assumes "finds_readers lookup" "service_state mk g ty xs ys s e" "xs \<noteq> []" "readers_of s (data_readers e) = []"
  obtains e' where "unsubscribe lookup s e = Inr e'" "m_requesterBackendMap e' = (m_requesterBackendMap e)(s := None)"
    "topics e' = topics e" "readers_of (replyName s) (data_readers e') = []"
    "\<And>t. t \<noteq> replyName s \<Longrightarrow> readers_of t (data_readers e') = readers_of t (data_readers e)"
    "data_writers e' = data_writers e - {#requestName s#}"
proof -
  obtain r where st: "m_requesterBackendMap e s = Some \<lparr>be_types = ty, be_impl = r\<rparr>"
    "readers_of (replyName s) (data_readers e) = [(replyName s, snd ty)]"
    using service_state_used [OF assms(2,3)] by metis
  let ?e1 = "e\<lparr>m_requesterBackendMap := (m_requesterBackendMap e)(s := None)\<rparr>"
  let ?e2 = "drop_publisher (requestName s) (delete_datareader lookup (replyName s) ?e1)"
  have st1: "readers_of (replyName s) (data_readers ?e1) = [(replyName s, snd ty)]" using st(2) by simp
  have run: "unsubscribe lookup s e = Inr ?e2"
    using st(1) lookup_readers(1) [OF assms(1,4)] lookup_readers(2) [OF assms(1) st(2)]
    by (simp add: unsubscribe_def delete_RequesterImpl_def unsubscribe_locked_def)
  show thesis
    by (rule that [OF run]) (use delete_one_reader [OF assms(1) st1] in \<open>simp_all add: drop_publisher_def\<close>)
qed

section \<open>Numbers of readers and writers\<close>

definition n_readers :: "string \<Rightarrow> 'd endpoints \<Rightarrow> nat" where
  "n_readers t e = length (readers_of t (data_readers e))"

text \<open>A topic is free when nothing reads it and it was not made yet.\<close>

definition free_topic :: "string \<Rightarrow> 'd endpoints \<Rightarrow> bool" where
  "free_topic t e \<longleftrightarrow> topics e t = None \<and> n_readers t e = 0"

lemma n_readers_lookup: "finds_readers lookup \<Longrightarrow> lookup t (data_readers e) = None \<longleftrightarrow> n_readers t e = 0"
  unfolding finds_readers_def n_readers_def readers_of_def
  by (erule allE [of _ t], erule allE [of _ "data_readers e"]) (force simp: filter_empty_conv split: option.splits)

lemma n_readers_delete:
  assumes "finds_readers lookup"
  shows "n_readers t (delete_datareader lookup u e) = n_readers t e - (if t = u then 1 else 0)"
proof (cases "lookup u (data_readers e)")
  case None
  then show ?thesis using n_readers_lookup [OF assms, of u e] by (simp add: delete_datareader_def)
next
  case (Some ty)
  then have mem: "(u, ty) \<in> set (data_readers e)"
    using assms unfolding finds_readers_def by (metis option.simps(5))
  have "length (filter P (remove1 a xs)) = length (filter P xs) - (if P a then 1 else 0)" if "a \<in> set xs" for P a xs
    using that by (simp add: filter_remove1 length_remove1)
  from this [OF mem] Some show ?thesis by (auto simp: delete_datareader_def n_readers_def readers_of_def)
qed

lemma advertise_free:
  assumes "topics e t = None"
  shows "fst (advertise lookup Some t ty (-1) e)"
    and "n_readers u (snd (advertise lookup Some t ty (-1) e)) = n_readers u e"
    and "data_writers (snd (advertise lookup Some t ty (-1) e)) = add_mset t (data_writers e)"
    and "topics (snd (advertise lookup Some t ty (-1) e)) = (topics e)(t \<mapsto> requested_topic ty (-1))"
  by (simp_all add: advertise_new assms n_readers_def)

lemma subscribe_free:
  assumes "finds_readers lookup" "free_topic t e"
  shows "n_readers u (subscribe lookup Some t ty (-1) e) = n_readers u e + (if u = t then 1 else 0)"
    and "data_writers (subscribe lookup Some t ty (-1) e) = data_writers e"
    and "topics (subscribe lookup Some t ty (-1) e) = (topics e)(t \<mapsto> requested_topic ty (-1))"
  using assms n_readers_lookup [OF assms(1), of t e]
  by (simp_all add: subscribe_new free_topic_def n_readers_def readers_of_def)

lemma unsubscribe_read:
  assumes "finds_readers lookup" "n_readers t e \<noteq> 0"
  shows "unsubscribe lookup t e = Inr (delete_datareader lookup t e)"
  using assms n_readers_lookup [OF assms(1), of t e] by (simp add: unsubscribe_def)

lemma unadvertise_numbers:
  assumes "finds_readers lookup"
  shows "n_readers t (unadvertise lookup s e) = n_readers t e - (if t = requestName s then 1 else 0)"
    and "data_writers (unadvertise lookup s e) = data_writers e - {#replyName s#}"
  using n_readers_delete [OF assms, of t "requestName s" e] n_readers_lookup [OF assms, of "requestName s" e]
  by (auto simp: unadvertise_def Let_def n_readers_def)

lemma drop_numbers:
  "n_readers t (drop_publisher u e) = n_readers t e" "data_writers (drop_publisher u e) = data_writers e - {#u#}"
  "n_readers t (drop_sender ok u e) = n_readers t e"
  "data_writers (drop_sender ok u e) = (if ok then data_writers e - {#u#} else data_writers e)"
  by (simp_all add: drop_sender_def drop_publisher_def n_readers_def)







lemmas reactor_names = reactorCommandName_def reactorProgressName_def reactorReplyName_def reactorRequestName_def
  requestName_def replyName_def

lemma free_topic_kept:
  "free_topic t e \<Longrightarrow> topics e u = None \<Longrightarrow> t \<noteq> u \<Longrightarrow> free_topic t (snd (advertise lookup Some u ty (-1) e))"
  "finds_readers lookup \<Longrightarrow> free_topic t e \<Longrightarrow> free_topic u e \<Longrightarrow> t \<noteq> u \<Longrightarrow> free_topic t (subscribe lookup Some u ty (-1) e)"
  by (simp_all add: free_topic_def advertise_free subscribe_free)

lemma reactor_server_made:
  assumes "finds_readers lookup"
    and "\<And>t. t \<in> {x @ ''/command'', x @ ''/progress'', x @ ''/reply'', x @ ''/request''} \<Longrightarrow> free_topic t e"
  obtains e1 where "make_reactor_server lookup Some x ty e = ((True, True), e1)"
    "\<And>t. n_readers t e1 = n_readers t e + (if t \<in> {x @ ''/command'', x @ ''/request''} then 1 else 0)"
    "data_writers e1 = data_writers e + {#x @ ''/reply'', x @ ''/progress''#}"
proof -
  note free = assms(2) [of "x @ ''/command''"] assms(2) [of "x @ ''/progress''"] assms(2) [of "x @ ''/reply''"]
    assms(2) [of "x @ ''/request''"]
  let ?e1 = "snd (advertise lookup Some (x @ ''/reply'') (snd ty) (-1) e)"
  let ?e2 = "snd (advertise lookup Some (x @ ''/progress'') ''reactor_progress'' (-1) ?e1)"
  let ?e3 = "subscribe lookup Some (x @ ''/command'') ''reactor_command'' (-1) ?e2"
  let ?e4 = "subscribe lookup Some (x @ ''/request'') (fst ty) (-1) ?e3"
  have t: "topics e (x @ ''/reply'') = None" using free(3) by (simp add: free_topic_def)
  have f1: "free_topic (x @ ''/progress'') ?e1" "free_topic (x @ ''/command'') ?e1" "free_topic (x @ ''/request'') ?e1"
    using free t by (simp_all add: free_topic_kept(1))
  then have t1: "topics ?e1 (x @ ''/progress'') = None" by (simp add: free_topic_def)
  have f2: "free_topic (x @ ''/command'') ?e2" "free_topic (x @ ''/request'') ?e2"
    using f1 t1 by (simp_all add: free_topic_kept(1))
  have f3: "free_topic (x @ ''/request'') ?e3" using f2 assms(1) by (simp add: free_topic_kept(2))
  have "make_reactor_server lookup Some x ty e = ((True, True), ?e4)"
    using advertise_free(1) [OF t] advertise_free(1) [OF t1]
    by (simp add: make_reactor_server_def reactor_names case_prod_unfold Let_def)
  then show thesis
    by (rule that) (simp_all add: subscribe_free [OF assms(1) f3] subscribe_free [OF assms(1) f2(1)]
        advertise_free(2,3) [OF t1] advertise_free(2,3) [OF t])
qed

lemma reactor_server_effect:
  assumes "finds_readers lookup"
    and "\<And>t. t \<in> {x @ ''/command'', x @ ''/progress'', x @ ''/reply'', x @ ''/request''} \<Longrightarrow> free_topic t e"
  shows "\<exists>w e1 e2. make_reactor_server lookup Some x ty e = (w, e1) \<and> delete_reactor_server lookup x w e1 = Inr e2 \<and>
    (\<forall>t. n_readers t e2 = n_readers t e - (if t \<in> {x @ ''/reply/request'', x @ ''/progress/request''} then 1 else 0)) \<and>
    data_writers e2 = data_writers e - {#x @ ''/reply/reply'', x @ ''/progress/reply''#}"
proof -
  obtain e1 where e1: "make_reactor_server lookup Some x ty e = ((True, True), e1)"
    "\<And>t. n_readers t e1 = n_readers t e + (if t \<in> {x @ ''/command'', x @ ''/request''} then 1 else 0)"
    "data_writers e1 = data_writers e + {#x @ ''/reply'', x @ ''/progress''#}"
    using reactor_server_made [OF assms] by metis
  let ?e2 = "delete_datareader lookup (x @ ''/request'') (delete_datareader lookup (x @ ''/command'') e1)"
  let ?e3 = "unadvertise lookup (x @ ''/progress'') (unadvertise lookup (x @ ''/reply'') ?e2)"
  let ?e4 = "drop_publisher (x @ ''/reply'') (drop_publisher (x @ ''/progress'') ?e3)"
  note del = n_readers_delete [OF assms(1)]
  have "n_readers (x @ ''/command'') e1 \<noteq> 0" "n_readers (x @ ''/request'') (delete_datareader lookup (x @ ''/command'') e1) \<noteq> 0"
    by (simp_all add: e1(2) del)
  then have "delete_reactor_server lookup x (True, True) e1 = Inr ?e4"
    by (simp add: delete_reactor_server_def reactor_names unsubscribe_read [OF assms(1)] drop_sender_def)
  moreover have "n_readers t ?e4 = n_readers t e - (if t \<in> {x @ ''/reply/request'', x @ ''/progress/request''} then 1 else 0)" for t
    by (simp add: drop_numbers unadvertise_numbers [OF assms(1)] del e1(2) reactor_names)
  moreover have "data_writers ?e4 = data_writers e - {#x @ ''/reply/reply'', x @ ''/progress/reply''#}"
    by (rule multiset_eqI) (simp add: drop_numbers unadvertise_numbers [OF assms(1)] e1(3) reactor_names)
  ultimately show ?thesis using e1(1) by blast
qed

lemma reactor_client_made:
  assumes "finds_readers lookup"
    and "\<And>t. t \<in> {x @ ''/command'', x @ ''/progress'', x @ ''/reply'', x @ ''/request''} \<Longrightarrow> free_topic t e"
  obtains e1 where "make_reactor_client lookup Some x ty e = Inr (True, e1)"
    "\<And>t. n_readers t e1 = n_readers t e + (if t \<in> {x @ ''/progress'', x @ ''/reply''} then 1 else 0)"
    "data_writers e1 = data_writers e + {#x @ ''/command'', x @ ''/request''#}"
proof -
  note free = assms(2) [of "x @ ''/command''"] assms(2) [of "x @ ''/progress''"] assms(2) [of "x @ ''/reply''"]
    assms(2) [of "x @ ''/request''"]
  let ?e1 = "snd (advertise lookup Some (x @ ''/command'') ''reactor_command'' (-1) e)"
  let ?e2 = "subscribe lookup Some (x @ ''/progress'') ''reactor_progress'' (-1) ?e1"
  let ?e3 = "snd (advertise lookup Some (x @ ''/request'') (fst ty) (-1) ?e2)"
  let ?e4 = "subscribe lookup Some (x @ ''/reply'') (snd ty) (-1) ?e3"
  have t: "topics e (x @ ''/command'') = None" using free(1) by (simp add: free_topic_def)
  have f1: "free_topic (x @ ''/progress'') ?e1" "free_topic (x @ ''/reply'') ?e1" "free_topic (x @ ''/request'') ?e1"
    using free t by (simp_all add: free_topic_kept(1))
  have f2: "free_topic (x @ ''/reply'') ?e2" "free_topic (x @ ''/request'') ?e2"
    using f1 assms(1) by (simp_all add: free_topic_kept(2))
  then have t2: "topics ?e2 (x @ ''/request'') = None" by (simp add: free_topic_def)
  have f3: "free_topic (x @ ''/reply'') ?e3" using f2(1) t2 by (simp add: free_topic_kept(1))
  have "make_reactor_client lookup Some x ty e = Inr (True, ?e4)"
    using advertise_free(1) [OF t] advertise_free(1) [OF t2]
    by (simp add: make_reactor_client_def reactor_names case_prod_unfold Let_def)
  then show thesis
    by (rule that) (simp_all add: subscribe_free [OF assms(1) f3] subscribe_free [OF assms(1) f1(1)]
        advertise_free(2,3) [OF t2] advertise_free(2,3) [OF t])
qed

lemma reactor_client_effect:
  assumes "finds_readers lookup"
    and "\<And>t. t \<in> {x @ ''/command'', x @ ''/progress'', x @ ''/reply'', x @ ''/request''} \<Longrightarrow> free_topic t e"
  shows "\<exists>w e1 e2. make_reactor_client lookup Some x ty e = Inr (w, e1) \<and> delete_reactor_client lookup x w e1 = Inr e2 \<and>
    (\<forall>t. n_readers t e2 = n_readers t e - (if t \<in> {x @ ''/command/request'', x @ ''/request/request''} then 1 else 0)) \<and>
    data_writers e2 = data_writers e - {#x @ ''/command/reply'', x @ ''/request/reply''#}"
proof -
  obtain e1 where e1: "make_reactor_client lookup Some x ty e = Inr (True, e1)"
    "\<And>t. n_readers t e1 = n_readers t e + (if t \<in> {x @ ''/progress'', x @ ''/reply''} then 1 else 0)"
    "data_writers e1 = data_writers e + {#x @ ''/command'', x @ ''/request''#}"
    using reactor_client_made [OF assms] by metis
  let ?e2 = "unadvertise lookup (x @ ''/request'') (unadvertise lookup (x @ ''/command'') e1)"
  let ?e3 = "delete_datareader lookup (x @ ''/progress'') (delete_datareader lookup (x @ ''/reply'') ?e2)"
  let ?e4 = "drop_publisher (x @ ''/request'') (drop_publisher (x @ ''/command'') ?e3)"
  note del = n_readers_delete [OF assms(1)] and una = unadvertise_numbers [OF assms(1)]
  have "n_readers (x @ ''/reply'') ?e2 \<noteq> 0" "n_readers (x @ ''/progress'') (delete_datareader lookup (x @ ''/reply'') ?e2) \<noteq> 0"
    by (simp_all add: e1(2) del una reactor_names)
  then have "delete_reactor_client lookup x True e1 = Inr ?e4"
    by (simp add: delete_reactor_client_def reactor_names unsubscribe_read [OF assms(1)] drop_sender_def Let_def)
  moreover have "n_readers t ?e4 = n_readers t e - (if t \<in> {x @ ''/command/request'', x @ ''/request/request''} then 1 else 0)" for t
    by (simp add: drop_numbers una del e1(2) reactor_names)
  moreover have "data_writers ?e4 = data_writers e - {#x @ ''/command/reply'', x @ ''/request/reply''#}"
    by (rule multiset_eqI) (simp add: drop_numbers una e1(3) reactor_names)
  ultimately show ?thesis using e1(1) by blast
qed

section \<open>Properties\<close>

text \<open>
  C11. A participant keeps one requester per service. Any sequence of requests to any services, each with the types of its
  service and fewer than 2^32 to each, succeeds. Afterwards every service that was asked has one backend, which is in the
  state of a requester of its own that made this service's requests in their order and published what was published for the
  service; it has one writer and one reader, on the service's two topics. No other service has any of them.
\<close>

theorem one_requester_per_service:
  assumes "finds_readers lookup" and "\<And>s. seqno (gs s) = 0" and "\<And>s. length (requests_to s rs) < 2 ^ 32"
  shows "\<exists>out e. participant_requests lookup Some mk gs ty rs new_endpoints = Inr (out, e) \<and>
    (\<forall>s. service_state mk (gs s) (ty s) (requests_to s rs) (sent_to s out) s e)"
  using requests_from_new [OF assms] .

definition first_reader :: reader_lookup where
  "first_reader t rs = map_option snd (find (\<lambda>r. fst r = t) rs)"

lemma first_reader_finds: "finds_readers first_reader"
proof -
  have "case first_reader t rs of None \<Rightarrow> t \<notin> fst ` set rs | Some ty \<Rightarrow> (t, ty) \<in> set rs" for t rs
    by (induction rs) (auto simp: first_reader_def split: option.splits)
  then show ?thesis by (simp add: finds_readers_def)
qed

abbreviation example_requests :: "(string \<times> nat) list" where
  "example_requests \<equiv> [(''a'', 1), (''b'', 2), (''a'', 3)]"

theorem one_requester_per_service_witness:
  "\<exists>out (e :: nat endpoints). participant_requests first_reader Some id (\<lambda>s. Guid (replicate 16 (of_nat (length s))) 0)
     (\<lambda>s. (''Q'', ''R'')) example_requests new_endpoints = Inr (out, e) \<and>
     count (data_writers e) (requestName ''a'') = 1 \<and> m_requesterBackendMap e ''b'' \<noteq> None"
proof -
  let ?gs = "\<lambda>s :: string. Guid (replicate 16 (of_nat (length s))) 0"
  have "length (requests_to s example_requests) < 2 ^ 32" for s by (simp add: requests_to_def)
  with one_requester_per_service [where lookup = first_reader and gs = ?gs and rs = example_requests and mk = id
      and ty = "\<lambda>s. (''Q'', ''R'')"] first_reader_finds
  obtain out and e :: "nat endpoints" where
    run: "participant_requests first_reader Some id ?gs (\<lambda>s. (''Q'', ''R'')) example_requests new_endpoints = Inr (out, e)"
      and st: "\<And>s. service_state id (?gs s) (''Q'', ''R'') (requests_to s example_requests) (sent_to s out) s e"
    by (metis guid.sel(2))
  from st [of "''a''"] st [of "''b''"] run show ?thesis by (auto simp: service_state_def requests_to_def)
qed

text \<open>
  C33. A second pair of types for a service is fatal. Once a service was asked, asking it with another request type
  dereferences the null writer of the new backend, and with another reply type only it locks the mutex of the requesters
  twice: the new backend removes the reader of the old one and gets none, the old one is destroyed with the mutex held, finds
  no reader and locks the mutex to look for a service. Unsubscribing from the reply topic and then from the service deadlocks
  in the same way.
\<close>

theorem second_types_fatal:
  fixes e :: "'d endpoints"
  assumes "finds_readers lookup" and "\<And>s. seqno (gs s) = 0" and "\<And>s. length (requests_to s rs) < 2 ^ 32"
    and "participant_requests lookup Some mk gs ty rs new_endpoints = Inr (out, e)" and "requests_to s rs \<noteq> []"
  shows "(ty' \<noteq> ty s \<longrightarrow> participant_request lookup Some mk g' s ty' x e =
      Inl (if fst ty' = fst (ty s) then Deadlock else Null_writer)) \<and>
    (readers_of s (data_readers e) = [] \<longrightarrow>
      (\<exists>e1. unsubscribe lookup (replyName s) e = Inr e1 \<and> unsubscribe lookup s e1 = Inl Deadlock))"
proof -
  obtain out' and e' :: "'d endpoints" where "participant_requests lookup Some mk gs ty rs new_endpoints = Inr (out', e')"
    "\<And>s. service_state mk (gs s) (ty s) (requests_to s rs) (sent_to s out') s e'"
    using requests_from_new [of lookup gs rs mk ty, OF assms(1-3)] by blast
  then have "service_state mk (gs s) (ty s) (requests_to s rs) (sent_to s out) s e" using assms(4) by simp
  note st = this
  show ?thesis
    by (intro conjI impI other_types [OF assms(1) st assms(5)] unsubscribe_twice [OF assms(1) st assms(5)])
qed

theorem second_types_fatal_witness:
  "\<exists>out (e :: nat endpoints). participant_requests first_reader Some id (\<lambda>s. Guid (replicate 16 1) 0)
     (\<lambda>s. (''Q'', ''R'')) [(''a'', 1 :: nat)] new_endpoints = Inr (out, e) \<and>
     participant_request first_reader Some id (Guid (replicate 16 2) 0) ''a'' (''Q'', ''S'') (2 :: nat) e = Inl Deadlock"
proof -
  let ?run = "participant_requests first_reader Some id (\<lambda>s. Guid (replicate 16 1) 0) (\<lambda>s. (''Q'', ''R'')) [(''a'', 1 :: nat)]"
  have len: "length (requests_to s [(''a'', 1 :: nat)]) < 2 ^ 32" for s by (simp add: requests_to_def)
  have g: "seqno (Guid (replicate 16 1) 0) = 0" by simp
  obtain out and e :: "nat endpoints" where run: "?run new_endpoints = Inr (out, e)"
    using requests_from_new [OF first_reader_finds g len] by blast
  have "requests_to ''a'' [(''a'', 1 :: nat)] \<noteq> []" by (simp add: requests_to_def)
  from second_types_fatal [OF first_reader_finds g len run this, of "(''Q'', ''S'')" "Guid (replicate 16 2) 0" 2] run
  show ?thesis by auto
qed



text \<open>
  C37. A reactor takes other services down with it. Its destructors pass the names of topics to \<open>unadvertise\<close>, which wants the
  name of a service. A server that is made and destroyed leaves its own readers and writers as they were, since its readers
  are unsubscribed and its writers go with their publishers; but it also removes a reader of the requests of the services
  \<^verbatim>\<open>x/reply\<close> and \<^verbatim>\<open>x/progress\<close> and a writer of their replies, and a client does so with \<^verbatim>\<open>x/command\<close> and \<^verbatim>\<open>x/request\<close>.
\<close>

theorem reactor_destructors_hit_others:
  fixes e :: "'d endpoints"
  assumes "finds_readers lookup"
    and "\<And>t. t \<in> {x @ ''/command'', x @ ''/progress'', x @ ''/reply'', x @ ''/request''} \<Longrightarrow> free_topic t e"
  shows "(\<exists>w e1 e2. make_reactor_server lookup Some x ty e = (w, e1) \<and> delete_reactor_server lookup x w e1 = Inr e2 \<and>
      (\<forall>t. n_readers t e2 = n_readers t e - (if t \<in> {x @ ''/reply/request'', x @ ''/progress/request''} then 1 else 0)) \<and>
      data_writers e2 = data_writers e - {#x @ ''/reply/reply'', x @ ''/progress/reply''#}) \<and>
    (\<exists>w e1 e2. make_reactor_client lookup Some x ty e = Inr (w, e1) \<and> delete_reactor_client lookup x w e1 = Inr e2 \<and>
      (\<forall>t. n_readers t e2 = n_readers t e - (if t \<in> {x @ ''/command/request'', x @ ''/request/request''} then 1 else 0)) \<and>
      data_writers e2 = data_writers e - {#x @ ''/command/reply'', x @ ''/request/reply''#})"
  using reactor_server_effect [OF assms] reactor_client_effect [OF assms] by blast

theorem reactor_destructors_hit_others_witness:
  "\<exists>w e1 e2. make_reactor_server first_reader Some ''x'' (''Q'', ''R'')
       ((new_endpoints :: nat endpoints)\<lparr>data_readers := [(''x/reply/request'', ''T'')], data_writers := {#''x/reply/reply''#}\<rparr>) = (w, e1) \<and>
     delete_reactor_server first_reader ''x'' w e1 = Inr e2 \<and> n_readers ''x/reply/request'' e2 = 0 \<and> data_writers e2 = {#}"
proof -
  let ?e = "(new_endpoints :: nat endpoints)\<lparr>data_readers := [(''x/reply/request'', ''T'')], data_writers := {#''x/reply/reply''#}\<rparr>"
  have "free_topic t ?e" if "t \<in> {''x'' @ ''/command'', ''x'' @ ''/progress'', ''x'' @ ''/reply'', ''x'' @ ''/request''}" for t
    using that by (auto simp: free_topic_def new_endpoints_def n_readers_def readers_of_def)
  from reactor_destructors_hit_others [of first_reader "''x''" ?e "(''Q'', ''R'')", OF first_reader_finds this]
  obtain w e1 e2 where "make_reactor_server first_reader Some ''x'' (''Q'', ''R'') ?e = (w, e1)"
    "delete_reactor_server first_reader ''x'' w e1 = Inr e2" "n_readers ''x/reply/request'' e2 = n_readers ''x/reply/request'' ?e - 1"
    "data_writers e2 = data_writers ?e - {#''x/reply/reply'', ''x/progress/reply''#}"
    by auto
  then show ?thesis by (auto simp: n_readers_def readers_of_def)
qed

end
