(* ===== verification/LT_Lifetime.thy ===== *)
theory LT_Lifetime
  imports LT_Prelude "HOL-Library.Multiset"
begin

text \<open>
  The life of a participant: \<open>Participant::create\<close> with its profiles, the shared pointers between the participant, the
  entities of Fast DDS, the publishers handed to the program and the back ends of services, and the destructors
  (\<^verbatim>\<open>Participant.cpp\<close>, \<^verbatim>\<open>Participant.hpp\<close>, the members of the classes in \<^verbatim>\<open>RequestReplyImpl.hpp\<close>). A shared pointer is an
  edge from its owner, the program being \<open>None\<close>, to its object; an object ends with its last edge, and its deleter and then its
  members' pointers go. What profiles Fast DDS has is a parameter, and so is what the look-ups by topic in the destructor of a
  back end find (\<open>found\<close>, given the back end and the entities there are); which endpoints these are is in \<open>LT_Endpoints\<close>.
\<close>

section \<open>Profiles\<close>

datatype profile_source = Profile_file string | Default_profile

record factory =
  s_loadedProfiles :: bool
  loaded_sources :: "profile_source list"
  default_name :: string

text \<open>A name that is empty, marked, or the one Fast DDS gives is replaced by the program's.\<close>

definition needs_name :: "string \<Rightarrow> bool" where
  "needs_name n \<longleftrightarrow> n = [] \<or> hd n = CHR ''@'' \<or> take 15 n = ''RTPSParticipant''"

text \<open>\<open>env\<close> is the environment variable \<open>LT_PROFILE\<close>, \<open>name_in\<close> the default participant name after loading a source.\<close>

definition load_profiles :: "string option \<Rightarrow> (profile_source \<Rightarrow> string) \<Rightarrow> string \<Rightarrow> factory \<Rightarrow> factory" where
  "load_profiles env name_in program f =
     (if s_loadedProfiles f then f
      else
        let src = (case env of Some profileXml \<Rightarrow> Profile_file profileXml | None \<Rightarrow> Default_profile);
            n = name_in src
        in f\<lparr>s_loadedProfiles := True, loaded_sources := loaded_sources f @ [src],
             default_name := (if needs_name n then program else n)\<rparr>)"

text \<open>The name of the new participant: that of its profile if there is one.\<close>

definition participant_name :: "(string \<rightharpoonup> string) \<Rightarrow> string \<Rightarrow> factory \<Rightarrow> string" where
  "participant_name profiles i_qosProfile f =
     (if i_qosProfile = [] then default_name f
      else case profiles i_qosProfile of Some n \<Rightarrow> n | None \<Rightarrow> default_name f)"

section \<open>Objects and pointers\<close>

datatype obj =
  Lt_participant
  | Dds_participant
  | Dds_publisher
  | Dds_subscriber
  | Writer nat
  | Reader nat
  | Backend nat
  | Provider nat

type_synonym ref = "obj option \<times> obj"

datatype deletion =
  Delete_contained obj
  | Delete obj

datatype life_fault = Dangling_participant | Deleted_writer nat

record life =
  refs :: "ref list"
  entities :: "obj list"
  deletions :: "deletion list"
  faults :: "life_fault list"
  withdrawn :: "nat list"

definition is_alive :: "obj \<Rightarrow> life \<Rightarrow> bool" where
  "is_alive x s \<longleftrightarrow> x \<in> snd ` set (refs s)"

text \<open>What Fast DDS keeps inside an entity.\<close>

fun contained :: "obj \<Rightarrow> obj \<Rightarrow> bool" where
  "contained Dds_publisher (Writer w) \<longleftrightarrow> True"
| "contained Dds_subscriber (Reader r) \<longleftrightarrow> True"
| "contained Dds_participant x \<longleftrightarrow> x \<noteq> Dds_participant"
| "contained _ _ \<longleftrightarrow> False"

text \<open>Deleting an entity is refused while it contains others.\<close>

definition delete_entity :: "obj \<Rightarrow> life \<Rightarrow> life" where
  "delete_entity x s =
     s\<lparr>entities := (if \<exists>y \<in> set (entities s). contained x y then entities s else removeAll x (entities s)),
       deletions := deletions s @ [Delete x]\<rparr>"

definition delete_contained_entities :: "obj \<Rightarrow> life \<Rightarrow> life" where
  "delete_contained_entities x s =
     s\<lparr>entities := filter (\<lambda>y. \<not> contained x y) (entities s), deletions := deletions s @ [Delete_contained x]\<rparr>"

text \<open>What \<open>unsubscribe\<close> and \<open>unadvertise\<close> do with an endpoint they find: a reader is emptied and deleted; a writer is deleted
  under the publishers that use it, and noted as withdrawn.\<close>

fun end_endpoint :: "obj \<Rightarrow> life \<Rightarrow> life" where
  "end_endpoint (Reader r) s = delete_entity (Reader r) (delete_contained_entities (Reader r) s)"
| "end_endpoint (Writer w) s = (delete_entity (Writer w) s)\<lparr>withdrawn := withdrawn s @ [w]\<rparr>"
| "end_endpoint x s = s"

definition end_found :: "obj list \<Rightarrow> life \<Rightarrow> life" where
  "end_found xs s = fold (\<lambda>x s. if x \<in> set (entities s) then end_endpoint x s else s) xs s"

text \<open>The deleters. That of a writer looks at \<open>m_publisher\<close> of the participant it was made by, through a plain pointer, and hands
  the writer to Fast DDS once more if \<open>unadvertise\<close> has deleted it. The
  destructor of a back end ends the subscriptions, and that of a reactor also the writers, that it finds by their topics; where it finds
  no reader, \<open>unsubscribe\<close> erases the back end that \<open>request\<close> has kept under that name, and none is kept under the name of a topic.\<close>

fun run_deleter :: "(nat \<Rightarrow> obj list \<Rightarrow> obj list) \<Rightarrow> obj \<Rightarrow> life \<Rightarrow> life" where
  "run_deleter found Lt_participant s = s"
| "run_deleter found (Writer w) s =
     (if \<not> is_alive Lt_participant s then s\<lparr>faults := faults s @ [Dangling_participant]\<rparr>
      else if Writer w \<in> set (entities s) then delete_entity (Writer w) s
      else s\<lparr>faults := faults s @ [Deleted_writer w]\<rparr>)"
| "run_deleter found (Backend b) s = end_found (found b (entities s)) s"
| "run_deleter found x s = delete_entity x (delete_contained_entities x s)"

lemma refs_deleted [simp]:
  "refs (delete_entity x s) = refs s" "refs (delete_contained_entities x s) = refs s" "refs (end_endpoint x s) = refs s"
  by (simp_all add: delete_entity_def delete_contained_entities_def)
    (cases x; simp add: delete_entity_def delete_contained_entities_def)

lemma refs_found [simp]: "refs (end_found xs s) = refs s"
  unfolding end_found_def by (induction xs arbitrary: s) simp_all

lemma refs_deleter [simp]: "refs (run_deleter found x s) = refs s"
  by (cases x) simp_all

lemma alive_deleter [simp]: "is_alive y (run_deleter found x s) = is_alive y s"
  by (simp add: is_alive_def)

text \<open>The order in which the pointers of an object go: members in the reverse order of their construction. The destructor of
  the participant resets three of its own before.\<close>

definition member_order :: "obj \<Rightarrow> ref list \<Rightarrow> obj list" where
  "member_order x rs =
     (let ms = rev (map snd (filter (\<lambda>r. fst r = Some x) rs)); own = [Dds_publisher, Dds_subscriber, Dds_participant]
      in if x = Lt_participant then filter (\<lambda>y. y \<in> set ms) own @ filter (\<lambda>y. y \<notin> set own) ms else ms)"

text \<open>Resetting pointers, one after another; the members of an object that ends go first.\<close>

function release_all :: "(nat \<Rightarrow> obj list \<Rightarrow> obj list) \<Rightarrow> ref list \<Rightarrow> life \<Rightarrow> life" where
  "release_all found [] s = s"
| "release_all found (r # rs) s =
     (if r \<notin> set (refs s) then release_all found rs s
      else
        let s1 = s\<lparr>refs := remove1 r (refs s)\<rparr> in
        if is_alive (snd r) s1 then release_all found rs s1
        else release_all found (map (Pair (Some (snd r))) (member_order (snd r) (refs s1)) @ rs) (run_deleter found (snd r) s1))"
  by pat_completeness auto
termination
  by (relation "measures [\<lambda>(f, rs, s). length (refs s), \<lambda>(f, rs, s). length rs]")
    (auto simp: length_remove1 dest: length_pos_if_in_set)

section \<open>The program\<close>

text \<open>\<open>create\<close>; Fast DDS may refuse to create a participant, whose null pointer is then used.\<close>

definition new_life :: life where
  "new_life =
     \<lparr>refs = [(Some Lt_participant, Dds_participant), (Some Dds_publisher, Dds_participant), (Some Lt_participant, Dds_publisher),
              (Some Dds_subscriber, Dds_participant), (Some Lt_participant, Dds_subscriber), (None, Lt_participant)],
      entities = [Dds_participant, Dds_publisher, Dds_subscriber], deletions = [], faults = [], withdrawn = []\<rparr>"

datatype create_fault = Null_participant

definition create ::
  "string option \<Rightarrow> (profile_source \<Rightarrow> string) \<Rightarrow> string \<Rightarrow> (string \<rightharpoonup> string) \<Rightarrow> bool \<Rightarrow> string \<Rightarrow> factory \<Rightarrow>
   (create_fault + string \<times> life) \<times> factory" where
  "create env name_in program profiles made i_qosProfile f =
     (let f1 = load_profiles env name_in program f
      in (if made then Inr (participant_name profiles i_qosProfile f1, new_life) else Inl Null_participant, f1))"

text \<open>What a program can do with what it holds: copy and drop pointers, advertise and publish, subscribe, also with another type,
  which ends the reader there was, unsubscribe from a topic, make the back
  end of a replier, requester or reactor (with its new writers and readers, as many of them as can be made), make a request
  through the participant, which keeps the back end in \<open>m_requesterBackendMap\<close>, and unsubscribe from that service, provide a
  service by a callback, whose listener holds its publisher and is never deleted, and unadvertise a service, which ends the reader
  and the writer that are found. Every owner of a publisher publishes.\<close>

definition fresh :: "obj \<Rightarrow> life \<Rightarrow> bool" where
  "fresh x s \<longleftrightarrow> x \<notin> set (entities s) \<and> x \<notin> snd ` set (refs s) \<and> Some x \<notin> fst ` set (refs s)"

definition copy_pointer :: "obj \<Rightarrow> life \<Rightarrow> life" where
  "copy_pointer x s = s\<lparr>refs := refs s @ [(None, x)]\<rparr>"

definition drop_pointer :: "(nat \<Rightarrow> obj list \<Rightarrow> obj list) \<Rightarrow> obj \<Rightarrow> life \<Rightarrow> life" where
  "drop_pointer found x s = release_all found [(None, x)] s"

definition life_advertise :: "nat \<Rightarrow> life \<Rightarrow> life" where
  "life_advertise w s = s\<lparr>refs := refs s @ [(None, Writer w)], entities := entities s @ [Writer w]\<rparr>"

text \<open>\<open>old\<close> is the reader of another type that is found on the topic, if there is one.\<close>

definition life_subscribe :: "nat option \<Rightarrow> nat \<Rightarrow> life \<Rightarrow> life" where
  "life_subscribe old r s =
     (let s1 = (case old of None \<Rightarrow> s | Some q \<Rightarrow> delete_entity (Reader q) s) in s1\<lparr>entities := entities s1 @ [Reader r]\<rparr>)"

definition life_publish :: "nat \<Rightarrow> life \<Rightarrow> life" where
  "life_publish w s = (if Writer w \<in> set (entities s) then s else s\<lparr>faults := faults s @ [Deleted_writer w]\<rparr>)"

definition make_backend :: "obj option \<Rightarrow> nat \<Rightarrow> nat list \<Rightarrow> nat list \<Rightarrow> life \<Rightarrow> life" where
  "make_backend owner b ws rds s =
     s\<lparr>refs := refs s @ (Some (Backend b), Lt_participant) # map (\<lambda>w. (Some (Backend b), Writer w)) ws @ [(owner, Backend b)],
       entities := entities s @ map Writer ws @ map Reader rds\<rparr>"

definition life_provide :: "nat \<Rightarrow> nat list \<Rightarrow> nat list \<Rightarrow> life \<Rightarrow> life" where
  "life_provide p ws rds s =
     s\<lparr>refs := refs s @ map (\<lambda>w. (Some (Provider p), Writer w)) ws, entities := entities s @ map Writer ws @ map Reader rds\<rparr>"

text \<open>\<open>unsubscribe\<close>: the reader found on the topic, or the back end that \<open>request\<close> has kept for the service.\<close>

definition life_unsubscribe :: "(nat \<Rightarrow> obj list \<Rightarrow> obj list) \<Rightarrow> nat + nat \<Rightarrow> life \<Rightarrow> life" where
  "life_unsubscribe found x s =
     (case x of Inl r \<Rightarrow> end_found [Reader r] s | Inr b \<Rightarrow> release_all found [(Some Lt_participant, Backend b)] s)"

definition life_unadvertise :: "nat option \<Rightarrow> nat option \<Rightarrow> life \<Rightarrow> life" where
  "life_unadvertise server replier s =
     end_found ((case server of None \<Rightarrow> [] | Some r \<Rightarrow> [Reader r]) @ (case replier of None \<Rightarrow> [] | Some w \<Rightarrow> [Writer w])) s"

inductive life_step :: "(nat \<Rightarrow> obj list \<Rightarrow> obj list) \<Rightarrow> life \<Rightarrow> life \<Rightarrow> bool" for found where
  copies: "(None, x) \<in> set (refs s) \<Longrightarrow> life_step found s (copy_pointer x s)"
| drops: "(None, x) \<in> set (refs s) \<Longrightarrow> life_step found s (drop_pointer found x s)"
| advertises: "(None, Lt_participant) \<in> set (refs s) \<Longrightarrow> fresh (Writer w) s \<Longrightarrow> life_step found s (life_advertise w s)"
| subscribes: "(None, Lt_participant) \<in> set (refs s) \<Longrightarrow> fresh (Reader r) s \<Longrightarrow>
    \<forall>q. old = Some q \<longrightarrow> Reader q \<in> set (entities s) \<Longrightarrow> life_step found s (life_subscribe old r s)"
| publishes: "(q, Writer w) \<in> set (refs s) \<Longrightarrow> life_step found s (life_publish w s)"
| serves: "(None, Lt_participant) \<in> set (refs s) \<Longrightarrow> fresh (Backend b) s \<Longrightarrow> distinct ws \<Longrightarrow> distinct rds \<Longrightarrow>
    \<forall>x \<in> Writer ` set ws \<union> Reader ` set rds. fresh x s \<Longrightarrow> life_step found s (make_backend None b ws rds s)"
| requests: "(None, Lt_participant) \<in> set (refs s) \<Longrightarrow> fresh (Backend b) s \<Longrightarrow> distinct ws \<Longrightarrow> distinct rds \<Longrightarrow>
    \<forall>x \<in> Writer ` set ws \<union> Reader ` set rds. fresh x s \<Longrightarrow> life_step found s (make_backend (Some Lt_participant) b ws rds s)"
| provides: "(None, Lt_participant) \<in> set (refs s) \<Longrightarrow> fresh (Provider p) s \<Longrightarrow> distinct ws \<Longrightarrow> distinct rds \<Longrightarrow>
    \<forall>x \<in> Writer ` set ws \<union> Reader ` set rds. fresh x s \<Longrightarrow> life_step found s (life_provide p ws rds s)"
| unsubscribes: "(None, Lt_participant) \<in> set (refs s) \<Longrightarrow> life_step found s (life_unsubscribe found x s)"
| unadvertises: "(None, Lt_participant) \<in> set (refs s) \<Longrightarrow> life_step found s (life_unadvertise server replier s)"

section \<open>Releasing pointers\<close>

lemma refs_release: "set (refs (release_all found rs s)) \<subseteq> set (refs s)"
proof (induction found rs s rule: release_all.induct)
  case (2 found r rs s)
  show ?case
    using 2 set_remove1_subset [of r "refs s"] by (simp add: Let_def) (meson subset_trans)
qed simp

lemma alive_release: "is_alive x (release_all found rs s) \<Longrightarrow> is_alive x s"
  using refs_release [of found rs s] by (auto simp: is_alive_def)

lemma set_member_order: "y \<in> set (member_order x rs) \<longleftrightarrow> (Some x, y) \<in> set rs"
  by (auto simp: member_order_def Let_def image_iff)

lemma in_remove1: "q \<in> set rs \<Longrightarrow> q \<noteq> r \<Longrightarrow> q \<in> set (remove1 r rs)"
  by simp

text \<open>Two objects that point at each other are kept, whatever else is released.\<close>

lemma cycle_release:
  assumes "(Some x, y) \<in> set (refs s)" "(Some y, x) \<in> set (refs s)" "(Some x, y) \<notin> set rs" "(Some y, x) \<notin> set rs"
  shows "(Some x, y) \<in> set (refs (release_all found rs s)) \<and> (Some y, x) \<in> set (refs (release_all found rs s))"
  using assms
proof (induction found rs s rule: release_all.induct)
  case (2 found r rs s)
  let ?s1 = "s\<lparr>refs := remove1 r (refs s)\<rparr>"
  have keep: "(Some x, y) \<in> set (refs ?s1)" "(Some y, x) \<in> set (refs ?s1)" using "2.prems" by auto
  then have alive: "is_alive x ?s1" "is_alive y ?s1" by (force simp: is_alive_def)+
  show ?case
  proof (cases "r \<in> set (refs s) \<and> \<not> is_alive (snd r) ?s1")
    case True
    then have "snd r \<noteq> x" "snd r \<noteq> y" using alive by auto
    then show ?thesis using True "2.IH"(3) [OF _ refl] keep "2.prems" by (auto simp: Let_def)
  next
    case False
    then show ?thesis using "2.IH"(1,2) keep "2.prems" by (auto simp: Let_def)
  qed
qed simp

section \<open>While the participant lives\<close>

definition dds_core :: "obj set" where
  "dds_core = {Dds_participant, Dds_publisher, Dds_subscriber}"

definition core_refs :: "ref list" where
  "core_refs = [(Some Lt_participant, Dds_participant), (Some Dds_publisher, Dds_participant), (Some Lt_participant, Dds_publisher),
     (Some Dds_subscriber, Dds_participant), (Some Lt_participant, Dds_subscriber)]"

text \<open>The entities point at entities, the participant points at entities and back ends, and a writer points at nothing.\<close>

definition owner_ok :: "ref \<Rightarrow> bool" where
  "owner_ok r \<longleftrightarrow>
     (case fst r of
        Some Lt_participant \<Rightarrow> snd r \<in> dds_core \<union> range Backend
      | Some (Writer w) \<Rightarrow> False
      | Some x \<Rightarrow> x \<in> dds_core \<longrightarrow> snd r \<in> dds_core
      | None \<Rightarrow> True)"

text \<open>With the pointers \<open>rs\<close> about to be reset: the entities of Fast DDS have the pointers they were made with and no others,
  every writer that is pointed at exists or was withdrawn, every back end that is pointed at points at the participant, and only
  withdrawn writers were used after their end.\<close>

definition life_ok :: "ref list \<Rightarrow> life \<Rightarrow> bool" where
  "life_ok rs s \<longleftrightarrow>
     mset (filter (\<lambda>r. snd r \<in> dds_core) (refs s)) = mset core_refs \<and> (\<forall>r \<in> set rs. snd r \<notin> dds_core) \<and>
     dds_core \<subseteq> set (entities s) \<and> set (faults s) \<subseteq> Deleted_writer ` set (withdrawn s) \<and>
     (\<forall>r \<in> set (refs s). owner_ok r) \<and>
     (\<forall>b. is_alive (Backend b) s \<longrightarrow>
        (Some (Backend b), Lt_participant) \<in> set (refs s) \<and> (\<forall>r \<in> set rs. fst r \<noteq> Some (Backend b))) \<and>
     (\<forall>w. is_alive (Writer w) s \<longrightarrow> Writer w \<in> set (entities s) \<or> w \<in> set (withdrawn s))"

lemma core_owner:
  assumes "mset (filter (\<lambda>r. snd r \<in> dds_core) rs) = mset core_refs"
  shows "r \<in> set rs \<and> snd r \<in> dds_core \<longleftrightarrow> r \<in> set core_refs"
  using mset_eq_setD [OF assms] by auto

lemma life_ok_remove:
  assumes "life_ok (r # rs) s" "is_alive Lt_participant (s\<lparr>refs := remove1 r (refs s)\<rparr>)"
  shows "life_ok rs (s\<lparr>refs := remove1 r (refs s)\<rparr>)"
proof -
  have r: "snd r \<notin> dds_core" using assms(1) by (simp add: life_ok_def)
  then have "filter (\<lambda>r. snd r \<in> dds_core) (remove1 r (refs s)) = filter (\<lambda>r. snd r \<in> dds_core) (refs s)"
    by (simp add: filter_remove1 remove1_idem)
  moreover have alive: "is_alive x (s\<lparr>refs := remove1 r (refs s)\<rparr>) \<Longrightarrow> is_alive x s" for x
    using set_remove1_subset [of r "refs s"] by (auto simp: is_alive_def)
  moreover have "(Some (Backend b), Lt_participant) \<in> set (remove1 r (refs s)) \<and> (\<forall>r \<in> set rs. fst r \<noteq> Some (Backend b))"
    if "is_alive (Backend b) (s\<lparr>refs := remove1 r (refs s)\<rparr>)" for b
    using alive [OF that] assms(1) by (auto simp: life_ok_def intro!: in_remove1)
  moreover have "set (remove1 r (refs s)) \<subseteq> set (refs s)" by (rule set_remove1_subset)
  ultimately show ?thesis
    using assms(1) unfolding life_ok_def by simp blast
qed

lemma end_endpoint_spec:
  assumes "x \<notin> dds_core" "x \<noteq> Lt_participant"
  shows "faults (end_endpoint x s) = faults s" "set (withdrawn s) \<subseteq> set (withdrawn (end_endpoint x s))"
    "set (entities s) - {x} \<subseteq> set (entities (end_endpoint x s))" "x = Writer w \<Longrightarrow> w \<in> set (withdrawn (end_endpoint x s))"
  by (cases x; use assms in \<open>simp add: delete_entity_def delete_contained_entities_def dds_core_def\<close>; auto)+

text \<open>Ending endpoints keeps the invariant, since the writers among them are noted.\<close>

lemma end_endpoint_core: "x \<in> insert Lt_participant dds_core \<Longrightarrow> end_endpoint x s = s"
  by (auto simp: dds_core_def)

lemma life_ok_endpoint: "life_ok rs s \<Longrightarrow> life_ok rs (end_endpoint x s)"
proof (cases "x \<in> insert Lt_participant dds_core")
  case False
  assume ok: "life_ok rs s"
  from False have x: "x \<notin> dds_core" "x \<noteq> Lt_participant" by auto
  note spec = end_endpoint_spec [OF x]
  have "is_alive y (end_endpoint x s) = is_alive y s" for y by (simp add: is_alive_def)
  moreover have "set (faults (end_endpoint x s)) \<subseteq> Deleted_writer ` set (withdrawn (end_endpoint x s))"
  proof -
    have "set (faults s) \<subseteq> Deleted_writer ` set (withdrawn s)" using ok by (simp add: life_ok_def)
    then show ?thesis unfolding spec(1) using image_mono [OF spec(2)] by (rule subset_trans)
  qed
  moreover have "dds_core \<subseteq> set (entities (end_endpoint x s))" using ok spec(3) [of s] x(1) unfolding life_ok_def by blast
  moreover have "Writer w \<in> set (entities (end_endpoint x s)) \<or> w \<in> set (withdrawn (end_endpoint x s))" if "is_alive (Writer w) s" for w
    using that ok spec(2,3) [of s] spec(4) [of w s] unfolding life_ok_def by blast
  ultimately show ?thesis using ok unfolding life_ok_def refs_deleted by simp
qed (simp add: end_endpoint_core)

lemma life_ok_found: "life_ok rs s \<Longrightarrow> life_ok rs (end_found xs s)"
  unfolding end_found_def by (induction xs arbitrary: s) (simp_all add: life_ok_endpoint)

lemma life_ok_writer:
  assumes "life_ok rs s" "\<not> is_alive (Writer w) s"
  shows "life_ok rs (delete_entity (Writer w) s)"
  using assms by (auto simp: life_ok_def delete_entity_def is_alive_def dds_core_def)

lemma life_ok_fault: "life_ok rs s \<Longrightarrow> w \<in> set (withdrawn s) \<Longrightarrow> life_ok rs (s\<lparr>faults := faults s @ [Deleted_writer w]\<rparr>)"
  by (auto simp: life_ok_def is_alive_def)

lemma life_ok_deleter:
  assumes "life_ok rs s" "x \<notin> dds_core" "is_alive Lt_participant s" "\<not> is_alive x s" "x \<in> range Writer \<longrightarrow> x \<in> set (entities s) \<or> x \<in> Writer ` set (withdrawn s)"
  shows "life_ok (map (Pair (Some x)) (member_order x (refs s)) @ rs) (run_deleter found x s)"
proof -
  have x: "x \<noteq> Lt_participant" using assms(3,4) by auto
  have members: "snd r \<notin> dds_core" if "r \<in> set (map (Pair (Some x)) (member_order x (refs s)))" for r
  proof
    assume "snd r \<in> dds_core"
    moreover have "r \<in> set (refs s)" "fst r = Some x" using that by (auto simp: set_member_order)
    ultimately have "r \<in> set core_refs" using core_owner [of "refs s" r] assms(1) by (simp add: life_ok_def)
    with \<open>fst r = Some x\<close> assms(2) x show False by (auto simp: core_refs_def dds_core_def)
  qed
  have "\<forall>r \<in> set (map (Pair (Some x)) (member_order x (refs s)) @ rs). fst r \<noteq> Some (Backend b)" if "is_alive (Backend b) s" for b
    using that assms(1,4) by (auto simp: life_ok_def)
  moreover have "\<forall>r \<in> set (map (Pair (Some x)) (member_order x (refs s)) @ rs). snd r \<notin> dds_core"
    using members assms(1) unfolding life_ok_def set_append ball_Un by blast
  ultimately have ok: "life_ok (map (Pair (Some x)) (member_order x (refs s)) @ rs) s"
    using assms(1) unfolding life_ok_def by blast
  show ?thesis
  proof (cases x)
    case (Writer w)
    then show ?thesis using ok assms(3-5) by (auto simp: life_ok_writer life_ok_fault)
  next
    case (Reader r)
    then show ?thesis using life_ok_endpoint [OF ok, of x] by simp
  next
    case (Backend b)
    then show ?thesis using life_ok_found [OF ok] by simp
  next
    case (Provider p)
    then show ?thesis using ok by (auto simp: life_ok_def is_alive_def dds_core_def delete_entity_def delete_contained_entities_def)
  qed (use assms(2) x in \<open>auto simp: dds_core_def\<close>)
qed

lemma life_ok_release: "life_ok rs s \<Longrightarrow> is_alive Lt_participant (release_all found rs s) \<Longrightarrow> life_ok [] (release_all found rs s)"
proof (induction found rs s rule: release_all.induct)
  case (2 found r rs s)
  let ?s1 = "s\<lparr>refs := remove1 r (refs s)\<rparr>"
  show ?case
  proof (cases "r \<in> set (refs s)")
    case True
    have "is_alive Lt_participant ?s1"
    proof (cases "is_alive (snd r) ?s1")
      case True
      then show ?thesis using "2.prems"(2) \<open>r \<in> set (refs s)\<close> alive_release [of Lt_participant found rs ?s1] by (simp add: Let_def)
    next
      case False
      with \<open>r \<in> set (refs s)\<close> show ?thesis
        using alive_release [of Lt_participant found _ "run_deleter found (snd r) ?s1"] "2.prems"(2) by (simp add: Let_def)
    qed
    note ok = life_ok_remove [OF "2.prems"(1) this] and this
    moreover have "snd r \<notin> dds_core" using "2.prems"(1) by (simp add: life_ok_def)
    moreover have "is_alive (snd r) s" using True by (auto simp: is_alive_def)
    then have "snd r \<in> range Writer \<longrightarrow> snd r \<in> set (entities ?s1) \<or> snd r \<in> Writer ` set (withdrawn ?s1)"
      using "2.prems"(1) by (auto simp: life_ok_def)
    ultimately have "life_ok (map (Pair (Some (snd r))) (member_order (snd r) (refs ?s1)) @ rs) (run_deleter found (snd r) ?s1)"
      if "\<not> is_alive (snd r) ?s1" using that by (intro life_ok_deleter) auto
    then show ?thesis using True "2.IH"(2,3) [OF _ refl] ok "2.prems"(2) by (auto simp: Let_def)
  next
    case False
    moreover have "life_ok rs s" using "2.prems"(1) by (auto simp: life_ok_def)
    ultimately show ?thesis using "2.IH"(1) "2.prems"(2) by simp
  qed
qed simp

section \<open>What the program can reach\<close>

lemma life_ok_add:
  assumes "life_ok [] s"
    "\<And>q. q \<in> set qs \<Longrightarrow> snd q \<notin> dds_core \<and> owner_ok q"
    "\<And>q b. q \<in> set qs \<Longrightarrow> snd q = Backend b \<Longrightarrow> (Some (Backend b), Lt_participant) \<in> set (refs s @ qs)"
    "\<And>q w. q \<in> set qs \<Longrightarrow> snd q = Writer w \<Longrightarrow> Writer w \<in> set (entities s @ es) \<or> w \<in> set (withdrawn s)"
  shows "life_ok [] (s\<lparr>refs := refs s @ qs, entities := entities s @ es\<rparr>)"
proof -
  let ?s = "s\<lparr>refs := refs s @ qs, entities := entities s @ es\<rparr>"
  have "filter (\<lambda>r. snd r \<in> dds_core) qs = []" using assms(2) by (auto simp: filter_empty_conv)
  moreover have alive: "is_alive x ?s \<longleftrightarrow> is_alive x s \<or> x \<in> snd ` set qs" for x by (auto simp: is_alive_def)
  have "(Some (Backend b), Lt_participant) \<in> set (refs ?s)" if "is_alive (Backend b) ?s" for b
    using that assms(1,3) alive [of "Backend b"] by (auto simp: life_ok_def image_iff) (metis snd_conv)+
  moreover have "Writer w \<in> set (entities ?s) \<or> w \<in> set (withdrawn s)" if "is_alive (Writer w) ?s" for w
    using that assms(1,4) alive [of "Writer w"] by (auto simp: life_ok_def image_iff) (metis snd_conv)+
  moreover have "\<forall>r \<in> set (refs s @ qs). owner_ok r" using assms(1,2) by (auto simp: life_ok_def)
  ultimately show ?thesis using assms(1) unfolding life_ok_def by auto
qed

lemma life_ok_backend:
  assumes "life_ok [] s" "owner \<in> {None, Some Lt_participant}"
  shows "life_ok [] (make_backend owner b ws rds s)"
  unfolding make_backend_def
  using assms by (intro life_ok_add) (auto simp: dds_core_def owner_ok_def)

lemma alive_held: "(q, x) \<in> set (refs s) \<Longrightarrow> is_alive x s"
  by (force simp: is_alive_def)

lemma held_core: "life_ok [] s \<Longrightarrow> (None, x) \<in> set (refs s) \<Longrightarrow> x \<notin> dds_core"
  using core_owner [of "refs s" "(None, x)"] by (auto simp: life_ok_def core_refs_def)

lemma life_ok_step:
  assumes "life_step found s s'" "is_alive Lt_participant s \<Longrightarrow> life_ok [] s" "is_alive Lt_participant s'"
  shows "life_ok [] s'"
  using assms
proof (induction rule: life_step.induct)
  case (drops x s)
  have "life_ok [(None, x)] s" if "x \<notin> dds_core"
    using drops alive_release [of Lt_participant] that unfolding drop_pointer_def life_ok_def by auto
  moreover have "x \<notin> dds_core"
    using drops alive_release [of Lt_participant] held_core unfolding drop_pointer_def by blast
  ultimately show ?case using drops(3) life_ok_release unfolding drop_pointer_def by blast
next
  case (unsubscribes s x)
  then have ok: "life_ok [] s" using alive_held by blast
  then have "life_ok [(Some Lt_participant, Backend b)] s" for b unfolding life_ok_def by (auto simp: dds_core_def)
  note rel = life_ok_release [OF this]
  show ?case
  proof (cases x)
    case (Inr b)
    then show ?thesis using unsubscribes(3) rel by (simp add: life_unsubscribe_def)
  qed (simp add: life_unsubscribe_def life_ok_found ok)
next
  case (unadvertises s server replier)
  then have "life_ok [] s" using alive_held by blast
  then show ?case unfolding life_unadvertise_def by (rule life_ok_found)
next
  case (copies x s)
  then have "is_alive Lt_participant s" by (force simp: copy_pointer_def is_alive_def)
  then have ok: "life_ok [] s" using copies(2) by blast
  then have "x \<notin> dds_core" "\<And>b. x = Backend b \<Longrightarrow> (Some (Backend b), Lt_participant) \<in> set (refs s)"
    "\<And>w. x = Writer w \<Longrightarrow> Writer w \<in> set (entities s) \<or> w \<in> set (withdrawn s)"
    using copies(1) held_core [OF ok] ok alive_held by (auto simp: life_ok_def)
  then show ?case using life_ok_add [OF ok, of "[(None, x)]" "[]"] by (simp add: copy_pointer_def owner_ok_def)
next
  case (advertises s w)
  then have "life_ok [] s" using alive_held by blast
  then show ?case
    using life_ok_add [of s "[(None, Writer w)]" "[Writer w]"] by (simp add: life_advertise_def dds_core_def owner_ok_def)
next
  case (subscribes s r old)
  then have ok: "life_ok [] s" using alive_held by blast
  let ?s = "case old of None \<Rightarrow> s | Some q \<Rightarrow> delete_entity (Reader q) s"
  have "life_ok [] ?s" using ok by (auto simp: life_ok_def delete_entity_def is_alive_def dds_core_def split: option.splits)
  from life_ok_add [OF this, of "[]" "[Reader r]"] show ?case by (simp add: life_subscribe_def Let_def)
next
  case (publishes q w s)
  then have "is_alive Lt_participant s" by (simp add: life_publish_def is_alive_def split: if_splits)
  then have ok: "life_ok [] s" using publishes(2) by blast
  moreover from this have "Writer w \<in> set (entities s) \<or> w \<in> set (withdrawn s)" using publishes(1) alive_held by (auto simp: life_ok_def)
  ultimately show ?case by (auto simp: life_publish_def life_ok_fault)
next
  case (serves s b ws rds)
  then have "life_ok [] s" using alive_held by blast
  then show ?case by (simp add: life_ok_backend)
next
  case (requests s b ws rds)
  then have "life_ok [] s" using alive_held by blast
  then show ?case by (simp add: life_ok_backend)
next
  case (provides s p ws rds)
  then have "life_ok [] s" using alive_held by blast
  then show ?case unfolding life_provide_def by (intro life_ok_add) (auto simp: dds_core_def owner_ok_def)
qed

lemma life_ok_reachable: "(life_step found)\<^sup>*\<^sup>* new_life s \<Longrightarrow> is_alive Lt_participant s \<Longrightarrow> life_ok [] s"
proof (induction rule: rtranclp_induct)
  case base
  then show ?case by (simp add: life_ok_def new_life_def core_refs_def dds_core_def owner_ok_def is_alive_def image_iff)
next
  case (step s s')
  then show ?case using life_ok_step by blast
qed

section \<open>The end of the participant\<close>

declare release_all.simps(2) [simp del]

text \<open>The pointers to and from the entities and from the participant are \<open>X\<close>, each of them there once.\<close>

definition core_are :: "ref set \<Rightarrow> ref list \<Rightarrow> bool" where
  "core_are X rs \<longleftrightarrow>
     {r \<in> set rs. snd r \<in> insert Lt_participant dds_core \<or> fst r \<in> Some ` insert Lt_participant dds_core} = X \<and>
     (\<forall>r \<in> X. count (mset rs) r = 1)"

lemma set_remove1_once: "count (mset xs) x = 1 \<Longrightarrow> set (remove1 x xs) = set xs - {x}"
  by (induction xs) (auto simp: count_mset_0_iff split: if_splits)

lemma core_remove:
  assumes "core_are X rs" "c \<in> X"
  shows "core_are (X - {c}) (remove1 c rs)"
proof -
  have "set (remove1 c rs) = set rs - {c}" using assms by (intro set_remove1_once) (simp add: core_are_def)
  moreover have "count (mset (remove1 c rs)) r = 1" if "r \<in> X" "r \<noteq> c" for r using assms that by (simp add: core_are_def)
  ultimately show ?thesis using assms by (auto simp: core_are_def)
qed

lemma core_alive:
  assumes "core_are X (refs s)" "x \<in> insert Lt_participant dds_core"
  shows "is_alive x s \<longleftrightarrow> x \<in> snd ` X"
  using assms by (auto simp: core_are_def is_alive_def image_iff)

lemma core_members:
  assumes "core_are X rs" "x \<in> dds_core"
  shows "set (member_order x rs) = {y. (Some x, y) \<in> X}" "distinct (member_order x rs)"
proof -
  show "set (member_order x rs) = {y. (Some x, y) \<in> X}"
    using assms by (auto simp: set_member_order core_are_def)
  have "count (mset (filter (\<lambda>r. fst r = Some x) rs)) r = 1" if "r \<in> set (filter (\<lambda>r. fst r = Some x) rs)" for r
  proof -
    have "r \<in> X" using that assms unfolding core_are_def by auto
    then show ?thesis using that assms(1) by (simp add: core_are_def)
  qed
  then have "distinct (filter (\<lambda>r. fst r = Some x) rs)"
    unfolding distinct_count_atmost_1 by (auto simp: count_mset_0_iff simp del: mset_filter)
  then have "distinct (map snd (filter (\<lambda>r. fst r = Some x) rs))"
    by (auto simp: distinct_map inj_on_def prod_eq_iff)
  then show "distinct (member_order x rs)"
    using assms(2) by (auto simp: member_order_def Let_def dds_core_def)
qed

lemma core_release:
  assumes "core_are X (refs s)" "c \<in> X" "snd c \<in> insert Lt_participant dds_core"
  shows "release_all found (c # rs) s =
    (let s1 = s\<lparr>refs := remove1 c (refs s)\<rparr> in
     if snd c \<in> snd ` (X - {c}) then release_all found rs s1
     else release_all found (map (Pair (Some (snd c))) (member_order (snd c) (refs s1)) @ rs) (run_deleter found (snd c) s1))"
proof -
  have "c \<in> set (refs s)" using assms(1,2) by (auto simp: core_are_def)
  moreover have "core_are (X - {c}) (refs (s\<lparr>refs := remove1 c (refs s)\<rparr>))" using core_remove [OF assms(1,2)] by simp
  note core_alive [OF this assms(3)]
  ultimately show ?thesis by (simp add: release_all.simps(2) Let_def)
qed

lemma core_before_end:
  assumes "life_ok [] s" "filter (\<lambda>r. snd r = Lt_participant) (refs s) = [(None, Lt_participant)]"
  shows "core_are (set core_refs) (remove1 (None, Lt_participant) (refs s))"
    "(None, Lt_participant) \<in> set (refs s)" "\<not> is_alive Lt_participant (s\<lparr>refs := remove1 (None, Lt_participant) (refs s)\<rparr>)"
proof -
  let ?R = "remove1 (None, Lt_participant) (refs s)"
  have gone: "filter (\<lambda>r. snd r = Lt_participant) ?R = []" using assms(2) by (simp add: filter_remove1)
  show held: "(None, Lt_participant) \<in> set (refs s)" using assms(2) by (metis (mono_tags) list.set_intros(1) mem_Collect_eq set_filter)
  show "\<not> is_alive Lt_participant (s\<lparr>refs := ?R\<rparr>)" using gone by (auto simp: is_alive_def filter_empty_conv)
  have core: "r \<in> set (refs s) \<and> snd r \<in> dds_core \<longleftrightarrow> r \<in> set core_refs" for r
    using core_owner assms(1) by (simp add: life_ok_def)
  have "\<not> is_alive (Backend b) s" for b
  proof
    assume "is_alive (Backend b) s"
    then have "(Some (Backend b), Lt_participant) \<in> set (filter (\<lambda>r. snd r = Lt_participant) (refs s))"
      using assms(1) by (simp add: life_ok_def)
    then show False unfolding assms(2) by simp
  qed
  then have own: "snd r \<in> dds_core" if "r \<in> set (refs s)" "fst r \<in> Some ` insert Lt_participant dds_core" for r
  proof -
    have "snd r \<notin> range Backend" using \<open>\<And>b. \<not> is_alive (Backend b) s\<close> alive_held [of "fst r" "snd r" s] that(1) by auto
    moreover have "owner_ok r" using that(1) assms(1) by (simp add: life_ok_def)
    ultimately show ?thesis using that(2) by (auto simp: owner_ok_def dds_core_def)
  qed
  have sub: "r \<in> set ?R \<Longrightarrow> r \<in> set (refs s)" for r using set_remove1_subset by fast
  have kept: "r \<in> set (refs s) \<Longrightarrow> snd r \<in> dds_core \<Longrightarrow> r \<in> set ?R" for r by (rule in_remove1) (auto simp: dds_core_def)
  have "{r \<in> set ?R. snd r \<in> insert Lt_participant dds_core \<or> fst r \<in> Some ` insert Lt_participant dds_core} = set core_refs"
  proof (intro equalityI subsetI)
    fix r assume r: "r \<in> {r \<in> set ?R. snd r \<in> insert Lt_participant dds_core \<or> fst r \<in> Some ` insert Lt_participant dds_core}"
    then have "snd r \<noteq> Lt_participant" using gone by (auto simp: filter_empty_conv)
    then show "r \<in> set core_refs" using r own [of r] sub [of r] core [of r] by blast
  next
    fix r assume "r \<in> set core_refs"
    then show "r \<in> {r \<in> set ?R. snd r \<in> insert Lt_participant dds_core \<or> fst r \<in> Some ` insert Lt_participant dds_core}"
      using core [of r] kept [of r] by blast
  qed
  moreover have "count (mset ?R) r = 1" if "r \<in> set core_refs" for r
  proof -
    have "count (mset (filter (\<lambda>r. snd r \<in> dds_core) (refs s))) r = count (mset core_refs) r"
      using assms(1) by (simp only: life_ok_def)
    then show ?thesis using that by (auto simp: core_refs_def dds_core_def)
  qed
  ultimately show "core_are (set core_refs) ?R" by (simp add: core_are_def)
qed

lemma lt_member_order:
  assumes "core_are (set core_refs) rs"
  shows "member_order Lt_participant rs = [Dds_publisher, Dds_subscriber, Dds_participant]"
proof -
  let ?ms = "rev (map snd (filter (\<lambda>r. fst r = Some Lt_participant) rs))"
  have "(Some Lt_participant, y) \<in> set rs \<longleftrightarrow> (Some Lt_participant, y) \<in> set core_refs" for y
    using assms by (auto simp: core_are_def)
  then have "set ?ms = {y. (Some Lt_participant, y) \<in> set core_refs}" by (force simp: image_iff)
  also have "\<dots> = dds_core" by (auto simp: core_refs_def dds_core_def)
  finally have "set ?ms = dds_core" .
  moreover from this have "filter (\<lambda>y. y \<notin> set [Dds_publisher, Dds_subscriber, Dds_participant]) ?ms = []"
    by (auto simp: filter_empty_conv dds_core_def)
  ultimately show ?thesis by (simp only: member_order_def Let_def if_True simp_thms) (simp add: dds_core_def)
qed

lemma one_member: "set ys = {y} \<Longrightarrow> distinct ys \<Longrightarrow> ys = [y]"
  by (cases ys; cases "tl ys") auto

text \<open>The last pointer to the participant goes: publisher, subscriber and participant of Fast DDS are deleted in this order.\<close>

abbreviation delete_with_contents :: "obj \<Rightarrow> life \<Rightarrow> life" where
  "delete_with_contents x s \<equiv> delete_entity x (delete_contained_entities x s)"

definition end_of_life :: "life \<Rightarrow> life" where
  "end_of_life s =
     (let cut = (\<lambda>r s. s\<lparr>refs := remove1 r (refs s)\<rparr>);
          s1 = delete_with_contents Dds_publisher (cut (Some Lt_participant, Dds_publisher) (cut (None, Lt_participant) s));
          s2 = delete_with_contents Dds_subscriber (cut (Some Lt_participant, Dds_subscriber) (cut (Some Dds_publisher, Dds_participant) s1))
      in delete_with_contents Dds_participant (cut (Some Lt_participant, Dds_participant) (cut (Some Dds_subscriber, Dds_participant) s2)))"

lemma drop_last_pointer:
  assumes "life_ok [] s" "filter (\<lambda>r. snd r = Lt_participant) (refs s) = [(None, Lt_participant)]"
  shows "drop_pointer found Lt_participant s = end_of_life s" "core_are {} (refs (end_of_life s))"
proof -
  let ?c1 = "(Some Lt_participant, Dds_publisher)" and ?c2 = "(Some Dds_publisher, Dds_participant)"
  let ?c3 = "(Some Lt_participant, Dds_subscriber)" and ?c4 = "(Some Dds_subscriber, Dds_participant)"
  let ?c5 = "(Some Lt_participant, Dds_participant)"
  define cut where "cut = (\<lambda>r s :: life. s\<lparr>refs := remove1 r (refs s)\<rparr>)"
  have cut [simp]: "refs (cut r s) = remove1 r (refs s)" for r s by (simp add: cut_def)
  note core0 = core_before_end [OF assms]
  define s0 s1 s2 s3 s4 s5 where s: "s0 = cut (None, Lt_participant) s" "s1 = delete_with_contents Dds_publisher (cut ?c1 s0)"
    "s2 = cut ?c2 s1" "s3 = delete_with_contents Dds_subscriber (cut ?c3 s2)" "s4 = cut ?c4 s3" "s5 = delete_with_contents Dds_participant (cut ?c5 s4)"
  have k0: "core_are (set core_refs) (refs s0)" using core0(1) by (simp add: s)
  have k1: "core_are (set core_refs - {?c1}) (refs s1)" using core_remove [OF k0, of ?c1] by (simp add: s core_refs_def)
  have k2: "core_are (set core_refs - {?c1} - {?c2}) (refs s2)" using core_remove [OF k1, of ?c2] by (simp add: s(3) core_refs_def)
  have k3: "core_are (set core_refs - {?c1} - {?c2} - {?c3}) (refs s3)" using core_remove [OF k2, of ?c3] by (simp add: s(4) core_refs_def)
  have k4: "core_are (set core_refs - {?c1} - {?c2} - {?c3} - {?c4}) (refs s4)"
    using core_remove [OF k3, of ?c4] by (simp add: s(5) core_refs_def)
  have k5: "core_are (set core_refs - {?c1} - {?c2} - {?c3} - {?c4} - {?c5}) (refs s5)"
    using core_remove [OF k4, of ?c5] by (simp add: s(6) core_refs_def)
  have m1: "member_order Dds_publisher (refs s1) = [Dds_participant]"
    using core_members [OF k1, of Dds_publisher] by (intro one_member) (auto simp: core_refs_def dds_core_def)
  have m3: "member_order Dds_subscriber (refs s3) = [Dds_participant]"
    using core_members [OF k3, of Dds_subscriber] by (intro one_member) (auto simp: core_refs_def dds_core_def)
  have m5: "member_order Dds_participant (refs s5) = []"
    using core_members [OF k5, of Dds_participant] by (auto simp: core_refs_def dds_core_def)
  have "release_all found [(None, Lt_participant)] s = release_all found [?c1, ?c3, ?c5] s0"
    using core0(2,3) lt_member_order [OF k0] by (simp add: release_all.simps(2) [of found "(None, Lt_participant)"] s(1) cut_def Let_def)
  also have "\<dots> = release_all found [?c2, ?c3, ?c5] s1"
    using core_release [OF k0, of ?c1 found "[?c3, ?c5]"] m1 by (simp add: core_refs_def dds_core_def insert_Diff_if s(2) cut_def Let_def)
  also have "\<dots> = release_all found [?c3, ?c5] s2"
    using core_release [OF k1, of ?c2 found "[?c3, ?c5]"] by (simp add: core_refs_def dds_core_def insert_Diff_if s(3) cut_def Let_def)
  also have "\<dots> = release_all found [?c4, ?c5] s3"
    using core_release [OF k2, of ?c3 found "[?c5]"] m3 by (simp add: core_refs_def dds_core_def insert_Diff_if s(4) cut_def Let_def)
  also have "\<dots> = release_all found [?c5] s4"
    using core_release [OF k3, of ?c4 found "[?c5]"] by (simp add: core_refs_def dds_core_def insert_Diff_if s(5) cut_def Let_def)
  also have "\<dots> = s5"
    using core_release [OF k4, of ?c5 found "[]"] m5 by (simp add: core_refs_def dds_core_def insert_Diff_if s(6) cut_def Let_def)
  finally have "drop_pointer found Lt_participant s = s5" by (simp only: drop_pointer_def)
  moreover have "s5 = end_of_life s" unfolding end_of_life_def Let_def s cut_def by (rule refl)
  ultimately show "drop_pointer found Lt_participant s = end_of_life s" "core_are {} (refs (end_of_life s))"
    using k5 by (simp_all add: core_refs_def insert_Diff_if)
qed


lemma end_of_life_spec:
  "entities (end_of_life s) = []" "faults (end_of_life s) = faults s"
  "deletions (end_of_life s) = deletions s @ [Delete_contained Dds_publisher, Delete Dds_publisher,
     Delete_contained Dds_subscriber, Delete Dds_subscriber, Delete_contained Dds_participant, Delete Dds_participant]"
  by (simp_all add: end_of_life_def Let_def delete_entity_def delete_contained_entities_def removeAll_filter_not_eq)

lemma end_of_life_writers: "filter (\<lambda>r. snd r = Writer w) (refs (end_of_life s)) = filter (\<lambda>r. snd r = Writer w) (refs s)"
  by (simp add: end_of_life_def Let_def filter_remove1 remove1_idem)

lemma end_of_life_gone:
  assumes "core_are {} (refs s)" "x \<in> insert Lt_participant dds_core"
  shows "\<not> is_alive x s"
  using core_alive [OF assms] by simp

lemma end_of_life_refs: "r \<in> set (refs (end_of_life s)) \<Longrightarrow> r \<in> set (refs s)"
  unfolding end_of_life_def Let_def by (simp, meson notin_set_remove1)

section \<open>Dropping pointers\<close>

lemma drops_reachable: "(life_step found)\<^sup>*\<^sup>* a s \<Longrightarrow> (life_step found)\<^sup>*\<^sup>* a (fold (drop_pointer found) xs s)"
proof (induction xs arbitrary: s)
  case (Cons x xs)
  have "(life_step found)\<^sup>*\<^sup>* s (drop_pointer found x s)"
  proof (cases "(None, x) \<in> set (refs s)")
    case False
    then have "drop_pointer found x s = s" by (simp add: drop_pointer_def release_all.simps(2))
    then show ?thesis by simp
  qed (auto intro: life_step.drops)
  then show ?case using Cons by (simp add: rtranclp_trans)
qed simp

lemma length_cut: "r \<in> set rs \<Longrightarrow> length (remove1 r rs) < length rs"
  using length_pos_if_in_set [of r rs] by (simp add: length_remove1)

lemma length_release: "length (refs (release_all found rs s)) \<le> length (refs s)"
proof (induction found rs s rule: release_all.induct)
  case (2 found r rs s)
  show ?case
  proof (cases "r \<in> set (refs s)")
    case True
    let ?s1 = "s\<lparr>refs := remove1 r (refs s)\<rparr>"
    have "length (refs (release_all found (r # rs) s)) \<le> length (refs ?s1)"
      using True 2(2,3) [OF _ refl] by (simp add: release_all.simps(2) [of found r] Let_def)
    then show ?thesis using length_cut [OF True] by simp
  qed (use 2(1) in \<open>simp add: release_all.simps(2)\<close>)
qed simp

lemma length_drop:
  assumes "(None, x) \<in> set (refs s)"
  shows "length (refs (drop_pointer found x s)) < length (refs s)"
proof -
  let ?s1 = "s\<lparr>refs := remove1 (None, x) (refs s)\<rparr>"
  have "length (refs (drop_pointer found x s)) \<le> length (refs ?s1)"
    using assms length_release [of found _ "run_deleter found x ?s1"] by (simp add: drop_pointer_def release_all.simps(2) [of found "(None, x)"] Let_def)
  then show ?thesis using length_cut [OF assms] by simp
qed

lemma drop_all: "\<exists>ys. \<forall>r \<in> set (refs (fold (drop_pointer found) ys s)). fst r \<noteq> None"
proof (induction "length (refs s)" arbitrary: s rule: less_induct)
  case less
  show ?case
  proof (cases "\<exists>x. (None, x) \<in> set (refs s)")
    case True
    then obtain x where x: "(None, x) \<in> set (refs s)" ..
    from less [OF length_drop [OF x]] obtain ys where "\<forall>r \<in> set (refs (fold (drop_pointer found) ys (drop_pointer found x s))). fst r \<noteq> None" ..
    then show ?thesis by (intro exI [of _ "x # ys"]) simp
  next
    case False
    then show ?thesis by (intro exI [of _ "[]"]) (metis fold_simps(1) prod.collapse)
  qed
qed

section \<open>Properties\<close>


text \<open>A replier that is made and ended, where the look-up finds its own reader, and a publisher; a request through the participant;
  a callback service that answers after it was unadvertised.\<close>

definition own_found :: "nat \<Rightarrow> obj list \<Rightarrow> obj list" where
  "own_found b xs = filter (\<lambda>x. x = Reader b) xs"

definition served_life :: life where
  "served_life = life_advertise 7 (drop_pointer own_found (Backend 3) (make_backend None 3 [1] [3] new_life))"

definition requested_life :: life where
  "requested_life = make_backend (Some Lt_participant) 4 [5] [4] served_life"


lemma served_reachable: "(life_step own_found)\<^sup>*\<^sup>* new_life served_life"
proof -
  let ?a = "make_backend None 3 [1] [3] new_life"
  have "life_step own_found new_life ?a"
    by (rule life_step.serves) (simp_all add: new_life_def fresh_def image_iff)
  moreover have "life_step own_found ?a (drop_pointer own_found (Backend 3) ?a)"
    by (rule life_step.drops) (simp add: make_backend_def)
  moreover have "(None, Lt_participant) \<in> set (refs (drop_pointer own_found (Backend 3) ?a))"
    "fresh (Writer 7) (drop_pointer own_found (Backend 3) ?a)"
    by code_simp+
  then have "life_step own_found (drop_pointer own_found (Backend 3) ?a) served_life" unfolding served_life_def by (rule life_step.advertises)
  ultimately show ?thesis by (meson rtranclp.rtrancl_refl rtranclp.rtrancl_into_rtrancl)
qed



text \<open>
  C34. A publisher must not outlive its participant. After any use of a participant, if the program drops its last pointer to the
  participant while it holds a publisher, publishing uses a writer that has been deleted, and dropping the last copy of the
  publisher looks into the participant that is gone.
\<close>

theorem publisher_outlives_participant:
  assumes "(life_step found)\<^sup>*\<^sup>* new_life s" and "filter (\<lambda>r. snd r = Lt_participant) (refs s) = [(None, Lt_participant)]"
    and "filter (\<lambda>r. snd r = Writer w) (refs s) = [(None, Writer w)]" and "s' = drop_pointer found Lt_participant s"
  shows "faults (life_publish w s') = faults s @ [Deleted_writer w] \<and>
    faults (drop_pointer found (Writer w) s') = faults s @ [Dangling_participant]"
proof -
  have "(None, Lt_participant) \<in> set (filter (\<lambda>r. snd r = Lt_participant) (refs s))" unfolding assms(2) by simp
  then have ok: "life_ok [] s" using life_ok_reachable [OF assms(1)] alive_held by auto
  have s': "s' = end_of_life s" using drop_last_pointer(1) [OF ok assms(2)] assms(4) by simp
  have dead: "\<not> is_alive Lt_participant s'" using end_of_life_gone drop_last_pointer(2) [OF ok assms(2)] s' by simp
  have writer: "filter (\<lambda>r. snd r = Writer w) (refs s') = [(None, Writer w)]" using end_of_life_writers assms(3) s' by simp
  let ?s1 = "s'\<lparr>refs := remove1 (None, Writer w) (refs s')\<rparr>"
  have "filter (\<lambda>r. snd r = Writer w) (refs ?s1) = []" using writer by (simp add: filter_remove1)
  then have "\<not> is_alive (Writer w) ?s1" by (auto simp: is_alive_def filter_empty_conv)
  moreover have "(None, Writer w) \<in> set (filter (\<lambda>r. snd r = Writer w) (refs s'))" unfolding writer by simp
  moreover have "\<not> is_alive Lt_participant ?s1" using dead set_remove1_subset [of _ "refs s'"] by (fastforce simp: is_alive_def)
  moreover have "fst r \<noteq> Some (Writer w)" if "r \<in> set (refs ?s1)" for r
  proof -
    have "r \<in> set (refs s')" using that notin_set_remove1 by fastforce
    then have "owner_ok r" using end_of_life_refs ok unfolding s' life_ok_def by blast
    then show ?thesis by (auto simp: owner_ok_def)
  qed
  then have "member_order (Writer w) (refs ?s1) = []" by (metis fst_conv list.set_sel(1) set_member_order)
  ultimately have "faults (drop_pointer found (Writer w) s') = faults s' @ [Dangling_participant]"
    by (simp add: drop_pointer_def release_all.simps(2) Let_def)
  then show ?thesis using ok by (simp add: s' end_of_life_spec life_publish_def life_ok_def)
qed

theorem publisher_outlives_participant_witness:
  "faults (life_publish 7 (drop_pointer own_found Lt_participant served_life)) = [Deleted_writer 7] \<and>
   faults (drop_pointer own_found (Writer 7) (drop_pointer own_found Lt_participant served_life)) = [Dangling_participant]"
proof -
  have "filter (\<lambda>r. snd r = Lt_participant) (refs served_life) = [(None, Lt_participant)]"
    "filter (\<lambda>r. snd r = Writer 7) (refs served_life) = [(None, Writer 7)]" by code_simp+
  moreover have "faults served_life = []" by code_simp
  ultimately show ?thesis using publisher_outlives_participant [OF served_reachable _ _ refl, of 7] by simp
qed

text \<open>
  C35. Requests made through the participant keep it forever. The participant holds the back end of the service and the back end
  holds the participant, so whatever pointers a program drops that holds the participant, in any order and all of them, the participant, its entities in
  Fast DDS and the back end stay, unless the program has unsubscribed from the service before.
\<close>

theorem request_keeps_participant:
  assumes "(life_step found)\<^sup>*\<^sup>* new_life s" and "(None, Lt_participant) \<in> set (refs s)"
    and "(Some Lt_participant, Backend b) \<in> set (refs s)" and "s' = fold (drop_pointer found) xs s"
  shows "is_alive Lt_participant s' \<and> is_alive (Backend b) s' \<and> dds_core \<subseteq> set (entities s') \<and>
    (\<exists>ys. \<forall>r \<in> set (refs (fold (drop_pointer found) ys s)). fst r \<noteq> None)"
proof -
  have cycle: "(Some Lt_participant, Backend b) \<in> set (refs (fold (drop_pointer found) zs s)) \<and>
    (Some (Backend b), Lt_participant) \<in> set (refs (fold (drop_pointer found) zs s))" for zs
  proof (induction zs rule: rev_induct)
    case Nil
    have "life_ok [] s" using life_ok_reachable [OF assms(1)] assms(2) alive_held by blast
    then show ?case using assms(3) alive_held by (auto simp: life_ok_def)
  next
    case (snoc z zs)
    then show ?case using cycle_release [of Lt_participant "Backend b" "fold (drop_pointer found) zs s" "[(None, z)]" found] by (simp add: drop_pointer_def [of found z])
  qed
  have "life_ok [] s'"
    using cycle [of xs] life_ok_reachable [OF drops_reachable [OF assms(1), of xs]] alive_held assms(4) by blast
  then show ?thesis using cycle [of xs] alive_held drop_all [of found s] assms(4) by (auto simp: life_ok_def)
qed

theorem request_keeps_participant_witness:
  "is_alive Lt_participant (fold (drop_pointer own_found) [Lt_participant, Writer 7] requested_life) \<and>
   Dds_participant \<in> set (entities (fold (drop_pointer own_found) [Lt_participant, Writer 7] requested_life))"
proof -
  have "(None, Lt_participant) \<in> set (refs served_life)" "fresh (Backend 4) served_life" "fresh (Reader 4) served_life"
    "fresh (Writer 5) served_life" by code_simp+
  then have "life_step own_found served_life requested_life" unfolding requested_life_def by (intro life_step.requests) simp_all
  then have "(life_step own_found)\<^sup>*\<^sup>* new_life requested_life" using served_reachable by simp
  moreover have "(None, Lt_participant) \<in> set (refs requested_life)" "(Some Lt_participant, Backend 4) \<in> set (refs requested_life)"
    by code_simp+
  ultimately show ?thesis
    using request_keeps_participant [of own_found requested_life 4 _ "[Lt_participant, Writer 7]"] by (auto simp: dds_core_def)
qed

text \<open>The profiles are loaded by the first participant of a process, from the file named in the environment if there is one, and
  the default name is then the program's or one that the profiles give.\<close>

lemma profiles_loaded_once:
  assumes "fs = fold (\<lambda>p f. snd (create env name_in program profiles (fst p) (snd p) f)) ps
      (snd (create env name_in program profiles made prof \<lparr>s_loadedProfiles = False, loaded_sources = [], default_name = n\<rparr>))"
  shows "loaded_sources fs = [case env of Some x \<Rightarrow> Profile_file x | None \<Rightarrow> Default_profile] \<and>
    (default_name fs = program \<or> \<not> needs_name (default_name fs))"
proof -
  let ?f = "snd (create env name_in program profiles made prof \<lparr>s_loadedProfiles = False, loaded_sources = [], default_name = n\<rparr>)"
  have "s_loadedProfiles f \<Longrightarrow> fold (\<lambda>p f. snd (create env name_in program profiles (fst p) (snd p) f)) ps f = f" for f
    by (induction ps) (simp_all add: create_def load_profiles_def Let_def)
  moreover have "s_loadedProfiles ?f" by (simp add: create_def load_profiles_def Let_def)
  ultimately have "fs = ?f" using assms by simp
  then show ?thesis by (simp add: create_def load_profiles_def Let_def)
qed

end
