(* ===== verification/LT_Subscriptions.thy ===== *)
theory LT_Subscriptions
  imports LT_Participant
begin

text \<open>
  Subscriptions: which form of a callback a listener calls (\<^verbatim>\<open>meta.hpp\<close>, \<^verbatim>\<open>ReaderListener.hpp\<close>,
  \<^verbatim>\<open>ReaderListenerImpl.hpp\<close>), and the subscription that fills a \<open>ThreadSafeQueue\<close> (\<^verbatim>\<open>ParticipantImpl.hpp\<close>). A callback is what its
  class can be called with: the message, or a pointer of its own to it, with or without the two identifiers.
\<close>

section \<open>Callbacks\<close>

record ('d, 's) functor_ops =
  with_guids :: "('d \<Rightarrow> guid \<Rightarrow> guid \<Rightarrow> 's \<Rightarrow> 's) option"
  with_uptr :: "('d \<Rightarrow> 's \<Rightarrow> 's) option"
  with_uptr_and_guids :: "('d \<Rightarrow> guid \<Rightarrow> guid \<Rightarrow> 's \<Rightarrow> 's) option"
  with_data :: "('d \<Rightarrow> 's \<Rightarrow> 's) option"

datatype functor_tag = wants_guid_tag | uptr_tag | uptr_with_guid_tag | plain_tag

definition functor_tagger :: "('d, 's) functor_ops \<Rightarrow> functor_tag" where
  "functor_tagger C =
     (if with_guids C \<noteq> None then wants_guid_tag
      else if with_uptr C \<noteq> None then uptr_tag
      else if with_uptr_and_guids C \<noteq> None then uptr_with_guid_tag
      else plain_tag)"

text \<open>The overload of \<open>handle_sample\<close> for the tag. A callback without the form that is called does not compile: \<open>None\<close>.\<close>

fun handle_sample ::
  "('sn \<Rightarrow> 64 word) \<Rightarrow> functor_tag \<Rightarrow> ('d, 's) functor_ops \<Rightarrow> ('d, 'sn) sample list \<Rightarrow> 's \<Rightarrow> (bool \<times> 's) option" where
  "handle_sample to64 wants_guid_tag C xs s = map_option (\<lambda>f. handle_samples to64 f xs s) (with_guids C)"
| "handle_sample to64 plain_tag C xs s = map_option (\<lambda>f. handle_samples to64 (\<lambda>d _ _. f d) xs s) (with_data C)"
| "handle_sample to64 uptr_with_guid_tag C xs s = map_option (\<lambda>f. handle_samples to64 f xs s) (with_uptr_and_guids C)"
| "handle_sample to64 uptr_tag C xs s = map_option (\<lambda>f. handle_samples to64 (\<lambda>d _ _. f d) xs s) (with_uptr C)"

definition on_data_available ::
  "('sn \<Rightarrow> 64 word) \<Rightarrow> ('d, 's) functor_ops \<Rightarrow> ('d, 'sn) sample list \<Rightarrow> 's \<Rightarrow> 's option" where
  "on_data_available to64 C xs s = map_option snd (handle_sample to64 (functor_tagger C) C xs s)"

text \<open>The callback of the subscription that returns a queue.\<close>

definition queue_callback :: "('d, 'd tsq) functor_ops" where
  "queue_callback =
     \<lparr>with_guids = None, with_uptr = Some (\<lambda>i_sample queue. snd (q_push i_sample queue)), with_uptr_and_guids = None, with_data = None\<rparr>"

text \<open>Several notifications one after another, each with the samples that can be taken then.\<close>

fun notifications ::
  "('sn \<Rightarrow> 64 word) \<Rightarrow> ('d, 's) functor_ops \<Rightarrow> ('d, 'sn) sample list list \<Rightarrow> 's \<Rightarrow> 's option" where
  "notifications to64 C [] s = Some s"
| "notifications to64 C (xs # xss) s =
     (case on_data_available to64 C xs s of None \<Rightarrow> None | Some s1 \<Rightarrow> notifications to64 C xss s1)"

section \<open>What a listener does\<close>

definition received :: "('d, 'sn) sample list \<Rightarrow> 'd list" where
  "received xs = map sample_data (filter valid_data xs)"

text \<open>The form of the callback that is called, as a function of the whole sample.\<close>

definition callback_of :: "('sn \<Rightarrow> 64 word) \<Rightarrow> ('d, 's) functor_ops \<Rightarrow> (('d, 'sn) sample \<Rightarrow> 's \<Rightarrow> 's) option" where
  "callback_of to64 C =
     (let guids = (\<lambda>f x. f (sample_data x) (sampleToGuid to64 (sample_identity x)) (sampleToGuid to64 (related_sample_identity x)))
      in case with_guids C of
           Some f \<Rightarrow> Some (guids f)
         | None \<Rightarrow>
             (case with_uptr C of
                Some f \<Rightarrow> Some (f \<circ> sample_data)
              | None \<Rightarrow>
                  (case with_uptr_and_guids C of
                     Some f \<Rightarrow> Some (guids f)
                   | None \<Rightarrow> map_option (\<lambda>f. f \<circ> sample_data) (with_data C))))"

lemma handle_samples_fold:
  "snd (handle_samples to64 f xs s) =
     fold (\<lambda>x. f (sample_data x) (sampleToGuid to64 (sample_identity x)) (sampleToGuid to64 (related_sample_identity x)))
       (filter valid_data xs) s"
  by (induction to64 f xs s rule: handle_samples.induct) simp_all

lemma on_data_available_eq:
  "on_data_available to64 C xs s = map_option (\<lambda>f. fold f (filter valid_data xs) s) (callback_of to64 C)"
  by (auto simp: on_data_available_def functor_tagger_def callback_of_def handle_samples_fold comp_def Let_def option.map_comp
      split: option.splits)

lemma notifications_eq:
  "callback_of to64 C = Some f \<Longrightarrow> notifications to64 C xss s = Some (fold f (filter valid_data (concat xss)) s)"
  by (induction xss arbitrary: s) (simp_all add: on_data_available_eq)

lemma push_all_limit:
  assumes "within (q_capacity q) (q_items q)"
  shows "q_items (fold (\<lambda>x q. snd (q_push (sample_data x) q)) xs q) = limit (q_capacity q) (q_items q @ map sample_data xs)"
  using assms
proof (induction xs arbitrary: q)
  case (Cons x xs)
  let ?q = "snd (q_push (sample_data x) q)"
  have "q_items ?q = limit (q_capacity q) (q_items q @ [sample_data x])" "q_capacity ?q = q_capacity q"
    using push_limit [OF Cons.prems, of "sample_data x"] by (auto simp: q_push_def Let_def)
  moreover from this have "within (q_capacity ?q) (q_items ?q)" by (auto simp: within_def limit_def length_keep_last)
  ultimately show ?case using Cons.IH [of ?q] by simp
qed simp

section \<open>Properties\<close>

text \<open>
  C9. A queue subscription is the buffer of the newest messages. Over any notifications, with any samples, some of them without
  valid data, the queue that \<open>subscribe\<close> returned holds the valid messages in the order of their arrival: the last \<open>depth\<close> of them
  for a positive depth, and all of them for depth zero or a negative one, as long as there are fewer than \<open>2^63\<close>.
\<close>

theorem queue_subscription:
  assumes "subscribe_queue reader found create t ty depth = (q, calls)" and "- (2 ^ 31) \<le> depth" and "depth < 2 ^ 31"
  shows "\<exists>q'. notifications to64 queue_callback xss q = Some q' \<and>
    (if 0 < depth then q_items q' = keep_last (nat depth) (received (concat xss))
     else length (received (concat xss)) < 2 ^ 63 \<longrightarrow> q_items q' = received (concat xss))"
proof -
  let ?cap = "unat (word_of_int depth :: 64 word)"
  have q: "q = new_queue ?cap" using assms(1) by (simp add: subscribe_queue_def)
  have cap: "?cap = nat (depth mod 2 ^ 64)" by (simp only: unat_eq_nat_uint uint_word_of_int) simp
  have cb: "callback_of to64 queue_callback = Some (\<lambda>x q. snd (q_push (sample_data x) q))"
    by (simp add: callback_of_def queue_callback_def comp_def)
  have items: "\<exists>q'. notifications to64 queue_callback xss q = Some q' \<and> q_items q' = limit ?cap (received (concat xss))"
    using push_all_limit [of q "filter valid_data (concat xss)"] notifications_eq [OF cb, of xss q]
    by (simp add: q new_queue_def received_def within_def)
  show ?thesis
  proof (cases "0 < depth")
    case True
    then have "?cap = nat depth" using assms(3) cap by simp
    then show ?thesis using items True by (simp add: limit_def)
  next
    case False
    have "?cap = 0 \<or> 2 ^ 63 \<le> ?cap"
    proof (cases "depth = 0")
      case False
      with \<open>\<not> 0 < depth\<close> have "depth mod 2 ^ 64 = depth + 2 ^ 64"
        using assms(2) mod_pos_pos_trivial [of "depth + 2 ^ 64" "2 ^ 64"] by simp
      then show ?thesis using cap assms(2) by simp
    qed simp
    then have "limit ?cap ys = ys" if "length ys < 2 ^ 63" for ys :: "'a list"
      using that by (auto simp: limit_def intro: keep_last_short)
    then show ?thesis using items False by auto
  qed
qed

definition example_sample :: "bool \<Rightarrow> nat \<Rightarrow> (nat, 64 word) sample" where
  "example_sample valid n = \<lparr>valid_data = valid, sample_data = n, sample_identity = toSampleId id UNKNOWN, related_sample_identity = toSampleId id UNKNOWN\<rparr>"

theorem queue_subscription_witness:
  "\<exists>q q'. fst (subscribe_queue None None Some ''t'' ''T'' 2) = q \<and>
     notifications id queue_callback [[example_sample True 1, example_sample False 8], [example_sample True 2, example_sample True 3]] q
       = Some q' \<and> q_items q' = [2, 3]"
proof -
  let ?xss = "[[example_sample True 1, example_sample False 8], [example_sample True 2, example_sample True 3]]"
  obtain q :: "nat tsq" and calls where q: "subscribe_queue None None Some ''t'' ''T'' 2 = (q, calls)" by fastforce
  from queue_subscription [OF q, of id ?xss] obtain q' where "notifications id queue_callback ?xss q = Some q'"
    "q_items q' = keep_last 2 (received (concat ?xss))" by auto
  moreover have "received (concat ?xss) = [1, 2, 3]" by (simp add: received_def example_sample_def)
  ultimately show ?thesis using q by (simp add: keep_last_def)
qed

text \<open>
  One form of a callback is called, once for every valid sample and in the order of the samples. A callback that can be called in
  several ways is called with the identifiers if it takes them and a reference, else with a pointer of its own alone, else with
  a pointer and the identifiers, else with the message alone.
\<close>

lemma listener_calls_once:
  assumes "callback_of to64 C = Some f"
  shows "notifications to64 C xss s = Some (fold f (filter valid_data (concat xss)) s)"
    "with_guids C = Some g \<Longrightarrow> functor_tagger C = wants_guid_tag"
    "functor_tagger C = plain_tag \<Longrightarrow> \<exists>h. with_data C = Some h \<and> f = h \<circ> sample_data"
  using assms notifications_eq [OF assms]
  by (auto simp: functor_tagger_def callback_of_def split: option.splits if_splits)

end
