(* ===== verification/Spec2Isabelle.thy ===== *)
theory Spec2Isabelle
  imports JS_CreateResults JS_SearchBox JS_NavTree JS_DarkMode JS_Widgets JS_Resize JS_Sections JS_PageSearch JS_PageSections JS_Listings JS_NavEffects JS_LetsTalkSite LT_ReactorPayload LT_ActiveObject LT_Endpoints LT_Lifetime LT_Subscriptions
begin

text \<open>
  Verification of LetsTalk, a C++ library for publishing, subscribing, requests and long-running commands over
  DDS, and of the scripts of its documentation. All paths are relative to \<^verbatim>\<open>src/\<close>.

  \<^bold>\<open>The program.\<close> A \<open>Participant\<close> names topics and creates readers and writers. A subscriber's messages go to a
  callback or into a \<open>ThreadSafeQueue\<close>. A request is a message with an identifier (\<open>Guid\<close>); the reply is related
  to it. A service provider answers with a callback on the thread of an \<open>ActiveObject\<close>, a replier queues the
  requests and hands them out as sessions, a reactor server adds progress and cancellation. A \<open>Waitset\<close> blocks on
  several queues, repliers and servers. The documentation is a set of static pages whose scripts search, navigate
  and decorate them in the browser.

  \<^bold>\<open>The C++ library\<close>, under \<^verbatim>\<open>src/LetsTalk/\<close>.
  \<^item> \<open>LT_Guid\<close> (\<^verbatim>\<open>Guid.hpp\<close>, \<^verbatim>\<open>Guid.cpp\<close>): identifiers with 16 bytes and a 64-bit number. The order of
    \<open>operator<\<close> is linear; the identifiers of a counter are distinct for \<open>2^64 - 1\<close> messages; the mark of a failed
    reply is its own inverse and distinguishable for \<open>2^32 - 1\<close>; sample identities are read back.
  \<^item> \<open>LT_Queue\<close> (\<^verbatim>\<open>ThreadSafeQueue.hpp\<close>): each operation holds the mutex and is one function on the record \<open>tsq\<close>;
    the waiting consumers, and producers that have unlocked the queue and not yet notified, are a step relation. What is popped is an
    ordered part of what was pushed, also with \<open>swap\<close> between two queues, a bounded queue
    implements the buffer of the newest elements, and single pushes wake enough consumers; \<open>pushAll\<close> and \<open>swap\<close> do not.
  \<^item> \<open>LT_Waitset\<close> (\<^verbatim>\<open>Waitset.hpp\<close>, \<^verbatim>\<open>Awaitable.hpp\<close>): the awaitables live in a store, since the condition variable
    of the wait set is shared. \<open>wait\<close> returns the lowest ready index of the first look that finds one. The
    interleaving of a look and a notification is a step relation, in which a notification can be lost.
  \<^item> \<open>LT_ActiveObject\<close>: work thread, job queue and mutex as a step relation. Jobs run in order and once, a stop at any
    moment lets the thread run what was submitted and end; a job that submits a job waits for the mutex its own thread holds.
  \<^item> \<open>LT_RequestReply\<close> (\<^verbatim>\<open>RequestReplyImpl.hpp\<close>, \<^verbatim>\<open>ReaderListenerImpl.hpp\<close>, \<open>doPublish\<close> of \<^verbatim>\<open>Participant.cpp\<close>):
    requester, service provider and replier. Every request gets its own reply or failure, in any order of arrival
    (\<open>requests_answered\<close>; with the provider's active object in \<open>provider_answers_all\<close> below).
  \<^item> \<open>LT_Reactor\<close> (\<^verbatim>\<open>Reactor*.hpp\<close>): client and server back ends with their sessions. A session runs from request
    to reply and hands out its progress lowest first; a cancelled session stays dead until it is started anew, which reporting its start does; erasing from a map that is
    being iterated over is an error value.
  \<^item> \<open>LT_PubSubType\<close> (\<^verbatim>\<open>PubSubType.hpp\<close>): payloads and keys of the type support. A payload of the calculated size takes a message
    and gives it back; the handle of an instance is a function of its key for keys of fixed shape, and is not where keys
    differ in length, since the key buffer is never cleared. \<open>LT_ReactorPayload\<close> runs a reactor session with its progress
    samples serialized by the type support.
  \<^item> \<open>LT_Participant\<close> (\<^verbatim>\<open>Participant.cpp\<close>, \<^verbatim>\<open>ParticipantImpl.hpp\<close>, \<^verbatim>\<open>ParticipantLogger.cpp\<close>): the counts of
    publishers and subscribers, the choice of topics, subscribing and advertising.
  \<^item> \<open>LT_Endpoints\<close> (\<^verbatim>\<open>Participant.cpp\<close>, \<^verbatim>\<open>ParticipantImpl.hpp\<close> and the constructors and destructors of \<^verbatim>\<open>*Impl.hpp\<close>): the
    topics, readers and writers of a participant, the requesters \<open>Participant::request\<close> keeps, and what ends them. A service
    has one requester; a second pair of types for it is fatal; services leave nothing behind when they end; the destructors of
    a reactor remove endpoints of other services.

  \<^item> \<open>LT_Lifetime\<close> (\<open>Participant::create\<close>, \<open>~Participant\<close> and the deleters of \<^verbatim>\<open>Participant.cpp\<close>, the members of \<^verbatim>\<open>Participant.hpp\<close> and
    \<^verbatim>\<open>RequestReplyImpl.hpp\<close>): shared pointers as a graph that ends objects with their last pointer, and what a program can do with
    them as a step relation, with services, reactors, \<open>unsubscribe\<close> and \<open>unadvertise\<close>. The entities of Fast DDS are deleted in order and
    completely, and only writers that \<open>unadvertise\<close> deleted are used after their end; a publisher must not outlive its
    participant, and a request through the participant keeps it until the service is unsubscribed from.
  \<^item> \<open>LT_Subscriptions\<close> (\<^verbatim>\<open>meta.hpp\<close>, \<^verbatim>\<open>ReaderListenerImpl.hpp\<close>, \<^verbatim>\<open>ParticipantImpl.hpp\<close>): the form of a callback that is called, and
    the queue of a subscription, which holds the newest valid messages.

  \<^bold>\<open>The documentation scripts\<close>, under \<^verbatim>\<open>doc/\<close>.
  \<^item> \<open>JS_Strings\<close>, \<open>JS_Dom\<close>, \<open>JS_Timers\<close>, \<open>JS_Cookies\<close>: what the scripts use of the language and the browser. A string
    is a list of UTF-16 code units, a document a tree whose nodes are addressed by paths, a timer a numbered pending
    call, the cookies a list that is read as one text.
  \<^item> \<open>JS_SearchResults\<close>, \<open>JS_ResultNav\<close>, \<open>JS_CreateResults\<close>, \<open>JS_SearchBox\<close> (\<^verbatim>\<open>html/search/search.js\<close>): matching of
    converted identifiers, the walk to the children of a row, keyboard navigation (Down and Up are inverse on displayed rows), the construction of the results
    page, and the search field with its timers and sections.
  \<^item> \<open>JS_NavTree\<close> (\<^verbatim>\<open>html/navtree.js\<close>): the tree of pages with its lazily loaded children, breadcrumbs and the
    button that links it with the page. \<open>JS_NavEffects\<close>: loading of scripts, scrolling to anchors, glowing; the effects come to
    rest.
  \<^item> \<open>JS_Sections\<close> (\<^verbatim>\<open>html/dynsections.js\<close>, \<^verbatim>\<open>html/menu.js\<close>): collapsible sections and directory
    tables; a row is displayed exactly when its folder is displayed and open.
  \<^item> \<open>JS_Resize\<close> (\<^verbatim>\<open>html/resize.js\<close>): the width of the side bar, its cookie and its collapsing on narrow windows.
  \<^item> \<open>JS_DarkMode\<close>, \<open>JS_Widgets\<close> (\<^verbatim>\<open>doxygen-awesome-css/*.js\<close>): the dark mode over several tabs of a browser, tabs,
    table of contents, copy button and permanent links.

  \<^bold>\<open>The documentation scripts of tinyxml2\<close>, under \<^verbatim>\<open>external/tinyxml2/docs/\<close>, a later generation of the same scripts.
  \<^item> \<open>JS_Settings\<close> (\<^verbatim>\<open>cookie.js\<close>): settings in the storages of Chrome or in cookies; the last operation on the setting of
    the search wins.
  \<^item> \<open>JS_PageSearch\<close> (\<^verbatim>\<open>search/search.js\<close>): the search inside the page. A search loads a script and shows its entries when
    it arrives, in whatever order scripts arrive; the active section survives a reload; the key handlers do what those
    of the results frame do and stop the event on Escape.
  \<^item> \<open>JS_PageMenu\<close> (\<^verbatim>\<open>menu.js\<close>, \<open>codefold\<close> of \<^verbatim>\<open>dynsections.js\<close>): the search box is found where it is displayed at every
    width, unless the window is resized while the menu slides; a block of code is displayed once.
  \<^item> \<open>JS_PageSections\<close> (\<open>dynsection\<close> of \<^verbatim>\<open>dynsections.js\<close>): does what \<open>JS_Sections\<close> does, with stripes on all displayed rows.
  \<^item> \<open>JS_Listings\<close> (\<^verbatim>\<open>clipboard.js\<close>, \<open>codefold.init\<close>): listings as trees; the folding that is set up changes nothing of what the
    copy button copies, and the copied text is the listing's with its blank lines tidied.
  \<^item> \<open>JS_SiteIndex\<close> (\<^verbatim>\<open>search/*_*.js\<close>, \<^verbatim>\<open>menudata.js\<close>), \<open>JS_Tinyxml2Site\<close> (\<^verbatim>\<open>search/searchdata.js\<close>): the data as it is shipped. Every
    entry is in the script of its first character and every script is where it is looked for, so a search finds all entries.

  \<^bold>\<open>The data of the LetsTalk pages\<close>: \<open>JS_LetsTalkSite\<close> (\<^verbatim>\<open>doc/html/navtreedata.js\<close>, \<^verbatim>\<open>navtreeindex0.js\<close>, \<^verbatim>\<open>menudata.js\<close>,
  \<^verbatim>\<open>search/searchdata.js\<close>): every address of the index leads to its entry of the tree, \<^verbatim>\<open>pages.html\<close> to the root.

  \<^bold>\<open>Interfaces.\<close> \<open>timer_queue\<close> states what \<open>setTimeout\<close> and \<open>clearTimeout\<close> promise, interpreted on the browser's timers
  (\<open>browser\<close>). \<open>setting_store\<close> states that what is kept is recalled, interpreted on the setting of the search
  (\<open>search_setting\<close>). \<open>bounded_fifo\<close> states a queue operation as dropping at the front and adding at the back, interpreted on
  \<open>ThreadSafeQueue\<close> (\<open>tsq\<close>). \<open>awaitable\<close> is the class \<open>Awaitable\<close>, interpreted on the queue, the replier and the
  reactor server (\<open>queue_await\<close>, \<open>replier_await\<close>, \<open>server_await\<close>); its lemmas describe wait sets over each of them.

  \<^bold>\<open>Parameters.\<close> Code outside the repository is an argument: the 64-bit sequence number type of Fast DDS (\<open>mk\<close>,
  \<open>to64\<close>, assumed to be read back), its default data representation, its answers to \<open>create_topic\<close>, \<open>lookup_datareader\<close> and \<open>lookup_datawriter\<close> and its profiles, what Fast CDR and the
  generated code write and read for a message type (\<open>'a cdr\<close>, asked to read back what they wrote), MD5, discovery, Unicode
  lower-casing, the layout of a page, the order of arrival of scripts, the end of jQuery's animations, the clock of the cookies.

  \<^bold>\<open>Bounds.\<close> No definition takes fuel: loops are structural or have a measure, blocking code is a step relation or
  takes the list of outcomes of its waits. Sequence numbers are 64-bit words; the statements on requests ask for
  fewer than \<open>2^32\<close> of them, where the failure mark starts to be ambiguous.

  \<^bold>\<open>Not modelled.\<close> QoS values other than names and depths (they are passed on to Fast DDS), logging, the constant default profile,
  the public classes that forward to the back ends, the frames of jQuery's animations, the functions of \<open>SearchResults\<close> that
  \<^verbatim>\<open>search/search.js\<close> of tinyxml2 repeats word for word, data of earlier runs of the generator that no shipped table leads to,
  jQuery and the other vendored code, examples and tests.

  The sections below compose wait sets, repliers and requesters, and the service provider with its active object.
\<close>

section \<open>Wait sets, repliers and requesters together\<close>

text \<open>Among watched awaitables that are all idle, the one that becomes ready is the one a wait set returns.\<close>

lemma wait_only_ready:
  assumes "a \<in> set (ws_watched w)" and "\<forall>b \<in> set (ws_watched w). \<not> ready (st b)" and "ready (st1 a)"
    and "\<And>b. b \<noteq> a \<Longrightarrow> st1 b = st b"
  obtains k where "ws_watched w ! k = a" "ws_wait ready w st1 es = Some (int k)"
proof -
  have "\<exists>k. k < length (ws_watched w) \<and> ws_watched w ! k = a" using assms(1) by (simp add: in_set_conv_nth)
  then obtain k where k: "k < length (ws_watched w)" "ws_watched w ! k = a"
      "\<forall>j < k. \<not> (j < length (ws_watched w) \<and> ws_watched w ! j = a)"
    using exists_least_iff [of "\<lambda>k. k < length (ws_watched w) \<and> ws_watched w ! k = a"] by auto
  then have "lowest_ready ready st1 (ws_watched w) k"
    using assms(2-4) nth_mem [of _ "ws_watched w"] by (auto simp: lowest_ready_def)
  with k(2) that show thesis by (simp add: ws_wait_def first_ready_lowest [symmetric])
qed

text \<open>
  C3. A request finds its way through a pool of repliers. A client that has made some requests makes another; its
  sample reaches one idle replier of a wait set whose other repliers are idle too. Then \<open>wait\<close> returns the index
  of that replier at once; the session taken from it is alive and holds the request; replying ends the session;
  and when the client takes the reply, the future of this request holds the reply and the other futures are
  untouched. A second reply through the same session is refused.
\<close>

theorem wait_and_reply:
  fixes v :: "'rep" and s s1 :: "'rep requester"
  assumes "\<And>x. to64 (mk x) = x" and "guid_wf g" and "seqno g = 0" and "Suc (length rs) < 2 ^ 32"
    and "request_all mk rs (new_RequesterImpl g) = Inr (xs, s)"
    and "request r s = Inr (n, d, i, related, s1)" and "doPublish mk True (Some d) i related False = Some x"
    and "a \<in> set (ws_watched w)" and "\<forall>b \<in> set (ws_watched w). \<not> replier_ready (st b)"
    and "st1 = st(a := snd (handle_samples to64 onRequest [x] (st a)))"
  shows "\<exists>k ses rep y ses'. ws_wait replier_ready w st1 es = Some (int k) \<and> ws_watched w ! k = a \<and>
    getPendingSession (st1 a) = (ses, rep) \<and> session_isAlive ses \<and> session_request ses = Some r \<and>
    session_reply mk True v rep ses = Inr (Some y, ses') \<and> session_reply mk True v rep ses' = Inl Null_backend \<and>
    futures (snd (handle_samples to64 onReply [y] s1)) = replicate (length rs) Pending @ [Value v]"
proof -
  have s: "req_inv g s" "futures s = replicate (length rs) Pending"
    using request_all_spec [of g "new_RequesterImpl g :: 'rep requester" rs mk] req_inv_new [OF assms(3)] assms(4,5)
    by (auto simp: new_RequesterImpl_def)
  have len: "Suc (length (futures s)) < 2 ^ 32" using s(2) assms(4) by simp
  let ?i = "request_id g (length rs)"
  obtain s2 where "request r s = Inr (length (futures s), r, request_id g (length (futures s)), UNKNOWN, s2)"
      "req_inv g s2" "futures s2 = futures s @ [Pending]"
    using req_inv_request [OF s(1) len] by metis
  then have req: "d = r" "i = ?i" "req_inv g s1" "futures s1 = replicate (length rs) Pending @ [Pending]"
    using assms(6) s(2) by auto
  have wf: "guid_wf ?i" using assms(2) by (simp add: guid_wf_def request_id_def)
  note id = sample_guid [of to64 mk, OF assms(1) wf]
  have x: "valid_data x" "sample_data x = r" "sampleToGuid to64 (sample_identity x) = ?i"
    using assms(7) req(1,2) id by (auto simp: doPublish_def)
  have idle: "q_items (m_queue (st a)) = []"
    using assms(8,9) by (simp add: replier_ready_def q_ready_def q_empty_def)
  have queued: "q_items (m_queue (st1 a)) = [\<lparr>sr_request = r, sr_id = ?i\<rparr>]"
    using x idle by (auto simp: assms(10) onRequest_def q_push_def Let_def)
  then have "replier_ready (st1 a)" by (simp add: replier_ready_def q_ready_def q_empty_def)
  then obtain k where k: "ws_watched w ! k = a" "ws_wait replier_ready w st1 es = Some (int k)"
    using wait_only_ready [of a w replier_ready st st1] assms(8-10) by (metis fun_upd_other)
  let ?ses = "\<lparr>session_request = Some r, m_relatedGuid = ?i, has_backend = True\<rparr>"
  let ?rep = "(st1 a)\<lparr>m_queue := (m_queue (st1 a))\<lparr>q_items := []\<rparr>\<rparr>"
  have got: "getPendingSession (st1 a) = (?ses, ?rep)" using queued by (simp add: getPendingSession_def q_pop_def)
  obtain y where y: "session_reply mk True v ?rep ?ses = Inr (Some y, ?ses\<lparr>has_backend := False\<rparr>)"
    "valid_data y" "sample_data y = v" "sampleToGuid to64 (related_sample_identity y) = ?i"
    using id by (simp add: session_reply_def doPublish_def)
  have "futures (onReply v gid ?i s1) = replicate (length rs) Pending @ [Value v]" for gid
    using onReply_pending(1) [OF req(3), of "length rs" v gid False] req(4) by (simp add: nth_append list_update_append)
  then have "futures (snd (handle_samples to64 onReply [y] s1)) = replicate (length rs) Pending @ [Value v]"
    using y(2-4) by simp
  with k got y(1) show ?thesis
    by (intro exI [of _ k] exI [of _ ?ses] exI [of _ ?rep] exI [of _ y] exI [of _ "?ses\<lparr>has_backend := False\<rparr>"])
      (simp add: session_isAlive_def session_reply_def)
qed

theorem wait_and_reply_witness:
  "\<exists>xs s n d i related s1 x. request_all id ([] :: nat list) (new_RequesterImpl (Guid (replicate 16 1) 0) :: nat requester) = Inr (xs, s) \<and>
     request (7 :: nat) s = Inr (n, d, i, related, s1) \<and> doPublish id True (Some d) i related False = Some x \<and>
     (\<exists>k. ws_wait replier_ready \<lparr>ws_condition = 0, ws_watched = [5, 6]\<rparr>
        ((\<lambda>_. new_ReplierImpl UNKNOWN)(6 := snd (handle_samples id onRequest [x] (new_ReplierImpl UNKNOWN)))) [] = Some (int k) \<and>
        [5, 6] ! k = (6 :: nat))"
proof -
  let ?g = "Guid (replicate 16 1) 0" and ?w = "\<lparr>ws_condition = 0, ws_watched = [5, 6]\<rparr>"
  let ?s = "new_RequesterImpl ?g :: nat requester"
  have all: "request_all id ([] :: nat list) ?s = Inr ([], ?s)" by simp
  obtain n d i related s1 where req: "request (7 :: nat) ?s = Inr (n, d, i, related, s1)"
    by (simp add: request_def new_RequesterImpl_def Let_def)
  obtain x where x: "doPublish id True (Some d) i related False = Some x" by (simp add: doPublish_def)
  have idle: "\<forall>b \<in> set (ws_watched ?w). \<not> replier_ready ((\<lambda>_. new_ReplierImpl UNKNOWN) b)"
    by (simp add: replier_ready_def new_ReplierImpl_def q_ready_def q_empty_def new_queue_def)
  have "6 \<in> set (ws_watched ?w)" "guid_wf ?g" "seqno ?g = 0" "Suc (length ([] :: nat list)) < 2 ^ 32" "\<And>x. id (id x) = x"
    by (simp_all add: guid_wf_def)
  from wait_and_reply [of id id, where es = "[]" and v = "0 :: nat", OF this(5,2-4) all req x this(1) idle refl]
  obtain k where "ws_wait replier_ready ?w
        ((\<lambda>_. new_ReplierImpl UNKNOWN)(6 := snd (handle_samples id onRequest [x] (new_ReplierImpl UNKNOWN)))) [] = Some (int k)"
      "[5, 6] ! k = (6 :: nat)"
    by (auto simp del: handle_samples.simps id_apply)
  with all req x show ?thesis by blast
qed

section \<open>A service provider on its active object\<close>

text \<open>The job that \<open>on_data_available\<close> submits for a request: one call of the callback with its reply.\<close>

definition request_job :: "'req \<times> guid \<Rightarrow> ('req \<times> guid) job" where
  "request_job x = Job x [Act x]"

lemma request_jobs_plain: "list_all plain (map request_job xs)"
  by (simp add: list_all_iff plain_def request_job_def)

lemma request_jobs_names: "concat (map (\<lambda>j. act_names (job_actions j)) (map request_job xs)) = xs"
  by (induction xs) (simp_all add: request_job_def)

lemma run_jobs_prefix: "prefix xs ys \<Longrightarrow> prefix (run_jobs mk ok cb def_rep xs i) (run_jobs mk ok cb def_rep ys i)"
proof (induction xs arbitrary: ys i)
  case (Cons x xs)
  then obtain zs where "ys = x # zs" "prefix xs zs" by (cases ys) auto
  then show ?case using Cons.IH by (cases x) (auto split: option.splits prod.splits)
qed simp

text \<open>
  C1. A service provider answers every request, however its work thread is scheduled. The requests of a client reach
  the provider, whose active object takes any steps; nothing ever stops it. At every moment, when the first \<open>ys\<close> of the requests have become jobs, the replies sent are those to the
  first requests, in order. When all of them have, the work thread by itself comes to a state in which it is idle, one that it passes
  or has passed wherever it is seen; and when the replies sent by then have arrived, in any order, each of the client's futures holds the callback's
  result for its request, or the failure if the callback threw.
\<close>

theorem provider_answers_all:
  fixes cb :: "'a \<Rightarrow> 'b option" and s :: "'b requester" and a :: "('a \<times> guid) active"
  assumes "\<And>x. to64 (mk x) = x" and "guid_wf g" and "seqno g = 0" and "length rs < 2 ^ 32"
    and "distinct ks" and "set ks = {..<length rs}"
    and "request_all mk rs (new_RequesterImpl g) = Inr (xs, s)"
    and "ao_step\<^sup>*\<^sup>* new_ActiveObject a" and "m_keepAlive a"
    and "submitted a = map request_job ys" and "prefix ys (provider_on_data to64 xs)"
  shows "prefix (run_jobs mk True cb def_rep (effects a) i) (run_jobs mk True cb def_rep (provider_on_data to64 xs) i) \<and>
    (ys = provider_on_data to64 xs \<longrightarrow>
      (\<exists>t. work_step\<^sup>*\<^sup>* a t \<and> m_work t = [] \<and> m_workThread t = Testing \<and>
        (\<forall>u. work_step\<^sup>*\<^sup>* a u \<longrightarrow> work_step\<^sup>*\<^sup>* u t \<or> work_step\<^sup>*\<^sup>* t u) \<and>
        futures (snd (handle_samples to64 onReply (map (nth (run_jobs mk True cb def_rep (effects t) i)) ks) s)) =
        map (outcome cb) rs))"
proof -
  let ?js = "provider_on_data to64 xs"
  have inv: "ao_inv a" by (rule ao_inv_reachable [OF assms(8)])
  have "submitted a = finished a @ m_work a" "m_workThread a \<noteq> No_thread" "m_workThread a \<noteq> Ended"
    using inv assms(9) by (simp_all add: ao_inv_def)
  moreover from this(1) have "list_all plain (m_work a)"
    using request_jobs_plain [of ys] assms(10) by (metis list_all_append)
  ultimately obtain t where t: "work_step\<^sup>*\<^sup>* a t" "idle t" "effects t = ys" "m_keepAlive t"
      "\<forall>u. work_step\<^sup>*\<^sup>* a u \<longrightarrow> work_step\<^sup>*\<^sup>* u t \<or> work_step\<^sup>*\<^sup>* t u"
    using runs_all [OF assms(8)] assms(9,10) request_jobs_names [of ys] by metis
  have "prefix (effects a) ys"
    using effects_prefix [OF assms(8)] by (simp only: assms(10) request_jobs_names)
  then have "prefix (effects a) ?js" using assms(11) by simp
  moreover have "futures (snd (handle_samples to64 onReply (map (nth (run_jobs mk True cb def_rep ?js i)) ks) s)) =
      map (outcome cb) rs"
    using requests_answered [of to64 mk g rs ks cb def_rep i, OF assms(1-6)] assms(7) by auto
  ultimately show ?thesis using t run_jobs_prefix [of "effects a" ?js] by (auto simp: idle_def)
qed

theorem provider_answers_all_witness:
  "\<exists>xs (s :: nat requester) a. request_all id [4, 0 :: nat] (new_RequesterImpl (Guid (replicate 16 1) 0)) = Inr (xs, s) \<and>
     ao_step\<^sup>*\<^sup>* new_ActiveObject a \<and> m_workThread a = Testing \<and>
     futures (snd (handle_samples id onReply
       (map (nth (run_jobs id True (\<lambda>x. if x = 0 then None else Some (x + 1)) 0 (effects a) UNKNOWN)) [1, 0]) s)) =
     [Value 5, RPC_failed]"
proof -
  let ?g = "Guid (replicate 16 1) 0" and ?cb = "\<lambda>x :: nat. if x = 0 then None else Some (x + 1)"
  obtain xs and s :: "nat requester" where req: "request_all id [4, 0 :: nat] (new_RequesterImpl ?g) = Inr (xs, s)"
    using request_all_spec [of ?g "new_RequesterImpl ?g :: nat requester" "[4, 0 :: nat]" id] req_inv_new [of ?g]
    by (auto simp: new_RequesterImpl_def)
  let ?js = "provider_on_data id xs"
  let ?a = "fold submitJob (map request_job ?js) new_ActiveObject"
  have a: "ao_step\<^sup>*\<^sup>* new_ActiveObject ?a" "m_keepAlive ?a" "submitted ?a = map request_job ?js" "prefix ?js ?js"
    using submit_all_reachable [of "map request_job ?js"] by simp_all
  have h: "\<And>x. id (id x) = x" "guid_wf ?g" "seqno ?g = 0" "length [4, 0 :: nat] < 2 ^ 32" "distinct [1, 0 :: nat]"
    "set [1, 0] = {..<length [4, 0 :: nat]}"
    by (auto simp: guid_wf_def)
  have "map (outcome ?cb) [4, 0] = [Value 5, RPC_failed]" by (simp add: outcome_def)
  then obtain t where "work_step\<^sup>*\<^sup>* ?a t" "m_workThread t = Testing"
    "futures (snd (handle_samples id onReply (map (nth (run_jobs id True ?cb 0 (effects t) UNKNOWN)) [1, 0]) s)) =
     [Value 5, RPC_failed]"
    using provider_answers_all [of id id ?g "[4, 0]" "[1, 0]" xs s ?a ?js ?cb 0 UNKNOWN, OF h req a] by (elim conjE exE impE) simp_all
  moreover from this(1) a(1) have "ao_step\<^sup>*\<^sup>* new_ActiveObject t" by (meson work_reachable rtranclp_trans)
  ultimately show ?thesis using req by blast
qed

end
